(* ===== verification/Prelude.thy ===== *)
theory Prelude
  imports Main "HOL-Library.Sublist" "HOL-Library.List_Lexorder" "HOL-Library.Char_ord"
begin

text \<open>
  What every other theory of the development uses: the results of fallible Rust code
  (\<open>Result<T, E>\<close> as \<open>'e + 'a\<close>), the operations of Rust's standard library on strings that
  the sources call, and lemmas on lists seen as tables of rows. A Rust string is the list of its
  UTF-8 bytes, one \<open>char\<close> per byte, so that \<open>length\<close> is Rust's \<open>len()\<close>.
\<close>

named_theorems results "facts that take a fallible computation apart"
named_theorems rows "facts on tables of rows"

section \<open>Results\<close>

text \<open>Rust's \<open>?\<close>: the first error ends the computation.\<close>

definition and_then :: "'e + 'a \<Rightarrow> ('a \<Rightarrow> 'e + 'b) \<Rightarrow> 'e + 'b" where
  "and_then r f = (case r of Inl e \<Rightarrow> Inl e | Inr x \<Rightarrow> f x)"

definition map_err :: "('e \<Rightarrow> 'f) \<Rightarrow> 'e + 'a \<Rightarrow> 'f + 'a" where
  "map_err f r = (case r of Inl e \<Rightarrow> Inl (f e) | Inr x \<Rightarrow> Inr x)"

definition ok_or :: "'e \<Rightarrow> 'a option \<Rightarrow> 'e + 'a" where
  "ok_or e r = (case r of None \<Rightarrow> Inl e | Some x \<Rightarrow> Inr x)"

text \<open>\<open>Iterator::collect\<close> into a \<open>Result\<close>: every value, or the first error.\<close>

fun collect_results :: "('e + 'a) list \<Rightarrow> 'e + 'a list" where
  "collect_results [] = Inr []"
| "collect_results (r # rs) =
     (case r of Inl e \<Rightarrow> Inl e
      | Inr x \<Rightarrow> (case collect_results rs of Inl e \<Rightarrow> Inl e | Inr xs \<Rightarrow> Inr (x # xs)))"

text \<open>\<open>Iterator::collect\<close> into an \<open>Option\<close>.\<close>

fun collect_options :: "'a option list \<Rightarrow> 'a list option" where
  "collect_options [] = Some []"
| "collect_options (r # rs) = Option.bind r (\<lambda>v. map_option ((#) v) (collect_options rs))"

lemma and_then_simps [simp]:
  "and_then (Inl e) f = Inl e"
  "and_then (Inr x) f = f x"
  by (simp_all add: and_then_def)

lemma map_err_simps [simp]:
  "map_err f (Inl e) = Inl (f e)"
  "map_err f (Inr x) = Inr x"
  by (simp_all add: map_err_def)

lemma ok_or_simps [simp]:
  "ok_or e None = Inl e"
  "ok_or e (Some x) = Inr x"
  by (simp_all add: ok_or_def)

lemma and_then_Inr [results]:
  "and_then r f = Inr y \<longleftrightarrow> (\<exists>x. r = Inr x \<and> f x = Inr y)"
  by (cases r) auto

lemma and_then_Inl [results]:
  "and_then r f = Inl e \<longleftrightarrow> r = Inl e \<or> (\<exists>x. r = Inr x \<and> f x = Inl e)"
  by (cases r) auto

lemma map_err_Inr [results]: "map_err f r = Inr y \<longleftrightarrow> r = Inr y"
  by (cases r) auto

lemma map_err_Inl [results]: "map_err f r = Inl e \<longleftrightarrow> (\<exists>d. r = Inl d \<and> e = f d)"
  by (cases r) auto

lemma ok_or_Inr [results]: "ok_or e r = Inr y \<longleftrightarrow> r = Some y"
  by (cases r) auto

lemma ok_or_Inl [results]: "ok_or e r = Inl d \<longleftrightarrow> r = None \<and> d = e"
  by (cases r) auto

lemma collect_results_all_Inr [simp]:
  "collect_results (map (\<lambda>x. Inr (f x)) xs) = Inr (map f xs)"
  by (induction xs) auto

lemma collect_results_Inr:
  "collect_results rs = Inr xs \<longleftrightarrow> rs = map Inr xs"
proof (induction rs arbitrary: xs)
  case Nil
  then show ?case by auto
next
  case (Cons r rs)
  then show ?case
    by (cases r; cases "collect_results rs") (auto simp: Cons_eq_map_conv)
qed

lemma collect_results_map_Inr:
  assumes "\<And>x. x \<in> set xs \<Longrightarrow> g x = Inr (f x)"
  shows "collect_results (map g xs) = Inr (map f xs)"
proof -
  have "map g xs = map Inr (map f xs)"
    using assms by simp
  then show ?thesis by (simp only: collect_results_Inr)
qed

lemma collect_options_map_Some [simp]: "collect_options (map (\<lambda>x. Some (f x)) xs) = Some (map f xs)"
  by (induction xs) auto

section \<open>Strings of the standard library\<close>

definition is_ascii_lowercase :: "char \<Rightarrow> bool" where
  "is_ascii_lowercase c \<longleftrightarrow> CHR ''a'' \<le> c \<and> c \<le> CHR ''z''"

definition is_ascii_uppercase :: "char \<Rightarrow> bool" where
  "is_ascii_uppercase c \<longleftrightarrow> CHR ''A'' \<le> c \<and> c \<le> CHR ''Z''"

definition is_ascii_digit :: "char \<Rightarrow> bool" where
  "is_ascii_digit c \<longleftrightarrow> CHR ''0'' \<le> c \<and> c \<le> CHR ''9''"

definition is_ascii_alphabetic :: "char \<Rightarrow> bool" where
  "is_ascii_alphabetic c \<longleftrightarrow> is_ascii_lowercase c \<or> is_ascii_uppercase c"

definition is_ascii_alphanumeric :: "char \<Rightarrow> bool" where
  "is_ascii_alphanumeric c \<longleftrightarrow> is_ascii_alphabetic c \<or> is_ascii_digit c"

text \<open>\<open>str::split\<close> by one character: never empty, \<open>""\<close> gives one empty piece.\<close>

fun split_on :: "char \<Rightarrow> string \<Rightarrow> string list" where
  "split_on c [] = [[]]"
| "split_on c (x # xs) =
     (if x = c then [] # split_on c xs
      else (case split_on c xs of [] \<Rightarrow> [[x]] | s # ss \<Rightarrow> (x # s) # ss))"

text \<open>\<open>slice::join\<close> with one separator character.\<close>

fun join_with :: "char \<Rightarrow> string list \<Rightarrow> string" where
  "join_with c [] = []"
| "join_with c [s] = s"
| "join_with c (s # t # ts) = s @ c # join_with c (t # ts)"

definition strip_prefix :: "string \<Rightarrow> string \<Rightarrow> string option" where
  "strip_prefix p s = (if prefix p s then Some (drop (length p) s) else None)"

definition starts_with_char :: "char \<Rightarrow> string \<Rightarrow> bool" where
  "starts_with_char c s = (case s of [] \<Rightarrow> False | x # _ \<Rightarrow> x = c)"

text \<open>\<open>str::rsplit_once\<close>: around the last occurrence of the pattern.\<close>

fun rsplit_once :: "string \<Rightarrow> string \<Rightarrow> (string \<times> string) option" where
  "rsplit_once p [] = (if p = [] then Some ([], []) else None)"
| "rsplit_once p (x # xs) =
     (case rsplit_once p xs of
        Some (a, b) \<Rightarrow> Some (x # a, b)
      | None \<Rightarrow> if prefix p (x # xs) then Some ([], drop (length p) (x # xs)) else None)"

lemma split_on_not_Nil [simp]: "split_on c s \<noteq> []"
  by (induction s) (auto split: list.splits)

lemma split_on_no_sep: "c \<notin> set s \<Longrightarrow> split_on c s = [s]"
  by (induction s) auto

lemma split_on_append:
  "split_on c (u @ c # v) = split_on c u @ split_on c v"
  by (induction u) (auto split: list.splits)

lemma split_on_join:
  assumes "segs \<noteq> []" and "\<forall>s\<in>set segs. c \<notin> set s"
  shows "split_on c (join_with c segs) = segs"
  using assms
  by (induction c segs rule: join_with.induct) (auto simp: split_on_no_sep split_on_append)

lemma join_split_on: "join_with c (split_on c s) = s"
proof (induction s)
  case Nil
  then show ?case by simp
next
  case (Cons x xs)
  show ?case
  proof (cases "split_on c xs")
    case Nil
    then show ?thesis by simp
  next
    case (Cons t ts)
    with Cons.IH show ?thesis by (cases ts) auto
  qed
qed

lemma split_on_pieces_no_sep: "t \<in> set (split_on c s) \<Longrightarrow> c \<notin> set t"
proof (induction s arbitrary: t)
  case Nil
  then show ?case by simp
next
  case (Cons x xs)
  then show ?case
    by (cases "split_on c xs") (auto split: if_splits)
qed

lemma split_on_inj: "split_on c s = split_on c t \<Longrightarrow> s = t"
  by (metis join_split_on)

lemma join_with_append:
  "xs \<noteq> [] \<Longrightarrow> ys \<noteq> [] \<Longrightarrow> join_with c (xs @ ys) = join_with c xs @ c # join_with c ys"
proof (induction c xs rule: join_with.induct)
  case (2 c s)
  then show ?case by (cases ys) auto
qed auto

lemma rsplit_once_Some:
  "rsplit_once p s = Some (a, b) \<Longrightarrow> s = a @ p @ b"
proof (induction s arbitrary: a b)
  case Nil
  then show ?case by (auto split: if_splits)
next
  case (Cons x xs)
  show ?case
  proof (cases "rsplit_once p xs")
    case None
    with Cons.prems show ?thesis
      by (auto split: if_splits elim!: prefixE)
  next
    case (Some ab)
    with Cons.prems Cons.IH show ?thesis by (cases ab) auto
  qed
qed

lemma rsplit_once_None:
  "rsplit_once p s = None \<longleftrightarrow> (\<nexists>a b. s = a @ p @ b)"
proof (induction s)
  case Nil
  then show ?case by auto
next
  case (Cons x xs)
  show ?case
  proof (cases "rsplit_once p xs")
    case None
    with Cons.IH have no: "\<nexists>a b. xs = a @ p @ b" by simp
    show ?thesis
    proof (cases "prefix p (x # xs)")
      case True
      then obtain b where "x # xs = [] @ p @ b" by (auto elim: prefixE)
      then have "\<exists>a b. x # xs = a @ p @ b" by blast
      with None True show ?thesis by simp
    next
      case False
      have "\<nexists>a b. x # xs = a @ p @ b"
      proof
        assume "\<exists>a b. x # xs = a @ p @ b"
        then obtain a b where ab: "x # xs = a @ p @ b" by blast
        with False have "a \<noteq> []" by (auto simp: prefix_def)
        then obtain a' where "a = x # a'" using ab by (cases a) auto
        with ab no show False by auto
      qed
      with None False show ?thesis by simp
    qed
  next
    case (Some ab)
    then obtain a b where "xs = a @ p @ b" using rsplit_once_Some by (cases ab) blast
    then have "\<exists>a b. x # xs = a @ p @ b" by (metis append_Cons)
    with Some show ?thesis by (cases ab) auto
  qed
qed

lemma rsplit_once_last: "rsplit_once p (a @ p @ b) = Some (a', b') \<Longrightarrow> length b' \<le> length b"
proof (induction a arbitrary: a')
  case Nil
  then have "[] @ p @ b = a' @ p @ b'" using rsplit_once_Some by metis
  then have "length ([] @ p @ b) = length (a' @ p @ b')" by (rule arg_cong)
  then show ?case by simp
next
  case (Cons x a)
  have "rsplit_once p (a @ p @ b) \<noteq> None" by (auto simp: rsplit_once_None)
  with Cons show ?case by auto
qed

section \<open>Searching a list\<close>

lemma find_mem: "List.find P xs = Some v \<Longrightarrow> v \<in> set xs \<and> P v"
  by (auto simp: find_Some_iff)

lemma find_filter: "(case filter P xs of [] \<Rightarrow> None | v # vs \<Rightarrow> Some v) = List.find P xs"
  by (induction xs) auto

lemma find_unique:
  "distinct (map f xs) \<Longrightarrow> v \<in> set xs \<Longrightarrow> List.find (\<lambda>w. f w = f v) xs = Some v"
  by (induction xs) (auto simp: image_iff)

lemma same_key: "distinct (map f xs) \<Longrightarrow> v \<in> set xs \<Longrightarrow> w \<in> set xs \<Longrightarrow> f v = f w \<Longrightarrow> v = w"
  by (auto simp: distinct_map dest: inj_onD)

section \<open>States with names\<close>

text \<open>
  The states of a life are enums with a list of all of them, a name each, as a column holds it,
  and a lookup that reads a name back: \<open>ALL.into_iter().find(|state| state.as_str() == name)\<close>.
\<close>

locale named_enum =
  fixes all :: "'a list" and name_of :: "'a \<Rightarrow> string"
  assumes all_complete: "v \<in> set all"
    and names_differ: "name_of v = name_of w \<Longrightarrow> v = w"
begin

lemma named_iff: "List.find (\<lambda>v. name_of v = s) all = Some v \<longleftrightarrow> name_of v = s"
proof
  assume "List.find (\<lambda>v. name_of v = s) all = Some v"
  then show "name_of v = s" by (auto simp: find_Some_iff)
next
  assume s: "name_of v = s"
  have "List.find (\<lambda>v. name_of v = s) all \<noteq> None"
    using s all_complete by (auto simp: find_None_iff)
  then obtain w where w: "List.find (\<lambda>v. name_of v = s) all = Some w" by auto
  then have "name_of w = s" by (auto simp: find_Some_iff)
  then show "List.find (\<lambda>v. name_of v = s) all = Some v" using w s names_differ by simp
qed

lemma named_name: "List.find (\<lambda>w. name_of w = name_of v) all = Some v"
  by (simp add: named_iff)

lemma named_other: "(\<And>v. name_of v \<noteq> s) \<Longrightarrow> List.find (\<lambda>v. name_of v = s) all = None"
  by (simp add: find_None_iff)

end

text \<open>
  A life that only goes forward: a table of moves, each to a state further on. Whatever moves
  are made, a state once left is never come back to, and a final state is never left.
\<close>

locale lifecycle =
  fixes moves :: "('a \<times> 'a) list" and rank :: "'a \<Rightarrow> nat"
  assumes moves_forward: "(v, w) \<in> set moves \<Longrightarrow> rank v < rank w"
begin

lemma moved_further: "(v, w) \<in> (set moves)\<^sup>+ \<Longrightarrow> rank v < rank w"
  by (induction rule: trancl.induct) (auto dest: moves_forward)

lemma never_back: "(v, w) \<in> (set moves)\<^sup>+ \<Longrightarrow> (w, v) \<notin> (set moves)\<^sup>*"
proof
  assume "(v, w) \<in> (set moves)\<^sup>+" "(w, v) \<in> (set moves)\<^sup>*"
  then have "(v, v) \<in> (set moves)\<^sup>+" by (rule trancl_rtrancl_trancl)
  then show False using moved_further by blast
qed

lemma final_stays: "(\<And>w. (v, w) \<notin> set moves) \<Longrightarrow> (v, w) \<in> (set moves)\<^sup>* \<Longrightarrow> w = v"
  by (metis converse_rtranclE)

end

text \<open>
  A system of steps with an invariant and what every step does to the state (a preorder, such as
  "the log only grows"): both then hold of every run.
\<close>

locale step_system =
  fixes step :: "'s \<Rightarrow> 's \<Rightarrow> bool" and inv :: "'s \<Rightarrow> bool" and evolves :: "'s \<Rightarrow> 's \<Rightarrow> bool"
  assumes inv_step: "inv s \<Longrightarrow> step s t \<Longrightarrow> inv t"
    and evolves_step: "inv s \<Longrightarrow> step s t \<Longrightarrow> evolves s t"
    and evolves_refl: "evolves s s"
    and evolves_trans: "evolves s t \<Longrightarrow> evolves t u \<Longrightarrow> evolves s u"
begin

lemma run_inv: "step\<^sup>*\<^sup>* s t \<Longrightarrow> inv s \<Longrightarrow> inv t \<and> evolves s t"
proof (induction rule: rtranclp_induct)
  case base
  then show ?case by (simp add: evolves_refl)
next
  case (step t u)
  then show ?case using inv_step evolves_step evolves_trans by blast
qed

lemma run_stable:
  assumes "\<And>s t. evolves s t \<Longrightarrow> P s \<Longrightarrow> P t" and "step\<^sup>*\<^sup>* s t" and "inv s" and "P s"
  shows "P t"
  using assms run_inv by blast

end

end
