(* ===== verification/Scopes.thy ===== *)
theory Scopes
  imports Prelude
begin

text \<open>
  The kernel's access tree, \<open>crates/maestro-kernel/src/scope/path.rs\<close> and \<open>set.rs\<close>: names and
  their rules, the text of a scope path and its parser, the order "covers" between scopes, and
  the set of scopes a principal may read with the SQL condition every reader filters by. The
  abstract specification is the tree itself (\<open>node\<close>), of which a scope is the printed path.
\<close>

section \<open>Names (scope/path.rs)\<close>

definition KINDS :: "string list" where
  "KINDS = [''workspace'', ''collection'', ''source'']"

definition WORKSPACE :: string where
  "WORKSPACE = ''workspace/default''"

definition LONGEST_NAME :: nat where
  "LONGEST_NAME = 64"

record invalid_name =
  refused_name :: string
  collection_rule :: bool

definition name_char :: "char \<Rightarrow> bool" where
  "name_char c \<longleftrightarrow> is_ascii_lowercase c \<or> is_ascii_digit c \<or> c \<in> set ''-_.''"

definition valid_name :: "string \<Rightarrow> bool" where
  "valid_name name \<longleftrightarrow>
     (case name of
        [] \<Rightarrow> False
      | first # rest \<Rightarrow> (is_ascii_lowercase first \<or> is_ascii_digit first) \<and> list_all name_char rest)
     \<and> length name \<le> LONGEST_NAME"

definition check_name :: "string \<Rightarrow> invalid_name + unit" where
  "check_name name =
     (if valid_name name then Inr ()
      else Inl \<lparr>refused_name = name, collection_rule = False\<rparr>)"

definition check_collection_name :: "string \<Rightarrow> invalid_name + unit" where
  "check_collection_name name =
     and_then (check_name name) (\<lambda>_.
       if (case rsplit_once ''-g'' name of
             None \<Rightarrow> False
           | Some (_, digits) \<Rightarrow> digits \<noteq> [] \<and> list_all is_ascii_digit digits)
       then Inl \<lparr>refused_name = name, collection_rule = True\<rparr>
       else Inr ())"

section \<open>Scope paths\<close>

datatype scope = Scope (as_str: string)

datatype fault = Shape | Name invalid_name

record invalid_scope =
  refused_path :: string
  path_fault :: fault

text \<open>The loop of \<open>from_str\<close> over the kinds: each takes a kind and a name off the segments.\<close>

fun read_kinds :: "string list \<Rightarrow> string list \<Rightarrow> fault + string list" where
  "read_kinds [] segments = Inr segments"
| "read_kinds (kind # kinds) [] = Inr []"
| "read_kinds (kind # kinds) [found] = Inl Shape"
| "read_kinds (kind # kinds) (found # name # segments) =
     (if found = kind
      then and_then
             (map_err Name ((if kind = ''collection'' then check_collection_name else check_name) name))
             (\<lambda>_. read_kinds kinds segments)
      else Inl Shape)"

definition scope_from_str :: "string \<Rightarrow> invalid_scope + scope" where
  "scope_from_str path =
     map_err (\<lambda>fault. \<lparr>refused_path = path, path_fault = fault\<rparr>)
       (and_then (read_kinds KINDS (split_on CHR ''/'' path)) (\<lambda>rest.
          case rest of [] \<Rightarrow> Inr (Scope path) | _ # _ \<Rightarrow> Inl Shape))"

definition scope_covers :: "scope \<Rightarrow> scope \<Rightarrow> bool" where
  "scope_covers granted scope =
     (case strip_prefix (as_str granted) (as_str scope) of
        None \<Rightarrow> False
      | Some below \<Rightarrow> below = [] \<or> starts_with_char CHR ''/'' below)"

definition collection_path :: "string \<Rightarrow> string" where
  "collection_path collection = WORKSPACE @ ''/collection/'' @ collection"

definition source_path :: "string \<Rightarrow> string \<Rightarrow> string" where
  "source_path collection source = collection_path collection @ ''/source/'' @ source"

text \<open>\<open>Scope\<close> derives \<open>Ord\<close>: scopes sort as their paths do, byte by byte.\<close>

instantiation scope :: linorder
begin

definition less_eq_scope :: "scope \<Rightarrow> scope \<Rightarrow> bool" where
  "less_eq_scope a b \<longleftrightarrow> as_str a \<le> as_str b"

definition less_scope :: "scope \<Rightarrow> scope \<Rightarrow> bool" where
  "less_scope a b \<longleftrightarrow> as_str a < as_str b"

instance
  by standard (auto simp: less_eq_scope_def less_scope_def scope.expand)

end

section \<open>The scopes a principal may read (scope/set.rs)\<close>

text \<open>
  A \<open>BTreeSet<Scope>\<close> is its elements in order, each once: \<open>btree_set\<close> collects a list into one.
\<close>

definition btree_set :: "'a::linorder list \<Rightarrow> 'a list" where
  "btree_set xs = sort (remdups xs)"

definition btree_difference :: "'a list \<Rightarrow> 'a list \<Rightarrow> 'a list" where
  "btree_difference xs ys = filter (\<lambda>x. x \<notin> set ys) xs"

datatype scope_set = ScopeSet (granted: "scope list")

definition set_covers :: "scope_set \<Rightarrow> scope \<Rightarrow> bool" where
  "set_covers scopes scope \<longleftrightarrow> list_ex (\<lambda>g. scope_covers g scope) (granted scopes)"

definition set_is_empty :: "scope_set \<Rightarrow> bool" where
  "set_is_empty scopes \<longleftrightarrow> granted scopes = []"

definition parameter :: "scope_set \<Rightarrow> string list" where
  "parameter scopes = map as_str (granted scopes)"

text \<open>
  The SQL condition of \<open>ScopeSet::condition\<close> on a scope path, over the JSON array bound to its
  parameter: \<open>substr(path, 1, length(value) + 1) = value || '/'\<close>, by whole segments.
\<close>

definition condition :: "string \<Rightarrow> string list \<Rightarrow> bool" where
  "condition path values \<longleftrightarrow>
     list_ex (\<lambda>v. path = v \<or> take (length v + 1) path = v @ ''/'') values"

definition collection_condition :: "string \<Rightarrow> string list \<Rightarrow> bool" where
  "collection_condition collection = condition (WORKSPACE @ ''/collection/'' @ collection)"

definition source_condition :: "string \<Rightarrow> string \<Rightarrow> string list \<Rightarrow> bool" where
  "source_condition collection source =
     condition (WORKSPACE @ ''/collection/'' @ collection @ ''/source/'' @ source)"

section \<open>The access tree\<close>

text \<open>
  The abstract specification: a node is a workspace, a collection of one or a source of a
  collection; its printed form is the path of \<open>render\<close>, and a node is above another when its
  names are the first names of the other.
\<close>

datatype node =
    WorkspaceNode string
  | CollectionNode string string
  | SourceNode string string string

fun node_segments :: "node \<Rightarrow> string list" where
  "node_segments (WorkspaceNode w) = [''workspace'', w]"
| "node_segments (CollectionNode w c) = [''workspace'', w, ''collection'', c]"
| "node_segments (SourceNode w c s) = [''workspace'', w, ''collection'', c, ''source'', s]"

definition render :: "node \<Rightarrow> string" where
  "render n = join_with CHR ''/'' (node_segments n)"

definition collection_name :: "string \<Rightarrow> bool" where
  "collection_name c \<longleftrightarrow> check_collection_name c = Inr ()"

fun valid_node :: "node \<Rightarrow> bool" where
  "valid_node (WorkspaceNode w) = valid_name w"
| "valid_node (CollectionNode w c) = (valid_name w \<and> collection_name c)"
| "valid_node (SourceNode w c s) = (valid_name w \<and> collection_name c \<and> valid_name s)"

definition node_above :: "node \<Rightarrow> node \<Rightarrow> bool" where
  "node_above a b \<longleftrightarrow> prefix (node_segments a) (node_segments b)"

lemma valid_name_no_slash: "valid_name n \<Longrightarrow> CHR ''/'' \<notin> set n"
proof -
  have slash: "\<not> is_ascii_lowercase CHR ''/''" "\<not> is_ascii_digit CHR ''/''"
    "\<not> name_char CHR ''/''"
    by (simp_all add: is_ascii_lowercase_def is_ascii_digit_def name_char_def less_eq_char_def)
  assume "valid_name n"
  with slash show ?thesis
    by (auto simp: valid_name_def list_all_iff split: list.splits)
qed

lemma check_name_Inr [results]: "check_name n = Inr u \<longleftrightarrow> valid_name n"
  by (simp add: check_name_def)

lemma collection_name_valid: "collection_name c \<Longrightarrow> valid_name c"
  by (auto simp: collection_name_def check_collection_name_def and_then_Inr check_name_Inr)

lemma valid_node_no_slash: "valid_node n \<Longrightarrow> \<forall>s\<in>set (node_segments n). CHR ''/'' \<notin> set s"
  by (cases n) (auto dest: collection_name_valid valid_name_no_slash)

lemma node_segments_not_Nil [simp]: "node_segments n \<noteq> []"
  by (cases n) auto

lemma split_render: "valid_node n \<Longrightarrow> split_on CHR ''/'' (render n) = node_segments n"
  by (simp add: render_def split_on_join valid_node_no_slash)

lemma node_segments_inj: "node_segments a = node_segments b \<Longrightarrow> a = b"
  by (cases a; cases b) auto

lemma read_kinds_Cons:
  "read_kinds (kind # kinds) segs = Inr [] \<longleftrightarrow>
     segs = [] \<or>
     (\<exists>n rest. segs = kind # n # rest
       \<and> (if kind = ''collection'' then collection_name n else valid_name n)
       \<and> read_kinds kinds rest = Inr [])"
  by (cases "(kind # kinds, segs)" rule: read_kinds.cases)
    (auto simp: results collection_name_def)

lemma read_kinds_segments:
  "read_kinds KINDS segs = Inr [] \<longleftrightarrow> segs = [] \<or> (\<exists>n. valid_node n \<and> segs = node_segments n)"
proof
  assume "read_kinds KINDS segs = Inr []"
  then consider "segs = []" | w where "segs = [''workspace'', w]" "valid_name w"
    | w c where "segs = [''workspace'', w, ''collection'', c]" "valid_name w" "collection_name c"
    | w c s where "segs = [''workspace'', w, ''collection'', c, ''source'', s]"
        "valid_name w" "collection_name c" "valid_name s"
    by (auto simp: KINDS_def read_kinds_Cons)
  then show "segs = [] \<or> (\<exists>n. valid_node n \<and> segs = node_segments n)"
    by cases (metis node_segments.simps valid_node.simps)+
next
  assume "segs = [] \<or> (\<exists>n. valid_node n \<and> segs = node_segments n)"
  then show "read_kinds KINDS segs = Inr []"
    by (elim disjE exE conjE)
      (simp_all add: KINDS_def, case_tac n, auto simp: results collection_name_def)
qed

lemma scope_from_str_Inr:
  "scope_from_str p = Inr s \<longleftrightarrow> (\<exists>n. valid_node n \<and> p = render n \<and> s = Scope p)"
proof -
  have "scope_from_str p = Inr s \<longleftrightarrow>
      read_kinds KINDS (split_on CHR ''/'' p) = Inr [] \<and> s = Scope p"
    by (auto simp: scope_from_str_def results split: list.split_asm)
  also have "\<dots> \<longleftrightarrow> (\<exists>n. valid_node n \<and> split_on CHR ''/'' p = node_segments n) \<and> s = Scope p"
    by (simp add: read_kinds_segments)
  also have "\<dots> \<longleftrightarrow> (\<exists>n. valid_node n \<and> p = render n \<and> s = Scope p)"
    by (metis join_split_on render_def split_render)
  finally show ?thesis .
qed

section \<open>The order between scopes\<close>

text \<open>
  The laws every use of grants rests on, as an interface: a reflexive and transitive order in
  which nothing lies both above and below another, and what a list of grants lets a reader see.
\<close>

locale access_order =
  fixes covers :: "'s \<Rightarrow> 's \<Rightarrow> bool"
  assumes covers_refl: "covers s s"
    and covers_trans: "covers a b \<Longrightarrow> covers b c \<Longrightarrow> covers a c"
    and covers_antisym: "covers a b \<Longrightarrow> covers b a \<Longrightarrow> a = b"
begin

definition sees :: "'s list \<Rightarrow> 's \<Rightarrow> bool" where
  "sees grants s \<longleftrightarrow> list_ex (\<lambda>g. covers g s) grants"

lemma sees_nothing: "\<not> sees [] s"
  by (simp add: sees_def)

lemma sees_granted: "g \<in> set grants \<Longrightarrow> sees grants g"
  using covers_refl by (auto simp: sees_def list_ex_iff)

lemma sees_below: "sees grants a \<Longrightarrow> covers a b \<Longrightarrow> sees grants b"
  by (auto simp: sees_def list_ex_iff intro: covers_trans)

lemma sees_mono: "set grants \<subseteq> set wider \<Longrightarrow> sees grants s \<Longrightarrow> sees wider s"
  by (auto simp: sees_def list_ex_iff)

lemma sees_set: "set grants = set others \<Longrightarrow> sees grants s = sees others s"
  by (simp add: sees_def list_ex_iff)

lemma sees_redundant: "sees grants g \<Longrightarrow> sees (g # grants) s = sees grants s"
  by (auto simp: sees_def list_ex_iff intro: covers_trans)

lemma sees_Cons: "sees (g # grants) s \<longleftrightarrow> covers g s \<or> sees grants s"
  by (simp add: sees_def)

end

lemma strip_prefix_Some: "strip_prefix p s = Some r \<longleftrightarrow> s = p @ r"
  by (auto simp: strip_prefix_def prefix_def)

lemma starts_with_char_iff: "starts_with_char c s \<longleftrightarrow> (\<exists>r. s = c # r)"
  by (cases s) (auto simp: starts_with_char_def)

lemma scope_covers_iff:
  "scope_covers a b \<longleftrightarrow> as_str b = as_str a \<or> (\<exists>r. as_str b = as_str a @ CHR ''/'' # r)"
  by (auto simp: scope_covers_def strip_prefix_Some starts_with_char_iff split: option.split)
    (auto simp: strip_prefix_def prefix_def split: if_splits)

interpretation scope_tree: access_order scope_covers
proof unfold_locales
  show "scope_covers s s" for s
    by (simp add: scope_covers_iff)
  show "scope_covers a c" if "scope_covers a b" "scope_covers b c" for a b c
    using that by (auto simp: scope_covers_iff)
  show "a = b" if "scope_covers a b" "scope_covers b a" for a b
    using that by (auto simp: scope_covers_iff intro: scope.expand)
qed

lemma set_covers_sees: "set_covers scopes s = scope_tree.sees (granted scopes) s"
  by (simp add: set_covers_def scope_tree.sees_def)

lemma condition_Cons:
  "condition path (v # values) \<longleftrightarrow> scope_covers (Scope v) (Scope path) \<or> condition path values"
proof -
  have "take (length v + 1) path = v @ ''/'' \<longleftrightarrow> (\<exists>r. path = v @ CHR ''/'' # r)"
  proof
    assume t: "take (length v + 1) path = v @ ''/''"
    have "path = take (length v + 1) path @ drop (length v + 1) path" by simp
    with t have "path = v @ CHR ''/'' # drop (length v + 1) path" by simp
    then show "\<exists>r. path = v @ CHR ''/'' # r" by blast
  next
    assume "\<exists>r. path = v @ CHR ''/'' # r"
    then show "take (length v + 1) path = v @ ''/''" by auto
  qed
  then show ?thesis
    by (auto simp: condition_def scope_covers_iff)
qed

lemma condition_set_covers: "condition path (parameter scopes) = set_covers scopes (Scope path)"
proof -
  have "condition path (map as_str gs) = list_ex (\<lambda>g. scope_covers g (Scope path)) gs" for gs
    by (induction gs) (simp_all add: condition_def[of path "[]"] condition_Cons)
  then show ?thesis by (simp add: parameter_def set_covers_def)
qed

lemma scope_covers_render:
  assumes "valid_node a" and "valid_node b"
  shows "scope_covers (Scope (render a)) (Scope (render b)) = node_above a b"
proof
  assume "scope_covers (Scope (render a)) (Scope (render b))"
  then have "split_on CHR ''/'' (render b) = split_on CHR ''/'' (render a)
    \<or> (\<exists>r. split_on CHR ''/'' (render b) = split_on CHR ''/'' (render a) @ split_on CHR ''/'' r)"
    by (auto simp: scope_covers_iff split_on_append)
  with assms show "node_above a b"
    by (auto simp: node_above_def split_render)
next
  assume "node_above a b"
  then obtain rest where rest: "node_segments b = node_segments a @ rest"
    by (auto simp: node_above_def elim: prefixE)
  show "scope_covers (Scope (render a)) (Scope (render b))"
  proof (cases "rest = []")
    case True
    with rest show ?thesis by (simp add: scope_covers_iff render_def)
  next
    case False
    with rest have "render b = render a @ CHR ''/'' # join_with CHR ''/'' rest"
      by (simp add: render_def join_with_append)
    then show ?thesis by (auto simp: scope_covers_iff)
  qed
qed

lemma collection_path_render:
  "collection_path c = render (CollectionNode ''default'' c)"
  by (simp add: collection_path_def WORKSPACE_def render_def)

lemma source_path_render:
  "source_path c s = render (SourceNode ''default'' c s)"
  by (simp add: source_path_def collection_path_def WORKSPACE_def render_def)

lemma valid_name_default: "valid_name ''default''"
  by (simp add: valid_name_def is_ascii_lowercase_def name_char_def LONGEST_NAME_def less_eq_char_def)

lemma set_btree_set [simp]: "set (btree_set xs) = set xs"
  by (simp add: btree_set_def)

lemma distinct_btree_set [simp]: "distinct (btree_set xs)"
  by (simp add: btree_set_def)

lemma sorted_btree_set [simp]: "sorted (btree_set xs)"
  by (simp add: btree_set_def)

lemma btree_set_eq: "btree_set xs = btree_set ys \<longleftrightarrow> set xs = set ys"
  by (metis distinct_btree_set set_btree_set sorted_btree_set sorted_distinct_set_unique)

lemma set_btree_difference [simp]: "set (btree_difference xs ys) = set xs - set ys"
  by (auto simp: btree_difference_def)

lemma rsplit_generation:
  assumes "rsplit_once ''-g'' name = Some (base', digits')"
    and name: "name = base @ ''-g'' @ digits" and digits: "list_all is_ascii_digit digits"
  shows "digits' = digits"
proof -
  have nodigit: "\<not> is_ascii_digit CHR ''-''"
    by (simp add: is_ascii_digit_def less_eq_char_def)
  have eq: "base @ ''-g'' @ digits = base' @ ''-g'' @ digits'"
    using assms(1) name by (metis rsplit_once_Some)
  have le: "length digits' \<le> length digits"
    using assms(1) name by (metis rsplit_once_last)
  from eq obtain us where "base = base' @ us \<and> us @ ''-g'' @ digits = ''-g'' @ digits'
      \<or> base @ us = base' \<and> ''-g'' @ digits = us @ ''-g'' @ digits'"
    by (auto simp: append_eq_append_conv2)
  then show ?thesis
  proof (elim disjE conjE)
    assume "us @ ''-g'' @ digits = ''-g'' @ digits'"
    then have "length (us @ ''-g'' @ digits) = length (''-g'' @ digits')" by (rule arg_cong)
    with le have "us = []" by (cases us) auto
    with \<open>us @ ''-g'' @ digits = ''-g'' @ digits'\<close> show ?thesis by simp
  next
    assume us: "''-g'' @ digits = us @ ''-g'' @ digits'"
    have "us = []"
    proof (rule ccontr)
      assume "us \<noteq> []"
      with us obtain vs where vs: "''g'' @ digits = vs @ ''-g'' @ digits'"
        by (cases us) auto
      then obtain ws where "digits = ws @ ''-g'' @ digits'"
        by (cases vs) auto
      with digits nodigit show False by simp
    qed
    with us show ?thesis by simp
  qed
qed

lemma check_collection_name_exact:
  "check_collection_name name = Inr () \<longleftrightarrow>
     valid_name name \<and> \<not> (\<exists>base digits. name = base @ ''-g'' @ digits
       \<and> digits \<noteq> [] \<and> list_all is_ascii_digit digits)"
proof (cases "rsplit_once ''-g'' name")
  case None
  then have "\<not> (\<exists>base digits. name = base @ ''-g'' @ digits)"
    by (simp only: rsplit_once_None) blast
  with None show ?thesis
    by (auto simp: check_collection_name_def and_then_Inr check_name_Inr)
next
  case (Some found)
  obtain base' digits' where found: "found = (base', digits')" by (cases found)
  have "name = base' @ ''-g'' @ digits'" using Some found rsplit_once_Some by blast
  then have "(\<exists>base digits. name = base @ ''-g'' @ digits \<and> digits \<noteq> [] \<and> list_all is_ascii_digit digits)
      \<longleftrightarrow> digits' \<noteq> [] \<and> list_all is_ascii_digit digits'"
    using Some found rsplit_generation by blast
  with Some found show ?thesis
    by (auto simp: check_collection_name_def and_then_Inr check_name_Inr)
qed

section \<open>Properties\<close>

text \<open>
  A path names a scope exactly when it is the printed path of a node of the access tree
  whose names obey their rules; the scope is then the path itself, and every other text is
  refused.
\<close>

theorem scope_parse_exact:
  "scope_from_str path = Inr s \<longleftrightarrow> (\<exists>n. valid_node n \<and> path = render n \<and> s = Scope path)"
  by (rule scope_from_str_Inr)

text \<open>
  C21: covering between scopes is being above in the tree, by whole names: the string prefix
  test of the code neither misses a descendant nor confuses sibling names such as \<open>ct\<close> and
  \<open>ctm\<close>.
\<close>

theorem covers_is_tree_order:
  assumes "scope_from_str p = Inr a" and "scope_from_str q = Inr b"
  shows "\<exists>m n. valid_node m \<and> valid_node n \<and> p = render m \<and> q = render n
    \<and> (scope_covers a b \<longleftrightarrow> node_above m n)"
  using assms by (metis scope_covers_render scope_from_str_Inr)

lemma covers_is_tree_order_witness:
  "\<exists>m n. valid_node m \<and> valid_node n
     \<and> ''workspace/default/collection/ct'' = render m
     \<and> ''workspace/default/collection/ctm'' = render n
     \<and> (scope_covers (Scope ''workspace/default/collection/ct'')
          (Scope ''workspace/default/collection/ctm'') \<longleftrightarrow> node_above m n)"
proof (rule covers_is_tree_order)
  show "scope_from_str ''workspace/default/collection/ct''
    = Inr (Scope ''workspace/default/collection/ct'')"
    by code_simp
  show "scope_from_str ''workspace/default/collection/ctm''
    = Inr (Scope ''workspace/default/collection/ctm'')"
    by code_simp
qed

text \<open>
  The SQL condition every reader puts in its query selects exactly the scopes the set
  covers in memory: granted, or below a granted scope.
\<close>

theorem sql_condition_is_covers:
  "condition path (parameter scopes) \<longleftrightarrow> set_covers scopes (Scope path)"
  by (rule condition_set_covers)

text \<open>
  A collection name is refused exactly when it breaks the name rule or ends in \<open>-g\<close> and
  one or more digits, the form of a Qdrant generation name.
\<close>

theorem collection_name_exact:
  "check_collection_name name = Inr () \<longleftrightarrow>
     valid_name name \<and> \<not> (\<exists>base digits. name = base @ ''-g'' @ digits
       \<and> digits \<noteq> [] \<and> list_all is_ascii_digit digits)"
  by (rule check_collection_name_exact)

end
