(* ===== verification/Rust_Numbers.thy ===== *)
theory Rust_Numbers
  imports Prelude
begin

text \<open>
  The numbers and the text functions of Rust's standard library the settings are read and written
  with: \<open>i64::from_str_radix\<close> and its \<open>Display\<close>, \<open>f64\<close> as its sign and the 63 bits below it with
  \<open>f64::from_str\<close>, \<open>is_finite\<close>, the order and the conversion from \<open>i64\<close>, \<open>str::trim\<close>,
  \<open>char::is_control\<close>, \<open>str::get\<close> on byte ranges, and the ordered map \<open>BTreeMap\<close>.
\<close>

section \<open>Whole numbers\<close>

definition I64_MAX :: int where
  "I64_MAX = 9223372036854775807"

definition I64_MIN :: int where
  "I64_MIN = - (2 ^ 63)"

text \<open>\<open>char::to_digit\<close>, which radices up to 36 have.\<close>

definition to_digit :: "int \<Rightarrow> char \<Rightarrow> int option" where
  "to_digit radix c =
     (let d = (if is_ascii_digit c then of_char c - 48
               else if is_ascii_lowercase c then of_char c - 87
               else if is_ascii_uppercase c then of_char c - 55 else 36) in
      if d < radix \<and> d < 36 then Some d else None)"

fun read_digits :: "int \<Rightarrow> int \<Rightarrow> string \<Rightarrow> int option" where
  "read_digits radix n [] = Some n"
| "read_digits radix n (c # cs) =
     (case to_digit radix c of None \<Rightarrow> None | Some d \<Rightarrow> read_digits radix (n * radix + d) cs)"

text \<open>A sign and the rest of the text.\<close>

definition split_sign :: "string \<Rightarrow> bool \<times> string" where
  "split_sign s =
     (case s of [] \<Rightarrow> (False, []) | c # cs \<Rightarrow>
        if c = CHR ''-'' then (True, cs) else if c = CHR ''+'' then (False, cs) else (False, s))"

definition signed :: "bool \<Rightarrow> int \<Rightarrow> int" where
  "signed negative n = (if negative then - n else n)"

text \<open>\<open>i64::from_str_radix\<close>: no digits, another character or a number beyond 64 bits is refused.\<close>

definition parse_i64 :: "int \<Rightarrow> string \<Rightarrow> int option" where
  "parse_i64 radix s =
     (let (negative, digits) = split_sign s in
      if digits = [] then None
      else Option.bind (read_digits radix 0 digits) (\<lambda>n.
        let i = signed negative n in
        if I64_MIN \<le> i \<and> i \<le> I64_MAX then Some i else None))"

function show_nat :: "int \<Rightarrow> string" where
  "show_nat n = (if n < 10 then [char_of (48 + n)] else show_nat (n div 10) @ [char_of (48 + n mod 10)])"
  by auto

termination show_nat
  by (relation "measure nat") auto

declare show_nat.simps [simp del]

definition show_int :: "int \<Rightarrow> string" where
  "show_int i = (if i < 0 then CHR ''-'' # show_nat (- i) else show_nat i)"

section \<open>Numbers\<close>

text \<open>
  An \<open>f64\<close> is its sign bit and the 63 bits below it, as a number: eleven bits of exponent over
  fifty-two of fraction. \<open>INF_BITS\<close> are those of an infinity, above which are the NaNs.
\<close>

datatype f64 = F64 (f_negative: bool) (f_bits: int)

definition INF_BITS :: int where
  "INF_BITS = 9218868437227405312"

definition NAN_BITS :: int where
  "NAN_BITS = 9221120237041090560"

definition f64_is_nan :: "f64 \<Rightarrow> bool" where
  "f64_is_nan v \<longleftrightarrow> INF_BITS < f_bits v"

definition f64_is_finite :: "f64 \<Rightarrow> bool" where
  "f64_is_finite v \<longleftrightarrow> f_bits v < INF_BITS"

text \<open>The order of the bits is that of the numbers; both zeros are equal.\<close>

definition f64_rank :: "f64 \<Rightarrow> int" where
  "f64_rank v = signed (f_negative v) (f_bits v)"

definition f64_le :: "f64 \<Rightarrow> f64 \<Rightarrow> bool" where
  "f64_le v w \<longleftrightarrow> \<not> f64_is_nan v \<and> \<not> f64_is_nan w \<and> f64_rank v \<le> f64_rank w"

definition f64_eq :: "f64 \<Rightarrow> f64 \<Rightarrow> bool" where
  "f64_eq v w \<longleftrightarrow> \<not> f64_is_nan v \<and> \<not> f64_is_nan w \<and> f64_rank v = f64_rank w"

function bit_length :: "int \<Rightarrow> nat" where
  "bit_length n = (if n \<le> 0 then 0 else Suc (bit_length (n div 2)))"
  by auto

termination bit_length
  by (relation "measure nat") auto

declare bit_length.simps [simp del]

text \<open>A quotient rounded to the nearest whole number, a tie to the even one.\<close>

definition round_half_even :: "int \<Rightarrow> int \<Rightarrow> int" where
  "round_half_even numer denom =
     (let q = numer div denom; r = numer mod denom in
      if 2 * r > denom \<or> 2 * r = denom \<and> odd q then q + 1 else q)"

text \<open>
  The nearest \<open>f64\<close> to the number \<open>n / d\<close>, neither negative: the exponent of its last bit, then
  the number in units of it.
\<close>

definition last_bit :: "int \<Rightarrow> int \<Rightarrow> int" where
  "last_bit n d =
     (let e = int (bit_length n) - int (bit_length d);
          log = (if d * 2 ^ nat e \<le> n * 2 ^ nat (- e) then e else e - 1) in
      max (log - 52) (- 1074))"

definition f64_round :: "int \<Rightarrow> int \<Rightarrow> int" where
  "f64_round n d =
     (if n = 0 then 0
      else let unit = last_bit n d in
        min INF_BITS ((unit + 1074) * 2 ^ 52 + round_half_even (n * 2 ^ nat (- unit)) (d * 2 ^ nat unit)))"

definition f64_of_int :: "int \<Rightarrow> f64" where
  "f64_of_int i = F64 (i < 0) (f64_round (abs i) 1)"

text \<open>The digits \<open>m\<close> times ten to the \<open>e\<close>.\<close>

definition f64_of_decimal :: "int \<Rightarrow> int \<Rightarrow> int" where
  "f64_of_decimal m e = f64_round (m * 10 ^ nat e) (10 ^ nat (- e))"

definition read_exponent :: "string \<Rightarrow> int option" where
  "read_exponent s =
     (let (negative, digits) = split_sign s in
      if digits = [] then None else map_option (signed negative) (read_digits 10 0 digits))"

definition parse_number :: "string \<Rightarrow> int option" where
  "parse_number s =
     (let whole = takeWhile is_ascii_digit s;
          rest = dropWhile is_ascii_digit s;
          pointed = starts_with_char (CHR ''.'') rest;
          fraction = (if pointed then takeWhile is_ascii_digit (tl rest) else []);
          after = (if pointed then dropWhile is_ascii_digit (tl rest) else rest) in
      if whole = [] \<and> fraction = [] then None
      else
        Option.bind (read_digits 10 0 (whole @ fraction)) (\<lambda>m.
        Option.bind
          (case after of
             [] \<Rightarrow> Some 0
           | c # cs \<Rightarrow> if c = CHR ''e'' \<or> c = CHR ''E'' then read_exponent cs else None)
          (\<lambda>e. Some (f64_of_decimal m (e - int (length fraction))))))"

definition to_lower :: "char \<Rightarrow> char" where
  "to_lower c = (if is_ascii_uppercase c then char_of (of_char c + (32 :: int)) else c)"

definition to_upper :: "char \<Rightarrow> char" where
  "to_upper c = (if is_ascii_lowercase c then char_of (of_char c - (32 :: int)) else c)"

definition parse_f64 :: "string \<Rightarrow> f64 option" where
  "parse_f64 s =
     (let (negative, rest) = split_sign s;
          lower = map to_lower rest in
      if lower = ''inf'' \<or> lower = ''infinity'' then Some (F64 negative INF_BITS)
      else if lower = ''nan'' then Some (F64 negative NAN_BITS)
      else map_option (F64 negative) (parse_number rest))"

lemma f64_le_refl: "f64_is_finite v \<Longrightarrow> f64_le v v"
  by (simp add: f64_le_def f64_is_nan_def f64_is_finite_def)

lemma f64_le_trans: "f64_le u v \<Longrightarrow> f64_le v w \<Longrightarrow> f64_le u w"
  by (simp add: f64_le_def)

text \<open>A quotient of two numbers that are not negative is not negative.\<close>

lemma round_half_even_nonneg: "0 \<le> numer \<Longrightarrow> 0 < denom \<Longrightarrow> 0 \<le> round_half_even numer denom"
  by (auto simp: round_half_even_def Let_def pos_imp_zdiv_nonneg_iff intro: add_nonneg_nonneg)

lemma f64_round_nonneg:
  assumes "0 \<le> n" and "0 < d"
  shows "0 \<le> f64_round n d"
proof -
  have "0 \<le> last_bit n d + 1074" by (simp add: last_bit_def Let_def)
  then have "0 \<le> (last_bit n d + 1074) * 2 ^ 52" by simp
  moreover have "0 \<le> round_half_even (n * 2 ^ nat (- last_bit n d)) (d * 2 ^ nat (last_bit n d))"
    using assms by (intro round_half_even_nonneg) simp_all
  ultimately show ?thesis
    unfolding f64_round_def Let_def INF_BITS_def by simp
qed

section \<open>Text\<close>

text \<open>The pieces with a separator between each two.\<close>

fun join_str :: "string \<Rightarrow> string list \<Rightarrow> string" where
  "join_str c [] = []"
| "join_str c [s] = s"
| "join_str c (s # t # ts) = s @ c @ join_str c (t # ts)"

text \<open>The characters \<open>str::trim\<close> drops: those of Unicode's White_Space, as UTF-8.\<close>

definition WHITESPACE :: "string list" where
  "WHITESPACE =
     map (\<lambda>c. [c]) [CHR 0x09, CHR 0x0A, CHR 0x0B, CHR 0x0C, CHR 0x0D, CHR 0x20]
     @ [[CHR 0xC2, CHR 0x85], [CHR 0xC2, CHR 0xA0], [CHR 0xE1, CHR 0x9A, CHR 0x80],
        [CHR 0xE2, CHR 0x80, CHR 0x80], [CHR 0xE2, CHR 0x80, CHR 0x81], [CHR 0xE2, CHR 0x80, CHR 0x82],
        [CHR 0xE2, CHR 0x80, CHR 0x83], [CHR 0xE2, CHR 0x80, CHR 0x84], [CHR 0xE2, CHR 0x80, CHR 0x85],
        [CHR 0xE2, CHR 0x80, CHR 0x86], [CHR 0xE2, CHR 0x80, CHR 0x87], [CHR 0xE2, CHR 0x80, CHR 0x88],
        [CHR 0xE2, CHR 0x80, CHR 0x89], [CHR 0xE2, CHR 0x80, CHR 0x8A], [CHR 0xE2, CHR 0x80, CHR 0xA8],
        [CHR 0xE2, CHR 0x80, CHR 0xA9], [CHR 0xE2, CHR 0x80, CHR 0xAF], [CHR 0xE2, CHR 0x81, CHR 0x9F],
        [CHR 0xE3, CHR 0x80, CHR 0x80]]"

function trim_start :: "string \<Rightarrow> string" where
  "trim_start s =
     (case List.find (\<lambda>w. prefix w s) WHITESPACE of
        None \<Rightarrow> s | Some w \<Rightarrow> trim_start (drop (length w) s))"
  by auto

lemma whitespace_not_empty: "w \<in> set WHITESPACE \<Longrightarrow> w \<noteq> []"
  by (auto simp: WHITESPACE_def)

termination trim_start
proof (relation "measure length")
  fix s w assume "List.find (\<lambda>w. prefix w s) WHITESPACE = Some w"
  then have "w \<in> set WHITESPACE" "prefix w s" by (auto simp: find_Some_iff)
  then show "(drop (length w) s, s) \<in> measure length"
    using whitespace_not_empty[of w] by (cases s) (auto simp: prefix_def)
qed simp

declare trim_start.simps [simp del]

function trim_end :: "string \<Rightarrow> string" where
  "trim_end s =
     (case List.find (\<lambda>w. suffix w s) WHITESPACE of
        None \<Rightarrow> s | Some w \<Rightarrow> trim_end (take (length s - length w) s))"
  by auto

termination trim_end
proof (relation "measure length")
  fix s w assume "List.find (\<lambda>w. suffix w s) WHITESPACE = Some w"
  then have "w \<in> set WHITESPACE" "suffix w s" by (auto simp: find_Some_iff)
  then show "(take (length s - length w) s, s) \<in> measure length"
    using whitespace_not_empty[of w] by (auto simp: suffix_def)
qed simp

declare trim_end.simps [simp del]

definition trim :: "string \<Rightarrow> string" where
  "trim s = trim_end (trim_start s)"

text \<open>
  A byte range of a text is on the boundaries of its characters, or it is refused: \<open>str::get\<close>.
\<close>

definition char_boundary :: "string \<Rightarrow> nat \<Rightarrow> bool" where
  "char_boundary s i \<longleftrightarrow>
     i = 0 \<or> i = length s \<or> i < length s \<and> \<not> (CHR 0x80 \<le> s ! i \<and> s ! i < CHR 0xC0)"

definition str_get :: "string \<Rightarrow> nat \<Rightarrow> nat \<Rightarrow> string option" where
  "str_get s from to =
     (if from \<le> to \<and> to \<le> length s \<and> char_boundary s from \<and> char_boundary s to
      then Some (drop from (take to s)) else None)"

text \<open>\<open>str::split_once\<close> with a character.\<close>

definition split_once :: "char \<Rightarrow> string \<Rightarrow> (string \<times> string) option" where
  "split_once c s =
     (if c \<in> set s then Some (takeWhile (\<lambda>d. d \<noteq> c) s, tl (dropWhile (\<lambda>d. d \<noteq> c) s)) else None)"

section \<open>Ordered maps\<close>

text \<open>A \<open>BTreeMap\<close> is its entries in the order of their keys.\<close>

fun btree_insert :: "'k::linorder \<Rightarrow> 'v \<Rightarrow> ('k \<times> 'v) list \<Rightarrow> ('k \<times> 'v) list" where
  "btree_insert k v [] = [(k, v)]"
| "btree_insert k v ((l, w) # rest) =
     (if k < l then (k, v) # (l, w) # rest
      else if k = l then (k, v) # rest
      else (l, w) # btree_insert k v rest)"

definition btree_remove :: "'k \<Rightarrow> ('k \<times> 'v) list \<Rightarrow> ('k \<times> 'v) list" where
  "btree_remove k m = filter (\<lambda>(l, _). l \<noteq> k) m"

definition btree_ok :: "('k::linorder \<times> 'v) list \<Rightarrow> bool" where
  "btree_ok m \<longleftrightarrow> sorted_wrt (<) (map fst m)"

lemma btree_ok_simps [simp]:
  "btree_ok []"
  "btree_ok ((k, v) # m) \<longleftrightarrow> (\<forall>l\<in>fst ` set m. k < l) \<and> btree_ok m"
  by (auto simp: btree_ok_def)

lemma btree_ok_distinct: "btree_ok m \<Longrightarrow> distinct (map fst m)"
  by (metis btree_ok_def strict_sorted_iff)

lemma btree_insert_keys: "fst ` set (btree_insert k v m) = insert k (fst ` set m)"
  by (induction k v m rule: btree_insert.induct) auto

lemma btree_insert_ok: "btree_ok m \<Longrightarrow> btree_ok (btree_insert k v m)"
  by (induction k v m rule: btree_insert.induct) (auto simp: btree_insert_keys)

lemma map_of_btree_insert: "btree_ok m \<Longrightarrow> map_of (btree_insert k v m) = (map_of m)(k \<mapsto> v)"
  by (induction k v m rule: btree_insert.induct) (auto simp: fun_eq_iff)

lemma btree_remove_ok: "btree_ok m \<Longrightarrow> btree_ok (btree_remove k m)"
  by (induction m) (auto simp: btree_remove_def)

lemma map_of_btree_remove: "map_of (btree_remove k m) = (map_of m)(k := None)"
  by (induction m) (auto simp: btree_remove_def fun_eq_iff)

lemma btree_set_insert: "btree_ok m \<Longrightarrow> set (btree_insert k v m) = insert (k, v) {e \<in> set m. fst e \<noteq> k}"
proof (induction k v m rule: btree_insert.induct)
  case (2 k v l w rest)
  then show ?case by (auto dest: btree_ok_distinct)
qed simp

section \<open>Printing and reading whole numbers\<close>

lemma read_digits_append:
  "read_digits radix n (xs @ ys) = Option.bind (read_digits radix n xs) (\<lambda>m. read_digits radix m ys)"
  by (induction xs arbitrary: n) (auto split: option.splits)

lemma decimal_char:
  assumes "0 \<le> d" and "d < (10 :: int)"
  shows "to_digit 10 (char_of (48 + d)) = Some d" and "char_of (48 + d) \<notin> set ''-+''"
proof -
  have "d \<in> {0, 1, 2, 3, 4, 5, 6, 7, 8, 9}" using assms by (simp, presburger)
  then show "to_digit 10 (char_of (48 + d)) = Some d" "char_of (48 + d) \<notin> set ''-+''"
    by (elim insertE emptyE; hypsubst; code_simp)+
qed

lemma read_show_nat: "0 \<le> n \<Longrightarrow> read_digits 10 0 (show_nat n) = Some n"
proof (induction n rule: show_nat.induct)
  case (1 n)
  show ?case
  proof (cases "n < 10")
    case True
    then show ?thesis using 1 decimal_char(1)[of n] by (subst show_nat.simps) simp
  next
    case False
    then have "read_digits 10 0 (show_nat (n div 10)) = Some (n div 10)" using 1 by simp
    then show ?thesis using False decimal_char(1)[of "n mod 10"]
      by (subst show_nat.simps) (simp add: read_digits_append)
  qed
qed

lemma show_nat_head: "0 \<le> n \<Longrightarrow> \<exists>d cs. show_nat n = d # cs \<and> d \<notin> set ''-+''"
proof (induction n rule: show_nat.induct)
  case (1 n)
  show ?case
  proof (cases "n < 10")
    case True
    then show ?thesis using 1 decimal_char(2)[of n] by (subst show_nat.simps) auto
  next
    case False
    moreover from this have "0 \<le> n div 10" by simp
    ultimately obtain d cs where "show_nat (n div 10) = d # cs" "d \<notin> set ''-+''" using 1 by blast
    then show ?thesis using False by (subst show_nat.simps) auto
  qed
qed

lemma parse_show_any:
  "parse_i64 10 (show_int i) = (if I64_MIN \<le> i \<and> i \<le> I64_MAX then Some i else None)"
proof (cases "i < 0")
  case True
  obtain d cs where "show_nat (- i) = d # cs" using show_nat_head[of "- i"] True by auto
  moreover have "read_digits 10 0 (show_nat (- i)) = Some (- i)" using read_show_nat[of "- i"] True by simp
  ultimately show ?thesis
    using True by (simp add: parse_i64_def show_int_def split_sign_def signed_def Let_def)
next
  case False
  obtain d cs where d: "show_nat i = d # cs" "d \<notin> set ''-+''" using show_nat_head[of i] False by auto
  moreover have "read_digits 10 0 (show_nat i) = Some i" using read_show_nat[of i] False by simp
  ultimately show ?thesis
    using False by (simp add: parse_i64_def show_int_def split_sign_def signed_def Let_def)
qed

lemma parse_show_int: "I64_MIN \<le> i \<Longrightarrow> i \<le> I64_MAX \<Longrightarrow> parse_i64 10 (show_int i) = Some i"
  by (simp add: parse_show_any)

lemma show_int_reads: "read_digits 10 0 s = None \<Longrightarrow> \<not> starts_with_char (CHR ''-'') s \<Longrightarrow> show_int i \<noteq> s"
  using read_show_nat[of i] by (auto simp: show_int_def starts_with_char_def)

lemma parse_i64_bounds: "parse_i64 radix s = Some i \<Longrightarrow> I64_MIN \<le> i \<and> i \<le> I64_MAX"
  by (auto simp: parse_i64_def Let_def bind_eq_Some_conv split: prod.splits if_splits)

end
