(* ===== verification/Kernel_Store.thy ===== *)
theory Kernel_Store
  imports Scopes Rust_Numbers "HOL-Library.Word"
begin

unbundle bit_operations_syntax

text \<open>
  The kernel's database as the other theories share it: JSON values, what the sources take from
  code outside the repository (\<open>ext\<close>), the digests of \<open>artifact/digest.rs\<close>, the rows of the
  tables the migrations \<open>0002\<close> to \<open>0007\<close> create, the errors of rusqlite and of
  \<open>store/error.rs\<close> that the modelled code can meet, and \<open>Database::write\<close>, which rolls back
  what a failed write did. A table is the list of its rows in rowid order.
\<close>

section \<open>JSON values\<close>

text \<open>\<open>serde_json::Value\<close>; an object is its fields in the order of their names (a \<open>BTreeMap\<close>).\<close>

datatype json =
    JNull
  | JBool bool
  | JNumber int
  | JDecimal string
  | JStr string
  | JArr "json list"
  | JObj "(string \<times> json) list"

fun json_insert :: "string \<Rightarrow> json \<Rightarrow> (string \<times> json) list \<Rightarrow> (string \<times> json) list" where
  "json_insert k v [] = [(k, v)]"
| "json_insert k v ((l, w) # members) =
     (if k = l then (k, v) # members
      else if k < l then (k, v) # (l, w) # members
      else (l, w) # json_insert k v members)"

definition json_object :: "(string \<times> json) list \<Rightarrow> json" where
  "json_object members = JObj (fold (\<lambda>(k, v). json_insert k v) members [])"

text \<open>A value nested at most \<open>d\<close> deep whose objects are maps: what serde reads back as it wrote.\<close>

fun plain_json :: "nat \<Rightarrow> json \<Rightarrow> bool" where
  "plain_json d (JArr vs) = (0 < d \<and> list_all (plain_json (d - 1)) vs)"
| "plain_json d (JObj members) =
     (0 < d \<and> sorted (map fst members) \<and> distinct (map fst members)
      \<and> list_all (\<lambda>(_, v). plain_json (d - 1) v) members)"
| "plain_json d v = True"

section \<open>Code outside the repository\<close>

type_synonym ulid = "128 word"

text \<open>
  The crates and services the kernel relies on: \<open>ulid\<close>'s text and parser, \<open>serde_json\<close>'s
  writer and reader, SQLite's \<open>json_valid\<close>, its \<open>json_type\<close> (\<open>None\<close> for text that is not JSON) and its \<open>strftime\<close> of a number of milliseconds
  since 1970 (\<open>None\<close> for its NULL), and \<open>sha2\<close>'s digest of a byte string.
\<close>

record ext =
  ulid_text :: "ulid \<Rightarrow> string"
  ulid_parse :: "string \<Rightarrow> ulid option"
  json_text :: "json \<Rightarrow> string"
  json_parse :: "string \<Rightarrow> json option"
  json_valid :: "string \<Rightarrow> bool"
  json_type :: "string \<Rightarrow> string option"
  strftime_millis :: "int \<Rightarrow> string option"
  sha256 :: "string \<Rightarrow> 8 word list"

text \<open>
  What each documents: a ULID reads back from its text; serde reads back what it writes up to its
  recursion limit of 128, and SQLite takes that for JSON, an object for an object; times are written from 1970 to 9999 in
  one form that sorts as the times do; a SHA-256 digest has 32 bytes.
\<close>

definition READABLE_DEPTH :: nat where
  "READABLE_DEPTH = 127"

definition LAST_MILLIS :: int where
  "LAST_MILLIS = 253402300799999"

definition glob_digits :: "nat list \<Rightarrow> string \<Rightarrow> bool" where
  "glob_digits places text = list_all (\<lambda>i. is_ascii_digit (text ! i)) places"

text \<open>The \<open>GLOB\<close> pattern of the times of the \<open>jobs\<close> table: \<open>YYYY-MM-DDThh:mm:ss.mmmZ\<close>.\<close>

definition clock_form :: "string \<Rightarrow> bool" where
  "clock_form text \<longleftrightarrow>
     length text = 24
     \<and> glob_digits [0, 1, 2, 3, 5, 6, 8, 9, 11, 12, 14, 15, 17, 18, 20, 21, 22] text
     \<and> text ! 4 = CHR ''-'' \<and> text ! 7 = CHR ''-'' \<and> text ! 10 = CHR ''T''
     \<and> text ! 13 = CHR '':'' \<and> text ! 16 = CHR '':'' \<and> text ! 19 = CHR ''.''
     \<and> text ! 23 = CHR ''Z''"

definition lawful_ulid :: "ext \<Rightarrow> bool" where
  "lawful_ulid x \<longleftrightarrow> (\<forall>u. ulid_parse x (ulid_text x u) = Some u)"

definition lawful_json :: "ext \<Rightarrow> bool" where
  "lawful_json x \<longleftrightarrow>
     (\<forall>v. plain_json READABLE_DEPTH v \<longrightarrow>
        json_parse x (json_text x v) = Some v \<and> json_valid x (json_text x v))
     \<and> (\<forall>members. plain_json READABLE_DEPTH (JObj members) \<longrightarrow>
          json_type x (json_text x (JObj members)) = Some ''object'')"

text \<open>
  What SQLite documents of its times: those from 1970 to 9999 are written in that form, and times written
  in that form, which are of the years 0000 to 9999, stand in the order of their texts. Nothing is said
  of other times.
\<close>

definition lawful_clock :: "ext \<Rightarrow> bool" where
  "lawful_clock x \<longleftrightarrow>
     (\<forall>m. 0 \<le> m \<longrightarrow> (strftime_millis x m \<noteq> None) = (m \<le> LAST_MILLIS))
     \<and> (\<forall>m t. 0 \<le> m \<longrightarrow> strftime_millis x m = Some t \<longrightarrow> clock_form t)
     \<and> (\<forall>m n s t. strftime_millis x m = Some s \<longrightarrow> strftime_millis x n = Some t \<longrightarrow>
          clock_form s \<longrightarrow> clock_form t \<longrightarrow> m < n \<longrightarrow> s < t)"

definition lawful_sha :: "ext \<Rightarrow> bool" where
  "lawful_sha x \<longleftrightarrow> (\<forall>s. length (sha256 x s) = 32)"

definition lawful :: "ext \<Rightarrow> bool" where
  "lawful x \<longleftrightarrow> lawful_ulid x \<and> lawful_json x \<and> lawful_clock x \<and> lawful_sha x"

section \<open>Digests (artifact/digest.rs)\<close>

datatype digest = Digest (digest_str: string)

datatype invalid_digest = InvalidDigest string

text \<open>\<open>char::from_digit(nibble, 16)\<close>: none above 15.\<close>

definition from_digit16 :: "8 word \<Rightarrow> char option" where
  "from_digit16 nibble =
     (let n = unat nibble in
      if n < 10 then Some (char_of (48 + n))
      else if n < 16 then Some (char_of (87 + n))
      else None)"

definition hex_nibbles :: "8 word \<Rightarrow> 8 word list" where
  "hex_nibbles byte = [drop_bit 4 byte, byte AND 0x0f]"

definition digest_of :: "ext \<Rightarrow> string \<Rightarrow> digest" where
  "digest_of x bytes =
     Digest (List.map_filter from_digit16 (concat (map hex_nibbles (sha256 x bytes))))"

definition is_hex :: "char \<Rightarrow> bool" where
  "is_hex byte \<longleftrightarrow> CHR ''0'' \<le> byte \<and> byte \<le> CHR ''9'' \<or> CHR ''a'' \<le> byte \<and> byte \<le> CHR ''f''"

definition digest_parse :: "string \<Rightarrow> invalid_digest + digest" where
  "digest_parse text =
     (if length text = 64 \<and> list_all is_hex text then Inr (Digest text)
      else Inl (InvalidDigest text))"

section \<open>Errors\<close>

datatype attribute = TypeAttribute | SubjectAttribute

datatype conversion_cause =
    EmptyAttribute attribute
  | InvalidScopeCause invalid_scope
  | IntegerCause

text \<open>
  The errors of rusqlite the modelled calls can end in: a parameter or a column that cannot be
  converted (its index), an integer that does not fit, a constraint or a trigger that refuses the
  statement, and a query that found no row.
\<close>

datatype sqlite_error =
    ToSqlConversionFailure conversion_cause
  | FromSqlConversionFailure nat
  | IntegralValueOutOfRange nat int
  | ConstraintViolation string
  | QueryReturnedNoRows

text \<open>
  \<open>artifact::Error\<close>: no file under the digest, a file whose bytes hash to another one, and a path
  the operating system would not read, write or remove.
\<close>

datatype artifact_error =
    MissingArtifact digest
  | CorruptArtifact digest digest
  | ArtifactIo "string list"

datatype store_error =
    UnknownArtifact digest
  | NotPinned digest
  | MediaConflict digest string string
  | ArtifactError artifact_error
  | Sqlite sqlite_error

section \<open>Integers of the database\<close>

definition unsigned_i64 :: "int \<Rightarrow> nat \<Rightarrow> sqlite_error + nat" where
  "unsigned_i64 value index =
     (if 0 \<le> value then Inr (nat value) else Inl (IntegralValueOutOfRange index value))"

text \<open>A sum past the largest integer becomes a real, which a STRICT integer column refuses.\<close>

definition strict_integer :: "int \<Rightarrow> sqlite_error + int" where
  "strict_integer value =
     (if value \<le> I64_MAX then Inr value else Inl (ConstraintViolation ''STRICT''))"

section \<open>The tables\<close>

record event_record =
  er_id :: string
  er_stream :: string
  er_sequence :: int
  er_type :: string
  er_subject :: string
  er_scope :: string
  er_time :: string
  er_data :: string

record cursor_record =
  cr_consumer :: string
  cr_stream :: string
  cr_position :: int
  cr_updated_at :: string

record grant_record =
  gr_principal :: string
  gr_scope :: string
  gr_right :: string
  gr_granted_by :: string
  gr_granted_at :: string

record collection_record =
  co_id :: string
  co_title :: string
  co_visibility :: string
  co_profiles :: string

record source_record =
  so_collection :: string
  so_id :: string
  so_kind :: string
  so_transport :: "string option"
  so_reference :: string
  so_profiles :: string

record document_record =
  do_id :: string
  do_collection :: string
  do_source :: string
  do_source_ref :: string

record revision_record =
  re_id :: string
  re_document :: string
  re_original :: string
  re_canonical :: string
  re_status :: string
  re_captured_at :: "string option"
  re_metadata :: string
  re_recorded_at :: string

record disposition_record =
  qd_revision :: string
  qd_disposition :: string
  qd_reasons :: string
  qd_rules :: string
  qd_decided_by :: string
  qd_decided_at :: string

record occurrence_record =
  oc_revision :: string
  oc_collection :: string
  oc_source :: string
  oc_source_ref :: string

record near_dup_record =
  nd_group :: string
  nd_revision :: string
  nd_jaccard :: f64

record chunk_set_record =
  cs_id :: string
  cs_collection :: string
  cs_profile :: string
  cs_counter :: string
  cs_state :: string
  cs_manifest :: "string option"

record chunk_record =
  ch_set :: string
  ch_id :: string
  ch_revision :: string
  ch_section :: "string option"
  ch_digest :: string
  ch_tokens :: int
  ch_start :: int
  ch_end :: int

record generation_record =
  ge_id :: int
  ge_collection :: string
  ge_chunk_set :: string
  ge_embedding :: string
  ge_sparse :: string
  ge_state :: string
  ge_points :: "int option"
  ge_published_at :: "string option"

record job_record =
  jr_id :: string
  jr_kind :: string
  jr_key :: string
  jr_attempt :: int
  jr_scope :: string
  jr_resource :: "string option"
  jr_state :: string
  jr_number :: int
  jr_holder :: "string option"
  jr_heartbeat :: "string option"
  jr_expires :: "string option"
  jr_outcome :: "string option"

record artifact_record =
  ar_digest :: string
  ar_bytes :: int
  ar_media :: string
  ar_pins :: int
  ar_created_at :: string

record kernel =
  k_events :: "event_record list"
  k_cursors :: "cursor_record list"
  k_grants :: "grant_record list"
  k_collections :: "collection_record list"
  k_sources :: "source_record list"
  k_documents :: "document_record list"
  k_revisions :: "revision_record list"
  k_chunk_sets :: "chunk_set_record list"
  k_chunks :: "chunk_record list"
  k_generations :: "generation_record list"
  k_generation_seq :: int
  k_jobs :: "job_record list"
  k_artifacts :: "artifact_record list"
  k_dispositions :: "disposition_record list"
  k_occurrences :: "occurrence_record list"
  k_near_dups :: "near_dup_record list"

definition empty_kernel :: kernel where
  "empty_kernel = \<lparr>k_events = [], k_cursors = [], k_grants = [], k_collections = [],
     k_sources = [], k_documents = [], k_revisions = [], k_chunk_sets = [], k_chunks = [],
     k_generations = [], k_generation_seq = 0, k_jobs = [], k_artifacts = [], k_dispositions = [],
     k_occurrences = [], k_near_dups = []\<rparr>"

text \<open>
  What one call draws from outside: the ULID a job is given, the ULIDs and the times of the events
  it records, in their order, and the database's clock for its other statements.
\<close>

record draws =
  d_job :: ulid
  d_event :: "nat \<Rightarrow> ulid"
  d_event_time :: "nat \<Rightarrow> string"
  d_now :: string

section \<open>Transactions (store/database.rs)\<close>

text \<open>
  Work in a transaction takes the tables and gives its value with the tables it leaves, or its
  error; \<open>Database::write\<close> commits what it did, or rolls it all back when it fails.
\<close>

definition db_write ::
  "(kernel \<Rightarrow> 'e + 'a \<times> kernel) \<Rightarrow> kernel \<Rightarrow> ('e + 'a) \<times> kernel" where
  "db_write work k =
     (case work k of
        Inl e \<Rightarrow> (Inl e, k)
      | Inr (value, k') \<Rightarrow> (Inr value, k'))"

text \<open>\<open>query_row\<close> reads the first row of a query; \<open>optional\<close> makes no row a value.\<close>

definition query_row :: "('r \<Rightarrow> sqlite_error + 'a) \<Rightarrow> 'r list \<Rightarrow> sqlite_error + 'a" where
  "query_row read_row found =
     (case found of [] \<Rightarrow> Inl QueryReturnedNoRows | r # _ \<Rightarrow> read_row r)"

definition optional :: "sqlite_error + 'a \<Rightarrow> sqlite_error + 'a option" where
  "optional r =
     (case r of
        Inl e \<Rightarrow> if e = QueryReturnedNoRows then Inr None else Inl e
      | Inr v \<Rightarrow> Inr (Some v))"

text \<open>\<open>coalesce(max(column), 0)\<close> over the values of a column.\<close>

definition coalesce_max :: "int list \<Rightarrow> int" where
  "coalesce_max column = (case column of [] \<Rightarrow> 0 | v # vs \<Rightarrow> fold max vs v)"

section \<open>Facts\<close>

lemma db_write_Inr [results]:
  "db_write work k = (Inr v, k') \<longleftrightarrow> work k = Inr (v, k')"
  by (auto simp: db_write_def split: sum.splits)

lemma db_write_Inl [results]:
  "db_write work k = (Inl e, k') \<longleftrightarrow> work k = Inl e \<and> k' = k"
  by (auto simp: db_write_def split: sum.splits)

lemma query_row_simps [simp]:
  "query_row f [] = Inl QueryReturnedNoRows"
  "query_row f (r # rs) = f r"
  by (simp_all add: query_row_def)

lemma query_row_Inr [results]:
  "query_row f found = Inr v \<longleftrightarrow> (\<exists>r rs. found = r # rs \<and> f r = Inr v)"
  by (cases found) auto

lemma optional_Inr [results]:
  "optional r = Inr found \<longleftrightarrow>
     (r = Inl QueryReturnedNoRows \<and> found = None) \<or> (\<exists>v. r = Inr v \<and> found = Some v)"
  by (cases r) (auto simp: optional_def)

lemma optional_Inl [results]:
  "optional r = Inl e \<longleftrightarrow> r = Inl e \<and> e \<noteq> QueryReturnedNoRows"
  by (cases r) (auto simp: optional_def)

lemma unsigned_i64_Inr [results]:
  "unsigned_i64 v i = Inr n \<longleftrightarrow> 0 \<le> v \<and> n = nat v"
  by (auto simp: unsigned_i64_def)

lemma strict_integer_Inr [results]:
  "strict_integer v = Inr w \<longleftrightarrow> v \<le> I64_MAX \<and> w = v"
  by (auto simp: strict_integer_def)

lemma fold_max_upto: "m \<le> n \<Longrightarrow> fold max [m + 1..n] m = (n::int)"
proof (induction "nat (n - m)" arbitrary: m)
  case 0
  then show ?case by simp
next
  case (Suc i)
  then have "m + 1 \<le> n" by simp
  moreover have "i = nat (n - (m + 1))" using Suc.hyps(2) by simp
  ultimately have "fold max [m + 1 + 1..n] (m + 1) = n" using Suc.hyps(1) by blast
  with \<open>m + 1 \<le> n\<close> show ?case by (simp add: upto_rec1)
qed

lemma coalesce_max_upto: "coalesce_max [1..int n] = int n"
proof (cases n)
  case (Suc m)
  then have "[1..int n] = 1 # [1 + 1..int n]" by (simp add: upto_rec1)
  then show ?thesis using Suc fold_max_upto[of 1 "int n"] by (simp add: coalesce_max_def)
qed (simp add: coalesce_max_def)

lemma coalesce_max_Max: "column \<noteq> [] \<Longrightarrow> coalesce_max column = Max (set column)"
  by (cases column) (simp_all add: coalesce_max_def Max.set_eq_fold del: list.set)

lemma coalesce_max_ge: "v \<in> set column \<Longrightarrow> v \<le> coalesce_max column"
  by (cases "column = []") (simp_all add: coalesce_max_Max)

lemma coalesce_max_mem: "column \<noteq> [] \<Longrightarrow> coalesce_max column \<in> set column"
  using Max_in[of "set column"] by (simp add: coalesce_max_Max)

lemma coalesce_max_nonneg: "\<forall>v\<in>set column. 0 \<le> v \<Longrightarrow> 0 \<le> coalesce_max column"
  using coalesce_max_mem[of column] by (cases column) (auto simp: coalesce_max_def)

lemma set_json_insert: "set (json_insert k v kvs) \<subseteq> insert (k, v) (set kvs)"
  by (induction k v kvs rule: json_insert.induct) auto

lemma json_insert_keys: "set (map fst (json_insert k v kvs)) = insert k (set (map fst kvs))"
  by (induction k v kvs rule: json_insert.induct) auto

lemma json_insert_sorted:
  assumes "sorted (map fst kvs)" and "distinct (map fst kvs)"
  shows "sorted (map fst (json_insert k v kvs)) \<and> distinct (map fst (json_insert k v kvs))"
  using assms
proof (induction k v kvs rule: json_insert.induct)
  case (2 k v l w kvs)
  have keys: "set (map fst (json_insert k v kvs)) = insert k (set (map fst kvs))"
    by (rule json_insert_keys)
  show ?case
  proof (cases "l < k")
    case True
    with 2 have "sorted (map fst (json_insert k v kvs))" "distinct (map fst (json_insert k v kvs))"
      by auto
    with True 2(2,3) keys show ?thesis by auto
  next
    case False
    with 2(2,3) show ?thesis by (auto simp: less_le)
  qed
qed simp

text \<open>An object whose members are plain, one level down, is a plain value.\<close>

lemma plain_json_object:
  assumes "\<forall>(k, v)\<in>set kvs. plain_json d v"
  shows "plain_json (Suc d) (json_object kvs)"
proof -
  let ?ok = "\<lambda>kvs. sorted (map fst kvs) \<and> distinct (map fst kvs) \<and> (\<forall>(k, v)\<in>set kvs. plain_json d v)"
  have insert: "?ok (json_insert k v acc)" if "?ok acc" "plain_json d v" for k v acc
    using that json_insert_sorted[of acc k v] set_json_insert[of k v acc] by fast
  have "?ok (fold (\<lambda>(k, v). json_insert k v) kvs acc)" if "?ok acc" for acc
    using assms that
  proof (induction kvs arbitrary: acc)
    case (Cons kv kvs)
    obtain k v where kv: "kv = (k, v)" by (cases kv)
    have v: "plain_json d v" and rest: "\<forall>(k, v)\<in>set kvs. plain_json d v"
      using Cons.prems(1) kv by simp_all
    have "?ok (json_insert k v acc)" by (rule insert[OF Cons.prems(2) v])
    from Cons.IH[OF rest this] show ?case by (simp add: kv)
  qed simp
  from this[of "[]"] show ?thesis
    by (simp add: json_object_def list_all_iff case_prod_unfold)
qed

lemma plain_json_mono: "plain_json d v \<Longrightarrow> d \<le> e \<Longrightarrow> plain_json e v"
proof (induction d v arbitrary: e rule: plain_json.induct)
  case (1 d vs)
  then show ?case by (auto simp: list_all_iff)
next
  case (2 d members)
  then show ?case by (fastforce simp: list_all_iff)
qed auto

lemma lawful_readable:
  "lawful x \<Longrightarrow> plain_json READABLE_DEPTH v \<Longrightarrow>
     json_parse x (json_text x v) = Some v \<and> json_valid x (json_text x v)"
  by (simp add: lawful_def lawful_json_def)

lemma lawful_object_type:
  "lawful x \<Longrightarrow> plain_json READABLE_DEPTH (JObj members) \<Longrightarrow> json_type x (json_text x (JObj members)) = Some ''object''"
  by (simp add: lawful_def lawful_json_def)

lemma lawful_ulid_text: "lawful x \<Longrightarrow> ulid_parse x (ulid_text x u) = Some u"
  by (simp add: lawful_def lawful_ulid_def)

lemma ulid_text_inj: "lawful x \<Longrightarrow> ulid_text x u = ulid_text x w \<longleftrightarrow> u = w"
  by (metis lawful_ulid_text option.inject)

lemma from_digit16_hex: "from_digit16 w = Some c \<Longrightarrow> is_hex c"
proof -
  assume a: "from_digit16 w = Some c"
  let ?n = "unat w"
  have "?n < 16" using a by (auto simp: from_digit16_def Let_def split: if_splits)
  then have "?n \<in> {0..<16}" by simp
  then have "?n \<in> set [0..<16]" by simp
  then show ?thesis using a
    by (auto simp: from_digit16_def Let_def upt_rec is_hex_def less_eq_char_def split: if_splits)
qed

lemma nibble_bounds: "from_digit16 (drop_bit 4 b) \<noteq> None" "from_digit16 (b AND 0x0f) \<noteq> None"
proof -
  have "unat (drop_bit 4 b) < 16" for b :: "8 word"
  proof -
    have "unat b < 2 ^ 8" using unsigned_less[of b] by simp
    then show ?thesis unfolding unat_drop_bit_eq by (simp add: drop_bit_eq_div)
  qed
  moreover have "unat (b AND 0x0f) < 16"
  proof -
    have "b AND 0x0f = take_bit 4 b" by (simp add: take_bit_eq_mask mask_numeral)
    then have "unat (b AND 0x0f) = take_bit 4 (unat b)" by (simp add: unsigned_take_bit_eq)
    also have "\<dots> < 2 ^ 4" by (rule take_bit_nat_less_exp)
    finally show ?thesis by simp
  qed
  ultimately show "from_digit16 (drop_bit 4 b) \<noteq> None" "from_digit16 (b AND 0x0f) \<noteq> None"
    by (simp_all add: from_digit16_def Let_def)
qed

lemma length_map_filter_total: "\<forall>v\<in>set vs. f v \<noteq> None \<Longrightarrow> length (List.map_filter f vs) = length vs"
  by (induction vs) (auto simp: List.map_filter_simps)

lemma digest_of_parses: "lawful_sha x \<Longrightarrow> digest_parse (digest_str (digest_of x s)) = Inr (digest_of x s)"
proof -
  assume "lawful_sha x"
  then have len: "length (sha256 x s) = 32" by (simp add: lawful_sha_def)
  let ?nibbles = "concat (map hex_nibbles (sha256 x s))"
  have "length ?nibbles = 64"
    using len by (simp add: length_concat comp_def hex_nibbles_def sum_list_triv)
  moreover have "\<forall>v\<in>set ?nibbles. from_digit16 v \<noteq> None"
    using nibble_bounds by (auto simp: hex_nibbles_def)
  ultimately have "length (digest_str (digest_of x s)) = 64"
    by (simp add: digest_of_def length_map_filter_total)
  moreover have "list_all is_hex (digest_str (digest_of x s))"
    by (auto simp: digest_of_def list_all_iff List.map_filter_def dest: from_digit16_hex)
  ultimately show ?thesis by (simp add: digest_parse_def)
qed

end
