(* ===== verification/Sample_Ext.thy ===== *)
theory Sample_Ext
  imports Kernel_Store
begin

text \<open>
  One concrete choice of the code outside the repository, \<open>sample\<close>, with the proof that it obeys
  every law the properties assume of it (\<open>lawful\<close>): their hypotheses can hold, and the witnesses
  run the kernel on it. Its texts are its own; nothing depends on them but the witnesses.
\<close>

section \<open>A JSON text\<close>

definition quote_text :: "string \<Rightarrow> string" where
  "quote_text s = concat (map (\<lambda>c. [CHR '':'', c]) s) @ ''.''"

fun unquote_text :: "string \<Rightarrow> (string \<times> string) option" where
  "unquote_text (c # rest) =
     (if c = CHR ''.'' then Some ([], rest)
      else case rest of
        [] \<Rightarrow> None
      | d # rest' \<Rightarrow> map_option (\<lambda>(s, r). (d # s, r)) (unquote_text rest'))"
| "unquote_text [] = None"

fun enc :: "json \<Rightarrow> string" where
  "enc JNull = ''n''"
| "enc (JBool b) = (if b then ''t'' else ''f'')"
| "enc (JNumber i) =
     (if i < 0 then ''m'' else ''p'') @ quote_text (replicate (nat \<bar>i\<bar>) CHR ''1'')"
| "enc (JDecimal s) = ''d'' @ quote_text s"
| "enc (JStr s) = ''s'' @ quote_text s"
| "enc (JArr vs) = ''['' @ concat (map enc vs) @ '']''"
| "enc (JObj kvs) = ''{'' @ concat (map (\<lambda>(k, v). quote_text k @ enc v) kvs) @ ''}''"

fun dec :: "nat \<Rightarrow> string \<Rightarrow> (json \<times> string) option"
  and dec_values :: "nat \<Rightarrow> string \<Rightarrow> (json list \<times> string) option"
  and dec_members :: "nat \<Rightarrow> string \<Rightarrow> ((string \<times> json) list \<times> string) option" where
  "dec 0 s = None"
| "dec (Suc n) [] = None"
| "dec (Suc n) (c # s) =
     (if c = CHR ''n'' then Some (JNull, s)
      else if c = CHR ''t'' then Some (JBool True, s)
      else if c = CHR ''f'' then Some (JBool False, s)
      else if c = CHR ''m'' then map_option (\<lambda>(t, r). (JNumber (- int (length t)), r)) (unquote_text s)
      else if c = CHR ''p'' then map_option (\<lambda>(t, r). (JNumber (int (length t)), r)) (unquote_text s)
      else if c = CHR ''d'' then map_option (\<lambda>(t, r). (JDecimal t, r)) (unquote_text s)
      else if c = CHR ''s'' then map_option (\<lambda>(t, r). (JStr t, r)) (unquote_text s)
      else if c = CHR ''['' then map_option (\<lambda>(vs, r). (JArr vs, r)) (dec_values n s)
      else if c = CHR ''{'' then map_option (\<lambda>(kvs, r). (JObj kvs, r)) (dec_members n s)
      else None)"
| "dec_values 0 s = None"
| "dec_values (Suc n) s =
     (case s of
        [] \<Rightarrow> None
      | c # rest \<Rightarrow>
          if c = CHR '']'' then Some ([], rest)
          else Option.bind (dec n s) (\<lambda>(v, r).
               Option.bind (dec_values n r) (\<lambda>(vs, r'). Some (v # vs, r'))))"
| "dec_members 0 s = None"
| "dec_members (Suc n) s =
     (case s of
        [] \<Rightarrow> None
      | c # rest \<Rightarrow>
          if c = CHR ''}'' then Some ([], rest)
          else Option.bind (unquote_text s) (\<lambda>(k, r).
               Option.bind (dec n r) (\<lambda>(v, r').
               Option.bind (dec_members n r') (\<lambda>(kvs, r''). Some ((k, v) # kvs, r'')))))"

definition sample_parse :: "string \<Rightarrow> json option" where
  "sample_parse s =
     (case dec (Suc (length s)) s of
        Some (v, []) \<Rightarrow> Some v
      | _ \<Rightarrow> None)"

lemma unquote_quote: "unquote_text (quote_text s @ rest) = Some (s, rest)"
  by (induction s) (auto simp: quote_text_def)

lemma enc_head: "\<exists>c s. enc v = c # s \<and> c \<noteq> CHR '']''"
  by (cases v) auto

lemma quote_head: "\<exists>c s. quote_text k = c # s \<and> c \<noteq> CHR ''}''"
  by (cases k) (auto simp: quote_text_def)

lemma dec_values_enc:
  assumes "\<And>v n rest. v \<in> set vs \<Longrightarrow> length (enc v) < n \<Longrightarrow> dec n (enc v @ rest) = Some (v, rest)"
    and "length (concat (map enc vs)) + 1 < n"
  shows "dec_values n (concat (map enc vs) @ CHR '']'' # rest) = Some (vs, rest)"
  using assms
proof (induction vs arbitrary: n)
  case Nil
  then show ?case by (cases n) auto
next
  case (Cons v vs)
  then obtain m where n: "n = Suc m" by (cases n) auto
  obtain c s where head: "enc v = c # s" "c \<noteq> CHR '']''" using enc_head by blast
  have "dec m (enc v @ concat (map enc vs) @ CHR '']'' # rest)
      = Some (v, concat (map enc vs) @ CHR '']'' # rest)"
    using Cons.prems n by auto
  moreover have "dec_values m (concat (map enc vs) @ CHR '']'' # rest) = Some (vs, rest)"
    using Cons.prems n head by (intro Cons.IH) auto
  ultimately show ?case using n head by simp
qed

lemma dec_members_enc:
  assumes "\<And>k v n rest. (k, v) \<in> set kvs \<Longrightarrow> length (enc v) < n \<Longrightarrow> dec n (enc v @ rest) = Some (v, rest)"
    and "length (concat (map (\<lambda>(k, v). quote_text k @ enc v) kvs)) + 1 < n"
  shows "dec_members n (concat (map (\<lambda>(k, v). quote_text k @ enc v) kvs) @ CHR ''}'' # rest)
    = Some (kvs, rest)"
  using assms
proof (induction kvs arbitrary: n)
  case Nil
  then show ?case by (cases n) auto
next
  case (Cons kv kvs)
  let ?tail = "concat (map (\<lambda>(k, v). quote_text k @ enc v) kvs) @ CHR ''}'' # rest"
  obtain m where n: "n = Suc m" using Cons.prems by (cases n) auto
  obtain k v where kv: "kv = (k, v)" by (cases kv)
  obtain c s where head: "quote_text k = c # s" "c \<noteq> CHR ''}''" using quote_head by blast
  have "dec m (enc v @ ?tail) = Some (v, ?tail)"
    using Cons.prems(1)[of k v m ?tail] Cons.prems(2) n kv head by simp
  moreover have "dec_members m ?tail = Some (kvs, rest)"
    using Cons.prems n kv head by (intro Cons.IH) auto
  moreover have "unquote_text (c # s @ enc v @ ?tail) = Some (k, enc v @ ?tail)"
    using unquote_quote[of k "enc v @ ?tail"] head by simp
  ultimately show ?case using n head kv by simp
qed

lemma dec_enc: "length (enc v) < n \<Longrightarrow> dec n (enc v @ rest) = Some (v, rest)"
proof (induction v arbitrary: n rest)
  case (JArr vs)
  then obtain m where n: "n = Suc m" by (cases n) auto
  have "dec_values m (concat (map enc vs) @ CHR '']'' # rest) = Some (vs, rest)"
    using JArr n by (intro dec_values_enc) auto
  then show ?case using n by simp
next
  case (JObj kvs)
  then obtain m where n: "n = Suc m" by (cases n) auto
  have "dec_members m (concat (map (\<lambda>(k, v). quote_text k @ enc v) kvs) @ CHR ''}'' # rest)
      = Some (kvs, rest)"
    using JObj n by (intro dec_members_enc) (auto simp: snds.simps)
  then show ?case using n by simp
next
  case (JNumber i)
  then show ?case by (cases n) (auto simp: unquote_quote)
qed (case_tac [!] n, auto simp: unquote_quote)

lemma sample_parse_enc: "sample_parse (enc v) = Some v"
  using dec_enc[of v "Suc (length (enc v))" "[]"] by (simp add: sample_parse_def)

section \<open>A clock\<close>

fun decimal :: "nat \<Rightarrow> int \<Rightarrow> string" where
  "decimal 0 m = []"
| "decimal (Suc w) m = char_of (48 + nat (m div 10 ^ w mod 10)) # decimal w (m mod 10 ^ w)"

fun weave :: "char option list \<Rightarrow> string \<Rightarrow> string" where
  "weave (Some c # p) ds = c # weave p ds"
| "weave (None # p) (d # ds) = d # weave p ds"
| "weave (None # p) [] = []"
| "weave [] ds = []"

definition clock_pattern :: "char option list" where
  "clock_pattern =
     [None, None, None, None, Some CHR ''-'', None, None, Some CHR ''-'', None, None,
      Some CHR ''T'', None, None, Some CHR '':'', None, None, Some CHR '':'', None, None,
      Some CHR ''.'', None, None, None, Some CHR ''Z'']"

definition sample_clock :: "int \<Rightarrow> string option" where
  "sample_clock m =
     (if 0 \<le> m \<and> m \<le> LAST_MILLIS then Some (weave clock_pattern (decimal 17 m)) else None)"

lemma length_decimal [simp]: "length (decimal w m) = w"
  by (induction w arbitrary: m) auto

lemma digit_char: "(d::nat) < 10 \<Longrightarrow> is_ascii_digit (char_of (48 + d))"
  by (simp add: is_ascii_digit_def less_eq_char_def)

lemma decimal_digits: "c \<in> set (decimal w m) \<Longrightarrow> is_ascii_digit c"
  by (induction w arbitrary: m) (auto simp: digit_char nat_less_iff)

lemma digit_char_less: "(c::nat) < d \<Longrightarrow> d < 10 \<Longrightarrow> (char_of (48 + c) :: char) < char_of (48 + d)"
  by (simp add: less_char_def)

lemma decimal_less: "0 \<le> m \<Longrightarrow> m < n \<Longrightarrow> n < 10 ^ w \<Longrightarrow> decimal w m < decimal w n"
proof (induction w arbitrary: m n)
  case (Suc w)
  let ?q = "\<lambda>m :: int. m div 10 ^ w mod 10"
  have n: "n div 10 ^ w < 10"
  proof (rule ccontr)
    assume "\<not> n div 10 ^ w < 10"
    then have "10 * 10 ^ w \<le> n div 10 ^ w * 10 ^ w" by (intro mult_right_mono) simp_all
    also have "\<dots> \<le> n" using div_mult_mod_eq[of n "10 ^ w"] by (simp add: minus_mod_eq_div_mult[symmetric])
    finally show False using Suc.prems by simp
  qed
  have le: "m div 10 ^ w \<le> n div 10 ^ w" using Suc.prems by (simp add: zdiv_mono1)
  have m: "0 \<le> m div 10 ^ w" using Suc.prems by (simp add: pos_imp_zdiv_nonneg_iff)
  have qm: "?q m = m div 10 ^ w" and qn: "?q n = n div 10 ^ w"
    using m n le by simp_all
  show ?case
  proof (cases "m div 10 ^ w = n div 10 ^ w")
    case True
    have "m mod 10 ^ w < n mod 10 ^ w"
      using Suc.prems(2) True div_mult_mod_eq[of m "10 ^ w"] div_mult_mod_eq[of n "10 ^ w"]
      by (metis add_less_cancel_left)
    then have "decimal w (m mod 10 ^ w) < decimal w (n mod 10 ^ w)"
      by (intro Suc.IH) auto
    with True qm qn show ?thesis by (simp add: True)
  next
    case False
    with le have "m div 10 ^ w < n div 10 ^ w" by simp
    then have "nat (?q m) < nat (?q n)" "nat (?q n) < 10" unfolding qm qn using m n by simp_all
    then have "(char_of (48 + nat (?q m)) :: char) < char_of (48 + nat (?q n))"
      by (rule digit_char_less)
    then show ?thesis by simp
  qed
qed simp

lemma weave_less: "ds < es \<Longrightarrow> length ds = length es \<Longrightarrow> length (filter Option.is_none p) = length ds
    \<Longrightarrow> weave p ds < weave p es"
proof (induction p ds arbitrary: es rule: weave.induct)
  case (2 p d ds)
  then obtain e es' where "es = e # es'" by (cases es) auto
  with 2 show ?case by auto
qed auto

lemma sample_clock_form: "sample_clock m = Some t \<Longrightarrow> clock_form t"
proof -
  assume "sample_clock m = Some t"
  then have t: "t = weave clock_pattern (decimal 17 m)"
    by (auto simp: sample_clock_def split: if_splits)
  obtain a b c d e f g h i j k l n p q r s
    where ds: "decimal 17 m = [a, b, c, d, e, f, g, h, i, j, k, l, n, p, q, r, s]"
    using length_decimal[of 17 m]
    by (auto simp: eval_nat_numeral length_Suc_conv simp del: decimal.simps length_decimal)
  have "\<forall>c\<in>set (decimal 17 m). is_ascii_digit c" using decimal_digits by blast
  then show ?thesis
    unfolding t ds by (simp add: clock_pattern_def clock_form_def glob_digits_def)
qed

lemma sample_clock_mono:
  "sample_clock m = Some s \<Longrightarrow> sample_clock n = Some t \<Longrightarrow> m < n \<Longrightarrow> s < t"
  by (auto simp: sample_clock_def LAST_MILLIS_def clock_pattern_def split: if_splits
      intro!: weave_less decimal_less simp del: decimal.simps)

section \<open>The sample\<close>

definition sample :: ext where
  "sample = \<lparr>ulid_text = (\<lambda>u. replicate (unat u) CHR ''U''),
             ulid_parse = (\<lambda>s. Some (of_nat (length s))),
             json_text = enc,
             json_parse = sample_parse,
             json_valid = (\<lambda>s. sample_parse s \<noteq> None),
             json_type = (\<lambda>s. map_option (\<lambda>v. case v of JObj _ \<Rightarrow> ''object'' | _ \<Rightarrow> ''text'') (sample_parse s)),
             strftime_millis = sample_clock,
             sha256 = (\<lambda>s. replicate 31 0 @ [of_nat (length s)])\<rparr>"

lemma lawful_sample: "lawful sample"
  unfolding lawful_def
proof (intro conjI)
  show "lawful_ulid sample" by (simp add: lawful_ulid_def sample_def)
  show "lawful_json sample" by (simp add: lawful_json_def sample_def sample_parse_enc del: enc.simps)
  show "lawful_clock sample"
    using sample_clock_form sample_clock_mono
    by (auto simp: lawful_clock_def sample_def) (auto simp: sample_clock_def split: if_splits)
  show "lawful_sha sample" by (simp add: lawful_sha_def sample_def)
qed

end
