(* ===== verification/Journal.thy ===== *)
theory Journal
  imports Sample_Ext
begin

text \<open>
  The journal, \<open>crates/maestro-kernel/src/journal/\<close>: events recorded with the next sequence of
  their stream (\<open>event.rs\<close>), read back through the scopes of a reader, the cursors of consumers
  (\<open>cursor.rs\<close>), the CloudEvents envelope (\<open>envelope.rs\<close>) and the catalogue of public events
  (\<open>knowledge.rs\<close>). The guards of the table are those of \<open>migrations/0002_journal.sql\<close>.
\<close>

section \<open>Events (journal/event.rs)\<close>

definition SETTING_CHANGED :: string where
  "SETTING_CHANGED = ''maestro.kernel.setting.changed.v1''"

record event =
  ev_id :: ulid
  ev_stream :: string
  ev_sequence :: nat
  ev_type :: string
  ev_subject :: string
  ev_scope :: string
  ev_time :: string
  ev_data :: json

record new_event =
  ne_stream :: string
  ne_type :: string
  ne_subject :: string
  ne_scope :: string
  ne_data :: json

record event_filter =
  fi_stream :: string
  fi_after :: nat
  fi_type :: "string option"

datatype journal_error =
    Backwards string string nat nat
  | PastEnd string string nat nat
  | JournalStore store_error

text \<open>Columns are decoded in the order of the struct's fields.\<close>

definition event_row :: "ext \<Rightarrow> event_record \<Rightarrow> sqlite_error + event" where
  "event_row x row =
     and_then (ok_or (FromSqlConversionFailure 0) (ulid_parse x (er_id row))) (\<lambda>id.
     and_then (unsigned_i64 (er_sequence row) 2) (\<lambda>sequence.
     and_then (ok_or (FromSqlConversionFailure 7) (json_parse x (er_data row))) (\<lambda>data.
       Inr \<lparr>ev_id = id, ev_stream = er_stream row, ev_sequence = sequence,
            ev_type = er_type row, ev_subject = er_subject row, ev_scope = er_scope row,
            ev_time = er_time row, ev_data = data\<rparr>)))"

text \<open>
  The insert's guards: the trigger that never lets an event be replaced, and the CHECKs of the
  table. No statement updates or deletes an event: its triggers refuse both.
\<close>

definition insert_event ::
  "ext \<Rightarrow> event_record \<Rightarrow> event_record list \<Rightarrow> sqlite_error + event_record list" where
  "insert_event x row events =
     (if list_ex (\<lambda>e. er_id e = er_id row) events
         \<or> list_ex (\<lambda>e. er_stream e = er_stream row \<and> er_sequence e = er_sequence row) events
      then Inl (ConstraintViolation ''events_are_never_replaced'')
      else if \<not> 1 \<le> er_sequence row then Inl (ConstraintViolation ''sequence >= 1'')
      else if \<not> json_valid x (er_data row) then Inl (ConstraintViolation ''json_valid(data)'')
      else Inr (events @ [row]))"

definition stream_sequences :: "string \<Rightarrow> event_record list \<Rightarrow> int list" where
  "stream_sequences stream events = map er_sequence (filter (\<lambda>e. er_stream e = stream) events)"

text \<open>
  \<open>record\<close>, inside a transaction: the \<open>i\<close>-th event the call records, whose ULID and time the
  call draws.
\<close>

definition record_event ::
  "ext \<Rightarrow> draws \<Rightarrow> nat \<Rightarrow> new_event \<Rightarrow> kernel \<Rightarrow> store_error + event \<times> kernel" where
  "record_event x d i event k =
     (case List.find (\<lambda>(text, _). text = [])
             [(ne_type event, TypeAttribute), (ne_subject event, SubjectAttribute)] of
        Some (_, attribute) \<Rightarrow> Inl (Sqlite (ToSqlConversionFailure (EmptyAttribute attribute)))
      | None \<Rightarrow>
          and_then
            (map_err (\<lambda>invalid. Sqlite (ToSqlConversionFailure (InvalidScopeCause invalid)))
               (scope_from_str (ne_scope event))) (\<lambda>scope.
          map_err Sqlite
            (and_then (strict_integer (coalesce_max (stream_sequences (ne_stream event) (k_events k)) + 1))
              (\<lambda>sequence.
                let row = \<lparr>er_id = ulid_text x (d_event d i), er_stream = ne_stream event,
                           er_sequence = sequence, er_type = ne_type event,
                           er_subject = ne_subject event, er_scope = as_str scope,
                           er_time = d_event_time d i, er_data = json_text x (ne_data event)\<rparr> in
                and_then (insert_event x row (k_events k)) (\<lambda>events.
                and_then (event_row x row) (\<lambda>recorded.
                  Inr (recorded, k\<lparr>k_events := events\<rparr>)))))))"

text \<open>\<open>Database::record\<close>: a write of its own.\<close>

definition journal_record ::
  "ext \<Rightarrow> draws \<Rightarrow> new_event \<Rightarrow> kernel \<Rightarrow> (journal_error + event) \<times> kernel" where
  "journal_record x d event =
     db_write (\<lambda>k. map_err JournalStore (record_event x d 0 event k))"

definition selects_event :: "event_filter \<Rightarrow> scope_set \<Rightarrow> event_record \<Rightarrow> bool" where
  "selects_event flt scopes row \<longleftrightarrow>
     er_stream row = fi_stream flt
     \<and> er_sequence row > min (int (fi_after flt)) I64_MAX
     \<and> (case fi_type flt of None \<Rightarrow> True | Some t \<Rightarrow> er_type row = t)
     \<and> er_type row \<noteq> SETTING_CHANGED
     \<and> condition (er_scope row) (parameter scopes)"

text \<open>\<open>Database::events\<close>.\<close>

definition events_read ::
  "ext \<Rightarrow> scope_set \<Rightarrow> event_filter \<Rightarrow> kernel \<Rightarrow> journal_error + event list" where
  "events_read x scopes flt k =
     map_err (\<lambda>e. JournalStore (Sqlite e))
       (collect_results (map (event_row x)
          (sort_key er_sequence (filter (selects_event flt scopes) (k_events k)))))"

section \<open>Cursors (journal/cursor.rs)\<close>

definition stored_position :: "string \<Rightarrow> string \<Rightarrow> kernel \<Rightarrow> store_error + nat" where
  "stored_position consumer stream k =
     map_err Sqlite
       (and_then
         (optional (query_row (\<lambda>row. unsigned_i64 (cr_position row) 0)
            (filter (\<lambda>c. cr_consumer c = consumer \<and> cr_stream c = stream) (k_cursors k))))
         (\<lambda>found. Inr (case found of None \<Rightarrow> 0 | Some position \<Rightarrow> position)))"

definition last_sequence :: "string \<Rightarrow> kernel \<Rightarrow> store_error + nat" where
  "last_sequence stream k =
     map_err Sqlite (unsigned_i64 (coalesce_max (stream_sequences stream (k_events k))) 0)"

text \<open>The upsert: the row of the key is updated where there is one.\<close>

definition upsert_cursor :: "cursor_record \<Rightarrow> cursor_record list \<Rightarrow> sqlite_error + cursor_record list" where
  "upsert_cursor row cursors =
     (if \<not> 0 \<le> cr_position row then Inl (ConstraintViolation ''position >= 0'')
      else if list_ex (\<lambda>c. cr_consumer c = cr_consumer row \<and> cr_stream c = cr_stream row) cursors
      then Inr (map (\<lambda>c. if cr_consumer c = cr_consumer row \<and> cr_stream c = cr_stream row
                         then c\<lparr>cr_position := cr_position row, cr_updated_at := cr_updated_at row\<rparr>
                         else c) cursors)
      else Inr (cursors @ [row]))"

definition cursor_read :: "string \<Rightarrow> string \<Rightarrow> kernel \<Rightarrow> journal_error + nat" where
  "cursor_read consumer stream k = map_err JournalStore (stored_position consumer stream k)"

definition ack ::
  "draws \<Rightarrow> string \<Rightarrow> string \<Rightarrow> nat \<Rightarrow> kernel \<Rightarrow> (journal_error + unit) \<times> kernel" where
  "ack d consumer stream position =
     db_write (\<lambda>k.
       and_then (map_err JournalStore (last_sequence stream k)) (\<lambda>last.
       if position > last then Inl (PastEnd consumer stream position last)
       else
         and_then (map_err JournalStore (stored_position consumer stream k)) (\<lambda>current.
         if position < current then Inl (Backwards consumer stream position current)
         else if position = current then Inr ((), k)
         else
           and_then
             (map_err (\<lambda>e. JournalStore (Sqlite e))
                (upsert_cursor
                   \<lparr>cr_consumer = consumer, cr_stream = stream,
                    cr_position = min (int position) I64_MAX, cr_updated_at = d_now d\<rparr>
                   (k_cursors k)))
             (\<lambda>cursors. Inr ((), k\<lparr>k_cursors := cursors\<rparr>)))))"

section \<open>Envelopes (journal/envelope.rs, journal/knowledge.rs)\<close>

definition SPECVERSION :: string where "SPECVERSION = ''1.0''"
definition DATACONTENTTYPE :: string where "DATACONTENTTYPE = ''application/json''"
definition SCHEMAS :: string where "SCHEMAS = ''maestro://schemas/events/''"

datatype machine = Machine string

datatype invalid_machine = InvalidMachine string

definition unreserved :: "char \<Rightarrow> bool" where
  "unreserved c \<longleftrightarrow> is_ascii_alphanumeric c \<or> c \<in> set ''-._~''"

definition machine_parse :: "string \<Rightarrow> invalid_machine + machine" where
  "machine_parse name =
     (if name \<noteq> [] \<and> list_all unreserved name then Inr (Machine name)
      else Inl (InvalidMachine name))"

record public_event =
  pe_type :: string
  pe_schema :: string

definition IMPORT_COMPLETED :: string where
  "IMPORT_COMPLETED = ''maestro.knowledge.import.completed.v1''"
definition REVISION_HELD :: string where
  "REVISION_HELD = ''maestro.knowledge.revision.held.v1''"
definition GENERATION_PUBLISHED :: string where
  "GENERATION_PUBLISHED = ''maestro.knowledge.generation.published.v1''"
definition GENERATION_RETIRED :: string where
  "GENERATION_RETIRED = ''maestro.knowledge.generation.retired.v1''"

definition PUBLIC_EVENTS :: "public_event list" where
  "PUBLIC_EVENTS =
     [\<lparr>pe_type = IMPORT_COMPLETED, pe_schema = ''knowledge.import.completed/1''\<rparr>,
      \<lparr>pe_type = REVISION_HELD, pe_schema = ''knowledge.revision.held/1''\<rparr>,
      \<lparr>pe_type = GENERATION_PUBLISHED, pe_schema = ''knowledge.generation.published/1''\<rparr>,
      \<lparr>pe_type = GENERATION_RETIRED, pe_schema = ''knowledge.generation.retired/1''\<rparr>]"

definition knowledge_stream :: "string \<Rightarrow> string" where
  "knowledge_stream collection = ''collection/'' @ collection"

record envelope =
  en_specversion :: string
  en_id :: string
  en_source :: string
  en_type :: string
  en_subject :: string
  en_time :: string
  en_datacontenttype :: string
  en_dataschema :: "string option"
  en_scope :: string
  en_stream :: string
  en_sequence :: nat
  en_traceparent :: "string option"
  en_data :: json

definition envelope_new :: "ext \<Rightarrow> event \<Rightarrow> machine \<Rightarrow> envelope" where
  "envelope_new x event machine =
     (let dataschema = map_option (\<lambda>public. SCHEMAS @ pe_schema public)
                         (List.find (\<lambda>public. pe_type public = ev_type event) PUBLIC_EVENTS) in
      \<lparr>en_specversion = SPECVERSION,
       en_id = ulid_text x (ev_id event),
       en_source = ''maestro://'' @ (case machine of Machine name \<Rightarrow> name) @ ''/kernel'',
       en_type = ev_type event, en_subject = ev_subject event, en_time = ev_time event,
       en_datacontenttype = DATACONTENTTYPE, en_dataschema = dataschema,
       en_scope = ev_scope event, en_stream = ev_stream event,
       en_sequence = ev_sequence event, en_traceparent = None, en_data = ev_data event\<rparr>)"

section \<open>The invariant of the journal\<close>

text \<open>
  Every stream is numbered from 1 without a gap, in the order of the table; no ULID is taken
  twice; every row reads back, and belongs to a scope of the access tree.
\<close>

definition event_row_ok :: "ext \<Rightarrow> event_record \<Rightarrow> bool" where
  "event_row_ok x row \<longleftrightarrow>
     (\<exists>e. event_row x row = Inr e) \<and> er_type row \<noteq> [] \<and> er_subject row \<noteq> []
     \<and> (\<exists>s. scope_from_str (er_scope row) = Inr s) \<and> json_valid x (er_data row)
     \<and> er_sequence row \<le> I64_MAX"

definition numbered :: "int list \<Rightarrow> bool" where
  "numbered sequences \<longleftrightarrow> sequences = [1..int (length sequences)]"

definition journal_ok :: "ext \<Rightarrow> kernel \<Rightarrow> bool" where
  "journal_ok x k \<longleftrightarrow>
     distinct (map er_id (k_events k))
     \<and> (\<forall>stream. numbered (stream_sequences stream (k_events k)))
     \<and> list_all (event_row_ok x) (k_events k)"

definition stream_length :: "string \<Rightarrow> kernel \<Rightarrow> nat" where
  "stream_length stream k = length (stream_sequences stream (k_events k))"

text \<open>Each consumer has one cursor on a stream at most, at an event the stream has.\<close>

definition cursors_ok :: "kernel \<Rightarrow> bool" where
  "cursors_ok k \<longleftrightarrow>
     distinct (map (\<lambda>c. (cr_consumer c, cr_stream c)) (k_cursors k))
     \<and> list_all (\<lambda>c. 1 \<le> cr_position c \<and> cr_position c \<le> int (stream_length (cr_stream c) k))
         (k_cursors k)"

text \<open>The row \<open>record_event\<close> inserts.\<close>

definition recorded_row :: "ext \<Rightarrow> draws \<Rightarrow> nat \<Rightarrow> new_event \<Rightarrow> event_record list \<Rightarrow> event_record" where
  "recorded_row x d i event events =
     \<lparr>er_id = ulid_text x (d_event d i), er_stream = ne_stream event,
      er_sequence = coalesce_max (stream_sequences (ne_stream event) events) + 1,
      er_type = ne_type event, er_subject = ne_subject event, er_scope = ne_scope event,
      er_time = d_event_time d i, er_data = json_text x (ne_data event)\<rparr>"

lemma recorded_row_simps [simp]:
  "er_id (recorded_row x d i event events) = ulid_text x (d_event d i)"
  "er_stream (recorded_row x d i event events) = ne_stream event"
  "er_sequence (recorded_row x d i event events) =
     coalesce_max (stream_sequences (ne_stream event) events) + 1"
  "er_type (recorded_row x d i event events) = ne_type event"
  "er_subject (recorded_row x d i event events) = ne_subject event"
  "er_scope (recorded_row x d i event events) = ne_scope event"
  "er_time (recorded_row x d i event events) = d_event_time d i"
  "er_data (recorded_row x d i event events) = json_text x (ne_data event)"
  by (simp_all add: recorded_row_def)

lemma insert_event_Inr [results]:
  "insert_event x row events = Inr events' \<longleftrightarrow>
     events' = events @ [row] \<and> er_id row \<notin> er_id ` set events
     \<and> er_sequence row \<notin> set (stream_sequences (er_stream row) events)
     \<and> 1 \<le> er_sequence row \<and> json_valid x (er_data row)"
  by (auto simp: insert_event_def list_ex_iff stream_sequences_def image_iff eq_commute)

lemma scope_from_str_self: "scope_from_str p = Inr s \<Longrightarrow> as_str s = p"
  by (auto simp: scope_from_str_Inr)

lemma record_event_Inr:
  "record_event x d i event k = Inr (e, k') \<longleftrightarrow>
     ne_type event \<noteq> [] \<and> ne_subject event \<noteq> []
     \<and> (\<exists>s. scope_from_str (ne_scope event) = Inr s)
     \<and> coalesce_max (stream_sequences (ne_stream event) (k_events k)) + 1 \<le> I64_MAX
     \<and> insert_event x (recorded_row x d i event (k_events k)) (k_events k)
         = Inr (k_events k @ [recorded_row x d i event (k_events k)])
     \<and> event_row x (recorded_row x d i event (k_events k)) = Inr e
     \<and> k' = k\<lparr>k_events := k_events k @ [recorded_row x d i event (k_events k)]\<rparr>"
proof -
  have row: "\<lparr>er_id = ulid_text x (d_event d i), er_stream = ne_stream event,
      er_sequence = coalesce_max (stream_sequences (ne_stream event) (k_events k)) + 1,
      er_type = ne_type event, er_subject = ne_subject event, er_scope = as_str s,
      er_time = d_event_time d i, er_data = json_text x (ne_data event)\<rparr>
    = recorded_row x d i event (k_events k)" if "scope_from_str (ne_scope event) = Inr s" for s
    using scope_from_str_self[OF that] by (simp add: recorded_row_def)
  have ins: "insert_event x r es = Inr es' \<Longrightarrow> es' = es @ [r]" for r es es'
    by (simp add: insert_event_Inr)
  show ?thesis
    by (auto simp: record_event_def results Let_def row dest: ins)
qed

lemma record_event_Inl:
  "record_event x d i event k = Inl e \<Longrightarrow> \<exists>s. e = Sqlite s"
  by (auto simp: record_event_def results split: option.splits)

lemma record_event_events:
  "record_event x d i event k = Inr (e, k') \<Longrightarrow>
     k_events k' = k_events k @ [recorded_row x d i event (k_events k)]"
  by (simp add: record_event_Inr)

lemma stream_sequences_append:
  "stream_sequences s (xs @ ys) = stream_sequences s xs @ stream_sequences s ys"
  by (simp add: stream_sequences_def)

lemma numbered_max: "numbered ns \<Longrightarrow> coalesce_max ns = int (length ns)"
  by (metis coalesce_max_upto numbered_def)

lemma numbered_snoc: "numbered ns \<Longrightarrow> numbered (ns @ [int (length ns) + 1])"
  by (simp add: numbered_def upto_rec2)

lemma numbered_distinct: "numbered ns \<Longrightarrow> distinct ns \<and> sorted ns"
  by (metis numbered_def distinct_upto sorted_upto)

lemma numbered_set: "numbered ns \<Longrightarrow> n \<in> set ns \<longleftrightarrow> 1 \<le> n \<and> n \<le> int (length ns)"
  by (metis atLeastAtMost_iff numbered_def set_upto)

lemma journal_ok_sequence:
  "journal_ok x k \<Longrightarrow>
     coalesce_max (stream_sequences stream (k_events k)) = int (stream_length stream k)"
  by (simp add: journal_ok_def numbered_max stream_length_def)

lemma record_event_ok:
  assumes ok: "journal_ok x k" and r: "record_event x d i event k = Inr (e, k')"
  shows "journal_ok x k'"
proof -
  let ?row = "recorded_row x d i event (k_events k)"
  note facts = r[unfolded record_event_Inr insert_event_Inr]
  have seqs: "numbered (stream_sequences s (k_events k @ [?row]))" for s
  proof (cases "ne_stream event = s")
    case True
    have "numbered (stream_sequences s (k_events k))" using ok by (simp add: journal_ok_def)
    with True show ?thesis
      using numbered_snoc numbered_max
      by (simp add: stream_sequences_append stream_sequences_def[of s "[?row]"])
  next
    case False
    with ok show ?thesis
      by (simp add: stream_sequences_append stream_sequences_def[of s "[?row]"] journal_ok_def)
  qed
  have "event_row_ok x ?row" using facts by (auto simp: event_row_ok_def)
  with facts ok seqs show ?thesis by (auto simp: journal_ok_def)
qed

text \<open>What every operation of the kernel does to the journal: it keeps its rows, and adds some.\<close>

definition journal_grows :: "kernel \<Rightarrow> kernel \<Rightarrow> bool" where
  "journal_grows k k' \<longleftrightarrow> prefix (k_events k) (k_events k')"

lemma journal_grows_refl [intro]: "journal_grows k k"
  by (simp add: journal_grows_def)

lemma journal_grows_trans: "journal_grows a b \<Longrightarrow> journal_grows b c \<Longrightarrow> journal_grows a c"
  by (simp add: journal_grows_def)

lemma journal_grows_event: "record_event x d i event k = Inr (e, k') \<Longrightarrow> journal_grows k k'"
  by (simp add: journal_grows_def record_event_events)

lemma stream_length_grows: "journal_grows k k' \<Longrightarrow> stream_length s k \<le> stream_length s k'"
  by (auto simp: journal_grows_def stream_length_def stream_sequences_append elim!: prefixE)

lemma journal_ok_same: "k_events k' = k_events k \<Longrightarrow> journal_ok x k' = journal_ok x k"
  by (simp add: journal_ok_def)

lemma cursors_ok_grows:
  assumes "cursors_ok k" and "k_cursors k' = k_cursors k" and "journal_grows k k'"
  shows "cursors_ok k'"
proof -
  have "int (stream_length s k) \<le> int (stream_length s k')" for s
    using assms(3) stream_length_grows by simp
  with assms(1,2) show ?thesis
    by (fastforce simp: cursors_ok_def list_all_iff intro: order_trans)
qed

section \<open>What a reader gets\<close>

lemma selected_sorted:
  assumes "journal_ok x k"
  shows "sort_key er_sequence (filter (selects_event f scopes) (k_events k))
    = filter (selects_event f scopes) (k_events k)"
proof -
  have "sorted (map er_sequence (filter (\<lambda>e. er_stream e = fi_stream f) (k_events k)))"
    using assms numbered_distinct[of "stream_sequences (fi_stream f) (k_events k)"]
    by (simp add: journal_ok_def stream_sequences_def)
  then have "sorted (map er_sequence (filter (selects_event f scopes)
      (filter (\<lambda>e. er_stream e = fi_stream f) (k_events k))))"
    by (rule sorted_filter)
  moreover have "filter (selects_event f scopes) (filter (\<lambda>e. er_stream e = fi_stream f) (k_events k))
      = filter (selects_event f scopes) (k_events k)"
    by (rule filter_filter[THEN trans]) (auto intro: filter_cong simp: selects_event_def)
  ultimately show ?thesis by (simp add: sorted_sort_id sort_key_id_if_sorted)
qed

definition the_event :: "ext \<Rightarrow> event_record \<Rightarrow> event" where
  "the_event x row = (case event_row x row of Inr e \<Rightarrow> e | Inl _ \<Rightarrow> undefined)"

lemma event_row_the: "event_row_ok x row \<Longrightarrow> event_row x row = Inr (the_event x row)"
  by (auto simp: event_row_ok_def the_event_def)

lemma event_row_fields:
  "event_row x row = Inr e \<Longrightarrow>
     ev_stream e = er_stream row \<and> int (ev_sequence e) = er_sequence row \<and> ev_type e = er_type row
     \<and> ev_subject e = er_subject row \<and> ev_scope e = er_scope row \<and> ev_time e = er_time row
     \<and> ulid_parse x (er_id row) = Some (ev_id e) \<and> json_parse x (er_data row) = Some (ev_data e)"
  by (auto simp: event_row_def results)

lemma events_read_ok:
  assumes "journal_ok x k"
  shows "events_read x scopes f k
    = Inr (map (the_event x) (filter (selects_event f scopes) (k_events k)))"
proof -
  have "collect_results (map (event_row x) (filter (selects_event f scopes) (k_events k)))
      = Inr (map (the_event x) (filter (selects_event f scopes) (k_events k)))"
    using assms
    by (intro collect_results_map_Inr) (auto simp: journal_ok_def list_all_iff event_row_the)
  then show ?thesis by (simp add: events_read_def selected_sorted[OF assms])
qed

lemma journal_ok_row: "journal_ok x k \<Longrightarrow> row \<in> set (k_events k) \<Longrightarrow> event_row_ok x row"
  by (simp add: journal_ok_def list_all_iff)

lemma journal_ok_position:
  assumes "journal_ok x k" and "row \<in> set (k_events k)"
  shows "1 \<le> er_sequence row \<and> er_sequence row \<le> int (stream_length (er_stream row) k)"
proof -
  have "er_sequence row \<in> set (stream_sequences (er_stream row) (k_events k))"
    using assms(2) by (auto simp: stream_sequences_def)
  then show ?thesis
    using assms(1) numbered_set by (simp add: journal_ok_def stream_length_def)
qed

text \<open>The rows of one stream, filtered, are in the order of their sequences, none twice.\<close>

lemma selected_strict:
  assumes "journal_ok x k"
  shows "sorted_wrt (<) (map er_sequence (filter (selects_event f scopes) (k_events k)))"
proof -
  have nums: "numbered (stream_sequences (fi_stream f) (k_events k))"
    using assms by (simp add: journal_ok_def)
  let ?rows = "filter (\<lambda>e. er_stream e = fi_stream f) (k_events k)"
  have "sorted (map er_sequence ?rows)" "distinct (map er_sequence ?rows)"
    using numbered_distinct[OF nums] by (simp_all add: stream_sequences_def)
  then have "sorted_wrt (<) (map er_sequence ?rows)" by (simp add: strict_sorted_iff)
  then have "sorted_wrt (<) (map er_sequence (filter (selects_event f scopes) ?rows))"
    unfolding sorted_wrt_map by (rule sorted_wrt_filter)
  also have "filter (selects_event f scopes) ?rows = filter (selects_event f scopes) (k_events k)"
    by (auto simp: selects_event_def intro: filter_cong)
  finally show ?thesis .
qed

lemma the_event_sequence:
  "event_row_ok x row \<Longrightarrow> int (ev_sequence (the_event x row)) = er_sequence row"
  using event_row_the event_row_fields by blast

lemma selected_event_sequences:
  assumes "journal_ok x k"
  shows "map (\<lambda>e. int (ev_sequence e))
      (map (the_event x) (filter (selects_event f scopes) (k_events k)))
    = map er_sequence (filter (selects_event f scopes) (k_events k))"
  using assms by (auto simp: journal_ok_row the_event_sequence)

lemma events_read_strict:
  assumes ok: "journal_ok x k" and r: "events_read x scopes f k = Inr evs"
  shows "sorted_wrt (<) (map ev_sequence evs)"
proof -
  have "evs = map (the_event x) (filter (selects_event f scopes) (k_events k))"
    using r events_read_ok[OF ok] by simp
  then have "sorted_wrt (<) (map (\<lambda>e. int (ev_sequence e)) evs)"
    by (simp only: selected_event_sequences[OF ok] selected_strict[OF ok])
  then show ?thesis by (simp add: sorted_wrt_map)
qed

section \<open>Cursors\<close>

text \<open>The cursors as a map from consumer and stream to position.\<close>

definition cursor_map :: "cursor_record list \<Rightarrow> string \<times> string \<rightharpoonup> int" where
  "cursor_map cursors = map_of (map (\<lambda>r. ((cr_consumer r, cr_stream r), cr_position r)) cursors)"

lemma cursor_map_simps [simp]:
  "cursor_map [] = Map.empty"
  "cursor_map (r # rs) = (cursor_map rs)((cr_consumer r, cr_stream r) \<mapsto> cr_position r)"
  by (simp_all add: cursor_map_def)

lemma stored_position_map:
  "stored_position c s k =
     (case cursor_map (k_cursors k) (c, s) of
        None \<Rightarrow> Inr 0
      | Some p \<Rightarrow> map_err Sqlite (unsigned_i64 p 0))"
proof -
  have "and_then
      (optional (query_row (\<lambda>row. unsigned_i64 (cr_position row) 0)
         (filter (\<lambda>r. cr_consumer r = c \<and> cr_stream r = s) cursors)))
      (\<lambda>found. Inr (case found of None \<Rightarrow> 0 | Some position \<Rightarrow> position))
    = (case cursor_map cursors (c, s) of None \<Rightarrow> Inr 0 | Some p \<Rightarrow> unsigned_i64 p 0)" for cursors
    by (induction cursors) (auto simp: optional_def unsigned_i64_def)
  then show ?thesis by (simp add: stored_position_def split: option.split)
qed

lemma cursor_map_mem:
  "cursor_map cursors (c, s) = Some p \<Longrightarrow>
     \<exists>r\<in>set cursors. cr_consumer r = c \<and> cr_stream r = s \<and> cr_position r = p"
  by (induction cursors) (auto split: if_splits)

lemma stored_position_ok:
  assumes "cursors_ok k"
  shows "\<exists>p. stored_position c s k = Inr p \<and> p \<le> stream_length s k"
proof (cases "cursor_map (k_cursors k) (c, s)")
  case (Some p)
  then obtain r where "r \<in> set (k_cursors k)" "cr_stream r = s" "cr_position r = p"
    using cursor_map_mem by blast
  with assms have "1 \<le> p" "p \<le> int (stream_length s k)"
    by (auto simp: cursors_ok_def list_all_iff)
  with Some show ?thesis by (simp add: stored_position_map unsigned_i64_def)
qed (simp add: stored_position_map)

lemma stored_position_same:
  "k_cursors k' = k_cursors k \<Longrightarrow> stored_position c s k' = stored_position c s k"
  by (simp add: stored_position_map)

lemma upsert_cursor_map:
  "upsert_cursor row cursors = Inr cursors' \<Longrightarrow>
     cursor_map cursors' = (cursor_map cursors)((cr_consumer row, cr_stream row) \<mapsto> cr_position row)"
proof -
  let ?k = "\<lambda>r. cr_consumer r = cr_consumer row \<and> cr_stream r = cr_stream row"
  let ?u = "\<lambda>r. if ?k r then r\<lparr>cr_position := cr_position row, cr_updated_at := cr_updated_at row\<rparr> else r"
  have hit: "cursor_map (map ?u cs)
      = (cursor_map cs)((cr_consumer row, cr_stream row) \<mapsto> cr_position row)" if "list_ex ?k cs" for cs
    using that
  proof (induction cs)
    case (Cons r cs)
    show ?case
    proof (cases "list_ex ?k cs")
      case True
      with Cons.IH show ?thesis by (auto simp: fun_eq_iff)
    next
      case False
      then have same: "map ?u cs = cs" by (intro map_idI) (auto simp: list_ex_iff)
      have "?k r" using Cons.prems False by simp
      then show ?thesis unfolding list.map same by (simp add: fun_eq_iff)
    qed
  qed simp
  have miss: "cursor_map (cs @ [row])
      = (cursor_map cs)((cr_consumer row, cr_stream row) \<mapsto> cr_position row)" if "\<not> list_ex ?k cs" for cs
    using that by (induction cs) (auto simp: fun_eq_iff)
  assume "upsert_cursor row cursors = Inr cursors'"
  then show ?thesis using hit miss by (auto simp: upsert_cursor_def split: if_splits)
qed

lemma upsert_cursor_total: "0 \<le> cr_position row \<Longrightarrow> \<exists>cursors'. upsert_cursor row cursors = Inr cursors'"
  by (simp add: upsert_cursor_def)

lemma upsert_cursor_keys:
  assumes "upsert_cursor row cursors = Inr cursors'"
    and "distinct (map (\<lambda>c. (cr_consumer c, cr_stream c)) cursors)"
  shows "distinct (map (\<lambda>c. (cr_consumer c, cr_stream c)) cursors')
    \<and> (\<forall>c\<in>set cursors'. (c \<in> set cursors) \<or>
         (cr_consumer c = cr_consumer row \<and> cr_stream c = cr_stream row \<and> cr_position c = cr_position row))"
proof (cases "list_ex (\<lambda>c. cr_consumer c = cr_consumer row \<and> cr_stream c = cr_stream row) cursors")
  case True
  then have eq: "cursors' = map (\<lambda>c. if cr_consumer c = cr_consumer row \<and> cr_stream c = cr_stream row
      then c\<lparr>cr_position := cr_position row, cr_updated_at := cr_updated_at row\<rparr> else c) cursors"
    using assms(1) by (auto simp: upsert_cursor_def split: if_splits)
  have "map (\<lambda>c. (cr_consumer c, cr_stream c)) cursors' = map (\<lambda>c. (cr_consumer c, cr_stream c)) cursors"
    unfolding eq by (simp add: comp_def if_distrib[of cr_consumer] if_distrib[of cr_stream] cong: if_cong)
  then have "distinct (map (\<lambda>c. (cr_consumer c, cr_stream c)) cursors')" using assms(2) by (simp only:)
  then show ?thesis by (auto simp: eq)
next
  case False
  then have "cursors' = cursors @ [row]" using assms(1) by (auto simp: upsert_cursor_def split: if_splits)
  with False assms(2) show ?thesis by (auto simp: list_ex_iff)
qed

lemma last_sequence_ok: "journal_ok x k \<Longrightarrow> last_sequence s k = Inr (stream_length s k)"
  by (simp add: last_sequence_def journal_ok_sequence unsigned_i64_def)

lemma journal_ok_length: "journal_ok x k \<Longrightarrow> int (stream_length s k) \<le> I64_MAX"
proof -
  assume ok: "journal_ok x k"
  show ?thesis
  proof (cases "stream_length s k = 0")
    case True
    then show ?thesis by (simp add: I64_MAX_def)
  next
    case False
    have "numbered (stream_sequences s (k_events k))" using ok by (simp add: journal_ok_def)
    with False have "int (stream_length s k) \<in> set (stream_sequences s (k_events k))"
      by (simp add: numbered_set stream_length_def Suc_le_eq)
    then obtain row where "row \<in> set (k_events k)" "er_sequence row = int (stream_length s k)"
      by (auto simp: stream_sequences_def)
    moreover from this have "er_sequence row \<le> I64_MAX"
      using journal_ok_row[OF ok, of row] by (simp add: event_row_ok_def)
    ultimately show ?thesis by simp
  qed
qed

text \<open>What an ack does, on tables that obey the invariants.\<close>

lemma ack_cases:
  assumes ok: "journal_ok x k" "cursors_ok k" and current: "stored_position c s k = Inr current"
  shows "position > stream_length s k \<Longrightarrow>
      ack d c s position k = (Inl (PastEnd c s position (stream_length s k)), k)"
    and "position \<le> stream_length s k \<Longrightarrow> position < current \<Longrightarrow>
      ack d c s position k = (Inl (Backwards c s position current), k)"
    and "position = current \<Longrightarrow> ack d c s position k = (Inr (), k)"
    and "position \<le> stream_length s k \<Longrightarrow> current < position \<Longrightarrow>
      \<exists>cursors. ack d c s position k = (Inr (), k\<lparr>k_cursors := cursors\<rparr>)
        \<and> cursor_map cursors = (cursor_map (k_cursors k))((c, s) \<mapsto> int position)
        \<and> cursors_ok (k\<lparr>k_cursors := cursors\<rparr>)"
proof -
  note last = last_sequence_ok[OF ok(1), of s]
  obtain p where "stored_position c s k = Inr p" "p \<le> stream_length s k"
    using stored_position_ok[OF ok(2)] by blast
  with current have le: "current \<le> stream_length s k" by simp
  show "position > stream_length s k \<Longrightarrow>
      ack d c s position k = (Inl (PastEnd c s position (stream_length s k)), k)"
    by (simp add: ack_def db_write_def last)
  show "position \<le> stream_length s k \<Longrightarrow> position < current \<Longrightarrow>
      ack d c s position k = (Inl (Backwards c s position current), k)"
    by (simp add: ack_def db_write_def last current)
  show "position = current \<Longrightarrow> ack d c s position k = (Inr (), k)"
    using le by (simp add: ack_def db_write_def last current)
  assume pos: "position \<le> stream_length s k" "current < position"
  let ?row = "\<lparr>cr_consumer = c, cr_stream = s, cr_position = min (int position) I64_MAX,
      cr_updated_at = d_now d\<rparr>"
  have min: "min (int position) I64_MAX = int position"
    using pos(1) journal_ok_length[OF ok(1), of s] by simp
  obtain cursors where up: "upsert_cursor ?row (k_cursors k) = Inr cursors"
    using upsert_cursor_total[of ?row] min by auto
  have "cursors_ok (k\<lparr>k_cursors := cursors\<rparr>)"
    using upsert_cursor_keys[OF up] ok(2) pos min
    by (fastforce simp: cursors_ok_def list_all_iff stream_length_def)
  moreover have "cursor_map cursors = (cursor_map (k_cursors k))((c, s) \<mapsto> int position)"
    using upsert_cursor_map[OF up] min by simp
  moreover have "ack d c s position k = (Inr (), k\<lparr>k_cursors := cursors\<rparr>)"
    using pos up by (simp add: ack_def db_write_def last current)
  ultimately show "\<exists>cursors. ack d c s position k = (Inr (), k\<lparr>k_cursors := cursors\<rparr>)
        \<and> cursor_map cursors = (cursor_map (k_cursors k))((c, s) \<mapsto> int position)
        \<and> cursors_ok (k\<lparr>k_cursors := cursors\<rparr>)" by blast
qed

lemma ack_keeps:
  assumes ok: "journal_ok x k" "cursors_ok k"
  shows "k_events (snd (ack d c s position k)) = k_events k
    \<and> cursors_ok (snd (ack d c s position k))
    \<and> (\<forall>key p. cursor_map (k_cursors k) key = Some p \<longrightarrow>
         (\<exists>q\<ge>p. cursor_map (k_cursors (snd (ack d c s position k))) key = Some q))"
proof -
  obtain current where current: "stored_position c s k = Inr current"
    using stored_position_ok[OF ok(2)] by blast
  note cases = ack_cases[OF ok current, where position = position and d = d]
  consider "position > stream_length s k" | "position \<le> stream_length s k" "position < current"
    | "position = current" | "position \<le> stream_length s k" "current < position" by linarith
  then show ?thesis
  proof cases
    case 4
    obtain cursors where a: "ack d c s position k = (Inr (), k\<lparr>k_cursors := cursors\<rparr>)"
      and m: "cursor_map cursors = (cursor_map (k_cursors k))((c, s) \<mapsto> int position)"
      and k: "cursors_ok (k\<lparr>k_cursors := cursors\<rparr>)" using cases(4)[OF 4] by blast
    have "p \<le> int position" if "cursor_map (k_cursors k) (c, s) = Some p" for p
      using current that 4 by (auto simp: stored_position_map unsigned_i64_def split: if_splits)
    then show ?thesis unfolding a using k m by auto
  qed (use ok cases in auto)
qed

section \<open>Properties\<close>

text \<open>The event a record returns, when everything it carries is readable.\<close>

lemma recorded_event:
  assumes "lawful x" and "plain_json READABLE_DEPTH (ne_data event)" and ok: "journal_ok x k"
  shows "event_row x (recorded_row x d i event (k_events k))
    = Inr \<lparr>ev_id = d_event d i, ev_stream = ne_stream event,
           ev_sequence = stream_length (ne_stream event) k + 1, ev_type = ne_type event,
           ev_subject = ne_subject event, ev_scope = ne_scope event,
           ev_time = d_event_time d i, ev_data = ne_data event\<rparr>"
  using lawful_readable[OF assms(1,2)] lawful_ulid_text[OF assms(1)] journal_ok_sequence[OF ok]
  by (simp add: event_row_def unsigned_i64_def nat_add_distrib)

text \<open>When the insert of a readable event is taken.\<close>

lemma insert_recorded:
  assumes "lawful x" and "plain_json READABLE_DEPTH (ne_data event)" and ok: "journal_ok x k"
  shows "insert_event x (recorded_row x d i event (k_events k)) (k_events k)
      = Inr (k_events k @ [recorded_row x d i event (k_events k)])
    \<longleftrightarrow> ulid_text x (d_event d i) \<notin> er_id ` set (k_events k)"
proof -
  have nums: "numbered (stream_sequences (ne_stream event) (k_events k))"
    using ok by (simp add: journal_ok_def)
  show ?thesis
    using lawful_readable[OF assms(1,2)] numbered_set[OF nums] numbered_max[OF nums]
    by (simp add: insert_event_Inr)
qed

text \<open>
  An event is recorded exactly when its type and subject are not empty, its scope is a
  path of the access tree, its ULID is new and its stream is not full; it then takes the place
  after the last of its stream, its row is appended and nothing else of the database changes,
  and what the caller gets back is what it gave.
\<close>

theorem record_appends:
  assumes "lawful x" and "plain_json READABLE_DEPTH (ne_data event)" and "journal_ok x k"
  shows "journal_record x d event k = (Inr e, k') \<longleftrightarrow>
    ne_type event \<noteq> [] \<and> ne_subject event \<noteq> [] \<and> (\<exists>s. scope_from_str (ne_scope event) = Inr s)
    \<and> ulid_text x (d_event d 0) \<notin> er_id ` set (k_events k)
    \<and> int (stream_length (ne_stream event) k) < I64_MAX
    \<and> e = \<lparr>ev_id = d_event d 0, ev_stream = ne_stream event,
           ev_sequence = stream_length (ne_stream event) k + 1, ev_type = ne_type event,
           ev_subject = ne_subject event, ev_scope = ne_scope event,
           ev_time = d_event_time d 0, ev_data = ne_data event\<rparr>
    \<and> k' = k\<lparr>k_events := k_events k @ [recorded_row x d 0 event (k_events k)]\<rparr>"
  unfolding journal_record_def db_write_Inr map_err_Inr record_event_Inr
    insert_recorded[OF assms] recorded_event[OF assms] journal_ok_sequence[OF assms(3)]
  by auto

text \<open>The smallest database with a row in its journal, which the witnesses start from.\<close>

definition sample_draws :: "nat \<Rightarrow> draws" where
  "sample_draws n = \<lparr>d_job = of_nat n, d_event = (\<lambda>i. of_nat (10 * n + i)),
     d_event_time = (\<lambda>i. ''now''), d_now = ''now''\<rparr>"

definition sample_event :: new_event where
  "sample_event = \<lparr>ne_stream = ''s'', ne_type = ''t'', ne_subject = ''s'',
     ne_scope = ''workspace/default'', ne_data = JNumber 2\<rparr>"

definition sample_journal :: kernel where
  "sample_journal = snd (journal_record sample (sample_draws 0) sample_event empty_kernel)"

lemma journal_ok_empty: "journal_ok x empty_kernel"
  by (simp add: journal_ok_def empty_kernel_def stream_sequences_def numbered_def)

lemma cursors_ok_empty: "cursors_ok empty_kernel"
  by (simp add: cursors_ok_def empty_kernel_def)

lemma journal_record_ok: "journal_ok x k \<Longrightarrow> journal_ok x (snd (journal_record x d event k))"
  by (cases "record_event x d 0 event k")
    (auto simp: journal_record_def db_write_def intro: record_event_ok)

lemma sample_journal_ok: "journal_ok sample sample_journal"
  unfolding sample_journal_def by (rule journal_record_ok[OF journal_ok_empty])

lemma sample_journal_event:
  "fst (journal_record sample (sample_draws 0) sample_event empty_kernel) =
     Inr \<lparr>ev_id = 0, ev_stream = ''s'', ev_sequence = 1, ev_type = ''t'', ev_subject = ''s'',
          ev_scope = ''workspace/default'', ev_time = ''now'', ev_data = JNumber 2\<rparr>"
  by code_simp

lemma record_appends_witness:
  "(\<exists>e k'. journal_record sample (sample_draws 0) sample_event empty_kernel = (Inr e, k'))
   \<and> (\<forall>e k'. journal_record sample (sample_draws 0) (sample_event\<lparr>ne_subject := []\<rparr>) empty_kernel
       \<noteq> (Inr e, k'))"
proof (intro conjI allI)
  have "scope_from_str ''workspace/default'' = Inr (Scope ''workspace/default'')" by code_simp
  then show "\<exists>e k'. journal_record sample (sample_draws 0) sample_event empty_kernel = (Inr e, k')"
    by (subst record_appends[OF lawful_sample _ journal_ok_empty])
      (simp_all add: sample_event_def empty_kernel_def stream_length_def stream_sequences_def I64_MAX_def)
  show "journal_record sample (sample_draws 0) (sample_event\<lparr>ne_subject := []\<rparr>) empty_kernel
      \<noteq> (Inr e, k')" for e k'
    by (subst record_appends[OF lawful_sample _ journal_ok_empty]) (simp_all add: sample_event_def)
qed

lemma selects_event_iff:
  assumes ok: "journal_ok x k" and row: "row \<in> set (k_events k)" and e: "event_row x row = Inr e"
  shows "selects_event f scopes row \<longleftrightarrow>
    ev_stream e = fi_stream f \<and> fi_after f < ev_sequence e
    \<and> (fi_type f = None \<or> fi_type f = Some (ev_type e)) \<and> ev_type e \<noteq> SETTING_CHANGED
    \<and> set_covers scopes (Scope (ev_scope e))"
proof -
  have "er_sequence row \<le> I64_MAX"
    using journal_ok_row[OF ok row] by (simp add: event_row_ok_def)
  then have "er_sequence row > min (int (fi_after f)) I64_MAX \<longleftrightarrow> int (fi_after f) < er_sequence row"
    by auto
  moreover have "int (fi_after f) < er_sequence row \<longleftrightarrow> fi_after f < ev_sequence e"
    using event_row_fields[OF e] by (metis of_nat_less_iff)
  ultimately show ?thesis
    using event_row_fields[OF e]
    by (auto simp: selects_event_def condition_set_covers split: option.splits)
qed

text \<open>
  C18: a reader gets exactly the events of the stream it may see: those after its position, of
  its type where it names one, in a scope its set covers, and never a setting's change, which is
  its principal's alone; they come in the order of their sequences, none twice, and reading never
  fails.
\<close>

theorem events_exact:
  assumes ok: "journal_ok x k"
  shows "\<exists>evs. events_read x scopes f k = Inr evs \<and> sorted_wrt (<) (map ev_sequence evs)
    \<and> (\<forall>e. e \<in> set evs \<longleftrightarrow>
         (\<exists>row\<in>set (k_events k). event_row x row = Inr e) \<and> ev_stream e = fi_stream f
         \<and> fi_after f < ev_sequence e \<and> (fi_type f = None \<or> fi_type f = Some (ev_type e))
         \<and> ev_type e \<noteq> SETTING_CHANGED \<and> set_covers scopes (Scope (ev_scope e)))"
proof (intro exI conjI allI)
  show r: "events_read x scopes f k
      = Inr (map (the_event x) (filter (selects_event f scopes) (k_events k)))"
    by (rule events_read_ok[OF ok])
  show "sorted_wrt (<) (map ev_sequence
      (map (the_event x) (filter (selects_event f scopes) (k_events k))))"
    by (rule events_read_strict[OF ok r])
  fix e
  show "e \<in> set (map (the_event x) (filter (selects_event f scopes) (k_events k))) \<longleftrightarrow>
      (\<exists>row\<in>set (k_events k). event_row x row = Inr e) \<and> ev_stream e = fi_stream f
         \<and> fi_after f < ev_sequence e \<and> (fi_type f = None \<or> fi_type f = Some (ev_type e))
         \<and> ev_type e \<noteq> SETTING_CHANGED \<and> set_covers scopes (Scope (ev_scope e))"
    (is "?in \<longleftrightarrow> (\<exists>row\<in>_. _) \<and> ?sel")
  proof
    assume ?in
    then obtain row where row: "row \<in> set (k_events k)" "selects_event f scopes row"
      and e: "e = the_event x row" by auto
    have dec: "event_row x row = Inr e"
      using event_row_the[OF journal_ok_row[OF ok row(1)]] e by simp
    then have ?sel using selects_event_iff[OF ok row(1) dec] row(2) by simp
    with row dec show "(\<exists>row\<in>set (k_events k). event_row x row = Inr e) \<and> ?sel" by blast
  next
    assume "(\<exists>row\<in>set (k_events k). event_row x row = Inr e) \<and> ?sel"
    then obtain row where row: "row \<in> set (k_events k)" "event_row x row = Inr e" and sel: ?sel by blast
    then have "selects_event f scopes row" using selects_event_iff[OF ok row] by simp
    moreover have "e = the_event x row" using row(2) by (simp add: the_event_def)
    ultimately show ?in using row(1) by auto
  qed
qed

lemma events_exact_witness:
  "(\<exists>evs. events_read sample (ScopeSet [Scope ''workspace/default''])
      \<lparr>fi_stream = ''s'', fi_after = 0, fi_type = None\<rparr> sample_journal = Inr evs)
   \<and> sample_journal \<noteq> empty_kernel"
proof
  show "\<exists>evs. events_read sample (ScopeSet [Scope ''workspace/default''])
      \<lparr>fi_stream = ''s'', fi_after = 0, fi_type = None\<rparr> sample_journal = Inr evs"
    using events_exact[OF sample_journal_ok] by blast
  show "sample_journal \<noteq> empty_kernel" by code_simp
qed

lemma ack_exact_lemma:
  assumes ok: "journal_ok x k" "cursors_ok k" and current: "cursor_read c s k = Inr current"
  shows "fst (ack d c s position k) =
      (if stream_length s k < position then Inl (PastEnd c s position (stream_length s k))
       else if position < current then Inl (Backwards c s position current) else Inr ())
    \<and> cursor_read c' s' (snd (ack d c s position k)) =
      (if (c', s') = (c, s) \<and> current \<le> position \<and> position \<le> stream_length s k
       then Inr position else cursor_read c' s' k)
    \<and> k_events (snd (ack d c s position k)) = k_events k"
proof -
  have stored: "stored_position c s k = Inr current"
    using current by (simp add: cursor_read_def map_err_Inr)
  obtain p where "stored_position c s k = Inr p" "p \<le> stream_length s k"
    using stored_position_ok[OF ok(2)] by blast
  with stored have le: "current \<le> stream_length s k" by simp
  note cases = ack_cases[OF ok stored, where position = position and d = d]
  consider "position > stream_length s k" | "position \<le> stream_length s k" "position < current"
    | "position = current" | "position \<le> stream_length s k" "current < position" by linarith
  then show ?thesis
  proof cases
    case 4
    obtain cursors where a: "ack d c s position k = (Inr (), k\<lparr>k_cursors := cursors\<rparr>)"
      and m: "cursor_map cursors = (cursor_map (k_cursors k))((c, s) \<mapsto> int position)"
      using cases(4)[OF 4] by blast
    show ?thesis unfolding a using 4
      by (auto simp: cursor_read_def stored_position_map m unsigned_i64_def)
  qed (use le current cases in auto)
qed

text \<open>
  An ack moves a cursor forward only, and never past the stream: it is refused past the
  last event and behind the cursor, and otherwise the cursor reads back at its position, every
  other cursor staying where it is.
\<close>

theorem ack_exact:
  assumes "journal_ok x k" and "cursors_ok k" and "cursor_read c s k = Inr current"
  shows "fst (ack d c s position k) =
      (if stream_length s k < position then Inl (PastEnd c s position (stream_length s k))
       else if position < current then Inl (Backwards c s position current) else Inr ())
    \<and> cursor_read c' s' (snd (ack d c s position k)) =
      (if (c', s') = (c, s) \<and> current \<le> position \<and> position \<le> stream_length s k
       then Inr position else cursor_read c' s' k)
    \<and> k_events (snd (ack d c s position k)) = k_events k"
  using assms by (rule ack_exact_lemma)

lemma sample_cursors_ok: "cursors_ok sample_journal"
  by code_simp

lemma ack_exact_witness:
  "fst (ack (sample_draws 1) ''c'' ''s'' 1 sample_journal) = Inr ()
   \<and> fst (ack (sample_draws 1) ''c'' ''s'' 2 sample_journal) = Inl (PastEnd ''c'' ''s'' 2 1)"
proof -
  have c: "cursor_read ''c'' ''s'' sample_journal = Inr 0" by code_simp
  have l: "stream_length ''s'' sample_journal = 1" by code_simp
  note ack = ack_exact[OF sample_journal_ok sample_cursors_ok c, THEN conjunct1]
  show ?thesis unfolding ack l by simp
qed

lemma events_read_grows:
  assumes ok: "journal_ok x k" "journal_ok x k'" and grows: "journal_grows k k'"
    and new: "k_events k' = k_events k @ rows"
  shows "events_read x scopes f k' =
    map_err id (and_then (events_read x scopes f k) (\<lambda>evs.
      Inr (evs @ map (the_event x) (filter (selects_event f scopes) rows))))"
  using events_read_ok[OF ok(1)] events_read_ok[OF ok(2)] new by simp

lemma filter_filter_conj: "filter P xs = filter (\<lambda>v. Q v \<and> P v) xs" if "\<forall>v\<in>set xs. P v \<longrightarrow> Q v"
  using that by (auto intro: filter_cong)

text \<open>Reading on after the last event read gives what was recorded since.\<close>

lemma events_after_last:
  assumes ok: "journal_ok x k" "journal_ok x k'" and grows: "journal_grows k k'"
    and read: "events_read x scopes f k = Inr evs" and evs: "evs \<noteq> []"
    and again: "events_read x scopes f k' = Inr (evs @ new)"
  shows "events_read x scopes (f\<lparr>fi_after := ev_sequence (last evs)\<rparr>) k' = Inr new"
proof -
  let ?f = "f\<lparr>fi_after := ev_sequence (last evs)\<rparr>"
  let ?sel = "filter (selects_event f scopes) (k_events k')"
  have all: "evs @ new = map (the_event x) ?sel"
    using again events_read_ok[OF ok(2)] by simp
  have strict: "sorted_wrt (<) (map ev_sequence (evs @ new))"
    using events_read_strict[OF ok(2) again] .
  have old: "fi_after f < ev_sequence (last evs)"
  proof -
    have "last evs \<in> set (evs @ new)" using evs by simp
    then obtain row where row: "row \<in> set (k_events k')" "selects_event f scopes row"
        "last evs = the_event x row"
      using all by auto
    have "event_row x row = Inr (last evs)"
      using event_row_the[OF journal_ok_row[OF ok(2) row(1)]] row(3) by simp
    then show ?thesis using selects_event_iff[OF ok(2) row(1)] row(2) by simp
  qed
  have sel: "selects_event ?f scopes row \<longleftrightarrow>
      selects_event f scopes row \<and> ev_sequence (last evs) < ev_sequence (the_event x row)"
    if "row \<in> set (k_events k')" for row
    using selects_event_iff[OF ok(2) that event_row_the[OF journal_ok_row[OF ok(2) that]]] old
    by auto
  have "map (the_event x) (filter (selects_event ?f scopes) (k_events k'))
      = map (the_event x) (filter (\<lambda>row. ev_sequence (last evs) < ev_sequence (the_event x row)) ?sel)"
    using sel by (auto simp: filter_filter intro!: arg_cong[of _ _ "map _"] filter_cong)
  also have "\<dots> = filter (\<lambda>e. ev_sequence (last evs) < ev_sequence e) (evs @ new)"
    unfolding all by (simp add: filter_map comp_def)
  also have "\<dots> = new"
  proof -
    have before: "e \<in> set evs \<Longrightarrow> \<not> ev_sequence (last evs) < ev_sequence e" for e
    proof -
      assume e: "e \<in> set evs"
      have "evs = butlast evs @ [last evs]" using evs by simp
      then have "sorted_wrt (<) (map ev_sequence (butlast evs @ [last evs]))"
        using strict by (metis map_append sorted_wrt_append)
      then have "\<forall>b\<in>set (butlast evs). ev_sequence b < ev_sequence (last evs)"
        by (simp add: sorted_wrt_append)
      moreover have "e = last evs \<or> e \<in> set (butlast evs)"
        using e evs by (metis append_butlast_last_id in_set_conv_decomp set_ConsD set_append Un_iff
            empty_iff list.set(1) insert_iff list.simps(15))
      ultimately show ?thesis by auto
    qed
    have "e \<in> set new \<Longrightarrow> ev_sequence (last evs) < ev_sequence e" for e
      using strict evs by (simp add: sorted_wrt_append)
    then have "filter (\<lambda>e. ev_sequence (last evs) < ev_sequence e) new = new"
      by (simp add: filter_id_conv)
    moreover have "filter (\<lambda>e. ev_sequence (last evs) < ev_sequence e) evs = []"
      using before by (simp add: filter_empty_conv)
    ultimately show ?thesis by simp
  qed
  finally show ?thesis using events_read_ok[OF ok(2)] by simp
qed

text \<open>
  A consumer loses no event and gets none twice: what it read stays the beginning of every
  later read of the same filter, whatever was recorded since, and reading on from the last event
  it got gives exactly the rest.
\<close>

theorem resume_from_cursor:
  assumes "journal_ok x k" and "journal_ok x k'" and "journal_grows k k'"
    and "events_read x scopes f k = Inr evs" and "evs \<noteq> []"
  shows "\<exists>new. events_read x scopes f k' = Inr (evs @ new)
    \<and> events_read x scopes (f\<lparr>fi_after := ev_sequence (last evs)\<rparr>) k' = Inr new"
proof -
  obtain rows where "k_events k' = k_events k @ rows"
    using assms(3) by (auto simp: journal_grows_def elim: prefixE)
  with assms have "events_read x scopes f k'
      = Inr (evs @ map (the_event x) (filter (selects_event f scopes) rows))"
    by (simp add: events_read_grows)
  then show ?thesis using events_after_last assms by blast
qed

lemma journal_grows_record: "journal_grows k (snd (journal_record x d event k))"
  by (cases "record_event x d 0 event k")
    (auto simp: journal_record_def db_write_def intro: journal_grows_event)

lemma resume_from_cursor_witness:
  "\<exists>(evs :: event list) new. evs \<noteq> []
    \<and> events_read sample (ScopeSet [Scope ''workspace/default''])
        \<lparr>fi_stream = ''s'', fi_after = ev_sequence (last evs), fi_type = None\<rparr>
        (snd (journal_record sample (sample_draws 1) sample_event sample_journal)) = Inr new"
proof -
  let ?f = "\<lparr>fi_stream = ''s'', fi_after = 0, fi_type = None\<rparr> :: event_filter"
  let ?s = "ScopeSet [Scope ''workspace/default'']"
  have "\<exists>e. events_read sample ?s ?f sample_journal = Inr [e]"
    by (rule exI[of _ "\<lparr>ev_id = 0, ev_stream = ''s'', ev_sequence = 1, ev_type = ''t'',
        ev_subject = ''s'', ev_scope = ''workspace/default'', ev_time = ''now'',
        ev_data = JNumber 2\<rparr>"]) code_simp
  then obtain e where read: "events_read sample ?s ?f sample_journal = Inr [e]" by blast
  from resume_from_cursor[OF sample_journal_ok journal_record_ok[OF sample_journal_ok]
      journal_grows_record read, of "sample_draws 1" sample_event]
  obtain new where "events_read sample ?s (?f\<lparr>fi_after := ev_sequence (last [e])\<rparr>)
      (snd (journal_record sample (sample_draws 1) sample_event sample_journal)) = Inr new" by auto
  then show ?thesis by (intro exI[of _ "[e]"] exI[of _ new]) simp
qed

text \<open>The catalogue by the names of its events.\<close>

definition public_event_of :: "string \<Rightarrow> public_event" where
  "public_event_of name =
     \<lparr>pe_type = ''maestro.'' @ name @ ''.v1'', pe_schema = name @ ''/1''\<rparr>"

definition PUBLIC_NAMES :: "string list" where
  "PUBLIC_NAMES = [''knowledge.import.completed'', ''knowledge.revision.held'',
     ''knowledge.generation.published'', ''knowledge.generation.retired'']"

lemma public_events_names:
  "PUBLIC_EVENTS = map public_event_of PUBLIC_NAMES"
  by code_simp

lemma find_public_event:
  "List.find (\<lambda>p. pe_type p = t) (map public_event_of names) = Some p \<longleftrightarrow>
     (\<exists>name\<in>set names. t = ''maestro.'' @ name @ ''.v1'' \<and> p = public_event_of name)"
  by (induction names) (auto simp: public_event_of_def)

text \<open>
  An event leaves the kernel naming its schema exactly when its type is in the catalogue of
  public events: type \<open>maestro.<name>.v1\<close> has the schema \<open>maestro://schemas/events/<name>/1\<close>; the
  ID it is deduplicated by reads back as the event's own.
\<close>

theorem envelope_schema:
  assumes "lawful_ulid x"
  shows "(\<forall>schema. en_dataschema (envelope_new x event machine) = Some schema \<longleftrightarrow>
      (\<exists>name\<in>set PUBLIC_NAMES.
         ev_type event = ''maestro.'' @ name @ ''.v1''
         \<and> schema = ''maestro://schemas/events/'' @ name @ ''/1''))
    \<and> ulid_parse x (en_id (envelope_new x event machine)) = Some (ev_id event)"
proof
  have "en_dataschema (envelope_new x event machine) = Some schema \<longleftrightarrow>
      (\<exists>p. List.find (\<lambda>p. pe_type p = ev_type event) PUBLIC_EVENTS = Some p \<and> schema = SCHEMAS @ pe_schema p)"
    for schema
    by (auto simp: envelope_new_def Let_def)
  then show "\<forall>schema. en_dataschema (envelope_new x event machine) = Some schema \<longleftrightarrow>
      (\<exists>name\<in>set PUBLIC_NAMES.
         ev_type event = ''maestro.'' @ name @ ''.v1''
         \<and> schema = ''maestro://schemas/events/'' @ name @ ''/1'')"
    unfolding public_events_names find_public_event
    by (auto simp: public_event_of_def SCHEMAS_def)
  show "ulid_parse x (en_id (envelope_new x event machine)) = Some (ev_id event)"
    using assms by (simp add: envelope_new_def Let_def lawful_ulid_def)
qed

lemma envelope_schema_witness:
  "ulid_parse sample (en_id (envelope_new sample \<lparr>ev_id = 5, ev_stream = ''s'', ev_sequence = 1,
     ev_type = ''t'', ev_subject = ''s'', ev_scope = ''workspace/default'', ev_time = ''now'',
     ev_data = JNull\<rparr> (Machine ''host''))) = Some 5"
  using envelope_schema[of sample "\<lparr>ev_id = 5, ev_stream = ''s'', ev_sequence = 1,
     ev_type = ''t'', ev_subject = ''s'', ev_scope = ''workspace/default'', ev_time = ''now'',
     ev_data = JNull\<rparr>" "Machine ''host''"] lawful_sample
  by (simp add: lawful_def)

end
