(* ===== verification/Grants.thy ===== *)
theory Grants
  imports Journal
begin

text \<open>
  Grants, \<open>crates/maestro-kernel/src/scope/grant.rs\<close>, \<open>config.rs\<close>, \<open>right.rs\<close> and \<open>known.rs\<close>: the
  rights of principals on scopes, given and taken back in writes that journal them, read back as
  a principal's scope set, and reconciled with the local configuration file; and the scopes the
  kernel knows. The guards of the table are those of \<open>migrations/0003_scopes.sql\<close>.
\<close>

section \<open>Rights and the configuration file\<close>

datatype right = Read

fun right_str :: "right \<Rightarrow> string" where
  "right_str Read = ''read''"

definition CONFIG_FILE :: string where "CONFIG_FILE = ''config.toml''"
definition LOCAL :: string where "LOCAL = ''local''"
definition ADDED :: string where "ADDED = ''maestro.kernel.grant.added.v1''"
definition REVOKED :: string where "REVOKED = ''maestro.kernel.grant.revoked.v1''"

text \<open>A TOML value as the \<open>toml\<close> crate gives it; a table lists its keys in its own order.\<close>

datatype toml =
    TomlString string
  | TomlInteger int
  | TomlFloat string
  | TomlBoolean bool
  | TomlDatetime string
  | TomlArray "toml list"
  | TomlTable "(string \<times> toml) list"

datatype config = Config (config_read: "scope list")

datatype config_error =
    NotToml string
  | UnknownKey string
  | ConfigShape string string
  | ConfigInvalidScope invalid_scope
  | ConfigIo

datatype config_refresh_error = RefreshConfig config_error | RefreshStore store_error

definition config_default :: config where
  "config_default = Config []"

definition read_scope :: "toml \<Rightarrow> config_error + scope" where
  "read_scope value =
     (case value of
        TomlString path \<Rightarrow> map_err ConfigInvalidScope (scope_from_str path)
      | _ \<Rightarrow> Inl (ConfigShape ''access.read'' ''an array of scope paths''))"

definition config_scopes :: "toml \<Rightarrow> config_error + scope list" where
  "config_scopes value =
     (case value of
        TomlArray paths \<Rightarrow>
          and_then (collect_results (map read_scope paths)) (\<lambda>scopes. Inr (btree_set scopes))
      | _ \<Rightarrow> Inl (ConfigShape ''access.read'' ''an array of scope paths''))"

fun readable :: "(string \<times> toml) list \<Rightarrow> scope list \<Rightarrow> config_error + scope list" where
  "readable [] read = Inr read"
| "readable ((key, value) # access) read =
     (if key \<noteq> ''read'' then Inl (UnknownKey (''access.'' @ key))
      else and_then (config_scopes value) (readable access))"

text \<open>The loop of \<open>Config::from_str\<close> over the keys of the file.\<close>

fun config_keys :: "(string \<times> toml) list \<Rightarrow> config \<Rightarrow> config_error + config" where
  "config_keys [] config = Inr config"
| "config_keys ((key, value) # table) config =
     (if key = ''access'' then
        (case value of
           TomlTable access \<Rightarrow>
             and_then (readable access []) (\<lambda>read. config_keys table (Config read))
         | _ \<Rightarrow> Inl (ConfigShape key ''a table''))
      else Inl (UnknownKey key))"

definition config_from_str ::
  "(string \<Rightarrow> string + (string \<times> toml) list) \<Rightarrow> string \<Rightarrow> config_error + config" where
  "config_from_str parse_toml text =
     and_then (map_err NotToml (parse_toml text)) (\<lambda>table. config_keys table config_default)"

text \<open>What reading the file gives: its text, that it does not exist, or another failure.\<close>

datatype file_read = FileText string | FileNotFound | FileUnreadable

definition config_load ::
  "(string \<Rightarrow> string + (string \<times> toml) list) \<Rightarrow> file_read \<Rightarrow> config_error + config" where
  "config_load parse_toml contents =
     (case contents of
        FileText text \<Rightarrow> config_from_str parse_toml text
      | FileNotFound \<Rightarrow> Inr config_default
      | FileUnreadable \<Rightarrow> Inl ConfigIo)"

section \<open>Grants (scope/grant.rs)\<close>

record grant =
  g_principal :: string
  g_scope :: scope
  g_right :: right
  g_actor :: string

definition principal_stream :: "string \<Rightarrow> string" where
  "principal_stream who = ''principal/'' @ who"

definition grant_event :: "grant \<Rightarrow> string \<Rightarrow> new_event" where
  "grant_event g t =
     \<lparr>ne_stream = principal_stream (g_principal g), ne_type = t,
      ne_subject = principal_stream (g_principal g), ne_scope = as_str (g_scope g),
      ne_data = json_object [(''principal'', JStr (g_principal g)),
                             (''right'', JStr (right_str (g_right g))),
                             (''actor'', JStr (g_actor g))]\<rparr>"

definition journal_grant ::
  "ext \<Rightarrow> draws \<Rightarrow> nat \<Rightarrow> grant \<Rightarrow> string \<Rightarrow> kernel \<Rightarrow> store_error + event \<times> kernel" where
  "journal_grant x d i g t k = record_event x d i (grant_event g t) k"

definition grant_key :: "grant \<Rightarrow> grant_record \<Rightarrow> bool" where
  "grant_key g row \<longleftrightarrow> gr_principal row = g_principal g \<and> gr_scope row = as_str (g_scope g)
     \<and> gr_right row = right_str (g_right g)"

text \<open>The row \<open>add\<close> inserts; a row of the same key is a conflict it does nothing about.\<close>

definition grant_row :: "draws \<Rightarrow> grant \<Rightarrow> grant_record" where
  "grant_row d g =
     \<lparr>gr_principal = g_principal g, gr_scope = as_str (g_scope g),
      gr_right = right_str (g_right g), gr_granted_by = g_actor g, gr_granted_at = d_now d\<rparr>"

definition insert_grant ::
  "grant_record \<Rightarrow> grant_record list \<Rightarrow> sqlite_error + nat \<times> grant_record list" where
  "insert_grant row grants =
     (if \<not> gr_right row \<in> set [''read''] then Inl (ConstraintViolation ''right IN (read)'')
      else if list_ex (\<lambda>r. gr_principal r = gr_principal row \<and> gr_scope r = gr_scope row
                         \<and> gr_right r = gr_right row) grants
      then Inr (0, grants)
      else Inr (1, grants @ [row]))"

definition grant_add ::
  "ext \<Rightarrow> draws \<Rightarrow> grant \<Rightarrow> nat \<Rightarrow> kernel \<Rightarrow> store_error + event option \<times> kernel" where
  "grant_add x d g i k =
     and_then (map_err Sqlite (insert_grant (grant_row d g) (k_grants k))) (\<lambda>(added, grants).
       if added = 0 then Inr (None, k)
       else and_then (journal_grant x d i g ADDED (k\<lparr>k_grants := grants\<rparr>)) (\<lambda>(e, k').
              Inr (Some e, k')))"

definition grant_remove ::
  "ext \<Rightarrow> draws \<Rightarrow> grant \<Rightarrow> nat \<Rightarrow> kernel \<Rightarrow> store_error + event option \<times> kernel" where
  "grant_remove x d g i k =
     (let removed = length (filter (grant_key g) (k_grants k));
          grants = filter (\<lambda>row. \<not> grant_key g row) (k_grants k) in
      if removed = 0 then Inr (None, k)
      else and_then (journal_grant x d i g REVOKED (k\<lparr>k_grants := grants\<rparr>)) (\<lambda>(e, k').
             Inr (Some e, k')))"

definition granted_scopes :: "string \<Rightarrow> right \<Rightarrow> kernel \<Rightarrow> store_error + scope list" where
  "granted_scopes who right k =
     and_then
       (map_err Sqlite
         (collect_results
           (map (\<lambda>row. map_err (\<lambda>_. FromSqlConversionFailure 0) (scope_from_str (gr_scope row)))
             (filter (\<lambda>row. gr_principal row = who \<and> gr_right row = right_str right)
               (k_grants k)))))
       (\<lambda>scopes. Inr (btree_set scopes))"

definition grant_right ::
  "ext \<Rightarrow> draws \<Rightarrow> string \<Rightarrow> scope \<Rightarrow> right \<Rightarrow> string \<Rightarrow> kernel \<Rightarrow> (store_error + event option) \<times> kernel"
where
  "grant_right x d who scope right actor =
     db_write (grant_add x d
       \<lparr>g_principal = who, g_scope = scope, g_right = right, g_actor = actor\<rparr> 0)"

definition revoke_right ::
  "ext \<Rightarrow> draws \<Rightarrow> string \<Rightarrow> scope \<Rightarrow> right \<Rightarrow> string \<Rightarrow> kernel \<Rightarrow> (store_error + event option) \<times> kernel"
where
  "revoke_right x d who scope right actor =
     db_write (grant_remove x d
       \<lparr>g_principal = who, g_scope = scope, g_right = right, g_actor = actor\<rparr> 0)"

definition visible :: "string \<Rightarrow> kernel \<Rightarrow> store_error + scope_set" where
  "visible who k = and_then (granted_scopes who Read k) (\<lambda>scopes. Inr (ScopeSet scopes))"

definition local_grant :: "scope \<Rightarrow> grant" where
  "local_grant scope =
     \<lparr>g_principal = LOCAL, g_scope = scope, g_right = Read, g_actor = CONFIG_FILE\<rparr>"

text \<open>
  The chained iterators of \<open>reconcile\<close>, collected: each change runs after the one before, the
  first error ends them, and a change that did nothing gives no event.
\<close>

fun run_changes ::
  "(nat \<Rightarrow> kernel \<Rightarrow> store_error + event option \<times> kernel) list \<Rightarrow> nat \<Rightarrow> kernel
     \<Rightarrow> store_error + event list \<times> kernel" where
  "run_changes [] i k = Inr ([], k)"
| "run_changes (change # changes) i k =
     and_then (change i k) (\<lambda>(recorded, k1).
     and_then (run_changes changes (case recorded of None \<Rightarrow> i | Some _ \<Rightarrow> i + 1) k1) (\<lambda>(events, k2).
       Inr (case recorded of None \<Rightarrow> events | Some e \<Rightarrow> e # events, k2)))"

definition reconcile :: "ext \<Rightarrow> draws \<Rightarrow> config \<Rightarrow> kernel \<Rightarrow> store_error + event list \<times> kernel" where
  "reconcile x d config k =
     and_then (granted_scopes LOCAL Read k) (\<lambda>held.
       run_changes
         (map (\<lambda>scope. grant_add x d (local_grant scope)) (btree_difference (config_read config) held)
          @ map (\<lambda>scope. grant_remove x d (local_grant scope)) (btree_difference held (config_read config)))
         0 k)"

definition apply_config ::
  "ext \<Rightarrow> draws \<Rightarrow> config \<Rightarrow> kernel \<Rightarrow> (store_error + event list) \<times> kernel" where
  "apply_config x d config = db_write (reconcile x d config)"

text \<open>\<open>refresh_config\<close> loads the file inside the transaction.\<close>

definition refresh_config ::
  "ext \<Rightarrow> draws \<Rightarrow> config_error + config \<Rightarrow> kernel \<Rightarrow> (config_refresh_error + scope_set) \<times> kernel" where
  "refresh_config x d loaded =
     db_write (\<lambda>k.
       and_then (map_err RefreshConfig loaded) (\<lambda>config.
       and_then (map_err RefreshStore (reconcile x d config k)) (\<lambda>(_, k').
         Inr (ScopeSet (config_read config), k'))))"

section \<open>Known scopes (scope/known.rs)\<close>

definition known_paths :: "kernel \<Rightarrow> string list" where
  "known_paths k =
     WORKSPACE
     # map (\<lambda>c. WORKSPACE @ ''/collection/'' @ co_id c) (k_collections k)
     @ map (\<lambda>s. WORKSPACE @ ''/collection/'' @ so_collection s @ ''/source/'' @ so_id s) (k_sources k)"

definition known_scopes :: "scope_set \<Rightarrow> kernel \<Rightarrow> store_error + scope list" where
  "known_scopes scopes k =
     map_err Sqlite
       (collect_results
         (map (\<lambda>path. map_err (\<lambda>_. FromSqlConversionFailure 0) (scope_from_str path))
           (sort (filter (\<lambda>path. condition path (parameter scopes)) (known_paths k)))))"

section \<open>What a principal holds\<close>

text \<open>The abstract view of the table: the set of scopes each principal may read.\<close>

definition held_by :: "string \<Rightarrow> kernel \<Rightarrow> scope set" where
  "held_by who k =
     (\<lambda>row. Scope (gr_scope row)) `
       {row \<in> set (k_grants k). gr_principal row = who \<and> gr_right row = ''read''}"

definition valid_scope :: "scope \<Rightarrow> bool" where
  "valid_scope s \<longleftrightarrow> scope_from_str (as_str s) = Inr s"

definition grants_ok :: "kernel \<Rightarrow> bool" where
  "grants_ok k \<longleftrightarrow>
     distinct (map (\<lambda>row. (gr_principal row, gr_scope row, gr_right row)) (k_grants k))
     \<and> list_all (\<lambda>row. gr_right row = ''read'' \<and> valid_scope (Scope (gr_scope row))) (k_grants k)"

definition config_ok :: "config \<Rightarrow> bool" where
  "config_ok config \<longleftrightarrow>
     list_all valid_scope (config_read config) \<and> btree_set (config_read config) = config_read config"

lemma right_str_read [simp]: "right_str r = ''read''"
  by (cases r) simp

lemma btree_set_sorted_list: "btree_set xs = sorted_list_of_set (set xs)"
  by (simp add: btree_set_def sorted_list_of_set_sort_remdups)

lemma finite_held_by [simp]: "finite (held_by who k)"
  by (simp add: held_by_def)

lemma scope_from_str_valid: "scope_from_str p = Inr s \<longleftrightarrow> s = Scope p \<and> valid_scope (Scope p)"
  by (auto simp: valid_scope_def scope_from_str_Inr)

lemma granted_scopes_ok:
  assumes "grants_ok k"
  shows "granted_scopes who right k = Inr (sorted_list_of_set (held_by who k))"
proof -
  let ?rows = "filter (\<lambda>row. gr_principal row = who \<and> gr_right row = right_str right) (k_grants k)"
  have "collect_results (map (\<lambda>row. map_err (\<lambda>_. FromSqlConversionFailure 0)
      (scope_from_str (gr_scope row))) ?rows) = Inr (map (\<lambda>row. Scope (gr_scope row)) ?rows)"
    using assms
    by (intro collect_results_map_Inr) (auto simp: grants_ok_def list_all_iff valid_scope_def)
  moreover have "set (map (\<lambda>row. Scope (gr_scope row)) ?rows) = held_by who k"
    by (auto simp: held_by_def)
  ultimately show ?thesis
    by (simp add: granted_scopes_def btree_set_sorted_list del: set_map)
qed

lemma visible_ok: "grants_ok k \<Longrightarrow> visible who k = Inr (ScopeSet (sorted_list_of_set (held_by who k)))"
  by (simp add: visible_def granted_scopes_ok)

lemma held_by_same: "k_grants k' = k_grants k \<Longrightarrow> held_by who k' = held_by who k"
  by (simp add: held_by_def)

lemma grants_ok_same: "k_grants k' = k_grants k \<Longrightarrow> grants_ok k' = grants_ok k"
  by (simp add: grants_ok_def)

lemma Scope_as_str_iff: "Scope p = s \<longleftrightarrow> p = as_str s"
  by (cases s) auto

text \<open>One change: what it does to the grants, to the journal and to nothing else.\<close>

definition grant_change :: "grant \<Rightarrow> string \<Rightarrow> scope set \<Rightarrow> bool \<Rightarrow> ext \<Rightarrow> kernel \<Rightarrow> event option \<Rightarrow> kernel \<Rightarrow> bool"
where
  "grant_change g t after changes x k recorded k' \<longleftrightarrow>
     held_by (g_principal g) k' = after
     \<and> (\<forall>who. who \<noteq> g_principal g \<longrightarrow> held_by who k' = held_by who k)
     \<and> grants_ok k'
     \<and> (\<exists>grants events. k' = k\<lparr>k_grants := grants, k_events := events\<rparr>)
     \<and> journal_grows k k' \<and> (journal_ok x k \<longrightarrow> journal_ok x k')
     \<and> (if changes
        then (\<exists>e row. recorded = Some e \<and> k_events k' = k_events k @ [row] \<and> event_row x row = Inr e
                \<and> ev_type e = t \<and> ev_scope e = as_str (g_scope g)
                \<and> ev_stream e = principal_stream (g_principal g))
        else recorded = None \<and> k' = k)"

lemma journal_grant_change:
  assumes "journal_grant x d i g t (k\<lparr>k_grants := grants\<rparr>) = Inr (e, k')"
  shows "k' = k\<lparr>k_grants := grants, k_events := k_events k'\<rparr> \<and> journal_grows k k'
    \<and> (journal_ok x k \<longrightarrow> journal_ok x k')
    \<and> (\<exists>row. k_events k' = k_events k @ [row] \<and> event_row x row = Inr e \<and> ev_type e = t
          \<and> ev_scope e = as_str (g_scope g) \<and> ev_stream e = principal_stream (g_principal g))"
proof -
  let ?k = "k\<lparr>k_grants := grants\<rparr>"
  have r: "record_event x d i (grant_event g t) ?k = Inr (e, k')"
    using assms by (simp add: journal_grant_def)
  have "journal_ok x k'" if "journal_ok x k"
    using record_event_ok[OF _ r] that by (simp add: journal_ok_def)
  then show ?thesis
    using r event_row_fields[of x "recorded_row x d i (grant_event g t) (k_events k)" e]
    by (auto simp: record_event_Inr grant_event_def journal_grows_def)
qed

lemma grant_add_cases:
  "grant_add x d g i k =
     (if list_ex (grant_key g) (k_grants k) then Inr (None, k)
      else and_then (journal_grant x d i g ADDED (k\<lparr>k_grants := k_grants k @ [grant_row d g]\<rparr>))
             (\<lambda>(e, k'). Inr (Some e, k')))"
proof -
  have "grant_key g = (\<lambda>r. gr_principal r = g_principal g \<and> gr_scope r = as_str (g_scope g)
      \<and> gr_right r = ''read'')"
    by (simp add: grant_key_def fun_eq_iff)
  then show ?thesis by (simp add: grant_add_def insert_grant_def grant_row_def)
qed

lemma grant_key_held: "list_ex (grant_key g) (k_grants k) \<longleftrightarrow> g_scope g \<in> held_by (g_principal g) k"
  by (auto simp: list_ex_iff grant_key_def held_by_def Scope_as_str_iff[symmetric] image_iff)

lemma grant_add_change:
  assumes ok: "grants_ok k" and scope: "valid_scope (g_scope g)"
    and r: "grant_add x d g i k = Inr (recorded, k')"
  shows "grant_change g ADDED (insert (g_scope g) (held_by (g_principal g) k))
    (g_scope g \<notin> held_by (g_principal g) k) x k recorded k'"
proof (cases "g_scope g \<in> held_by (g_principal g) k")
  case True
  then have "recorded = None \<and> k' = k" using r by (simp add: grant_add_cases grant_key_held)
  with True ok show ?thesis
    by (auto simp: grant_change_def intro!: exI[of _ "k_grants k"] exI[of _ "k_events k"])
next
  case False
  let ?grants = "k_grants k @ [grant_row d g]"
  obtain e where rec: "recorded = Some e"
    and j: "journal_grant x d i g ADDED (k\<lparr>k_grants := ?grants\<rparr>) = Inr (e, k')"
    using False r by (auto simp: grant_add_cases grant_key_held results split: prod.splits)
  note ch = journal_grant_change[OF j]
  have grants: "k_grants k' = ?grants"
    by (subst ch[THEN conjunct1]) simp
  have "held_by who k' = (if who = g_principal g then insert (g_scope g) (held_by who k) else held_by who k)" for who
    by (auto simp: held_by_def grants grant_row_def image_iff conj_disj_distribR ex_disj_distrib)
  moreover have "grants_ok k'"
    using ok scope False grant_key_held[of g k] unfolding grants_ok_def grants
    by (auto simp: grant_row_def grant_key_def list_ex_iff)
  ultimately show ?thesis using ch False rec
    by (auto simp: grant_change_def)
qed

lemma grant_remove_change:
  assumes ok: "grants_ok k"
    and r: "grant_remove x d g i k = Inr (recorded, k')"
  shows "grant_change g REVOKED (held_by (g_principal g) k - {g_scope g})
    (g_scope g \<in> held_by (g_principal g) k) x k recorded k'"
proof (cases "g_scope g \<in> held_by (g_principal g) k")
  case False
  then have "filter (grant_key g) (k_grants k) = []"
    using grant_key_held[of g k] by (auto simp: filter_empty_conv list_ex_iff)
  then have "recorded = None \<and> k' = k" using r by (simp add: grant_remove_def)
  with False ok show ?thesis
    by (auto simp: grant_change_def intro!: exI[of _ "k_grants k"] exI[of _ "k_events k"])
next
  case True
  let ?grants = "filter (\<lambda>row. \<not> grant_key g row) (k_grants k)"
  have "filter (grant_key g) (k_grants k) \<noteq> []"
    using True grant_key_held[of g k] by (auto simp: filter_empty_conv list_ex_iff)
  then obtain e where rec: "recorded = Some e"
    and j: "journal_grant x d i g REVOKED (k\<lparr>k_grants := ?grants\<rparr>) = Inr (e, k')"
    using r by (auto simp: grant_remove_def results split: prod.splits)
  note ch = journal_grant_change[OF j]
  have grants: "k_grants k' = ?grants"
    by (subst ch[THEN conjunct1]) simp
  have read: "gr_right row = ''read''" if "row \<in> set (k_grants k)" for row
    using ok that by (simp add: grants_ok_def list_all_iff)
  have "held_by who k' = (if who = g_principal g then held_by who k - {g_scope g} else held_by who k)" for who
    by (auto simp: held_by_def grants grant_key_def image_iff Scope_as_str_iff read)
  moreover have "grants_ok k'"
    using ok unfolding grants_ok_def grants by (auto simp: distinct_map_filter list_all_iff)
  ultimately show ?thesis using ch True rec
    by (auto simp: grant_change_def)
qed

section \<open>Reconciling the local grants\<close>

text \<open>What a run of changes for the local principal did: the changes it journaled, in order.\<close>

definition grants_moved ::
  "ext \<Rightarrow> kernel \<Rightarrow> event list \<Rightarrow> kernel \<Rightarrow> (string \<times> string) list \<Rightarrow> scope set \<Rightarrow> bool" where
  "grants_moved x k events k' changes after \<longleftrightarrow>
     held_by LOCAL k' = after \<and> (\<forall>who. who \<noteq> LOCAL \<longrightarrow> held_by who k' = held_by who k)
     \<and> grants_ok k' \<and> (\<exists>grants evs. k' = k\<lparr>k_grants := grants, k_events := evs\<rparr>)
     \<and> (journal_ok x k \<longrightarrow> journal_ok x k')
     \<and> map (\<lambda>e. (ev_type e, ev_scope e)) events = changes
     \<and> (\<exists>rows. k_events k' = k_events k @ rows \<and> map (event_row x) rows = map Inr events)"

lemma grants_moved_refl: "grants_ok k \<Longrightarrow> grants_moved x k [] k [] (held_by LOCAL k)"
proof -
  have "k = k\<lparr>k_grants := k_grants k, k_events := k_events k\<rparr>" by simp
  then have "\<exists>grants evs. k = k\<lparr>k_grants := grants, k_events := evs\<rparr>" by blast
  then show "grants_ok k \<Longrightarrow> ?thesis" by (simp add: grants_moved_def)
qed

lemma grants_moved_trans:
  assumes "grants_moved x k es k1 cs after" and "grants_moved x k1 es' k2 cs' after'"
  shows "grants_moved x k (es @ es') k2 (cs @ cs') after'"
proof -
  from assms obtain g e g' e' where "k1 = k\<lparr>k_grants := g, k_events := e\<rparr>"
      "k2 = k1\<lparr>k_grants := g', k_events := e'\<rparr>"
    by (auto simp: grants_moved_def)
  then have "k2 = k\<lparr>k_grants := g', k_events := e'\<rparr>" by simp
  then show ?thesis using assms by (auto simp: grants_moved_def)
qed

lemma grant_change_moved:
  assumes "grant_change g t after changes x k recorded k'" and "g_principal g = LOCAL"
  shows "grants_moved x k (case recorded of None \<Rightarrow> [] | Some e \<Rightarrow> [e]) k'
    (if changes then [(t, as_str (g_scope g))] else []) after"
  using assms by (auto simp: grant_change_def grants_moved_def split: option.splits)

lemma local_grant_simps [simp]:
  "g_principal (local_grant s) = LOCAL" "g_scope (local_grant s) = s"
  by (simp_all add: local_grant_def)

lemma run_adds:
  assumes "grants_ok k" and "list_all valid_scope ss" and "distinct ss"
    and "set ss \<inter> held_by LOCAL k = {}"
    and "run_changes (map (\<lambda>s. grant_add x d (local_grant s)) ss) i k = Inr (events, k')"
  shows "grants_moved x k events k' (map (\<lambda>s. (ADDED, as_str s)) ss) (held_by LOCAL k \<union> set ss)"
  using assms
proof (induction ss arbitrary: i k events)
  case Nil
  then show ?case by (simp add: grants_moved_refl)
next
  case (Cons s ss)
  obtain recorded k1 events1 where a: "grant_add x d (local_grant s) i k = Inr (recorded, k1)"
    and rest: "run_changes (map (\<lambda>s. grant_add x d (local_grant s)) ss)
        (case recorded of None \<Rightarrow> i | Some _ \<Rightarrow> i + 1) k1 = Inr (events1, k')"
    and events: "events = (case recorded of None \<Rightarrow> events1 | Some e \<Rightarrow> e # events1)"
    using Cons.prems(5) by (auto simp: results split: prod.splits)
  have "grant_change (local_grant s) ADDED (insert s (held_by LOCAL k)) True x k recorded k1"
    using grant_add_change[OF Cons.prems(1) _ a] Cons.prems(2,4) by simp
  from grant_change_moved[OF this]
  have m: "grants_moved x k (case recorded of None \<Rightarrow> [] | Some e \<Rightarrow> [e]) k1 [(ADDED, as_str s)]
      (insert s (held_by LOCAL k))" by simp
  then have "grants_ok k1" and held: "held_by LOCAL k1 = insert s (held_by LOCAL k)"
    by (simp_all add: grants_moved_def)
  then have "grants_moved x k1 events1 k' (map (\<lambda>s. (ADDED, as_str s)) ss) (held_by LOCAL k1 \<union> set ss)"
    using Cons.prems rest by (intro Cons.IH) auto
  from grants_moved_trans[OF m this] show ?case
    by (auto simp: held events split: option.splits)
qed

lemma run_removes:
  assumes "grants_ok k" and "distinct ss" and "set ss \<subseteq> held_by LOCAL k"
    and "run_changes (map (\<lambda>s. grant_remove x d (local_grant s)) ss) i k = Inr (events, k')"
  shows "grants_moved x k events k' (map (\<lambda>s. (REVOKED, as_str s)) ss) (held_by LOCAL k - set ss)"
  using assms
proof (induction ss arbitrary: i k events)
  case Nil
  then show ?case by (simp add: grants_moved_refl)
next
  case (Cons s ss)
  obtain recorded k1 events1 where a: "grant_remove x d (local_grant s) i k = Inr (recorded, k1)"
    and rest: "run_changes (map (\<lambda>s. grant_remove x d (local_grant s)) ss)
        (case recorded of None \<Rightarrow> i | Some _ \<Rightarrow> i + 1) k1 = Inr (events1, k')"
    and events: "events = (case recorded of None \<Rightarrow> events1 | Some e \<Rightarrow> e # events1)"
    using Cons.prems(4) by (auto simp: results split: prod.splits)
  have "grant_change (local_grant s) REVOKED (held_by LOCAL k - {s}) True x k recorded k1"
    using grant_remove_change[OF Cons.prems(1) a] Cons.prems(3) by simp
  from grant_change_moved[OF this]
  have m: "grants_moved x k (case recorded of None \<Rightarrow> [] | Some e \<Rightarrow> [e]) k1 [(REVOKED, as_str s)]
      (held_by LOCAL k - {s})" by simp
  then have "grants_ok k1" and held: "held_by LOCAL k1 = held_by LOCAL k - {s}"
    by (simp_all add: grants_moved_def)
  then have "grants_moved x k1 events1 k' (map (\<lambda>s. (REVOKED, as_str s)) ss) (held_by LOCAL k1 - set ss)"
    using Cons.prems rest by (intro Cons.IH) auto
  moreover have "held_by LOCAL k - {s} - set ss = held_by LOCAL k - set (s # ss)" by auto
  ultimately show ?case using grants_moved_trans[OF m]
    by (auto simp: held events split: option.splits)
qed

lemma run_changes_append:
  "run_changes (xs @ ys) i k =
     and_then (run_changes xs i k) (\<lambda>(es, k1).
     and_then (run_changes ys (i + length es) k1) (\<lambda>(es', k2). Inr (es @ es', k2)))"
proof (induction xs arbitrary: i k)
  case Nil
  show ?case by (cases "run_changes ys i k") auto
next
  case (Cons c xs)
  show ?case
  proof (cases "c i k")
    case (Inr r)
    obtain recorded k1 where r: "r = (recorded, k1)" by (cases r)
    let ?i = "case recorded of None \<Rightarrow> i | Some _ \<Rightarrow> i + 1"
    show ?thesis
    proof (cases "run_changes xs ?i k1")
      case (Inr q)
      obtain es k2 where q: "q = (es, k2)" by (cases q)
      let ?j = "?i + length es"
      have j: "i + length (case recorded of None \<Rightarrow> es | Some e \<Rightarrow> e # es) = ?j"
        by (cases recorded) auto
      show ?thesis
        using \<open>c i k = Inr r\<close> r Inr q Cons.IH[of ?i k1] j
        by (cases "run_changes ys ?j k2") (auto split: option.splits)
    qed (use Inr r Cons.IH in simp)
  qed simp
qed

text \<open>The changes a configuration asks for: what it lists that is not held, then the reverse.\<close>

definition config_changes :: "config \<Rightarrow> scope set \<Rightarrow> (string \<times> string) list" where
  "config_changes config held =
     map (\<lambda>s. (ADDED, as_str s)) (filter (\<lambda>s. s \<notin> held) (config_read config))
     @ map (\<lambda>s. (REVOKED, as_str s)) (filter (\<lambda>s. s \<notin> set (config_read config)) (sorted_list_of_set held))"

lemma reconcile_moved:
  assumes ok: "grants_ok k" and config: "config_ok config"
    and r: "reconcile x d config k = Inr (events, k')"
  shows "grants_moved x k events k' (config_changes config (held_by LOCAL k)) (set (config_read config))"
proof -
  let ?held = "held_by LOCAL k"
  let ?add = "filter (\<lambda>s. s \<notin> ?held) (config_read config)"
  let ?rem = "filter (\<lambda>s. s \<notin> set (config_read config)) (sorted_list_of_set ?held)"
  obtain es es' k1
    where a: "run_changes (map (\<lambda>s. grant_add x d (local_grant s)) ?add) 0 k = Inr (es, k1)"
      and b: "run_changes (map (\<lambda>s. grant_remove x d (local_grant s)) ?rem) (0 + length es) k1 = Inr (es', k')"
      and events: "events = es @ es'"
    using r by (auto simp: reconcile_def granted_scopes_ok[OF ok] btree_difference_def
        run_changes_append results split: prod.splits)
  have "distinct (config_read config)"
    using config distinct_btree_set[of "config_read config"] by (simp add: config_ok_def)
  then have m: "grants_moved x k es k1 (map (\<lambda>s. (ADDED, as_str s)) ?add) (?held \<union> set ?add)"
    using config ok a by (intro run_adds) (auto simp: config_ok_def list_all_iff)
  then have k1: "grants_ok k1" "held_by LOCAL k1 = ?held \<union> set ?add"
    by (simp_all add: grants_moved_def)
  then have "grants_moved x k1 es' k' (map (\<lambda>s. (REVOKED, as_str s)) ?rem) (held_by LOCAL k1 - set ?rem)"
    using b by (intro run_removes) auto
  moreover have "held_by LOCAL k1 - set ?rem = set (config_read config)"
    using k1 by auto
  ultimately show ?thesis
    using grants_moved_trans[OF m] by (simp add: events config_changes_def)
qed

section \<open>Loaded configurations\<close>

lemma btree_set_idem [simp]: "btree_set (btree_set xs) = btree_set xs"
  by (simp add: btree_set_eq)

lemma read_scope_valid: "read_scope v = Inr s \<Longrightarrow> valid_scope s"
  by (cases v) (auto simp: read_scope_def map_err_Inr scope_from_str_valid)

lemma collect_results_mem:
  "collect_results (map f xs) = Inr ys \<Longrightarrow> y \<in> set ys \<Longrightarrow> \<exists>v\<in>set xs. f v = Inr y"
  unfolding collect_results_Inr by (metis imageE imageI list.set_map)

lemma config_scopes_ok: "config_scopes v = Inr scopes \<Longrightarrow> list_all valid_scope scopes \<and> btree_set scopes = scopes"
proof (cases v)
  case (TomlArray paths)
  assume "config_scopes v = Inr scopes"
  then obtain ys where "collect_results (map read_scope paths) = Inr ys" "scopes = btree_set ys"
    using TomlArray by (auto simp: config_scopes_def results)
  then show ?thesis
    using collect_results_mem[of read_scope paths ys] read_scope_valid by (auto simp: list_all_iff)
qed (auto simp: config_scopes_def)

lemma readable_ok:
  "readable access read = Inr scopes \<Longrightarrow> list_all valid_scope read \<Longrightarrow> btree_set read = read \<Longrightarrow>
     list_all valid_scope scopes \<and> btree_set scopes = scopes"
  by (induction access read rule: readable.induct)
    (auto simp: results split: if_splits dest: config_scopes_ok)

lemma config_keys_ok:
  "config_keys table config = Inr config' \<Longrightarrow> config_ok config \<Longrightarrow> config_ok config'"
proof (induction table config rule: config_keys.induct)
  case (2 key v table config)
  have nil: "btree_set [] = ([] :: scope list)" by (simp add: btree_set_def)
  from 2 show ?case
    by (auto simp: results config_ok_def nil split: if_splits toml.splits dest: readable_ok[of _ "[]"])
qed simp

lemma config_load_ok: "config_load parse_toml contents = Inr config \<Longrightarrow> config_ok config"
proof -
  have "config_ok config_default" by (simp add: config_ok_def config_default_def btree_set_def)
  then show "config_load parse_toml contents = Inr config \<Longrightarrow> config_ok config"
    by (auto simp: config_load_def config_from_str_def results split: file_read.splits
        dest: config_keys_ok)
qed

section \<open>Properties\<close>

lemma set_covers_sorted:
  "finite A \<Longrightarrow> set_covers (ScopeSet (sorted_list_of_set A)) s \<longleftrightarrow> (\<exists>g\<in>A. scope_covers g s)"
  by (simp add: set_covers_def list_ex_iff)

lemma visible_covers:
  "grants_ok k \<Longrightarrow> visible who k = Inr scopes \<Longrightarrow> set_covers scopes s = (\<exists>g\<in>held_by who k. scope_covers g s)"
  by (auto simp: visible_ok set_covers_sorted)

text \<open>
  A grant shows at the principal's next read, adding its scope and all below it and nothing
  else, leaves every other principal as it was, and is journaled exactly when it is new.
\<close>

theorem grant_shows_next:
  assumes "grants_ok k" and "valid_scope s"
    and "grant_right x d who s Read actor k = (Inr recorded, k')"
  shows "(\<exists>scopes. visible who k' = Inr scopes \<and>
      (\<forall>t. set_covers scopes t \<longleftrightarrow> scope_covers s t \<or> (\<exists>g\<in>held_by who k. scope_covers g t)))
    \<and> (\<forall>other. other \<noteq> who \<longrightarrow> visible other k' = visible other k)
    \<and> grants_ok k' \<and> (recorded = None \<longleftrightarrow> s \<in> held_by who k) \<and> (recorded = None \<longrightarrow> k' = k)"
proof -
  let ?g = "\<lparr>g_principal = who, g_scope = s, g_right = Read, g_actor = actor\<rparr>"
  have "grant_add x d ?g 0 k = Inr (recorded, k')"
    using assms(3) by (simp add: grant_right_def db_write_Inr)
  from grant_add_change[OF assms(1) _ this] assms(2)
  have ch: "grant_change ?g ADDED (insert s (held_by who k)) (s \<notin> held_by who k) x k recorded k'"
    by simp
  then have ok: "grants_ok k'" and held: "held_by who k' = insert s (held_by who k)"
    and others: "\<forall>other. other \<noteq> who \<longrightarrow> held_by other k' = held_by other k"
    by (simp_all add: grant_change_def)
  have "visible who k' = Inr (ScopeSet (sorted_list_of_set (insert s (held_by who k))))"
    using visible_ok[OF ok, of who] held by simp
  moreover have "set_covers (ScopeSet (sorted_list_of_set (insert s (held_by who k)))) t
      \<longleftrightarrow> scope_covers s t \<or> (\<exists>g\<in>held_by who k. scope_covers g t)" for t
    by (subst set_covers_sorted) auto
  ultimately show ?thesis using ch ok others
    by (auto simp: visible_ok assms(1) grant_change_def split: if_splits)
qed

lemma grants_ok_empty: "grants_ok empty_kernel"
  by (simp add: grants_ok_def empty_kernel_def)

lemma valid_workspace: "valid_scope (Scope ''workspace/default'')"
  by code_simp

definition sample_granted :: kernel where
  "sample_granted = snd (grant_right sample (sample_draws 0) ''ann'' (Scope ''workspace/default'') Read
     ''root'' empty_kernel)"

lemma sample_grant:
  "\<exists>e. grant_right sample (sample_draws 0) ''ann'' (Scope ''workspace/default'') Read ''root'' empty_kernel
     = (Inr (Some e), sample_granted)"
proof -
  have "\<exists>e. fst (grant_right sample (sample_draws 0) ''ann'' (Scope ''workspace/default'') Read ''root''
      empty_kernel) = Inr (Some e)"
    by (rule exI[of _ "\<lparr>ev_id = 0, ev_stream = ''principal/ann'', ev_sequence = 1, ev_type = ADDED,
        ev_subject = ''principal/ann'', ev_scope = ''workspace/default'', ev_time = ''now'',
        ev_data = json_object [(''principal'', JStr ''ann''), (''right'', JStr ''read''),
          (''actor'', JStr ''root'')]\<rparr>"]) code_simp
  then show ?thesis unfolding sample_granted_def by (metis prod.collapse)
qed

lemma grant_shows_next_witness:
  "grants_ok sample_granted \<and> (\<exists>scopes. visible ''ann'' sample_granted = Inr scopes
     \<and> set_covers scopes (Scope ''workspace/default/collection/ct''))"
proof -
  obtain e where g: "grant_right sample (sample_draws 0) ''ann'' (Scope ''workspace/default'') Read
      ''root'' empty_kernel = (Inr (Some e), sample_granted)" using sample_grant by blast
  have "scope_covers (Scope ''workspace/default'') (Scope ''workspace/default/collection/ct'')"
    by code_simp
  then show ?thesis using grant_shows_next[OF grants_ok_empty valid_workspace g] by blast
qed

text \<open>
  C5: a revocation applies at the next read: the principal then sees exactly what its other
  grants cover, a grant above the scope among them, and no other principal sees a change.
\<close>

theorem revoke_next_read:
  assumes "grants_ok k" and "revoke_right x d who s Read actor k = (Inr recorded, k')"
  shows "(\<exists>scopes. visible who k' = Inr scopes \<and>
      (\<forall>t. set_covers scopes t \<longleftrightarrow> (\<exists>g\<in>held_by who k. g \<noteq> s \<and> scope_covers g t)))
    \<and> (\<forall>other. other \<noteq> who \<longrightarrow> visible other k' = visible other k)
    \<and> grants_ok k' \<and> (recorded = None \<longleftrightarrow> s \<notin> held_by who k) \<and> (recorded = None \<longrightarrow> k' = k)"
proof -
  let ?g = "\<lparr>g_principal = who, g_scope = s, g_right = Read, g_actor = actor\<rparr>"
  have "grant_remove x d ?g 0 k = Inr (recorded, k')"
    using assms(2) by (simp add: revoke_right_def db_write_Inr)
  from grant_remove_change[OF assms(1) this]
  have ch: "grant_change ?g REVOKED (held_by who k - {s}) (s \<in> held_by who k) x k recorded k'"
    by simp
  then have ok: "grants_ok k'" and held: "held_by who k' = held_by who k - {s}"
    and others: "\<forall>other. other \<noteq> who \<longrightarrow> held_by other k' = held_by other k"
    by (simp_all add: grant_change_def)
  have "visible who k' = Inr (ScopeSet (sorted_list_of_set (held_by who k - {s})))"
    using visible_ok[OF ok, of who] held by simp
  moreover have "set_covers (ScopeSet (sorted_list_of_set (held_by who k - {s}))) t
      \<longleftrightarrow> (\<exists>g\<in>held_by who k. g \<noteq> s \<and> scope_covers g t)" for t
    by (subst set_covers_sorted) auto
  ultimately show ?thesis using ch ok others
    by (auto simp: visible_ok assms(1) grant_change_def split: if_splits)
qed

lemma sample_granted_ok: "grants_ok sample_granted"
  by code_simp

lemma revoke_next_read_witness:
  "\<exists>scopes. visible ''ann'' (snd (revoke_right sample (sample_draws 1) ''ann''
       (Scope ''workspace/default'') Read ''root'' sample_granted)) = Inr scopes
     \<and> \<not> set_covers scopes (Scope ''workspace/default'')"
proof -
  let ?r = "revoke_right sample (sample_draws 1) ''ann'' (Scope ''workspace/default'') Read ''root''
    sample_granted"
  have "\<exists>e. fst ?r = Inr (Some e)"
    by (rule exI[of _ "\<lparr>ev_id = 10, ev_stream = ''principal/ann'', ev_sequence = 2, ev_type = REVOKED,
        ev_subject = ''principal/ann'', ev_scope = ''workspace/default'', ev_time = ''now'',
        ev_data = json_object [(''principal'', JStr ''ann''), (''right'', JStr ''read''),
          (''actor'', JStr ''root'')]\<rparr>"]) code_simp
  then obtain e where "?r = (Inr (Some e), snd ?r)" by (metis prod.collapse)
  from revoke_next_read[OF sample_granted_ok this]
  obtain scopes where "visible ''ann'' (snd ?r) = Inr scopes"
    and "\<forall>t. set_covers scopes t \<longleftrightarrow>
      (\<exists>g\<in>held_by ''ann'' sample_granted. g \<noteq> Scope ''workspace/default'' \<and> scope_covers g t)" by blast
  moreover have "held_by ''ann'' sample_granted = {Scope ''workspace/default''}" by code_simp
  ultimately show ?thesis by auto
qed

text \<open>What reconciling records has read back: the types and scopes of its events.\<close>

lemma apply_config_moved:
  assumes "grants_ok k" and "config_ok config" and "apply_config x d config k = (Inr events, k')"
  shows "grants_moved x k events k' (config_changes config (held_by LOCAL k)) (set (config_read config))"
  using assms by (intro reconcile_moved) (simp_all add: apply_config_def db_write_Inr)

lemma reconcile_nothing:
  assumes ok: "grants_ok k" and held: "held_by LOCAL k = set (config_read config)"
  shows "reconcile x d config k = Inr ([], k)"
proof -
  have "btree_difference (config_read config) (sorted_list_of_set (held_by LOCAL k)) = []"
    "btree_difference (sorted_list_of_set (held_by LOCAL k)) (config_read config) = []"
    unfolding btree_difference_def held by (simp_all add: filter_empty_conv)
  then show ?thesis by (simp add: reconcile_def granted_scopes_ok[OF ok])
qed

lemma config_visible:
  assumes "grants_ok k" and "config_ok config" and "held_by LOCAL k = set (config_read config)"
  shows "visible LOCAL k = Inr (ScopeSet (config_read config))"
  using assms by (simp add: visible_ok config_ok_def btree_set_sorted_list)

text \<open>
  C22: after a configuration is applied, the local principal may read exactly the scopes the
  file lists; the journal holds one event for each scope added, then one for each revoked, and
  no more; no other principal changes; and applying it again records nothing.
\<close>

theorem apply_config_exact:
  assumes "grants_ok k" and "config_load parse_toml contents = Inr config"
    and "apply_config x d config k = (Inr events, k')"
  shows "visible LOCAL k' = Inr (ScopeSet (config_read config))
    \<and> (\<forall>who. who \<noteq> LOCAL \<longrightarrow> visible who k' = visible who k)
    \<and> map (\<lambda>e. (ev_type e, ev_scope e)) events = config_changes config (held_by LOCAL k)
    \<and> (\<exists>rows. k_events k' = k_events k @ rows \<and> map (event_row x) rows = map Inr events)
    \<and> apply_config x d' config k' = (Inr [], k')"
proof -
  have config: "config_ok config" using assms(2) by (rule config_load_ok)
  have m: "grants_moved x k events k' (config_changes config (held_by LOCAL k)) (set (config_read config))"
    by (rule apply_config_moved[OF assms(1) config assms(3)])
  then have ok: "grants_ok k'" and held: "held_by LOCAL k' = set (config_read config)"
    by (simp_all add: grants_moved_def)
  have "apply_config x d' config k' = (Inr [], k')"
    using reconcile_nothing[OF ok held] by (simp add: apply_config_def db_write_def)
  moreover have "visible LOCAL k' = Inr (ScopeSet (config_read config))"
    by (rule config_visible[OF ok config held])
  ultimately show ?thesis using m ok by (simp add: grants_moved_def visible_ok assms(1))
qed

definition sample_toml :: "string \<Rightarrow> string + (string \<times> toml) list" where
  "sample_toml text =
     Inr [(''access'', TomlTable [(''read'', TomlArray [TomlString ''workspace/default''])])]"

definition sample_config :: config where
  "sample_config = Config [Scope ''workspace/default'']"

lemma sample_config_load: "config_load sample_toml (FileText ''t'') = Inr sample_config"
  by code_simp

lemma sample_apply:
  "apply_config sample (sample_draws 1) sample_config sample_granted
     = (Inr [\<lparr>ev_id = 10, ev_stream = ''principal/local'', ev_sequence = 1, ev_type = ADDED,
        ev_subject = ''principal/local'', ev_scope = ''workspace/default'', ev_time = ''now'',
        ev_data = json_object [(''principal'', JStr ''local''), (''right'', JStr ''read''),
          (''actor'', JStr ''config.toml'')]\<rparr>],
        snd (apply_config sample (sample_draws 1) sample_config sample_granted))"
  by code_simp

lemma apply_config_exact_witness:
  "visible LOCAL (snd (apply_config sample (sample_draws 1) sample_config sample_granted))
     = Inr (ScopeSet [Scope ''workspace/default''])"
  using apply_config_exact[OF sample_granted_ok sample_config_load sample_apply, of "sample_draws 2"]
  by (simp add: sample_config_def)

text \<open>
  C25: a refresh returns the very scopes the principal's next visibility read would find, and a
  configuration that cannot be loaded is refused with the grants as they were.
\<close>

theorem refresh_config_snapshot:
  assumes "grants_ok k"
  shows "case refresh_config x d (config_load parse_toml contents) k of
      (Inr scopes, k') \<Rightarrow> visible LOCAL k' = Inr scopes \<and> grants_ok k'
        \<and> (\<forall>who. who \<noteq> LOCAL \<longrightarrow> visible who k' = visible who k)
    | (Inl e, k') \<Rightarrow> k' = k \<and> (\<forall>c. config_load parse_toml contents = Inl c \<longrightarrow> e = RefreshConfig c)"
proof (cases "config_load parse_toml contents")
  case (Inl c)
  then show ?thesis by (simp add: refresh_config_def db_write_def)
next
  case (Inr config)
  have config: "config_ok config" using Inr by (rule config_load_ok)
  show ?thesis
  proof (cases "reconcile x d config k")
    case (Inl e)
    then show ?thesis using Inr by (simp add: refresh_config_def db_write_def)
  next
    case r: (Inr p)
    obtain events k' where p: "p = (events, k')" by (cases p)
    have m: "grants_moved x k events k' (config_changes config (held_by LOCAL k)) (set (config_read config))"
      using reconcile_moved[OF assms config] r p by blast
    then have ok: "grants_ok k'" and held: "held_by LOCAL k' = set (config_read config)"
      by (simp_all add: grants_moved_def)
    have "visible LOCAL k' = Inr (ScopeSet (config_read config))"
      by (rule config_visible[OF ok config held])
    moreover have "refresh_config x d (Inr config) k = (Inr (ScopeSet (config_read config)), k')"
      using r p by (simp add: refresh_config_def db_write_def)
    ultimately show ?thesis using m ok Inr by (simp add: grants_moved_def visible_ok assms)
  qed
qed

lemma refresh_config_snapshot_witness:
  "visible LOCAL (snd (refresh_config sample (sample_draws 1)
      (config_load sample_toml (FileText ''t'')) sample_granted))
     = Inr (ScopeSet [Scope ''workspace/default''])"
proof -
  let ?r = "refresh_config sample (sample_draws 1) (config_load sample_toml (FileText ''t'')) sample_granted"
  have "fst ?r = Inr (ScopeSet [Scope ''workspace/default''])" by code_simp
  then obtain k' where r: "?r = (Inr (ScopeSet [Scope ''workspace/default'']), k')"
    by (metis prod.collapse)
  have "visible LOCAL k' = Inr (ScopeSet [Scope ''workspace/default''])"
    using refresh_config_snapshot[OF sample_granted_ok, where x = sample and d = "sample_draws 1"
        and parse_toml = sample_toml and contents = "FileText ''t''"]
    unfolding r by simp
  then show ?thesis unfolding r by simp
qed

lemma condition_nothing: "condition path [] = False"
  by (simp add: condition_def)

text \<open>
  Nothing is granted implicitly: a principal with no grant reads no event of any stream and
  knows no scope, whatever the database holds.
\<close>

theorem no_grant_reads_nothing:
  assumes "\<forall>row\<in>set (k_grants k). gr_principal row \<noteq> who"
  shows "\<exists>scopes. visible who k = Inr scopes \<and> set_is_empty scopes
    \<and> events_read x scopes f k = Inr [] \<and> known_scopes scopes k = Inr []"
proof -
  have "filter (\<lambda>row. gr_principal row = who \<and> gr_right row = right_str Read) (k_grants k) = []"
    using assms by (simp add: filter_empty_conv)
  then have "visible who k = Inr (ScopeSet [])"
    by (simp add: visible_def granted_scopes_def btree_set_def del: right_str_read)
  moreover have "filter (selects_event f (ScopeSet [])) (k_events k) = []"
    by (simp add: filter_empty_conv selects_event_def parameter_def condition_nothing)
  then have "events_read x (ScopeSet []) f k = Inr []"
    by (simp add: events_read_def)
  moreover have "known_scopes (ScopeSet []) k = Inr []"
    by (simp add: known_scopes_def parameter_def condition_nothing)
  ultimately show ?thesis by (simp add: set_is_empty_def)
qed

lemma no_grant_reads_nothing_witness:
  "k_grants sample_granted \<noteq> [] \<and> (\<exists>scopes. visible ''bob'' sample_granted = Inr scopes
     \<and> events_read sample scopes \<lparr>fi_stream = ''principal/ann'', fi_after = 0, fi_type = None\<rparr>
         sample_granted = Inr [])"
proof
  show "k_grants sample_granted \<noteq> []" by code_simp
  have "\<forall>row\<in>set (k_grants sample_granted). gr_principal row \<noteq> ''bob''" by code_simp
  from no_grant_reads_nothing[OF this]
  show "\<exists>scopes. visible ''bob'' sample_granted = Inr scopes
     \<and> events_read sample scopes \<lparr>fi_stream = ''principal/ann'', fi_after = 0, fi_type = None\<rparr>
         sample_granted = Inr []" by blast
qed

end
