(* ===== verification/Jobs.thy ===== *)
theory Jobs
  imports Journal
begin

text \<open>
  Jobs, \<open>crates/maestro-kernel/src/job/\<close>: the states and their moves (\<open>state.rs\<close>), submission and
  the readers (\<open>record.rs\<close>), leases (\<open>lease.rs\<close>), steps (\<open>progress.rs\<close>), outcomes
  (\<open>outcome.rs\<close>) and the events of a job (\<open>events.rs\<close>), over the \<open>jobs\<close> table with the CHECKs,
  the unique indexes and the triggers of \<open>migrations/0005_jobs.sql\<close>. A \<open>SystemTime\<close> is its
  nanoseconds since 1970, a \<open>Duration\<close> its nanoseconds.
\<close>

section \<open>States (job/state.rs)\<close>

datatype job_state = Queued | Running | Succeeded | Failed | Cancelled

definition JOB_MOVES :: "(job_state \<times> job_state) list" where
  "JOB_MOVES =
     [(Queued, Running), (Queued, Cancelled), (Running, Succeeded), (Running, Failed),
      (Running, Cancelled)]"

definition JOB_STATES :: "job_state list" where
  "JOB_STATES = [Queued, Running, Succeeded, Failed, Cancelled]"

definition may_move_to :: "job_state \<Rightarrow> job_state \<Rightarrow> bool" where
  "may_move_to from to \<longleftrightarrow> (from, to) \<in> set JOB_MOVES"

fun job_state_str :: "job_state \<Rightarrow> string" where
  "job_state_str Queued = ''queued''"
| "job_state_str Running = ''running''"
| "job_state_str Succeeded = ''succeeded''"
| "job_state_str Failed = ''failed''"
| "job_state_str Cancelled = ''cancelled''"

definition job_state_named :: "string \<Rightarrow> job_state option" where
  "job_state_named name = List.find (\<lambda>state. job_state_str state = name) JOB_STATES"

section \<open>Jobs and leases (job/record.rs, job/error.rs)\<close>

definition MAX_RESOURCE_JOBS :: nat where
  "MAX_RESOURCE_JOBS = 1000"

record new_job =
  nj_kind :: string
  nj_inputs :: json
  nj_scope :: scope
  nj_resource :: "string option"

record lease =
  le_job :: ulid
  le_holder :: string
  le_number :: nat
  le_heartbeat :: string
  le_expires :: string

record job =
  jo_id :: ulid
  jo_kind :: string
  jo_key :: digest
  jo_attempt :: nat
  jo_scope :: scope
  jo_resource :: "string option"
  jo_state :: job_state
  jo_lease :: "lease option"
  jo_outcome :: "json option"

datatype job_error =
    UnknownJob ulid
  | IllegalMove ulid job_state job_state
  | Held ulid string string
  | ResourceHeld string ulid
  | TooManyJobs string nat
  | Lost ulid string nat
  | TimeError
  | JobJournal journal_error
  | JobStore store_error

definition job_sqlite :: "sqlite_error \<Rightarrow> job_error" where
  "job_sqlite e = JobStore (Sqlite e)"

definition lease_of :: "ulid \<Rightarrow> nat \<Rightarrow> job_record \<Rightarrow> lease option" where
  "lease_of jid number row =
     (case (jr_holder row, jr_heartbeat row, jr_expires row) of
        (Some holder, Some heartbeat, Some expires) \<Rightarrow>
          Some \<lparr>le_job = jid, le_holder = holder, le_number = number,
                le_heartbeat = heartbeat, le_expires = expires\<rparr>
      | _ \<Rightarrow> None)"

definition job_row :: "ext \<Rightarrow> job_record \<Rightarrow> sqlite_error + job" where
  "job_row x row =
     and_then (ok_or (FromSqlConversionFailure 0) (ulid_parse x (jr_id row))) (\<lambda>jid.
     and_then (unsigned_i64 (jr_number row) 7) (\<lambda>number.
     and_then (map_err (\<lambda>_. FromSqlConversionFailure 2) (digest_parse (jr_key row))) (\<lambda>key.
     and_then (unsigned_i64 (jr_attempt row) 3) (\<lambda>attempt.
     and_then (map_err (\<lambda>_. FromSqlConversionFailure 4) (scope_from_str (jr_scope row))) (\<lambda>scope.
     and_then (ok_or (FromSqlConversionFailure 6) (job_state_named (jr_state row))) (\<lambda>state.
     and_then (case jr_outcome row of
                 None \<Rightarrow> Inr None
               | Some text \<Rightarrow> map_err (\<lambda>_. FromSqlConversionFailure 11)
                   (and_then (ok_or () (json_parse x text)) (\<lambda>v. Inr (Some v)))) (\<lambda>outcome.
       Inr \<lparr>jo_id = jid, jo_kind = jr_kind row, jo_key = key, jo_attempt = attempt,
            jo_scope = scope, jo_resource = jr_resource row, jo_state = state,
            jo_lease = lease_of jid number row, jo_outcome = outcome\<rparr>)))))))"

section \<open>The table (migrations/0005_jobs.sql)\<close>

definition job_ended :: "job_record \<Rightarrow> bool" where
  "job_ended row \<longleftrightarrow> jr_state row \<in> set [''succeeded'', ''failed'', ''cancelled'']"

definition job_live :: "job_record \<Rightarrow> bool" where
  "job_live row \<longleftrightarrow> jr_state row \<in> set [''queued'', ''running'', ''succeeded'']"

definition job_unfinished :: "job_record \<Rightarrow> bool" where
  "job_unfinished row \<longleftrightarrow> jr_state row \<in> set [''queued'', ''running'']"

definition null_or :: "('a \<Rightarrow> bool) \<Rightarrow> 'a option \<Rightarrow> bool" where
  "null_or ok v = (case v of None \<Rightarrow> True | Some w \<Rightarrow> ok w)"

definition job_checks :: "ext \<Rightarrow> job_record \<Rightarrow> bool" where
  "job_checks x row \<longleftrightarrow>
     1 \<le> jr_attempt row
     \<and> jr_state row \<in> set [''queued'', ''running'', ''succeeded'', ''failed'', ''cancelled'']
     \<and> 0 \<le> jr_number row
     \<and> null_or clock_form (jr_heartbeat row) \<and> null_or clock_form (jr_expires row)
     \<and> null_or (json_valid x) (jr_outcome row)
     \<and> (jr_state row = ''running'') = (jr_holder row \<noteq> None)
     \<and> (jr_holder row = None) = (jr_heartbeat row = None)
     \<and> (jr_holder row = None) = (jr_expires row = None)
     \<and> (jr_state row \<noteq> ''running'' \<or> 1 \<le> jr_number row)
     \<and> job_ended row = (jr_outcome row \<noteq> None)"

text \<open>Two rows that cannot stand together: the primary key aside, the unique indexes.\<close>

definition job_clash :: "job_record \<Rightarrow> job_record \<Rightarrow> bool" where
  "job_clash row other \<longleftrightarrow>
     jr_key other = jr_key row \<and> jr_attempt other = jr_attempt row
     \<or> job_live row \<and> jr_key other = jr_key row \<and> job_live other
     \<or> jr_resource row \<noteq> None \<and> job_unfinished row
       \<and> jr_resource other = jr_resource row \<and> job_unfinished other"

definition insert_job :: "ext \<Rightarrow> job_record \<Rightarrow> job_record list \<Rightarrow> sqlite_error + job_record list" where
  "insert_job x row jobs =
     (if list_ex (\<lambda>other. jr_id other = jr_id row) jobs \<or> list_ex (job_clash row) jobs
      then Inl (ConstraintViolation ''jobs_are_never_replaced'')
      else if \<not> job_checks x row then Inl (ConstraintViolation ''CHECK'')
      else Inr (jobs @ [row]))"

text \<open>The BEFORE UPDATE triggers.\<close>

definition job_update_refused :: "job_record \<Rightarrow> job_record \<Rightarrow> bool" where
  "job_update_refused old new \<longleftrightarrow>
     job_ended old
     \<or> jr_state old \<noteq> jr_state new \<and> job_unfinished old
       \<and> \<not> (jr_state old = ''queued'' \<and> jr_state new \<in> set [''running'', ''cancelled''])
       \<and> \<not> (jr_state old = ''running'' \<and> jr_state new \<in> set [''succeeded'', ''failed'', ''cancelled''])
     \<or> jr_number new < jr_number old"

text \<open>\<open>UPDATE jobs SET ... WHERE id = ?1\<close>: the rows it leaves and the row it returns, if any.\<close>

definition update_job ::
  "ext \<Rightarrow> string \<Rightarrow> (job_record \<Rightarrow> sqlite_error + job_record) \<Rightarrow> job_record list
     \<Rightarrow> sqlite_error + job_record list \<times> job_record list" where
  "update_job x jid assign jobs =
     (case List.find (\<lambda>row. jr_id row = jid) jobs of
        None \<Rightarrow> Inr ([], jobs)
      | Some old \<Rightarrow>
          and_then (assign old) (\<lambda>new.
            if job_update_refused old new then Inl (ConstraintViolation ''jobs trigger'')
            else if \<not> job_checks x new then Inl (ConstraintViolation ''CHECK'')
            else if list_ex (\<lambda>other. jr_id other \<noteq> jid \<and> job_clash new other) jobs
            then Inl (ConstraintViolation ''UNIQUE'')
            else Inr ([new], map (\<lambda>row. if jr_id row = jid then new else row) jobs)))"

section \<open>Events of a job (job/events.rs)\<close>

definition JOB_CREATED :: string where "JOB_CREATED = ''maestro.job.created.v1''"
definition JOB_TAKEN :: string where "JOB_TAKEN = ''maestro.job.taken.v1''"
definition JOB_TAKEN_OVER :: string where "JOB_TAKEN_OVER = ''maestro.job.taken_over.v1''"
definition JOB_PROGRESSED :: string where "JOB_PROGRESSED = ''maestro.job.progressed.v1''"
definition JOB_SUCCEEDED :: string where "JOB_SUCCEEDED = ''maestro.job.succeeded.v1''"
definition JOB_FAILED :: string where "JOB_FAILED = ''maestro.job.failed.v1''"
definition JOB_CANCELLED :: string where "JOB_CANCELLED = ''maestro.job.cancelled.v1''"

definition job_stream :: "ext \<Rightarrow> ulid \<Rightarrow> string" where
  "job_stream x jid = ''job/'' @ ulid_text x jid"

fun moved_into :: "job_state \<Rightarrow> string" where
  "moved_into Queued = JOB_CREATED"
| "moved_into Running = JOB_TAKEN"
| "moved_into Succeeded = JOB_SUCCEEDED"
| "moved_into Failed = JOB_FAILED"
| "moved_into Cancelled = JOB_CANCELLED"

definition job_event :: "ext \<Rightarrow> ulid \<Rightarrow> scope \<Rightarrow> string \<Rightarrow> json \<Rightarrow> new_event" where
  "job_event x jid scope t data =
     \<lparr>ne_stream = job_stream x jid, ne_type = t, ne_subject = job_stream x jid,
      ne_scope = as_str scope, ne_data = data\<rparr>"

definition record_on_stream ::
  "ext \<Rightarrow> draws \<Rightarrow> ulid \<Rightarrow> scope \<Rightarrow> string \<Rightarrow> json \<Rightarrow> kernel \<Rightarrow> job_error + event \<times> kernel" where
  "record_on_stream x d jid scope t data k =
     map_err JobStore (record_event x d 0 (job_event x jid scope t data) k)"

section \<open>Submission (job/record.rs)\<close>

definition idempotency_key :: "ext \<Rightarrow> new_job \<Rightarrow> digest" where
  "idempotency_key x new =
     digest_of x (json_text x (JArr [JStr (nj_kind new), JStr (as_str (nj_scope new)), nj_inputs new]))"

definition first_job ::
  "ext \<Rightarrow> job_record list \<Rightarrow> job_error + job option" where
  "first_job x found = map_err job_sqlite (optional (query_row (job_row x) found))"

definition find_job :: "ext \<Rightarrow> scope_set option \<Rightarrow> ulid \<Rightarrow> kernel \<Rightarrow> job_error + job option" where
  "find_job x scopes jid k =
     first_job x (filter (\<lambda>row. jr_id row = ulid_text x jid
         \<and> (case scopes of None \<Rightarrow> True | Some s \<Rightarrow> condition (jr_scope row) (parameter s)))
       (k_jobs k))"

definition live_of_key :: "digest \<Rightarrow> kernel \<Rightarrow> job_record list" where
  "live_of_key key k = filter (\<lambda>row. jr_key row = digest_str key \<and> job_live row) (k_jobs k)"

definition holding :: "string \<Rightarrow> kernel \<Rightarrow> job_record list" where
  "holding resource k =
     filter (\<lambda>row. jr_resource row = Some resource \<and> job_unfinished row) (k_jobs k)"

text \<open>\<open>ORDER BY attempt DESC LIMIT 1\<close>.\<close>

definition last_of_key :: "digest \<Rightarrow> kernel \<Rightarrow> job_record list" where
  "last_of_key key k =
     take 1 (sort_key (\<lambda>row. - jr_attempt row)
       (filter (\<lambda>row. jr_key row = digest_str key) (k_jobs k)))"

definition free_resource :: "ext \<Rightarrow> string option \<Rightarrow> kernel \<Rightarrow> job_error + unit" where
  "free_resource x resource k =
     (case resource of
        None \<Rightarrow> Inr ()
      | Some resource \<Rightarrow>
          and_then (first_job x (holding resource k)) (\<lambda>found.
            case found of
              Some holder \<Rightarrow> Inl (ResourceHeld resource (jo_id holder))
            | None \<Rightarrow> Inr ()))"

definition submit_job :: "ext \<Rightarrow> draws \<Rightarrow> new_job \<Rightarrow> kernel \<Rightarrow> (job_error + job) \<times> kernel" where
  "submit_job x d new =
     (let key = idempotency_key x new in
      db_write (\<lambda>k.
        and_then (first_job x (live_of_key key k)) (\<lambda>live.
        case live of
          Some job \<Rightarrow> Inr (job, k)
        | None \<Rightarrow>
            and_then (free_resource x (nj_resource new) k) (\<lambda>_.
            and_then (first_job x (last_of_key key k)) (\<lambda>previous.
            and_then
              (map_err job_sqlite
                (and_then
                  (strict_integer (coalesce_max
                     (map jr_attempt (filter (\<lambda>row. jr_key row = digest_str key) (k_jobs k))) + 1))
                  (\<lambda>attempt.
                    let row = \<lparr>jr_id = ulid_text x (d_job d), jr_kind = nj_kind new,
                               jr_key = digest_str key, jr_attempt = attempt,
                               jr_scope = as_str (nj_scope new), jr_resource = nj_resource new,
                               jr_state = ''queued'', jr_number = 0, jr_holder = None,
                               jr_heartbeat = None, jr_expires = None, jr_outcome = None\<rparr> in
                    and_then (insert_job x row (k_jobs k)) (\<lambda>jobs.
                    and_then (job_row x row) (\<lambda>job. Inr (job, k\<lparr>k_jobs := jobs\<rparr>))))))
              (\<lambda>(job, k1).
                let data = (case previous of
                    Some previous \<Rightarrow> json_object [(''inputs'', nj_inputs new),
                      (''previous_attempt'', JStr (ulid_text x (jo_id previous)))]
                  | None \<Rightarrow> json_object [(''inputs'', nj_inputs new)]) in
                and_then (record_on_stream x d (jo_id job) (jo_scope job) (moved_into Queued) data k1)
                  (\<lambda>(_, k2). Inr (job, k2))))))))"

definition unfinished_jobs :: "ext \<Rightarrow> scope_set \<Rightarrow> string \<Rightarrow> kernel \<Rightarrow> job_error + job list" where
  "unfinished_jobs x scopes resource k =
     map_err job_sqlite
       (collect_results (map (job_row x)
         (sort_key jr_id (filter (\<lambda>row. condition (jr_scope row) (parameter scopes))
            (holding resource k)))))"

definition jobs_for_resource ::
  "ext \<Rightarrow> scope_set \<Rightarrow> string \<Rightarrow> string \<Rightarrow> kernel \<Rightarrow> job_error + job list" where
  "jobs_for_resource x scopes kind resource k =
     and_then
       (map_err job_sqlite
         (collect_results (map (job_row x)
           (take (MAX_RESOURCE_JOBS + 1)
             (rev (filter (\<lambda>row. jr_kind row = kind \<and> jr_resource row = Some resource
                \<and> condition (jr_scope row) (parameter scopes)) (k_jobs k)))))))
       (\<lambda>jobs. if length jobs > MAX_RESOURCE_JOBS then Inl (TooManyJobs resource MAX_RESOURCE_JOBS)
               else Inr jobs)"

definition job_read :: "ext \<Rightarrow> scope_set \<Rightarrow> ulid \<Rightarrow> kernel \<Rightarrow> job_error + job option" where
  "job_read x scopes jid k = find_job x (Some scopes) jid k"

section \<open>Leases (job/lease.rs)\<close>

definition SECOND :: int where
  "SECOND = 1000000000"

text \<open>\<open>SystemTime::checked_add\<close>: none past the largest number of seconds.\<close>

definition time_add :: "int \<Rightarrow> nat \<Rightarrow> int option" where
  "time_add now term = (if (now + int term) div SECOND \<le> I64_MAX then Some (now + int term) else None)"

definition time_millis :: "int option \<Rightarrow> int option" where
  "time_millis time =
     Option.bind time (\<lambda>t. if 0 \<le> t \<and> t div 1000000 \<le> I64_MAX then Some (t div 1000000) else None)"

text \<open>\<open>strftime\<close> of NULL is NULL, as it is of a time it cannot write.\<close>

definition timestamp :: "ext \<Rightarrow> int option \<Rightarrow> job_error + string" where
  "timestamp x time = ok_or TimeError (Option.bind (time_millis time) (strftime_millis x))"

definition lease_times :: "ext \<Rightarrow> int \<Rightarrow> nat \<Rightarrow> job_error + string \<times> string" where
  "lease_times x now term =
     and_then (timestamp x (Some now)) (\<lambda>heartbeat.
     and_then (timestamp x (time_add now term)) (\<lambda>expires. Inr (heartbeat, expires)))"

definition lease_data :: "lease \<Rightarrow> json" where
  "lease_data lease =
     json_object [(''holder'', JStr (le_holder lease)), (''number'', JNumber (int (le_number lease))),
       (''heartbeat'', JStr (le_heartbeat lease)), (''expires'', JStr (le_expires lease))]"

definition known_job :: "ext \<Rightarrow> ulid \<Rightarrow> kernel \<Rightarrow> job_error + job" where
  "known_job x jid k = and_then (find_job x None jid k) (ok_or (UnknownJob jid))"

definition take_job ::
  "ext \<Rightarrow> draws \<Rightarrow> ulid \<Rightarrow> string \<Rightarrow> int \<Rightarrow> nat \<Rightarrow> kernel \<Rightarrow> (job_error + lease) \<times> kernel" where
  "take_job x d jid holder now term =
     db_write (\<lambda>k.
       and_then (known_job x jid k) (\<lambda>job.
       and_then (lease_times x now term) (\<lambda>(heartbeat, expires).
       and_then
         (case jo_lease job of
            Some current \<Rightarrow>
              if le_expires current > heartbeat
              then Inl (Held jid (le_holder current) (le_expires current)) else Inr ()
          | None \<Rightarrow>
              if \<not> may_move_to (jo_state job) Running
              then Inl (IllegalMove jid (jo_state job) Running) else Inr ()) (\<lambda>_.
       and_then
         (map_err job_sqlite
           (and_then
             (update_job x (ulid_text x jid)
               (\<lambda>row. and_then (strict_integer (jr_number row + 1)) (\<lambda>number.
                  Inr (row\<lparr>jr_state := ''running'', jr_number := number, jr_holder := Some holder,
                           jr_heartbeat := Some heartbeat, jr_expires := Some expires\<rparr>)))
               (k_jobs k))
             (\<lambda>(returned, jobs).
               and_then (query_row (\<lambda>row. unsigned_i64 (jr_number row) 0) returned) (\<lambda>number.
                 Inr (number, k\<lparr>k_jobs := jobs\<rparr>))))) (\<lambda>(number, k1).
       let lease = \<lparr>le_job = jid, le_holder = holder, le_number = number,
                    le_heartbeat = heartbeat, le_expires = expires\<rparr>;
           (t, data) = (case jo_lease job of
               Some previous \<Rightarrow> (JOB_TAKEN_OVER,
                 json_object [(''lease'', lease_data lease), (''previous_lease'', lease_data previous)])
             | None \<Rightarrow> (moved_into Running, json_object [(''lease'', lease_data lease)])) in
       and_then (record_on_stream x d jid (jo_scope job) t data k1) (\<lambda>(_, k2). Inr (lease, k2)))))))"

definition held_lease :: "ext \<Rightarrow> lease \<Rightarrow> kernel \<Rightarrow> job_error + job" where
  "held_lease x lease k =
     and_then (known_job x (le_job lease) k) (\<lambda>job.
       if (case jo_lease job of None \<Rightarrow> False | Some current \<Rightarrow> le_number current = le_number lease)
       then Inr job
       else Inl (Lost (le_job lease) (le_holder lease) (le_number lease)))"

definition renewal ::
  "ext \<Rightarrow> lease \<Rightarrow> int \<Rightarrow> nat \<Rightarrow> kernel \<Rightarrow> job_error + lease \<times> kernel" where
  "renewal x lease now term k =
     and_then (lease_times x now term) (\<lambda>(heartbeat, expires).
     and_then
       (map_err job_sqlite
         (update_job x (ulid_text x (le_job lease))
           (\<lambda>row. Inr (row\<lparr>jr_heartbeat := Some heartbeat, jr_expires := Some expires\<rparr>)) (k_jobs k)))
       (\<lambda>(_, jobs). Inr (lease\<lparr>le_heartbeat := heartbeat, le_expires := expires\<rparr>, k\<lparr>k_jobs := jobs\<rparr>)))"

text \<open>The caller's lease is renewed only once the write is committed.\<close>

definition heartbeat ::
  "ext \<Rightarrow> lease \<Rightarrow> int \<Rightarrow> nat \<Rightarrow> kernel \<Rightarrow> (job_error + unit) \<times> lease \<times> kernel" where
  "heartbeat x lease now term k =
     (case db_write (\<lambda>k. and_then (held_lease x lease k) (\<lambda>_. renewal x lease now term k)) k of
        (Inl e, k') \<Rightarrow> (Inl e, lease, k')
      | (Inr renewed, k') \<Rightarrow> (Inr (), renewed, k'))"

section \<open>Steps (job/progress.rs)\<close>

definition progress ::
  "ext \<Rightarrow> draws \<Rightarrow> lease \<Rightarrow> int \<Rightarrow> nat \<Rightarrow> json \<Rightarrow> kernel \<Rightarrow> (job_error + event) \<times> lease \<times> kernel"
where
  "progress x d lease now term data k =
     (case db_write (\<lambda>k.
             and_then (held_lease x lease k) (\<lambda>job.
             and_then (renewal x lease now term k) (\<lambda>(renewed, k1).
             and_then (record_on_stream x d (jo_id job) (jo_scope job) JOB_PROGRESSED data k1)
               (\<lambda>(event, k2). Inr ((renewed, event), k2))))) k of
        (Inl e, k') \<Rightarrow> (Inl e, lease, k')
      | (Inr (renewed, event), k') \<Rightarrow> (Inr event, renewed, k'))"

definition last_progress :: "ext \<Rightarrow> scope_set \<Rightarrow> ulid \<Rightarrow> kernel \<Rightarrow> job_error + event option" where
  "last_progress x scopes jid k =
     and_then (job_read x scopes jid k) (\<lambda>found.
     and_then (ok_or (UnknownJob jid) found) (\<lambda>_.
     and_then
       (map_err JobJournal
         (events_read x scopes
           \<lparr>fi_stream = job_stream x jid, fi_after = 0, fi_type = Some JOB_PROGRESSED\<rparr> k))
       (\<lambda>steps. Inr (if steps = [] then None else Some (last steps)))))"

section \<open>Outcomes (job/outcome.rs)\<close>

definition end_job ::
  "ext \<Rightarrow> draws \<Rightarrow> job \<Rightarrow> job_state \<Rightarrow> json \<Rightarrow> kernel \<Rightarrow> job_error + job \<times> kernel" where
  "end_job x d job to outcome k =
     and_then
       (map_err job_sqlite
         (and_then
           (update_job x (ulid_text x (jo_id job))
             (\<lambda>row. Inr (row\<lparr>jr_state := job_state_str to, jr_outcome := Some (json_text x outcome),
                            jr_holder := None, jr_heartbeat := None, jr_expires := None\<rparr>))
             (k_jobs k))
           (\<lambda>(returned, jobs).
             and_then (query_row (job_row x) returned) (\<lambda>ended. Inr (ended, k\<lparr>k_jobs := jobs\<rparr>)))))
       (\<lambda>(ended, k1).
         let data = (case jo_lease job of
             Some lease \<Rightarrow> json_object [(''outcome'', outcome), (''lease'', lease_data lease)]
           | None \<Rightarrow> json_object [(''outcome'', outcome)]) in
         and_then (record_on_stream x d (jo_id ended) (jo_scope ended) (moved_into to) data k1)
           (\<lambda>(_, k2). Inr (ended, k2)))"

definition complete_job ::
  "ext \<Rightarrow> draws \<Rightarrow> lease \<Rightarrow> job_state \<Rightarrow> json \<Rightarrow> kernel \<Rightarrow> (job_error + job) \<times> kernel" where
  "complete_job x d lease to outcome =
     db_write (\<lambda>k.
       and_then (held_lease x lease k) (\<lambda>job.
         if \<not> may_move_to (jo_state job) to then Inl (IllegalMove (le_job lease) (jo_state job) to)
         else end_job x d job to outcome k))"

definition cancel_job ::
  "ext \<Rightarrow> draws \<Rightarrow> ulid \<Rightarrow> json \<Rightarrow> kernel \<Rightarrow> (job_error + job) \<times> kernel" where
  "cancel_job x d jid outcome =
     db_write (\<lambda>k.
       and_then (known_job x jid k) (\<lambda>job.
         case jo_lease job of
           Some current \<Rightarrow> Inl (Held jid (le_holder current) (le_expires current))
         | None \<Rightarrow>
             if \<not> may_move_to (jo_state job) Cancelled then Inl (IllegalMove jid (jo_state job) Cancelled)
             else end_job x d job Cancelled outcome k))"

end
