(* ===== verification/Job_Rows.thy ===== *)
theory Job_Rows
  imports Jobs
begin

text \<open>
  The \<open>jobs\<close> table under its guards: what every row obeys, how a row may change, and what the
  statements of the jobs module do to the table. The lemmas on the operations of \<open>Jobs\<close> that the
  theories after this one rest on.
\<close>

section \<open>The states of a job\<close>

interpretation job_states: named_enum JOB_STATES job_state_str
proof unfold_locales
  show "v \<in> set JOB_STATES" for v by (cases v) (simp_all add: JOB_STATES_def)
  show "v = w" if "job_state_str v = job_state_str w" for v w
    using that by (cases v; cases w) simp_all
qed

fun job_rank :: "job_state \<Rightarrow> nat" where
  "job_rank Queued = 0"
| "job_rank Running = 1"
| "job_rank _ = 2"

interpretation job_life: lifecycle JOB_MOVES job_rank
  by unfold_locales (auto simp: JOB_MOVES_def)

lemma job_state_named_iff: "job_state_named s = Some v \<longleftrightarrow> job_state_str v = s"
  unfolding job_state_named_def by (rule job_states.named_iff)

lemma job_state_str_cases:
  "job_state_str v = ''queued'' \<longleftrightarrow> v = Queued" "job_state_str v = ''running'' \<longleftrightarrow> v = Running"
  "job_state_str v = ''succeeded'' \<longleftrightarrow> v = Succeeded" "job_state_str v = ''failed'' \<longleftrightarrow> v = Failed"
  "job_state_str v = ''cancelled'' \<longleftrightarrow> v = Cancelled"
  by (cases v; simp)+

definition ended_state :: "job_state \<Rightarrow> bool" where
  "ended_state v \<longleftrightarrow> v \<in> {Succeeded, Failed, Cancelled}"

lemma job_ended_state: "jr_state row = job_state_str v \<Longrightarrow> job_ended row = ended_state v"
  by (simp add: job_ended_def ended_state_def job_state_str_cases)

lemma job_unfinished_state: "jr_state row = job_state_str v \<Longrightarrow> job_unfinished row = (v = Queued \<or> v = Running)"
  by (simp add: job_unfinished_def job_state_str_cases)

lemma job_live_state:
  "jr_state row = job_state_str v \<Longrightarrow> job_live row = (v = Queued \<or> v = Running \<or> v = Succeeded)"
  by (simp add: job_live_def job_state_str_cases)

lemma may_move_iff:
  "may_move_to v w \<longleftrightarrow>
     v = Queued \<and> (w = Running \<or> w = Cancelled)
     \<or> v = Running \<and> (w = Succeeded \<or> w = Failed \<or> w = Cancelled)"
  by (auto simp: may_move_to_def JOB_MOVES_def)

lemma ended_never_moves: "ended_state v \<Longrightarrow> \<not> may_move_to v w"
  by (auto simp: ended_state_def may_move_iff)

section \<open>The rows\<close>

definition the_job :: "ext \<Rightarrow> job_record \<Rightarrow> job" where
  "the_job x row = (case job_row x row of Inr j \<Rightarrow> j | Inl _ \<Rightarrow> undefined)"

definition job_row_ok :: "ext \<Rightarrow> job_record \<Rightarrow> bool" where
  "job_row_ok x row \<longleftrightarrow> job_checks x row \<and> (\<exists>j. job_row x row = Inr j)"

definition job_rows_ok :: "ext \<Rightarrow> job_record list \<Rightarrow> bool" where
  "job_rows_ok x jobs \<longleftrightarrow>
     distinct (map jr_id jobs) \<and> list_all (job_row_ok x) jobs
     \<and> (\<forall>row\<in>set jobs. \<forall>other\<in>set jobs. jr_id row \<noteq> jr_id other \<longrightarrow> \<not> job_clash row other)"

definition jobs_ok :: "ext \<Rightarrow> kernel \<Rightarrow> bool" where
  "jobs_ok x k \<longleftrightarrow> job_rows_ok x (k_jobs k)"

lemma job_row_the: "job_row_ok x row \<Longrightarrow> job_row x row = Inr (the_job x row)"
  by (auto simp: job_row_ok_def the_job_def)

lemma job_row_facts:
  "job_row x row = Inr j \<Longrightarrow>
     ulid_parse x (jr_id row) = Some (jo_id j) \<and> jo_kind j = jr_kind row
     \<and> digest_str (jo_key j) = jr_key row \<and> int (jo_attempt j) = jr_attempt row
     \<and> as_str (jo_scope j) = jr_scope row \<and> scope_from_str (jr_scope row) = Inr (jo_scope j)
     \<and> jo_resource j = jr_resource row
     \<and> job_state_str (jo_state j) = jr_state row \<and> 0 \<le> jr_number row
     \<and> jo_lease j = lease_of (jo_id j) (nat (jr_number row)) row"
  by (auto simp: job_row_def results job_state_named_iff digest_parse_def scope_from_str_self
      split: if_splits)

lemma job_clash_sym: "job_clash row other \<Longrightarrow> job_clash other row"
  by (auto simp: job_clash_def)

lemma insert_job_ok:
  assumes ok: "job_rows_ok x jobs" and ins: "insert_job x row jobs = Inr jobs'"
    and dec: "job_row x row = Inr j"
  shows "job_rows_ok x jobs' \<and> jobs' = jobs @ [row]"
proof -
  have ids: "\<forall>other\<in>set jobs. jr_id other \<noteq> jr_id row" and clash: "\<forall>other\<in>set jobs. \<not> job_clash row other"
    and checks: "job_checks x row" and eq: "jobs' = jobs @ [row]"
    using ins by (auto simp: insert_job_def list_ex_iff split: if_splits)
  have "job_row_ok x row" using checks dec by (auto simp: job_row_ok_def)
  moreover have "\<forall>other\<in>set jobs. \<not> job_clash other row" using clash job_clash_sym by blast
  moreover have "jr_id row \<notin> jr_id ` set jobs" using ids by auto
  ultimately show ?thesis using ok clash by (simp add: job_rows_ok_def eq)
qed

text \<open>How a row may change: its identity stays, its lease number never falls, its state only moves
  on, and once it ended it is as it was.\<close>

definition row_evolves :: "job_record \<Rightarrow> job_record \<Rightarrow> bool" where
  "row_evolves row new \<longleftrightarrow>
     jr_id new = jr_id row \<and> jr_kind new = jr_kind row \<and> jr_key new = jr_key row
     \<and> jr_attempt new = jr_attempt row \<and> jr_scope new = jr_scope row
     \<and> jr_resource new = jr_resource row \<and> jr_number row \<le> jr_number new
     \<and> (job_ended row \<longrightarrow> new = row)
     \<and> (\<forall>v w. jr_state row = job_state_str v \<longrightarrow> jr_state new = job_state_str w \<longrightarrow>
          (v, w) \<in> (set JOB_MOVES)\<^sup>*)
     \<and> ((\<exists>v. jr_state row = job_state_str v) \<longrightarrow> (\<exists>w. jr_state new = job_state_str w))"

definition same_identity :: "job_record \<Rightarrow> job_record \<Rightarrow> bool" where
  "same_identity row new \<longleftrightarrow>
     jr_id new = jr_id row \<and> jr_kind new = jr_kind row \<and> jr_key new = jr_key row
     \<and> jr_attempt new = jr_attempt row \<and> jr_scope new = jr_scope row
     \<and> jr_resource new = jr_resource row"

lemma row_evolves_refl [simp]: "row_evolves row row"
  by (auto simp: row_evolves_def dest: job_states.names_differ)

lemma row_evolves_trans:
  assumes "row_evolves a b" and "row_evolves b c" and "\<exists>v. jr_state a = job_state_str v"
  shows "row_evolves a c"
proof -
  obtain v w where v: "jr_state a = job_state_str v" and w: "jr_state b = job_state_str w"
    using assms by (auto simp: row_evolves_def)
  have "(v, w) \<in> (set JOB_MOVES)\<^sup>*" using assms(1) v w by (simp add: row_evolves_def)
  moreover have "(w, u) \<in> (set JOB_MOVES)\<^sup>*" if "jr_state c = job_state_str u" for u
    using assms(2) w that by (simp add: row_evolves_def)
  ultimately have moves: "(v', u) \<in> (set JOB_MOVES)\<^sup>*"
    if "jr_state a = job_state_str v'" "jr_state c = job_state_str u" for v' u
    using that v job_states.names_differ by (metis rtrancl_trans)
  have "job_ended b" if "job_ended a" using assms(1) that by (simp add: row_evolves_def)
  with moves assms w show ?thesis by (auto simp: row_evolves_def)
qed

lemma checked_state: "job_checks x row \<Longrightarrow> \<exists>v. jr_state row = job_state_str v"
  by (simp add: job_checks_def) (metis job_state_str.simps)

lemma update_evolves:
  assumes "\<not> job_update_refused old new" and "job_checks x old" and "job_checks x new"
    and "same_identity old new"
  shows "row_evolves old new"
proof -
  obtain v w where v: "jr_state old = job_state_str v" and w: "jr_state new = job_state_str w"
    using assms(2,3) checked_state by blast
  have "v = w \<or> may_move_to v w"
    using assms(1) v w
    by (cases v; cases w) (auto simp: job_update_refused_def job_ended_def job_unfinished_def may_move_iff)
  then have "(v, w) \<in> (set JOB_MOVES)\<^sup>*" by (auto simp: may_move_to_def)
  then have "\<forall>v' w'. jr_state old = job_state_str v' \<longrightarrow> jr_state new = job_state_str w' \<longrightarrow>
      (v', w') \<in> (set JOB_MOVES)\<^sup>*"
    using v w job_states.names_differ by metis
  then show ?thesis
    using assms(1,4) w by (auto simp: row_evolves_def same_identity_def job_update_refused_def)
qed

text \<open>What an update did, when it found its row.\<close>

lemma update_job_Inr:
  assumes "update_job x jid assign jobs = Inr (returned, jobs')"
  shows "(List.find (\<lambda>row. jr_id row = jid) jobs = None \<and> returned = [] \<and> jobs' = jobs)
    \<or> (\<exists>old new. List.find (\<lambda>row. jr_id row = jid) jobs = Some old \<and> old \<in> set jobs \<and> jr_id old = jid
         \<and> assign old = Inr new \<and> returned = [new]
         \<and> \<not> job_update_refused old new \<and> job_checks x new
         \<and> (\<forall>other\<in>set jobs. jr_id other \<noteq> jid \<longrightarrow> \<not> job_clash new other)
         \<and> jobs' = map (\<lambda>row. if jr_id row = jid then new else row) jobs)"
  using assms
  by (auto simp: update_job_def results list_ex_iff split: option.splits if_splits
      dest: find_mem)

lemma update_job_ok:
  assumes ok: "job_rows_ok x jobs"
    and up: "update_job x jid assign jobs = Inr (returned, jobs')"
    and same: "\<And>old new. assign old = Inr new \<Longrightarrow> same_identity old new"
    and dec: "\<And>old new. old \<in> set jobs \<Longrightarrow> assign old = Inr new \<Longrightarrow> returned = [new] \<Longrightarrow>
                \<exists>j. job_row x new = Inr j"
  shows "job_rows_ok x jobs' \<and> list_all2 row_evolves jobs jobs'"
  using update_job_Inr[OF up]
proof (elim disjE exE conjE)
  assume "jobs' = jobs"
  with ok show ?thesis by (simp add: list_all2_same)
next
  fix old new
  assume old: "old \<in> set jobs" "jr_id old = jid" and new: "assign old = Inr new" "returned = [new]"
    and refused: "\<not> job_update_refused old new" and checks: "job_checks x new"
    and clash: "\<forall>other\<in>set jobs. jr_id other \<noteq> jid \<longrightarrow> \<not> job_clash new other"
    and jobs': "jobs' = map (\<lambda>row. if jr_id row = jid then new else row) jobs"
  let ?u = "\<lambda>row. if jr_id row = jid then new else row"
  have identity: "same_identity old new" using same new by blast
  then have keep: "jr_id (?u row) = jr_id row" for row using old by (simp add: same_identity_def)
  have only: "row = old" if "row \<in> set jobs" "jr_id row = jid" for row
    using ok old that by (auto simp: job_rows_ok_def distinct_map dest: inj_onD)
  have ids: "map jr_id jobs' = map jr_id jobs" unfolding jobs' using keep by simp
  have distinct: "distinct (map jr_id jobs')" unfolding ids using ok by (simp add: job_rows_ok_def)
  have "job_row_ok x new" using checks dec[OF old(1) new] by (simp add: job_row_ok_def)
  then have rows: "list_all (job_row_ok x) jobs'"
    using ok by (auto simp: jobs' list_all_iff job_rows_ok_def)
  have clashes: "\<not> job_clash (?u row) (?u other)"
    if "row \<in> set jobs" "other \<in> set jobs" "jr_id row \<noteq> jr_id other" for row other
    using that clash ok job_clash_sym unfolding job_rows_ok_def by (metis (full_types))
  have "\<forall>row\<in>set jobs'. \<forall>other\<in>set jobs'. jr_id row \<noteq> jr_id other \<longrightarrow> \<not> job_clash row other"
    unfolding jobs' set_map ball_simps(9) keep using clashes by blast
  then have "job_rows_ok x jobs'" using distinct rows unfolding job_rows_ok_def by blast
  moreover have "row_evolves row (?u row)" if "row \<in> set jobs" for row
  proof (cases "jr_id row = jid")
    case True
    have "job_checks x old" using ok old(1) by (simp add: job_rows_ok_def list_all_iff job_row_ok_def)
    then show ?thesis using update_evolves[OF refused _ checks identity] only[OF that True] True by simp
  qed simp
  then have "list_all2 row_evolves jobs jobs'"
    unfolding jobs' list.rel_map list_all2_same by blast
  ultimately show ?thesis by blast
qed

section \<open>Reading jobs\<close>

lemma query_row_filter:
  "query_row f (filter P rows) =
     (case List.find P rows of None \<Rightarrow> Inl QueryReturnedNoRows | Some r \<Rightarrow> f r)"
  by (induction rows) auto

lemma job_row_not_missing: "job_row x row \<noteq> Inl QueryReturnedNoRows"
proof
  assume "job_row x row = Inl QueryReturnedNoRows"
  then show False
    by (auto simp: job_row_def results unsigned_i64_def split: if_splits option.splits)
qed

text \<open>A query for one row, on rows that all read back, finds the first and never fails.\<close>

lemma first_job_ok:
  assumes "list_all (job_row_ok x) jobs"
  shows "first_job x (filter P jobs) = Inr (map_option (the_job x) (List.find P jobs))"
proof (cases "List.find P jobs")
  case None
  then show ?thesis by (simp add: first_job_def query_row_filter optional_def)
next
  case (Some row)
  then have "job_row x row = Inr (the_job x row)"
    using assms find_mem by (fastforce simp: list_all_iff intro: job_row_the)
  then show ?thesis using Some by (simp add: first_job_def query_row_filter optional_def)
qed

definition job_at :: "ext \<Rightarrow> ulid \<Rightarrow> kernel \<Rightarrow> job_record option" where
  "job_at x jid k = List.find (\<lambda>row. jr_id row = ulid_text x jid) (k_jobs k)"

lemma jobs_ok_rows: "jobs_ok x k \<Longrightarrow> list_all (job_row_ok x) (k_jobs k)"
  by (simp add: jobs_ok_def job_rows_ok_def)

lemma find_job_ok:
  "jobs_ok x k \<Longrightarrow> find_job x None jid k = Inr (map_option (the_job x) (job_at x jid k))"
  by (simp add: find_job_def job_at_def first_job_ok jobs_ok_rows)

lemma job_at_mem: "job_at x jid k = Some row \<Longrightarrow> row \<in> set (k_jobs k) \<and> jr_id row = ulid_text x jid"
  unfolding job_at_def by (rule find_mem)

lemma job_at_row:
  assumes "jobs_ok x k" and "row \<in> set (k_jobs k)" and "jr_id row = ulid_text x jid"
  shows "job_at x jid k = Some row"
  using find_unique[of jr_id "k_jobs k" row] assms
  by (simp add: job_at_def jobs_ok_def job_rows_ok_def)

lemma job_at_ok: "jobs_ok x k \<Longrightarrow> job_at x jid k = Some row \<Longrightarrow> job_row_ok x row"
  using job_at_mem jobs_ok_rows by (fastforce simp: list_all_iff)

lemma job_at_decoded:
  assumes "jobs_ok x k" and "job_at x jid k = Some row" and "lawful x"
  shows "job_row x row = Inr (the_job x row) \<and> jo_id (the_job x row) = jid"
proof -
  have dec: "job_row x row = Inr (the_job x row)"
    using job_at_ok[OF assms(1,2)] by (rule job_row_the)
  have "ulid_parse x (jr_id row) = Some jid"
    using job_at_mem[OF assms(2)] lawful_ulid_text[OF assms(3)] by simp
  with dec show ?thesis using job_row_facts[OF dec] by simp
qed

lemma known_job_ok:
  "jobs_ok x k \<Longrightarrow> known_job x jid k =
     (case job_at x jid k of None \<Rightarrow> Inl (UnknownJob jid) | Some row \<Rightarrow> Inr (the_job x row))"
  by (simp add: known_job_def find_job_ok split: option.split)

text \<open>A row holds a lease exactly while its job runs.\<close>

lemma row_lease:
  assumes "job_row_ok x row"
  shows "(jo_lease (the_job x row) \<noteq> None) = (jr_state row = ''running'')"
    and "jo_lease (the_job x row) = Some current \<Longrightarrow>
      le_job current = jo_id (the_job x row) \<and> int (le_number current) = jr_number row
      \<and> jr_holder row = Some (le_holder current) \<and> jr_heartbeat row = Some (le_heartbeat current)
      \<and> jr_expires row = Some (le_expires current) \<and> 1 \<le> le_number current"
proof -
  have dec: "job_row x row = Inr (the_job x row)" using assms by (rule job_row_the)
  note facts = job_row_facts[OF dec]
  have checks: "job_checks x row" using assms by (simp add: job_row_ok_def)
  show "(jo_lease (the_job x row) \<noteq> None) = (jr_state row = ''running'')"
    using facts checks by (auto simp: lease_of_def job_checks_def split: option.splits)
  assume "jo_lease (the_job x row) = Some current"
  then show "le_job current = jo_id (the_job x row) \<and> int (le_number current) = jr_number row
      \<and> jr_holder row = Some (le_holder current) \<and> jr_heartbeat row = Some (le_heartbeat current)
      \<and> jr_expires row = Some (le_expires current) \<and> 1 \<le> le_number current"
    using facts checks by (auto simp: lease_of_def job_checks_def split: option.splits)
qed

lemma row_state: "job_row_ok x row \<Longrightarrow> job_state_str (jo_state (the_job x row)) = jr_state row"
  using job_row_facts job_row_the by blast

lemma the_job_running:
  "job_row_ok x row \<Longrightarrow> jo_lease (the_job x row) \<noteq> None \<longleftrightarrow> jo_state (the_job x row) = Running"
  using row_lease(1) row_state job_state_str_cases by metis

section \<open>What an operation does\<close>

definition jobs_evolve :: "kernel \<Rightarrow> kernel \<Rightarrow> bool" where
  "jobs_evolve k k' \<longleftrightarrow>
     (\<exists>kept added. k_jobs k' = kept @ added \<and> list_all2 row_evolves (k_jobs k) kept)"

text \<open>An operation of the jobs: the tables of jobs and events are all it writes.\<close>

definition job_effect :: "ext \<Rightarrow> kernel \<Rightarrow> kernel \<Rightarrow> bool" where
  "job_effect x k k' \<longleftrightarrow>
     jobs_ok x k' \<and> jobs_evolve k k' \<and> journal_grows k k' \<and> (journal_ok x k \<longrightarrow> journal_ok x k')
     \<and> (\<exists>jobs events. k' = k\<lparr>k_jobs := jobs, k_events := events\<rparr>)"

lemma jobs_evolve_same: "k_jobs k' = k_jobs k \<Longrightarrow> jobs_evolve k k'"
  unfolding jobs_evolve_def
  by (intro exI[of _ "k_jobs k"] exI[of _ "[]"]) (simp add: list_all2_same)

lemma jobs_evolve_refl [simp]: "jobs_evolve k k"
  by (rule jobs_evolve_same) simp

lemma jobs_evolve_trans:
  assumes "jobs_ok x a" and "jobs_evolve a b" and "jobs_evolve b c"
  shows "jobs_evolve a c"
proof -
  obtain kept added where b: "k_jobs b = kept @ added" "list_all2 row_evolves (k_jobs a) kept"
    using assms(2) by (auto simp: jobs_evolve_def)
  obtain kept' added' where c: "k_jobs c = kept' @ added'"
      "list_all2 row_evolves (kept @ added) kept'"
    using assms(3) b(1) by (auto simp: jobs_evolve_def)
  obtain k1 k2 where k: "kept' = k1 @ k2" "list_all2 row_evolves kept k1"
    using c(2) by (auto simp: list_all2_append1)
  have states: "\<exists>v. jr_state row = job_state_str v" if "row \<in> set (k_jobs a)" for row
    using assms(1) that checked_state
    by (auto simp: jobs_ok_def job_rows_ok_def list_all_iff job_row_ok_def)
  have "list_all2 row_evolves (k_jobs a) k1"
    unfolding list_all2_conv_all_nth
  proof (intro conjI allI impI)
    show "length (k_jobs a) = length k1"
      using b(2) k(2) by (metis list_all2_lengthD)
    fix i assume i: "i < length (k_jobs a)"
    have "row_evolves (k_jobs a ! i) (kept ! i)" "row_evolves (kept ! i) (k1 ! i)"
      using b(2) k(2) i by (metis list_all2_lengthD list_all2_nthD)+
    then show "row_evolves (k_jobs a ! i) (k1 ! i)"
      using row_evolves_trans states i by simp
  qed
  then show ?thesis using c(1) k(1) unfolding jobs_evolve_def by (metis append.assoc)
qed

lemma jobs_evolve_at:
  assumes "jobs_evolve k k'" and "row \<in> set (k_jobs k)"
  shows "\<exists>new\<in>set (k_jobs k'). row_evolves row new"
  using assms by (fastforce simp: jobs_evolve_def list_all2_conv_all_nth in_set_conv_nth nth_append)

lemma jobs_ok_same: "k_jobs k' = k_jobs k \<Longrightarrow> jobs_ok x k' = jobs_ok x k"
  by (simp add: jobs_ok_def)

lemma job_effect_refl: "jobs_ok x k \<Longrightarrow> job_effect x k k"
proof -
  have "k = k\<lparr>k_jobs := k_jobs k, k_events := k_events k\<rparr>" by simp
  then have "\<exists>jobs events. k = k\<lparr>k_jobs := jobs, k_events := events\<rparr>" by blast
  then show "jobs_ok x k \<Longrightarrow> job_effect x k k" by (auto simp: job_effect_def)
qed

lemma job_row_decodes:
  "(\<exists>j. job_row x row = Inr j) \<longleftrightarrow>
     ulid_parse x (jr_id row) \<noteq> None \<and> 0 \<le> jr_number row \<and> (\<exists>g. digest_parse (jr_key row) = Inr g)
     \<and> 0 \<le> jr_attempt row \<and> (\<exists>s. scope_from_str (jr_scope row) = Inr s)
     \<and> (\<exists>v. jr_state row = job_state_str v)
     \<and> (case jr_outcome row of None \<Rightarrow> True | Some text \<Rightarrow> json_parse x text \<noteq> None)"
proof -
  have state: "(\<exists>v. job_state_named s = Some v) \<longleftrightarrow> (\<exists>v. s = job_state_str v)" for s
    by (auto simp: job_state_named_iff)
  show ?thesis
    unfolding state[symmetric]
    by (cases "jr_outcome row") (auto simp: job_row_def results)
qed

text \<open>A change of the jobs table, then an event: the shape of every write of a job.\<close>

lemma job_update_effect:
  assumes ok: "jobs_ok x k" and up: "update_job x jid assign (k_jobs k) = Inr (returned, jobs)"
    and same: "\<And>old new. assign old = Inr new \<Longrightarrow> same_identity old new"
    and dec: "\<And>old new. old \<in> set (k_jobs k) \<Longrightarrow> assign old = Inr new \<Longrightarrow> returned = [new] \<Longrightarrow>
                \<exists>j. job_row x new = Inr j"
  shows "job_effect x k (k\<lparr>k_jobs := jobs\<rparr>)"
proof -
  let ?k = "k\<lparr>k_jobs := jobs\<rparr>"
  have rows: "job_rows_ok x jobs \<and> list_all2 row_evolves (k_jobs k) jobs"
  proof (rule update_job_ok[OF ok[unfolded jobs_ok_def] up])
    show "same_identity old new" if "assign old = Inr new" for old new
      using that by (rule same)
    show "\<exists>j. job_row x new = Inr j"
      if "old \<in> set (k_jobs k)" "assign old = Inr new" "returned = [new]" for old new
      using that by (rule dec)
  qed
  then have "jobs_evolve k ?k"
    unfolding jobs_evolve_def by (intro exI[of _ jobs] exI[of _ "[]"]) simp
  moreover have "?k = k\<lparr>k_jobs := jobs, k_events := k_events k\<rparr>" by simp
  then have "\<exists>jobs' events. ?k = k\<lparr>k_jobs := jobs', k_events := events\<rparr>" by blast
  moreover have "journal_grows k ?k" by (simp add: journal_grows_def)
  moreover have "journal_ok x k \<longrightarrow> journal_ok x ?k" by (simp add: journal_ok_def)
  ultimately show ?thesis using rows by (simp add: job_effect_def jobs_ok_def)
qed

lemma record_on_stream_Inr:
  assumes "record_on_stream x d jid scope t data k = Inr (e, k')"
  shows "k' = k\<lparr>k_events := k_events k @ [recorded_row x d 0 (job_event x jid scope t data) (k_events k)]\<rparr>
    \<and> event_row x (recorded_row x d 0 (job_event x jid scope t data) (k_events k)) = Inr e
    \<and> ev_stream e = job_stream x jid \<and> ev_type e = t \<and> ev_scope e = as_str scope
    \<and> (journal_ok x k \<longrightarrow> journal_ok x k')"
proof -
  have r: "record_event x d 0 (job_event x jid scope t data) k = Inr (e, k')"
    using assms by (simp add: record_on_stream_def map_err_Inr)
  have "event_row x (recorded_row x d 0 (job_event x jid scope t data) (k_events k)) = Inr e"
    using r by (simp add: record_event_Inr)
  from event_row_fields[OF this] show ?thesis
    using r record_event_ok[OF _ r] by (auto simp: record_event_Inr job_event_def)
qed

lemma job_effect_event:
  assumes eff: "job_effect x k k1" and r: "record_on_stream x d jid scope t data k1 = Inr (e, k2)"
  shows "job_effect x k k2"
proof -
  note rec = record_on_stream_Inr[OF r]
  obtain jobs events where "k1 = k\<lparr>k_jobs := jobs, k_events := events\<rparr>"
    using eff by (auto simp: job_effect_def)
  moreover obtain events' where "k2 = k1\<lparr>k_events := events'\<rparr>" using rec by blast
  ultimately have "k2 = k\<lparr>k_jobs := jobs, k_events := events'\<rparr>" by simp
  moreover have "k_jobs k2 = k_jobs k1" by (subst rec[THEN conjunct1]) simp
  moreover have "journal_grows k1 k2"
    by (subst rec[THEN conjunct1]) (simp add: journal_grows_def)
  ultimately show ?thesis
    using eff rec unfolding job_effect_def
    by (auto simp: jobs_ok_def jobs_evolve_def intro: journal_grows_trans)
qed

section \<open>Each operation\<close>

lemma renewal_Inr:
  assumes ok: "jobs_ok x k" and r: "renewal x lease now term k = Inr (renewed, k')"
  shows "job_effect x k k' \<and> k_events k' = k_events k
    \<and> (\<exists>heartbeat expires. lease_times x now term = Inr (heartbeat, expires)
         \<and> renewed = lease\<lparr>le_heartbeat := heartbeat, le_expires := expires\<rparr>
         \<and> (\<exists>returned. update_job x (ulid_text x (le_job lease))
              (\<lambda>row. Inr (row\<lparr>jr_heartbeat := Some heartbeat, jr_expires := Some expires\<rparr>)) (k_jobs k)
              = Inr (returned, k_jobs k'))
         \<and> k' = k\<lparr>k_jobs := k_jobs k'\<rparr>)"
proof -
  obtain heartbeat expires returned jobs where
    t: "lease_times x now term = Inr (heartbeat, expires)"
    and up: "update_job x (ulid_text x (le_job lease))
        (\<lambda>row. Inr (row\<lparr>jr_heartbeat := Some heartbeat, jr_expires := Some expires\<rparr>)) (k_jobs k)
        = Inr (returned, jobs)"
    and eqs: "renewed = lease\<lparr>le_heartbeat := heartbeat, le_expires := expires\<rparr>"
      "k' = k\<lparr>k_jobs := jobs\<rparr>"
    using r by (auto simp: renewal_def results split: prod.splits)
  have "job_effect x k (k\<lparr>k_jobs := jobs\<rparr>)"
  proof (rule job_update_effect[OF ok up])
    fix old new
    assume "old \<in> set (k_jobs k)"
      and new: "Inr (old\<lparr>jr_heartbeat := Some heartbeat, jr_expires := Some expires\<rparr>) = Inr new"
    then have "\<exists>j. job_row x old = Inr j"
      using ok by (auto simp: jobs_ok_def job_rows_ok_def list_all_iff job_row_ok_def)
    then show "\<exists>j. job_row x new = Inr j"
      using new unfolding job_row_decodes by auto
  qed (auto simp: same_identity_def)
  then show ?thesis using t up eqs by auto
qed

lemma take_job_Inr:
  assumes ok: "jobs_ok x k" and law: "lawful x"
    and r: "take_job x d jid holder now term k = (Inr lease, k')"
  shows "job_effect x k k'
    \<and> (\<exists>row heartbeat expires. job_at x jid k = Some row \<and> lease_times x now term = Inr (heartbeat, expires)
         \<and> lease = \<lparr>le_job = jid, le_holder = holder, le_number = nat (jr_number row) + 1,
                    le_heartbeat = heartbeat, le_expires = expires\<rparr>
         \<and> (\<forall>current. jo_lease (the_job x row) = Some current \<longrightarrow> le_expires current \<le> heartbeat)
         \<and> (jo_lease (the_job x row) = None \<longrightarrow> jo_state (the_job x row) = Queued)
         \<and> job_at x jid k' = Some (row\<lparr>jr_state := ''running'', jr_number := jr_number row + 1,
             jr_holder := Some holder, jr_heartbeat := Some heartbeat, jr_expires := Some expires\<rparr>)
         \<and> (\<exists>e er. k_events k' = k_events k @ [er] \<and> event_row x er = Inr e
              \<and> ev_stream e = job_stream x jid \<and> ev_scope e = jr_scope row
              \<and> ev_type e = (if jo_lease (the_job x row) = None then JOB_TAKEN else JOB_TAKEN_OVER)))"
proof -
  let ?assign = "\<lambda>heartbeat expires row. and_then (strict_integer (jr_number row + 1)) (\<lambda>number.
      Inr (row\<lparr>jr_state := ''running'', jr_number := number, jr_holder := Some holder,
               jr_heartbeat := Some heartbeat, jr_expires := Some expires\<rparr>))"
  obtain job heartbeat expires returned jobs number t data e k2 where
    job: "known_job x jid k = Inr job"
    and times: "lease_times x now term = Inr (heartbeat, expires)"
    and free: "\<forall>current. jo_lease job = Some current \<longrightarrow> le_expires current \<le> heartbeat"
      "jo_lease job = None \<longrightarrow> may_move_to (jo_state job) Running"
    and up: "update_job x (ulid_text x jid) (?assign heartbeat expires) (k_jobs k) = Inr (returned, jobs)"
    and number: "query_row (\<lambda>row. unsigned_i64 (jr_number row) 0) returned = Inr number"
    and lease: "lease = \<lparr>le_job = jid, le_holder = holder, le_number = number,
                    le_heartbeat = heartbeat, le_expires = expires\<rparr>"
    and t: "t = (if jo_lease job = None then JOB_TAKEN else JOB_TAKEN_OVER)"
    and rec: "record_on_stream x d jid (jo_scope job) t data (k\<lparr>k_jobs := jobs\<rparr>) = Inr (e, k2)"
    and k': "k' = k2"
    using r
    by (auto simp: take_job_def results Let_def not_less split: prod.splits option.splits if_splits)
  obtain row where row: "job_at x jid k = Some row" and job_eq: "job = the_job x row"
    using job unfolding known_job_ok[OF ok] by (auto split: option.splits)
  have row_ok: "job_row_ok x row" by (rule job_at_ok[OF ok row])
  have new: "\<exists>new. returned = [new] \<and> jr_number row + 1 \<le> I64_MAX
      \<and> new = row\<lparr>jr_state := ''running'', jr_number := jr_number row + 1, jr_holder := Some holder,
               jr_heartbeat := Some heartbeat, jr_expires := Some expires\<rparr>
      \<and> jobs = map (\<lambda>r. if jr_id r = ulid_text x jid then new else r) (k_jobs k)"
    using update_job_Inr[OF up] row
    by (auto simp: job_at_def results)
  have eff: "job_effect x k (k\<lparr>k_jobs := jobs\<rparr>)"
  proof (rule job_update_effect[OF ok up])
    fix old new
    assume "old \<in> set (k_jobs k)" and new: "?assign heartbeat expires old = Inr new"
    then have "\<exists>j. job_row x old = Inr j"
      using ok by (auto simp: jobs_ok_def job_rows_ok_def list_all_iff job_row_ok_def)
    then show "\<exists>j. job_row x new = Inr j"
      using new unfolding job_row_decodes
      by (auto simp: results intro: exI[of _ Running])
  qed (auto simp: same_identity_def results)
  have eff': "job_effect x k k2" by (rule job_effect_event[OF eff rec])
  have "jr_number row \<ge> 0" using row_ok by (simp add: job_row_ok_def job_checks_def)
  then have number: "number = nat (jr_number row) + 1"
    using new number by (auto simp: unsigned_i64_def nat_add_distrib split: if_splits)
  have queued: "jo_lease job = None \<longrightarrow> jo_state job = Queued"
    using free(2) by (auto simp: may_move_iff)
  have k2: "k_jobs k2 = jobs" "k_events k2 = k_events k @ [recorded_row x d 0 (job_event x jid (jo_scope job) t data) (k_events k)]"
    by (subst record_on_stream_Inr[OF rec, THEN conjunct1]; simp)+
  have jobs2: "jobs_ok x k2" using eff' by (simp add: job_effect_def)
  obtain nrow where nrow: "nrow = row\<lparr>jr_state := ''running'', jr_number := jr_number row + 1,
      jr_holder := Some holder, jr_heartbeat := Some heartbeat, jr_expires := Some expires\<rparr>"
    and jobs: "jobs = map (\<lambda>r. if jr_id r = ulid_text x jid then nrow else r) (k_jobs k)"
    using new by blast
  have "nrow \<in> set (k_jobs k2)" "jr_id nrow = ulid_text x jid"
    using job_at_mem[OF row] unfolding k2(1) jobs by (auto simp: nrow)
  then have at: "job_at x jid k2 = Some nrow" by (rule job_at_row[OF jobs2])
  have scope: "as_str (jo_scope job) = jr_scope row"
    using job_row_facts[OF job_row_the[OF row_ok]] job_eq by simp
  show ?thesis
    using eff' row times lease number free(1) queued at record_on_stream_Inr[OF rec] scope k2
    unfolding k' job_eq nrow t by auto
qed

text \<open>A lease is still the job's when the job runs under a lease of its number.\<close>

lemma held_lease_ok:
  assumes "jobs_ok x k"
  shows "held_lease x lease k =
    (case job_at x (le_job lease) k of
       None \<Rightarrow> Inl (UnknownJob (le_job lease))
     | Some row \<Rightarrow>
         if jr_state row = ''running'' \<and> jr_number row = int (le_number lease)
         then Inr (the_job x row)
         else Inl (Lost (le_job lease) (le_holder lease) (le_number lease)))"
proof (cases "job_at x (le_job lease) k")
  case None
  then show ?thesis by (simp add: held_lease_def known_job_ok[OF assms])
next
  case (Some row)
  note ok = job_at_ok[OF assms Some]
  have "(case jo_lease (the_job x row) of None \<Rightarrow> False
         | Some current \<Rightarrow> le_number current = le_number lease)
      \<longleftrightarrow> jr_state row = ''running'' \<and> jr_number row = int (le_number lease)"
    using row_lease[OF ok] by (cases "jo_lease (the_job x row)") auto
  then show ?thesis using Some by (simp add: held_lease_def known_job_ok[OF assms])
qed

lemma heartbeat_Inr:
  assumes ok: "jobs_ok x k" and r: "heartbeat x lease now term k = (Inr u, renewed, k')"
  shows "job_effect x k k' \<and> k_events k' = k_events k \<and> (\<exists>job. held_lease x lease k = Inr job)
    \<and> renewal x lease now term k = Inr (renewed, k')"
proof -
  have "db_write (\<lambda>k. and_then (held_lease x lease k) (\<lambda>_. renewal x lease now term k)) k = (Inr renewed, k')"
    using r by (auto simp: heartbeat_def split: prod.splits sum.splits)
  then have "(\<exists>job. held_lease x lease k = Inr job) \<and> renewal x lease now term k = Inr (renewed, k')"
    by (auto simp: results)
  with renewal_Inr[OF ok] show ?thesis by blast
qed

lemma progress_Inr:
  assumes ok: "jobs_ok x k" and r: "progress x d lease now term data k = (Inr event, renewed, k')"
  shows "job_effect x k k'
    \<and> (\<exists>job k1. held_lease x lease k = Inr job \<and> renewal x lease now term k = Inr (renewed, k1)
         \<and> record_on_stream x d (jo_id job) (jo_scope job) JOB_PROGRESSED data k1 = Inr (event, k'))"
proof -
  obtain job k1 where "held_lease x lease k = Inr job" "renewal x lease now term k = Inr (renewed, k1)"
    and rec: "record_on_stream x d (jo_id job) (jo_scope job) JOB_PROGRESSED data k1 = Inr (event, k')"
    using r by (auto simp: progress_def db_write_def results split: prod.splits sum.splits)
  moreover from this(2) have "job_effect x k k1" using renewal_Inr[OF ok] by blast
  ultimately show ?thesis using job_effect_event by blast
qed

lemma end_job_Inr:
  assumes ok: "jobs_ok x k" and law: "lawful x" and row: "job_at x jid k = Some row"
    and r: "end_job x d (the_job x row) to outcome k = Inr (ended, k')"
  shows "job_effect x k k'
    \<and> (\<exists>new. new = row\<lparr>jr_state := job_state_str to, jr_outcome := Some (json_text x outcome),
              jr_holder := None, jr_heartbeat := None, jr_expires := None\<rparr>
         \<and> job_at x jid k' = Some new \<and> ended = the_job x new \<and> job_row_ok x new)
    \<and> (\<exists>e er. k_events k' = k_events k @ [er] \<and> event_row x er = Inr e
         \<and> ev_stream e = job_stream x jid \<and> ev_scope e = jr_scope row \<and> ev_type e = moved_into to)"
proof -
  let ?new = "row\<lparr>jr_state := job_state_str to, jr_outcome := Some (json_text x outcome),
      jr_holder := None, jr_heartbeat := None, jr_expires := None\<rparr>"
  let ?assign = "\<lambda>row. Inr (row\<lparr>jr_state := job_state_str to, jr_outcome := Some (json_text x outcome),
      jr_holder := None, jr_heartbeat := None, jr_expires := None\<rparr>) :: sqlite_error + job_record"
  have jid: "jo_id (the_job x row) = jid" using job_at_decoded[OF ok row law] by simp
  obtain returned jobs data e where
    up: "update_job x (ulid_text x jid) ?assign (k_jobs k) = Inr (returned, jobs)"
    and dec: "query_row (job_row x) returned = Inr ended"
    and rec: "record_on_stream x d (jo_id ended) (jo_scope ended) (moved_into to) data
        (k\<lparr>k_jobs := jobs\<rparr>) = Inr (e, k')"
    using r jid by (auto simp: end_job_def results Let_def split: prod.splits)
  have new: "returned = [?new]" "jobs = map (\<lambda>r. if jr_id r = ulid_text x jid then ?new else r) (k_jobs k)"
      "job_checks x ?new"
    using update_job_Inr[OF up] row dec by (auto simp: job_at_def)
  have dec': "job_row x ?new = Inr ended" using dec new by simp
  have eff: "job_effect x k (k\<lparr>k_jobs := jobs\<rparr>)"
  proof (rule job_update_effect[OF ok up])
    fix old new'
    assume "returned = [new']"
    then show "\<exists>j. job_row x new' = Inr j" using new(1) dec' by auto
  qed (auto simp: same_identity_def)
  have eff': "job_effect x k k'" by (rule job_effect_event[OF eff rec])
  note e = record_on_stream_Inr[OF rec]
  have k': "k_jobs k' = jobs" "k_events k' = k_events k @ [recorded_row x d 0
      (job_event x (jo_id ended) (jo_scope ended) (moved_into to) data) (k_events k)]"
    by (subst e[THEN conjunct1]; simp)+
  have at: "job_at x jid k' = Some ?new"
  proof (rule job_at_row)
    show "jobs_ok x k'" using eff' by (simp add: job_effect_def)
    show "?new \<in> set (k_jobs k')" "jr_id ?new = ulid_text x jid"
      using job_at_mem[OF row] unfolding k' new(2) by auto
  qed
  have ended: "ended = the_job x ?new" using dec' by (simp add: the_job_def)
  have "jr_scope ?new = jr_scope row" "jr_id ?new = jr_id row" by simp_all
  then have scope: "as_str (jo_scope ended) = jr_scope row" and id': "jo_id ended = jid"
    using job_row_facts[OF dec'] job_row_facts[OF job_at_decoded[OF ok row law, THEN conjunct1]] jid by simp_all
  show ?thesis
    using eff' at ended e k'(2) scope id' new(3) dec' unfolding job_row_ok_def by auto
qed

lemma complete_job_Inr:
  assumes ok: "jobs_ok x k" and r: "complete_job x d lease to outcome k = (Inr ended, k')"
  shows "\<exists>row. job_at x (le_job lease) k = Some row \<and> jr_state row = ''running''
    \<and> jr_number row = int (le_number lease) \<and> to \<in> {Succeeded, Failed, Cancelled}
    \<and> end_job x d (the_job x row) to outcome k = Inr (ended, k')"
proof -
  obtain job where held: "held_lease x lease k = Inr job" and move: "may_move_to (jo_state job) to"
    and e: "end_job x d job to outcome k = Inr (ended, k')"
    using r by (auto simp: complete_job_def results split: if_splits)
  obtain row where row: "job_at x (le_job lease) k = Some row" "jr_state row = ''running''"
      "jr_number row = int (le_number lease)" "job = the_job x row"
    using held by (auto simp: held_lease_ok[OF ok] split: option.splits if_splits)
  then have "jo_state job = Running"
    using row_state[OF job_at_ok[OF ok row(1)]] job_state_str_cases by metis
  with move have "to \<in> {Succeeded, Failed, Cancelled}" by (auto simp: may_move_iff)
  with row e show ?thesis by blast
qed

lemma cancel_job_Inr:
  assumes ok: "jobs_ok x k" and r: "cancel_job x d jid outcome k = (Inr ended, k')"
  shows "\<exists>row. job_at x jid k = Some row \<and> jr_state row = ''queued''
    \<and> end_job x d (the_job x row) Cancelled outcome k = Inr (ended, k')"
proof -
  obtain row where row: "job_at x jid k = Some row" "jo_lease (the_job x row) = None"
      "may_move_to (jo_state (the_job x row)) Cancelled"
    and e: "end_job x d (the_job x row) Cancelled outcome k = Inr (ended, k')"
    using r by (auto simp: cancel_job_def known_job_ok[OF ok] results split: option.splits if_splits)
  note rok = job_at_ok[OF ok row(1)]
  have "jo_state (the_job x row) = Queued"
    using row(2,3) the_job_running[OF rok] by (auto simp: may_move_iff)
  then have "jr_state row = ''queued''" using row_state[OF rok] by (metis job_state_str.simps(1))
  with row e show ?thesis by blast
qed

section \<open>Submission\<close>

definition live_job :: "digest \<Rightarrow> kernel \<Rightarrow> job_record option" where
  "live_job key k = List.find (\<lambda>row. jr_key row = digest_str key \<and> job_live row) (k_jobs k)"

definition holder_of :: "string option \<Rightarrow> kernel \<Rightarrow> job_record option" where
  "holder_of resource k =
     (case resource of
        None \<Rightarrow> None
      | Some name \<Rightarrow> List.find (\<lambda>row. jr_resource row = Some name \<and> job_unfinished row) (k_jobs k))"

definition attempts :: "digest \<Rightarrow> kernel \<Rightarrow> int list" where
  "attempts key k = map jr_attempt (filter (\<lambda>row. jr_key row = digest_str key) (k_jobs k))"

lemma live_of_key_ok:
  "jobs_ok x k \<Longrightarrow> first_job x (live_of_key key k) = Inr (map_option (the_job x) (live_job key k))"
  by (simp add: live_of_key_def live_job_def first_job_ok jobs_ok_rows)

lemma free_resource_ok:
  assumes "jobs_ok x k"
  shows "free_resource x resource k =
    (case holder_of resource k of
       None \<Rightarrow> Inr ()
     | Some row \<Rightarrow> Inl (ResourceHeld (the resource) (jo_id (the_job x row))))"
  using first_job_ok[OF jobs_ok_rows[OF assms]]
  by (auto simp: free_resource_def holder_of_def holding_def split: option.splits)

lemma last_of_key_ok:
  assumes "jobs_ok x k"
  shows "\<exists>previous. first_job x (last_of_key key k) = Inr previous"
proof (cases "last_of_key key k")
  case Nil
  then show ?thesis by (simp add: first_job_def optional_def)
next
  case (Cons row rows)
  then have "row \<in> set (last_of_key key k)" by simp
  then have "row \<in> set (k_jobs k)"
    unfolding last_of_key_def by (metis (no_types, lifting) in_set_takeD set_sort mem_Collect_eq set_filter)
  then have "job_row x row = Inr (the_job x row)"
    using jobs_ok_rows[OF assms] by (intro job_row_the) (simp add: list_all_iff)
  with Cons show ?thesis by (simp add: first_job_def optional_def)
qed

lemma submit_job_live:
  "jobs_ok x k \<Longrightarrow> live_job (idempotency_key x new) k = Some row \<Longrightarrow>
     submit_job x d new k = (Inr (the_job x row), k)"
  by (simp add: submit_job_def Let_def db_write_def live_of_key_ok)

lemma submit_job_held:
  "jobs_ok x k \<Longrightarrow> live_job (idempotency_key x new) k = None \<Longrightarrow>
     holder_of (nj_resource new) k = Some row \<Longrightarrow>
     submit_job x d new k = (Inl (ResourceHeld (the (nj_resource new)) (jo_id (the_job x row))), k)"
  by (simp add: submit_job_def Let_def db_write_def live_of_key_ok free_resource_ok)

definition submitted_row :: "ext \<Rightarrow> draws \<Rightarrow> new_job \<Rightarrow> kernel \<Rightarrow> job_record" where
  "submitted_row x d new k =
     \<lparr>jr_id = ulid_text x (d_job d), jr_kind = nj_kind new,
      jr_key = digest_str (idempotency_key x new),
      jr_attempt = coalesce_max (attempts (idempotency_key x new) k) + 1,
      jr_scope = as_str (nj_scope new), jr_resource = nj_resource new,
      jr_state = ''queued'', jr_number = 0, jr_holder = None,
      jr_heartbeat = None, jr_expires = None, jr_outcome = None\<rparr>"

lemma submit_job_new:
  assumes ok: "jobs_ok x k" and live: "live_job (idempotency_key x new) k = None"
    and r: "submit_job x d new k = (Inr job, k')"
  shows "job_effect x k k' \<and> holder_of (nj_resource new) k = None
    \<and> k_jobs k' = k_jobs k @ [submitted_row x d new k]
    \<and> job_row x (submitted_row x d new k) = Inr job
    \<and> (\<exists>e er. k_events k' = k_events k @ [er] \<and> event_row x er = Inr e
         \<and> ev_stream e = job_stream x (jo_id job) \<and> ev_scope e = as_str (jo_scope job)
         \<and> ev_type e = JOB_CREATED)"
proof -
  let ?row = "submitted_row x d new k"
  have free: "holder_of (nj_resource new) k = None"
  proof (rule ccontr)
    assume "holder_of (nj_resource new) k \<noteq> None"
    then show False using submit_job_held[OF ok live, of _ d] r by auto
  qed
  obtain previous where previous: "first_job x (last_of_key (idempotency_key x new) k) = Inr previous"
    using last_of_key_ok[OF ok] by blast
  obtain jobs data e where
    ins: "insert_job x ?row (k_jobs k) = Inr jobs" and dec: "job_row x ?row = Inr job"
    and rec: "record_on_stream x d (jo_id job) (jo_scope job) JOB_CREATED data (k\<lparr>k_jobs := jobs\<rparr>) = Inr (e, k')"
    using r live free previous
    by (auto simp: submit_job_def Let_def db_write_def live_of_key_ok[OF ok] free_resource_ok[OF ok]
        results submitted_row_def attempts_def split: sum.splits prod.splits)
  have rows: "job_rows_ok x jobs \<and> jobs = k_jobs k @ [?row]"
    by (rule insert_job_ok[OF ok[unfolded jobs_ok_def] ins dec])
  let ?k = "k\<lparr>k_jobs := jobs\<rparr>"
  have "jobs_evolve k ?k"
    unfolding jobs_evolve_def using rows
    by (intro exI[of _ "k_jobs k"] exI[of _ "[?row]"]) (simp add: list_all2_same)
  moreover have "?k = k\<lparr>k_jobs := jobs, k_events := k_events k\<rparr>" by simp
  then have "\<exists>jobs' events. ?k = k\<lparr>k_jobs := jobs', k_events := events\<rparr>" by blast
  moreover have "journal_grows k ?k" by (simp add: journal_grows_def)
  moreover have "journal_ok x k \<longrightarrow> journal_ok x ?k" by (simp add: journal_ok_def)
  moreover have "jobs_ok x ?k" using rows[THEN conjunct1] by (simp add: jobs_ok_def)
  ultimately have "job_effect x k ?k" by (simp add: job_effect_def)
  from job_effect_event[OF this rec] have eff: "job_effect x k k'" .
  note e = record_on_stream_Inr[OF rec]
  have "k_jobs k' = jobs" "k_events k' = k_events k @ [recorded_row x d 0
      (job_event x (jo_id job) (jo_scope job) JOB_CREATED data) (k_events k)]"
    by (subst e[THEN conjunct1]; simp)+
  with eff free rows dec e show ?thesis by auto
qed

text \<open>The row a submission inserts reads back, whatever the caller gave.\<close>

lemma submitted_row_reads:
  assumes "lawful x" and "jobs_ok x k" and "scope_from_str (as_str (nj_scope new)) = Inr (nj_scope new)"
  shows "job_row x (submitted_row x d new k) = Inr
    \<lparr>jo_id = d_job d, jo_kind = nj_kind new, jo_key = idempotency_key x new,
     jo_attempt = nat (coalesce_max (attempts (idempotency_key x new) k) + 1),
     jo_scope = nj_scope new, jo_resource = nj_resource new, jo_state = Queued,
     jo_lease = None, jo_outcome = None\<rparr>
    \<and> 1 \<le> jr_attempt (submitted_row x d new k)"
proof -
  have "\<forall>a\<in>set (attempts (idempotency_key x new) k). 0 \<le> a"
    using jobs_ok_rows[OF assms(2)]
    by (auto simp: attempts_def list_all_iff job_row_ok_def job_checks_def)
  then have "0 \<le> coalesce_max (attempts (idempotency_key x new) k)" by (rule coalesce_max_nonneg)
  moreover have "job_state_named ''queued'' = Some Queued" by (simp add: job_state_named_iff)
  moreover have "digest_parse (digest_str (idempotency_key x new)) = Inr (idempotency_key x new)"
    using assms(1) digest_of_parses by (simp add: idempotency_key_def lawful_def)
  ultimately show ?thesis
    using lawful_ulid_text[OF assms(1)] assms(3)
    by (simp add: submitted_row_def job_row_def unsigned_i64_def lease_of_def)
qed

end
