(* ===== verification/Job_Safety.thy ===== *)
theory Job_Safety
  imports Job_Rows
begin

text \<open>
  What the jobs promise their callers, proved of the operations of \<open>Jobs\<close> on tables that obey the
  invariants: a retried submission finds its job, a resource has one holder, a lease that is held
  is refused to others until it expires, a lease that was lost stays lost and writes nothing, an
  outcome is final, and a resumed job finds its last step.
\<close>

section \<open>Submission\<close>

lemma find_snoc:
  "List.find P (xs @ [v]) =
     (case List.find P xs of None \<Rightarrow> if P v then Some v else None | Some w \<Rightarrow> Some w)"
  by (induction xs) auto

lemma live_job_submitted:
  assumes "k_jobs k' = k_jobs k @ [submitted_row x d new k]"
    and "live_job (idempotency_key x new) k = None"
  shows "live_job (idempotency_key x new) k' = Some (submitted_row x d new k)"
  using assms by (simp add: live_job_def find_snoc submitted_row_def job_live_def)

text \<open>
  A submission finds the job of its key that is queued, running or succeeded and changes
  nothing; otherwise it is refused while an unfinished job holds its resource, naming that job;
  and otherwise what it creates is a queued job of the next attempt of the key, journaled as
  created on its own stream.
\<close>

theorem submit_finds_or_creates:
  assumes "jobs_ok x k" and "lawful x" and "scope_from_str (as_str (nj_scope new)) = Inr (nj_scope new)"
  shows "case live_job (idempotency_key x new) k of
      Some row \<Rightarrow> submit_job x d new k = (Inr (the_job x row), k)
    | None \<Rightarrow>
       (case holder_of (nj_resource new) k of
          Some row \<Rightarrow> submit_job x d new k
            = (Inl (ResourceHeld (the (nj_resource new)) (jo_id (the_job x row))), k)
        | None \<Rightarrow>
            (\<forall>job k'. submit_job x d new k = (Inr job, k') \<longrightarrow>
               job = \<lparr>jo_id = d_job d, jo_kind = nj_kind new, jo_key = idempotency_key x new,
                      jo_attempt = nat (coalesce_max (attempts (idempotency_key x new) k) + 1),
                      jo_scope = nj_scope new, jo_resource = nj_resource new, jo_state = Queued,
                      jo_lease = None, jo_outcome = None\<rparr>
               \<and> k_jobs k' = k_jobs k @ [submitted_row x d new k]
               \<and> (\<exists>e er. k_events k' = k_events k @ [er] \<and> event_row x er = Inr e
                    \<and> ev_stream e = job_stream x (d_job d) \<and> ev_type e = JOB_CREATED)))"
proof (cases "live_job (idempotency_key x new) k")
  case (Some row)
  then show ?thesis using submit_job_live[OF assms(1)] by simp
next
  case live: None
  show ?thesis
  proof (cases "holder_of (nj_resource new) k")
    case (Some row)
    then show ?thesis using live submit_job_held[OF assms(1) live] by simp
  next
    case None
    have "job = \<lparr>jo_id = d_job d, jo_kind = nj_kind new, jo_key = idempotency_key x new,
                 jo_attempt = nat (coalesce_max (attempts (idempotency_key x new) k) + 1),
                 jo_scope = nj_scope new, jo_resource = nj_resource new, jo_state = Queued,
                 jo_lease = None, jo_outcome = None\<rparr>
        \<and> k_jobs k' = k_jobs k @ [submitted_row x d new k]
        \<and> (\<exists>e er. k_events k' = k_events k @ [er] \<and> event_row x er = Inr e
             \<and> ev_stream e = job_stream x (d_job d) \<and> ev_type e = JOB_CREATED)"
      if r: "submit_job x d new k = (Inr job, k')" for job k'
    proof -
      note n = submit_job_new[OF assms(1) live r]
      have "job = \<lparr>jo_id = d_job d, jo_kind = nj_kind new, jo_key = idempotency_key x new,
                 jo_attempt = nat (coalesce_max (attempts (idempotency_key x new) k) + 1),
                 jo_scope = nj_scope new, jo_resource = nj_resource new, jo_state = Queued,
                 jo_lease = None, jo_outcome = None\<rparr>"
        using n submitted_row_reads[OF assms(2,1,3), of d] by simp
      with n show ?thesis by auto
    qed
    with live None show ?thesis by simp
  qed
qed

definition sample_new_job :: new_job where
  "sample_new_job = \<lparr>nj_kind = ''k'', nj_inputs = JNumber 1, nj_scope = Scope ''workspace/default'',
     nj_resource = Some ''r''\<rparr>"

definition sample_job :: job where
  "sample_job = \<lparr>jo_id = 0, jo_kind = ''k'', jo_key = idempotency_key sample sample_new_job,
     jo_attempt = 1, jo_scope = Scope ''workspace/default'', jo_resource = Some ''r'',
     jo_state = Queued, jo_lease = None, jo_outcome = None\<rparr>"

definition sample_submitted :: kernel where
  "sample_submitted = snd (submit_job sample (sample_draws 0) sample_new_job empty_kernel)"

lemma sample_submit:
  "submit_job sample (sample_draws 0) sample_new_job empty_kernel = (Inr sample_job, sample_submitted)"
  by code_simp

lemma jobs_ok_empty: "jobs_ok x empty_kernel"
  by (simp add: jobs_ok_def job_rows_ok_def empty_kernel_def)

lemma sample_scope: "scope_from_str (as_str (nj_scope sample_new_job)) = Inr (nj_scope sample_new_job)"
  by code_simp

lemma submit_finds_or_creates_witness:
  "submit_job sample (sample_draws 1) sample_new_job sample_submitted = (Inr sample_job, sample_submitted)
   \<and> jobs_ok sample sample_submitted"
proof
  have live: "live_job (idempotency_key sample sample_new_job) empty_kernel = None" by code_simp
  show ok: "jobs_ok sample sample_submitted"
    using submit_job_new[OF jobs_ok_empty live sample_submit] by (simp add: job_effect_def)
  have some: "live_job (idempotency_key sample sample_new_job) sample_submitted
      = Some (submitted_row sample (sample_draws 0) sample_new_job empty_kernel)" by code_simp
  have job: "the_job sample (submitted_row sample (sample_draws 0) sample_new_job empty_kernel) = sample_job"
    by code_simp
  show "submit_job sample (sample_draws 1) sample_new_job sample_submitted = (Inr sample_job, sample_submitted)"
    using submit_finds_or_creates[OF ok lawful_sample sample_scope, of "sample_draws 1"]
    unfolding some by (simp add: job)
qed

text \<open>
  A retried command finds its own job: after a submission succeeded, any other of the same
  kind, scope and inputs gets the very same job back, whatever resource it names, and records
  nothing.
\<close>

theorem submit_retry:
  assumes "jobs_ok x k" and "submit_job x d new k = (Inr job, k')"
    and "nj_kind again = nj_kind new" and "nj_scope again = nj_scope new"
    and "nj_inputs again = nj_inputs new"
  shows "submit_job x d' again k' = (Inr job, k')"
proof -
  have key: "idempotency_key x again = idempotency_key x new"
    using assms(3-5) by (simp add: idempotency_key_def)
  show ?thesis
  proof (cases "live_job (idempotency_key x new) k")
    case (Some row)
    then have "job = the_job x row" "k' = k" using submit_job_live[OF assms(1)] assms(2) by auto
    with Some key show ?thesis using submit_job_live[OF assms(1), of again row d'] by simp
  next
    case None
    note n = submit_job_new[OF assms(1) None assms(2)]
    then have ok: "jobs_ok x k'" by (simp add: job_effect_def)
    have "live_job (idempotency_key x again) k' = Some (submitted_row x d new k)"
      unfolding key using live_job_submitted n None by blast
    from submit_job_live[OF ok this, of d'] show ?thesis
      using n by (simp add: the_job_def)
  qed
qed

lemma submit_retry_witness:
  "submit_job sample (sample_draws 5) (sample_new_job\<lparr>nj_resource := None\<rparr>) sample_submitted
     = (Inr sample_job, sample_submitted)"
  by (rule submit_retry[OF jobs_ok_empty sample_submit]) simp_all

section \<open>Leases\<close>

text \<open>
  The clock the leases go by: the millisecond of a time, when the kernel can record it.
\<close>

lemma timestamp_Inr:
  assumes "lawful_clock x"
  shows "timestamp x (Some t) = Inr s \<longleftrightarrow>
    0 \<le> t \<and> t div 1000000 \<le> LAST_MILLIS \<and> strftime_millis x (t div 1000000) = Some s"
proof -
  have "LAST_MILLIS \<le> I64_MAX" by (simp add: LAST_MILLIS_def I64_MAX_def)
  moreover have "0 \<le> t \<longleftrightarrow> 0 \<le> t div 1000000" for t :: int
    by (simp add: pos_imp_zdiv_nonneg_iff)
  moreover have "0 \<le> m \<Longrightarrow> strftime_millis x m = Some s \<Longrightarrow> m \<le> LAST_MILLIS" for m
    using assms unfolding lawful_clock_def by (metis option.discI)
  ultimately show ?thesis
    by (auto simp: timestamp_def time_millis_def ok_or_Inr bind_eq_Some_conv split: if_splits)
qed

lemma lease_times_Inr:
  assumes "lawful_clock x" and "lease_times x now term = Inr (beat, expires)"
  shows "strftime_millis x (now div 1000000) = Some beat
    \<and> strftime_millis x ((now + int term) div 1000000) = Some expires \<and> 0 \<le> now
    \<and> clock_form beat \<and> clock_form expires"
proof -
  have h: "timestamp x (Some now) = Inr beat" and e: "timestamp x (time_add now term) = Inr expires"
    using assms(2) by (auto simp: lease_times_def results split: prod.splits)
  have "time_add now term \<noteq> None"
    using e by (cases "time_add now term") (auto simp: timestamp_def time_millis_def)
  then have "time_add now term = Some (now + int term)" by (auto simp: time_add_def split: if_splits)
  with e have "timestamp x (Some (now + int term)) = Inr expires" by simp
  with h show ?thesis
    using timestamp_Inr[OF assms(1)] assms(1) unfolding lawful_clock_def by (metis pos_imp_zdiv_nonneg_iff zero_less_numeral)
qed

lemma clock_order:
  assumes "lawful_clock x" and "strftime_millis x m = Some s" and "strftime_millis x n = Some t"
    and "clock_form s" and "clock_form t"
  shows "s < t \<longleftrightarrow> m < n"
proof
  assume "m < n"
  then show "s < t" using assms unfolding lawful_clock_def by blast
next
  assume st: "s < t"
  show "m < n"
  proof (rule ccontr)
    assume "\<not> m < n"
    then consider "m = n" | "n < m" by linarith
    then show False
    proof cases
      case 1
      then show False using st assms(2,3) by simp
    next
      case 2
      then have "t < s" using assms unfolding lawful_clock_def by blast
      with st show False by simp
    qed
  qed
qed

lemma running_lease:
  assumes "job_row_ok x row" and "jr_state row = ''running''"
  obtains current where "jo_lease (the_job x row) = Some current"
  using row_lease(1)[OF assms(1)] assms(2) by auto

text \<open>
  C19: while a lease is held and has not expired, no one takes it, its holder among them: the
  call is refused naming the holder and the expiry, and nothing changes. Expiry is by the
  caller's clock to the millisecond, and a lease is expired at its very instant.
\<close>

theorem held_lease_refuses:
  assumes "jobs_ok x k" and "lawful_clock x" and "job_at x jid k = Some row"
    and "jr_state row = ''running''" and "jr_expires row = Some expiry"
    and "strftime_millis x m = Some expiry" and "lease_times x now term = Inr (beat, expires)"
  shows "take_job x d jid holder now term k = (Inl (Held jid (the (jr_holder row)) expiry), k)
      \<longleftrightarrow> now div 1000000 < m"
proof -
  note rok = job_at_ok[OF assms(1,3)]
  obtain current where cur: "jo_lease (the_job x row) = Some current"
    using running_lease[OF rok assms(4)] .
  then have lease: "le_expires current = expiry" "le_holder current = the (jr_holder row)"
    using row_lease(2)[OF rok cur] assms(5) by simp_all
  have hb: "strftime_millis x (now div 1000000) = Some beat" "clock_form beat"
    using lease_times_Inr[OF assms(2,7)] by simp_all
  have "clock_form expiry" using rok assms(5) by (auto simp: job_row_ok_def job_checks_def null_or_def)
  then have order: "beat < expiry \<longleftrightarrow> now div 1000000 < m"
    by (rule clock_order[OF assms(2) hb(1) assms(6) hb(2)])
  have job: "known_job x jid k = Inr (the_job x row)"
    using known_job_ok[OF assms(1)] assms(3) by simp
  show ?thesis
  proof
    assume l: "now div 1000000 < m"
    then have "le_expires current > beat" using order lease(1) by simp
    then show "take_job x d jid holder now term k = (Inl (Held jid (the (jr_holder row)) expiry), k)"
      by (simp add: take_job_def db_write_def job assms(7) cur lease)
  next
    assume t: "take_job x d jid holder now term k = (Inl (Held jid (the (jr_holder row)) expiry), k)"
    show "now div 1000000 < m"
    proof (rule ccontr)
      assume "\<not> now div 1000000 < m"
      then have "\<not> le_expires current > beat" using order lease(1) by simp
      then show False using t
        by (auto simp: take_job_def db_write_def job assms(7) cur results job_sqlite_def
            record_on_stream_def Let_def split: sum.splits prod.splits)
    qed
  qed
qed

definition sample_lease :: lease where
  "sample_lease = \<lparr>le_job = 0, le_holder = ''ann'', le_number = 1,
     le_heartbeat = the (sample_clock 2), le_expires = the (sample_clock 3)\<rparr>"

definition sample_taken :: kernel where
  "sample_taken = snd (take_job sample (sample_draws 1) 0 ''ann'' 2999999 1 sample_submitted)"

lemma sample_take:
  "take_job sample (sample_draws 1) 0 ''ann'' 2999999 1 sample_submitted
     = (Inr sample_lease, sample_taken)"
  by code_simp

lemma sample_submitted_ok: "jobs_ok sample sample_submitted"
proof -
  have "live_job (idempotency_key sample sample_new_job) empty_kernel = None" by code_simp
  from submit_job_new[OF jobs_ok_empty this sample_submit] show ?thesis by (simp add: job_effect_def)
qed

lemma sample_taken_ok: "jobs_ok sample sample_taken"
  using take_job_Inr[OF sample_submitted_ok lawful_sample sample_take] by (simp add: job_effect_def)

definition sample_running :: job_record where
  "sample_running = (submitted_row sample (sample_draws 0) sample_new_job empty_kernel)
     \<lparr>jr_state := ''running'', jr_number := 1, jr_holder := Some ''ann'',
      jr_heartbeat := sample_clock 2, jr_expires := sample_clock 3\<rparr>"

lemma sample_at: "job_at sample 0 sample_taken = Some sample_running"
  by code_simp

lemma held_lease_refuses_witness:
  "take_job sample (sample_draws 2) 0 ''bob'' 2999999 1 sample_taken
     = (Inl (Held 0 ''ann'' (the (sample_clock 3))), sample_taken)"
proof -
  have law: "lawful_clock sample" using lawful_sample by (simp add: lawful_def)
  have row: "jr_state sample_running = ''running''" "jr_holder sample_running = Some ''ann''"
    "jr_expires sample_running = Some (the (sample_clock 3))"
    "strftime_millis sample 3 = Some (the (sample_clock 3))"
    by code_simp+
  have times: "lease_times sample 2999999 1 = Inr (the (sample_clock 2), the (sample_clock 3))"
    by code_simp
  show ?thesis
    using held_lease_refuses[OF sample_taken_ok law sample_at row(1,3,4) times, of "sample_draws 2" "''bob''"]
      row(2) by simp
qed

text \<open>
  Taking a lease gives the next number, and the lease before it is the job's no more: a
  queued job starts running under number 1 above its row's, a running one is taken over; the
  job's stream tells which, and the new lease is the one the job knows.
\<close>

theorem take_gives_next_lease:
  assumes "jobs_ok x k" and "lawful x" and "take_job x d jid holder now term k = (Inr lease, k')"
  shows "\<exists>row. job_at x jid k = Some row \<and> \<not> job_ended row
    \<and> int (le_number lease) = jr_number row + 1 \<and> le_job lease = jid \<and> le_holder lease = holder
    \<and> (\<exists>job. held_lease x lease k' = Inr job \<and> jo_lease job = Some lease)
    \<and> (\<forall>previous. le_job previous = jid \<longrightarrow> le_number previous \<noteq> le_number lease \<longrightarrow>
         held_lease x previous k' = Inl (Lost jid (le_holder previous) (le_number previous)))
    \<and> (\<exists>e er. k_events k' = k_events k @ [er] \<and> event_row x er = Inr e \<and> ev_stream e = job_stream x jid
         \<and> ev_type e = (if jr_state row = ''running'' then JOB_TAKEN_OVER else JOB_TAKEN))"
proof -
  obtain row beat expires where row: "job_at x jid k = Some row"
    and lease: "lease = \<lparr>le_job = jid, le_holder = holder, le_number = nat (jr_number row) + 1,
        le_heartbeat = beat, le_expires = expires\<rparr>"
    and queued: "jo_lease (the_job x row) = None \<longrightarrow> jo_state (the_job x row) = Queued"
    and at: "job_at x jid k' = Some (row\<lparr>jr_state := ''running'', jr_number := jr_number row + 1,
             jr_holder := Some holder, jr_heartbeat := Some beat, jr_expires := Some expires\<rparr>)"
    and ev: "\<exists>e er. k_events k' = k_events k @ [er] \<and> event_row x er = Inr e
              \<and> ev_stream e = job_stream x jid \<and> ev_scope e = jr_scope row
              \<and> ev_type e = (if jo_lease (the_job x row) = None then JOB_TAKEN else JOB_TAKEN_OVER)"
    using take_job_Inr[OF assms, THEN conjunct2] by iprover
  have ok': "jobs_ok x k'" using take_job_Inr[OF assms] by (simp add: job_effect_def)
  note rok = job_at_ok[OF assms(1) row]
  have running: "jo_lease (the_job x row) = None \<longleftrightarrow> jr_state row \<noteq> ''running''"
    using row_lease(1)[OF rok] by auto
  have num: "0 \<le> jr_number row" using rok by (simp add: job_row_ok_def job_checks_def)
  have ended: "\<not> job_ended row"
  proof -
    have "jr_state row = ''running'' \<or> jr_state row = ''queued''"
      using queued running row_state[OF rok] by (metis job_state_str.simps(1))
    then show ?thesis by (auto simp: job_ended_def)
  qed
  let ?new = "row\<lparr>jr_state := ''running'', jr_number := jr_number row + 1,
             jr_holder := Some holder, jr_heartbeat := Some beat, jr_expires := Some expires\<rparr>"
  have held: "held_lease x l k' = (if jr_number row + 1 = int (le_number l) then Inr (the_job x ?new)
      else Inl (Lost jid (le_holder l) (le_number l)))" if "le_job l = jid" for l
    using that at by (simp add: held_lease_ok[OF ok'])
  have "jo_lease (the_job x ?new) = Some lease"
  proof -
    obtain current where cur: "jo_lease (the_job x ?new) = Some current"
      by (rule running_lease[OF job_at_ok[OF ok' at]]) simp_all
    then show ?thesis
      using row_lease(2)[OF job_at_ok[OF ok' at] cur] job_at_decoded[OF ok' at assms(2)] num lease
      by (auto simp: nat_add_distrib)
  qed
  then have "\<exists>job. held_lease x lease k' = Inr job \<and> jo_lease job = Some lease"
    using held[of lease] lease num by simp
  moreover have "held_lease x previous k' = Inl (Lost jid (le_holder previous) (le_number previous))"
    if "le_job previous = jid" "le_number previous \<noteq> le_number lease" for previous
    using held[OF that(1)] that lease num by auto
  ultimately show ?thesis using row ended lease num ev running by auto
qed

lemma take_gives_next_lease_witness:
  "\<exists>job. held_lease sample sample_lease sample_taken = Inr job \<and> jo_lease job = Some sample_lease"
  using take_gives_next_lease[OF sample_submitted_ok lawful_sample sample_take] by blast

section \<open>Lost leases\<close>

text \<open>A lease is lost once its job ended or runs under a later number.\<close>

definition lease_lost :: "ext \<Rightarrow> lease \<Rightarrow> kernel \<Rightarrow> bool" where
  "lease_lost x lease k \<longleftrightarrow>
     (\<exists>row\<in>set (k_jobs k). jr_id row = ulid_text x (le_job lease)
        \<and> (job_ended row \<or> int (le_number lease) < jr_number row))"

lemma lease_lost_held:
  assumes "jobs_ok x k" and "lease_lost x lease k"
  shows "held_lease x lease k = Inl (Lost (le_job lease) (le_holder lease) (le_number lease))"
proof -
  obtain row where row: "row \<in> set (k_jobs k)" "jr_id row = ulid_text x (le_job lease)"
    and lost: "job_ended row \<or> int (le_number lease) < jr_number row"
    using assms(2) by (auto simp: lease_lost_def)
  have "job_at x (le_job lease) k = Some row" by (rule job_at_row[OF assms(1) row])
  with lost show ?thesis by (auto simp: held_lease_ok[OF assms(1)] job_ended_def)
qed

lemma lease_lost_evolves: "jobs_evolve k k' \<Longrightarrow> lease_lost x lease k \<Longrightarrow> lease_lost x lease k'"
proof -
  assume "jobs_evolve k k'" "lease_lost x lease k"
  then obtain row where row: "row \<in> set (k_jobs k)" "jr_id row = ulid_text x (le_job lease)"
    and lost: "job_ended row \<or> int (le_number lease) < jr_number row"
    by (auto simp: lease_lost_def)
  obtain new where "new \<in> set (k_jobs k')" "row_evolves row new"
    using jobs_evolve_at[OF \<open>jobs_evolve k k'\<close> row(1)] by blast
  with row lost show ?thesis by (force simp: lease_lost_def row_evolves_def)
qed

text \<open>
  A lease that was lost is lost for good, and its holder writes nothing more: however the
  jobs went on since, its heartbeats, its steps and its outcome are refused as lost, the database
  and the lease staying as they were.
\<close>

theorem lost_lease_writes_nothing:
  assumes "lease_lost x lease k" and "jobs_evolve k k'" and "jobs_ok x k'"
  shows "heartbeat x lease now term k'
      = (Inl (Lost (le_job lease) (le_holder lease) (le_number lease)), lease, k')
    \<and> progress x d lease now term data k'
      = (Inl (Lost (le_job lease) (le_holder lease) (le_number lease)), lease, k')
    \<and> complete_job x d lease to outcome k'
      = (Inl (Lost (le_job lease) (le_holder lease) (le_number lease)), k')"
  using lease_lost_held[OF assms(3) lease_lost_evolves[OF assms(2,1)]]
  by (simp add: heartbeat_def progress_def complete_job_def db_write_def)

lemma lost_lease_writes_nothing_witness:
  "fst (complete_job sample (sample_draws 2) (sample_lease\<lparr>le_number := 0\<rparr>) Failed JNull sample_taken)
     = Inl (Lost 0 ''ann'' 0)"
proof -
  let ?l = "sample_lease\<lparr>le_number := 0\<rparr>"
  have "sample_running \<in> set (k_jobs sample_taken)" "jr_id sample_running = ulid_text sample 0"
    using job_at_mem[OF sample_at] by simp_all
  moreover have "jr_number sample_running = 1" "le_job ?l = 0" "le_number ?l = 0" "le_holder ?l = ''ann''"
    by (simp_all add: sample_running_def sample_lease_def)
  ultimately have "lease_lost sample ?l sample_taken" by (force simp: lease_lost_def)
  from lost_lease_writes_nothing[OF this jobs_evolve_refl sample_taken_ok,
      where to = Failed and outcome = JNull and d = "sample_draws 2"]
  show ?thesis by (simp add: sample_lease_def)
qed

section \<open>Outcomes\<close>

lemma ended_row:
  assumes ok: "jobs_ok x k" and law: "lawful x" and row: "job_at x jid k = Some row"
    and r: "end_job x d (the_job x row) to outcome k = (Inr (ended, k'))" and fin: "ended_state to"
  shows "\<exists>new. job_at x jid k' = Some new \<and> job_ended new \<and> ended = the_job x new
    \<and> jo_state ended = to \<and> jo_lease ended = None \<and> jo_outcome ended = json_parse x (json_text x outcome)
    \<and> jobs_ok x k'"
proof -
  let ?new = "row\<lparr>jr_state := job_state_str to, jr_outcome := Some (json_text x outcome),
      jr_holder := None, jr_heartbeat := None, jr_expires := None\<rparr>"
  have e: "job_effect x k k'" "job_at x jid k' = Some ?new" "ended = the_job x ?new" "job_row_ok x ?new"
    using end_job_Inr[OF ok law row r] by auto
  have dec: "job_row x ?new = Inr ended" using job_row_the[OF e(4)] e(3) by simp
  have "job_state_str (jo_state ended) = job_state_str to" using job_row_facts[OF dec] by simp
  then have st: "jo_state ended = to" by (rule job_states.names_differ)
  have "jo_lease ended = None" using job_row_facts[OF dec] by (simp add: lease_of_def)
  moreover have "jo_outcome ended = json_parse x (json_text x outcome)"
    using dec by (auto simp: job_row_def results)
  moreover have "job_ended ?new" using job_ended_state[of ?new to] fin by simp
  ultimately show ?thesis using e st by (auto simp: job_effect_def)
qed

lemma ended_refuses:
  assumes ok: "jobs_ok x k" and row: "job_at x jid k = Some row" and fin: "job_ended row"
  shows "cancel_job x d jid outcome k = (Inl (IllegalMove jid (jo_state (the_job x row)) Cancelled), k)"
    and "lease_times x now term = Inr span \<Longrightarrow>
      take_job x d jid holder now term k = (Inl (IllegalMove jid (jo_state (the_job x row)) Running), k)"
    and "le_job lease = jid \<Longrightarrow> complete_job x d lease to outcome k
      = (Inl (Lost jid (le_holder lease) (le_number lease)), k)"
proof -
  note rok = job_at_ok[OF ok row]
  have job: "known_job x jid k = Inr (the_job x row)" using known_job_ok[OF ok] row by simp
  have none: "jo_lease (the_job x row) = None"
    using fin row_lease(1)[OF rok] by (auto simp: job_ended_def)
  have "ended_state (jo_state (the_job x row))"
    using fin job_ended_state[OF row_state[OF rok, symmetric]] by simp
  then have move: "\<not> may_move_to (jo_state (the_job x row)) w" for w by (rule ended_never_moves)
  show "cancel_job x d jid outcome k = (Inl (IllegalMove jid (jo_state (the_job x row)) Cancelled), k)"
    by (simp add: cancel_job_def db_write_def job none move)
  show "take_job x d jid holder now term k = (Inl (IllegalMove jid (jo_state (the_job x row)) Running), k)"
    if "lease_times x now term = Inr span"
    using that by (cases span) (simp add: take_job_def db_write_def job none move)
  show "complete_job x d lease to outcome k = (Inl (Lost jid (le_holder lease) (le_number lease)), k)"
    if "le_job lease = jid"
    using that row fin by (auto simp: complete_job_def db_write_def held_lease_ok[OF ok] job_ended_def)
qed

text \<open>
  An outcome is final: a completed job is in the state it was given, without a lease, with
  the outcome as reported, and from then on it is neither taken, cancelled nor completed again,
  whatever lease or time is used; each attempt is refused and changes nothing.
\<close>

theorem outcome_is_final:
  assumes "jobs_ok x k" and "lawful x" and "plain_json READABLE_DEPTH outcome"
    and "complete_job x d lease to outcome k = (Inr ended, k')"
  shows "jo_state ended = to \<and> to \<in> {Succeeded, Failed, Cancelled} \<and> jo_lease ended = None
    \<and> jo_outcome ended = Some outcome \<and> find_job x None (le_job lease) k' = Inr (Some ended)
    \<and> snd (cancel_job x d' (le_job lease) other k') = k'
    \<and> fst (cancel_job x d' (le_job lease) other k') = Inl (IllegalMove (le_job lease) to Cancelled)
    \<and> (lease_times x now term = Inr span \<longrightarrow>
         take_job x d' (le_job lease) holder now term k' = (Inl (IllegalMove (le_job lease) to Running), k'))
    \<and> (le_job any = le_job lease \<longrightarrow>
         complete_job x d' any to' other k' = (Inl (Lost (le_job lease) (le_holder any) (le_number any)), k'))"
proof -
  obtain row where row: "job_at x (le_job lease) k = Some row" and to: "to \<in> {Succeeded, Failed, Cancelled}"
    and e: "end_job x d (the_job x row) to outcome k = Inr (ended, k')"
    using complete_job_Inr[OF assms(1,4)] by blast
  have "ended_state to" using to by (simp add: ended_state_def)
  then obtain new where new: "job_at x (le_job lease) k' = Some new" "job_ended new" "ended = the_job x new"
    and st: "jo_state ended = to" "jo_lease ended = None"
      "jo_outcome ended = json_parse x (json_text x outcome)" and ok': "jobs_ok x k'"
    using ended_row[OF assms(1,2) row e] by blast
  have "find_job x None (le_job lease) k' = Inr (Some ended)"
    using find_job_ok[OF ok'] new by simp
  then show ?thesis
    using st to lawful_readable[OF assms(2,3)] ended_refuses[OF ok' new(1,2)] new(3) by simp
qed

definition sample_ended :: "(job_error + job) \<times> kernel" where
  "sample_ended = complete_job sample (sample_draws 2) sample_lease Succeeded JNull sample_taken"

lemma outcome_is_final_witness:
  "fst (cancel_job sample (sample_draws 3) 0 JNull (snd sample_ended)) = Inl (IllegalMove 0 Succeeded Cancelled)"
proof -
  have "case fst sample_ended of Inr _ \<Rightarrow> True | Inl _ \<Rightarrow> False" by code_simp
  then obtain ended where "sample_ended = (Inr ended, snd sample_ended)"
    by (cases "fst sample_ended") (auto simp: prod_eq_iff)
  then have c: "complete_job sample (sample_draws 2) sample_lease Succeeded JNull sample_taken
      = (Inr ended, snd sample_ended)" by (simp add: sample_ended_def)
  have "plain_json READABLE_DEPTH JNull" by simp
  from outcome_is_final[OF sample_taken_ok lawful_sample this c]
  show ?thesis by (simp add: sample_lease_def)
qed

section \<open>Steps\<close>

lemma find_conj_unique:
  "distinct (map f xs) \<Longrightarrow>
     List.find (\<lambda>v. f v = u \<and> P v) xs = Option.bind (List.find (\<lambda>v. f v = u) xs) (\<lambda>v. if P v then Some v else None)"
proof (induction xs)
  case (Cons w xs)
  show ?case
  proof (cases "f w = u")
    case True
    with Cons.prems have "\<forall>v\<in>set xs. f v \<noteq> u" by (metis distinct.simps(2) imageI list.set_map list.simps(9))
    then have "List.find (\<lambda>v. f v = u \<and> P v) xs = None" by (auto simp: find_None_iff)
    with True show ?thesis by simp
  qed (use Cons in simp)
qed simp

lemma job_read_ok:
  assumes "jobs_ok x k"
  shows "job_read x scopes jid k =
    Inr (Option.bind (job_at x jid k) (\<lambda>row.
      if set_covers scopes (Scope (jr_scope row)) then Some (the_job x row) else None))"
proof -
  have "distinct (map jr_id (k_jobs k))" using assms by (simp add: jobs_ok_def job_rows_ok_def)
  from find_conj_unique[OF this]
  show ?thesis
    using first_job_ok[OF jobs_ok_rows[OF assms]]
    by (simp add: job_read_def find_job_def condition_set_covers job_at_def)
      (simp split: bind_split)
qed

text \<open>
  A process that resumes a job finds where it stopped: after a step was recorded, the last
  progress read through scopes that cover the job is that step, as its writer got it.
\<close>

theorem progress_resumes:
  assumes "jobs_ok x k" and "journal_ok x k" and "job_at x (le_job lease) k = Some row"
    and "set_covers scopes (Scope (jr_scope row))" and "lawful x"
    and "progress x d lease now term data k = (Inr event, renewed, k')"
  shows "last_progress x scopes (le_job lease) k' = Inr (Some event)"
proof -
  let ?jid = "le_job lease"
  obtain job k1 where eff: "job_effect x k k'" and held: "held_lease x lease k = Inr job"
    and rec: "record_on_stream x d (jo_id job) (jo_scope job) JOB_PROGRESSED data k1 = Inr (event, k')"
    using progress_Inr[OF assms(1,6)] by blast
  have ok': "jobs_ok x k'" "journal_ok x k'" using eff assms(2) by (simp_all add: job_effect_def)
  have job: "job = the_job x row"
    using held assms(3) by (auto simp: held_lease_ok[OF assms(1)] split: if_splits)
  have jid: "jo_id job = ?jid" using job_at_decoded[OF assms(1,3,5)] job by simp
  have scope: "as_str (jo_scope job) = jr_scope row"
    using job_row_facts[OF job_at_decoded[OF assms(1,3,5), THEN conjunct1]] job by simp
  obtain new where new: "new \<in> set (k_jobs k')" "row_evolves row new"
    using jobs_evolve_at[of k k' row] eff job_at_mem[OF assms(3)] by (auto simp: job_effect_def)
  then have at: "job_at x ?jid k' = Some new" "jr_scope new = jr_scope row"
    using job_at_row[OF ok'(1) new(1), of ?jid] job_at_mem[OF assms(3)] by (simp_all add: row_evolves_def)
  have read: "\<exists>j. job_read x scopes ?jid k' = Inr (Some j)"
    using at assms(4) by (simp add: job_read_ok[OF ok'(1)])
  let ?er = "recorded_row x d 0 (job_event x (jo_id job) (jo_scope job) JOB_PROGRESSED data) (k_events k1)"
  let ?f = "\<lparr>fi_stream = job_stream x ?jid, fi_after = 0, fi_type = Some JOB_PROGRESSED\<rparr> :: event_filter"
  note r = record_on_stream_Inr[OF rec]
  have events: "k_events k' = k_events k1 @ [?er]" by (subst r[THEN conjunct1]) simp
  have er: "?er \<in> set (k_events k')" by (simp add: events)
  have dec: "event_row x ?er = Inr event" using r by blast
  have "selects_event ?f scopes ?er"
    unfolding selects_event_iff[OF ok'(2) er dec]
    using r jid scope assms(4) journal_ok_position[OF ok'(2) er] event_row_fields[OF dec]
    by (auto simp: JOB_PROGRESSED_def SETTING_CHANGED_def)
  moreover have "the_event x ?er = event" using dec by (simp add: the_event_def)
  ultimately have "events_read x scopes ?f k'
      = Inr (map (the_event x) (filter (selects_event ?f scopes) (k_events k1)) @ [event])"
    by (simp add: events_read_ok[OF ok'(2)] events)
  then show ?thesis using read by (auto simp: last_progress_def)
qed

definition sample_step :: "(job_error + event) \<times> lease \<times> kernel" where
  "sample_step = progress sample (sample_draws 2) sample_lease 2999999 1 (JNumber 7) sample_taken"

lemma progress_resumes_witness:
  "\<exists>event. fst sample_step = Inr event
     \<and> last_progress sample (ScopeSet [Scope ''workspace/default'']) 0 (snd (snd sample_step)) = Inr (Some event)"
proof -
  have "case fst sample_step of Inr _ \<Rightarrow> True | Inl _ \<Rightarrow> False" by code_simp
  then obtain event where e: "fst sample_step = Inr event" by (cases "fst sample_step") auto
  then have p: "progress sample (sample_draws 2) sample_lease 2999999 1 (JNumber 7) sample_taken
      = (Inr event, fst (snd sample_step), snd (snd sample_step))"
    by (simp add: sample_step_def prod_eq_iff)
  have "live_job (idempotency_key sample sample_new_job) empty_kernel = None" by code_simp
  from submit_job_new[OF jobs_ok_empty this sample_submit]
  have "journal_ok sample sample_submitted" by (simp add: job_effect_def journal_ok_empty)
  then have j: "journal_ok sample sample_taken"
    using take_job_Inr[OF sample_submitted_ok lawful_sample sample_take] by (simp add: job_effect_def)
  have covers: "set_covers (ScopeSet [Scope ''workspace/default'']) (Scope (jr_scope sample_running))"
    by code_simp
  have at: "job_at sample (le_job sample_lease) sample_taken = Some sample_running"
    using sample_at by (simp add: sample_lease_def)
  show ?thesis
    using progress_resumes[OF sample_taken_ok j at covers lawful_sample p] e
    by (simp add: sample_lease_def)
qed

end
