(* ===== verification/Generations.thy ===== *)
theory Generations
  imports Journal
begin

text \<open>
  Search generations, \<open>crates/maestro-kernel/src/generation/\<close>: the states and their moves
  (\<open>state.rs\<close>) and the calls that create, verify, publish, retire, fail and read generations
  (\<open>lifecycle.rs\<close>), over the \<open>generations\<close> table with the foreign keys, the CHECKs and the unique
  index of \<open>migrations/0004_documents.sql\<close>.
\<close>

section \<open>States (generation/state.rs)\<close>

datatype generation_state = Building | Verified | Published | Retired | GenerationFailed

definition GENERATION_MOVES :: "(generation_state \<times> generation_state) list" where
  "GENERATION_MOVES =
     [(Building, Verified), (Building, GenerationFailed), (Verified, Published),
      (Verified, GenerationFailed), (Published, Retired)]"

definition GENERATION_STATES :: "generation_state list" where
  "GENERATION_STATES = [Building, Verified, Published, Retired, GenerationFailed]"

definition generation_may_move :: "generation_state \<Rightarrow> generation_state \<Rightarrow> bool" where
  "generation_may_move from to \<longleftrightarrow> (from, to) \<in> set GENERATION_MOVES"

fun generation_state_str :: "generation_state \<Rightarrow> string" where
  "generation_state_str Building = ''building''"
| "generation_state_str Verified = ''verified''"
| "generation_state_str Published = ''published''"
| "generation_state_str Retired = ''retired''"
| "generation_state_str GenerationFailed = ''failed''"

definition generation_state_named :: "string \<Rightarrow> generation_state option" where
  "generation_state_named name =
     List.find (\<lambda>state. generation_state_str state = name) GENERATION_STATES"

section \<open>Generations (generation/lifecycle.rs, generation/error.rs)\<close>

record new_generation =
  ng_collection :: string
  ng_chunk_set :: string
  ng_embedding :: string
  ng_sparse :: string

record generation =
  gn_id :: int
  gn_collection :: string
  gn_chunk_set :: string
  gn_embedding :: string
  gn_sparse :: string
  gn_state :: generation_state
  gn_points :: "nat option"
  gn_published_at :: "string option"

datatype generation_error =
    UnknownGeneration int
  | GenerationIllegalMove int generation_state generation_state
  | PublishedChanged "int option" "int option"
  | GenerationStore store_error

definition generation_sqlite :: "sqlite_error \<Rightarrow> generation_error" where
  "generation_sqlite e = GenerationStore (Sqlite e)"

definition generation_row :: "generation_record \<Rightarrow> sqlite_error + generation" where
  "generation_row row =
     and_then (ok_or (FromSqlConversionFailure 5) (generation_state_named (ge_state row))) (\<lambda>state.
     and_then (case ge_points row of
                 None \<Rightarrow> Inr None
               | Some count \<Rightarrow> and_then (unsigned_i64 count 6) (\<lambda>n. Inr (Some n))) (\<lambda>points.
       Inr \<lparr>gn_id = ge_id row, gn_collection = ge_collection row, gn_chunk_set = ge_chunk_set row,
            gn_embedding = ge_embedding row, gn_sparse = ge_sparse row, gn_state = state,
            gn_points = points, gn_published_at = ge_published_at row\<rparr>))"

text \<open>The table's CHECKs, and its unique index: one published row for a collection.\<close>

definition generation_checks :: "generation_record \<Rightarrow> bool" where
  "generation_checks row \<longleftrightarrow>
     ge_state row \<in> set [''building'', ''verified'', ''published'', ''retired'', ''failed'']
     \<and> (case ge_points row of None \<Rightarrow> True | Some count \<Rightarrow> 0 \<le> count)"

definition published_rows :: "generation_record list \<Rightarrow> generation_record list" where
  "published_rows rows = filter (\<lambda>row. ge_state row = ''published'') rows"

definition one_published :: "generation_record list \<Rightarrow> bool" where
  "one_published rows \<longleftrightarrow> distinct (map ge_collection (published_rows rows))"

text \<open>
  The insert: the next id is one above every id the table ever gave (AUTOINCREMENT), and the
  foreign keys name a recorded collection and a chunk set of it.
\<close>

definition insert_generation ::
  "new_generation \<Rightarrow> kernel \<Rightarrow> sqlite_error + generation_record \<times> kernel" where
  "insert_generation new k =
     (let last = max (k_generation_seq k) (coalesce_max (map ge_id (k_generations k)));
          row = \<lparr>ge_id = last + 1, ge_collection = ng_collection new, ge_chunk_set = ng_chunk_set new,
                 ge_embedding = ng_embedding new, ge_sparse = ng_sparse new,
                 ge_state = ''building'', ge_points = None, ge_published_at = None\<rparr> in
      if last \<ge> I64_MAX then Inl (ConstraintViolation ''AUTOINCREMENT'')
      else if \<not> list_ex (\<lambda>c. co_id c = ng_collection new) (k_collections k)
              \<or> \<not> list_ex (\<lambda>s. cs_collection s = ng_collection new \<and> cs_id s = ng_chunk_set new)
                    (k_chunk_sets k)
      then Inl (ConstraintViolation ''FOREIGN KEY'')
      else if \<not> generation_checks row \<or> \<not> one_published (k_generations k @ [row])
      then Inl (ConstraintViolation ''generations'')
      else Inr (row, k\<lparr>k_generations := k_generations k @ [row], k_generation_seq := last + 1\<rparr>))"

text \<open>\<open>UPDATE generations SET ... WHERE ...\<close>: the rows it changed, and the table it leaves.\<close>

definition update_generations ::
  "(generation_record \<Rightarrow> bool) \<Rightarrow> (generation_record \<Rightarrow> generation_record) \<Rightarrow> kernel
     \<Rightarrow> sqlite_error + generation_record list \<times> kernel" where
  "update_generations selects assign k =
     (let rows = map (\<lambda>row. if selects row then assign row else row) (k_generations k) in
      if \<not> list_all generation_checks rows \<or> \<not> one_published rows
      then Inl (ConstraintViolation ''generations'')
      else Inr (map assign (filter selects (k_generations k)), k\<lparr>k_generations := rows\<rparr>))"

definition find_generation ::
  "scope_set option \<Rightarrow> int \<Rightarrow> kernel \<Rightarrow> generation_error + generation option" where
  "find_generation scopes gid k =
     map_err generation_sqlite (optional (query_row generation_row
       (filter (\<lambda>row. ge_id row = gid
           \<and> (case scopes of None \<Rightarrow> True
              | Some s \<Rightarrow> collection_condition (ge_collection row) (parameter s)))
         (k_generations k))))"

definition legal_generation_move ::
  "int \<Rightarrow> generation_state \<Rightarrow> kernel \<Rightarrow> generation_error + generation" where
  "legal_generation_move gid to k =
     and_then (and_then (find_generation None gid k) (ok_or (UnknownGeneration gid))) (\<lambda>generation.
       if generation_may_move (gn_state generation) to then Inr generation
       else Inl (GenerationIllegalMove gid (gn_state generation) to))"

definition unsigned_id :: "int \<Rightarrow> generation_error + nat" where
  "unsigned_id gid =
     (if 0 \<le> gid then Inr (nat gid)
      else Inl (generation_sqlite (ToSqlConversionFailure IntegerCause)))"

definition record_knowledge_event ::
  "ext \<Rightarrow> draws \<Rightarrow> nat \<Rightarrow> string \<Rightarrow> string \<Rightarrow> json \<Rightarrow> kernel \<Rightarrow> generation_error + kernel" where
  "record_knowledge_event x d i collection t data k =
     and_then
       (map_err GenerationStore
         (record_event x d i
           \<lparr>ne_stream = knowledge_stream collection, ne_type = t,
            ne_subject = knowledge_stream collection, ne_scope = collection_path collection,
            ne_data = data\<rparr> k))
       (\<lambda>(_, k'). Inr k')"

definition record_published ::
  "ext \<Rightarrow> draws \<Rightarrow> nat \<Rightarrow> generation \<Rightarrow> kernel \<Rightarrow> generation_error + kernel" where
  "record_published x d i generation k =
     and_then (unsigned_id (gn_id generation)) (\<lambda>gid.
       record_knowledge_event x d i (gn_collection generation) GENERATION_PUBLISHED
         (json_object [(''collection'', JStr (gn_collection generation)),
                       (''generation'', JNumber (int gid)),
                       (''point_count'', JNumber (int (case gn_points generation of None \<Rightarrow> 0 | Some n \<Rightarrow> n)))])
         k)"

definition record_retired ::
  "ext \<Rightarrow> draws \<Rightarrow> nat \<Rightarrow> string \<Rightarrow> int \<Rightarrow> kernel \<Rightarrow> generation_error + kernel" where
  "record_retired x d i collection gid k =
     and_then (unsigned_id gid) (\<lambda>generation.
       record_knowledge_event x d i collection GENERATION_RETIRED
         (json_object [(''collection'', JStr collection), (''generation'', JNumber (int generation))]) k)"

definition create_generation ::
  "new_generation \<Rightarrow> kernel \<Rightarrow> (generation_error + generation) \<times> kernel" where
  "create_generation new =
     db_write (\<lambda>k. map_err generation_sqlite
       (and_then (insert_generation new k) (\<lambda>(row, k').
        and_then (generation_row row) (\<lambda>generation. Inr (generation, k')))))"

definition set_state :: "string \<Rightarrow> generation_record \<Rightarrow> generation_record" where
  "set_state state row = row\<lparr>ge_state := state\<rparr>"

text \<open>The count is converted before the write begins.\<close>

definition verify_generation ::
  "int \<Rightarrow> nat \<Rightarrow> kernel \<Rightarrow> (generation_error + unit) \<times> kernel" where
  "verify_generation gid points k =
     (if int points > I64_MAX then (Inl (generation_sqlite (ToSqlConversionFailure IntegerCause)), k)
      else db_write (\<lambda>k.
        and_then (legal_generation_move gid Verified k) (\<lambda>_.
        and_then (map_err generation_sqlite
            (update_generations (\<lambda>row. ge_id row = gid)
              (\<lambda>row. row\<lparr>ge_state := ''verified'', ge_points := Some (int points)\<rparr>) k))
          (\<lambda>(_, k'). Inr ((), k')))) k)"

definition publish_in ::
  "ext \<Rightarrow> draws \<Rightarrow> generation \<Rightarrow> kernel \<Rightarrow> generation_error + int option \<times> kernel" where
  "publish_in x d generation k =
     and_then (map_err generation_sqlite
         (and_then
           (update_generations
             (\<lambda>row. ge_collection row = gn_collection generation \<and> ge_state row = ''published'')
             (set_state ''retired'') k)
           (\<lambda>(returned, k'). and_then (optional (query_row (\<lambda>row. Inr (ge_id row)) returned))
             (\<lambda>retired. Inr (retired, k'))))) (\<lambda>(retired, k1).
     and_then (map_err generation_sqlite
         (update_generations (\<lambda>row. ge_id row = gn_id generation)
           (\<lambda>row. row\<lparr>ge_state := ''published'', ge_published_at := Some (d_now d)\<rparr>) k1)) (\<lambda>(_, k2).
     and_then (case retired of
                 None \<Rightarrow> Inr (0, k2)
               | Some old \<Rightarrow>
                   and_then (record_retired x d 0 (gn_collection generation) old k2) (\<lambda>k'. Inr (1, k')))
       (\<lambda>(i, k3).
     and_then (record_published x d i generation k3) (\<lambda>k4. Inr (retired, k4)))))"

definition publish_generation ::
  "ext \<Rightarrow> draws \<Rightarrow> int \<Rightarrow> kernel \<Rightarrow> (generation_error + int option) \<times> kernel" where
  "publish_generation x d gid =
     db_write (\<lambda>k. and_then (legal_generation_move gid Published k) (\<lambda>generation.
       publish_in x d generation k))"

definition publish_generation_if_current ::
  "ext \<Rightarrow> draws \<Rightarrow> int \<Rightarrow> int option \<Rightarrow> kernel \<Rightarrow> (generation_error + int option) \<times> kernel" where
  "publish_generation_if_current x d gid expected =
     db_write (\<lambda>k.
       and_then (legal_generation_move gid Published k) (\<lambda>generation.
       and_then (map_err generation_sqlite (optional (query_row (\<lambda>row. Inr (ge_id row))
           (filter (\<lambda>row. ge_collection row = gn_collection generation \<and> ge_state row = ''published'')
              (k_generations k))))) (\<lambda>found.
       if found \<noteq> expected then Inl (PublishedChanged expected found)
       else publish_in x d generation k)))"

definition retire_generation ::
  "ext \<Rightarrow> draws \<Rightarrow> int \<Rightarrow> kernel \<Rightarrow> (generation_error + unit) \<times> kernel" where
  "retire_generation x d gid =
     db_write (\<lambda>k.
       and_then (legal_generation_move gid Retired k) (\<lambda>generation.
       and_then (map_err generation_sqlite
           (update_generations (\<lambda>row. ge_id row = gid) (set_state ''retired'') k)) (\<lambda>(_, k1).
       and_then (record_retired x d 0 (gn_collection generation) gid k1) (\<lambda>k2. Inr ((), k2)))))"

definition generation_move_to ::
  "int \<Rightarrow> generation_state \<Rightarrow> kernel \<Rightarrow> generation_error + unit \<times> kernel" where
  "generation_move_to gid to k =
     and_then (legal_generation_move gid to k) (\<lambda>_.
     and_then (map_err generation_sqlite
         (update_generations (\<lambda>row. ge_id row = gid) (set_state (generation_state_str to)) k))
       (\<lambda>(_, k'). Inr ((), k')))"

definition fail_generation :: "int \<Rightarrow> kernel \<Rightarrow> (generation_error + unit) \<times> kernel" where
  "fail_generation gid = db_write (generation_move_to gid GenerationFailed)"

section \<open>Readers\<close>

definition generation_read ::
  "scope_set \<Rightarrow> int \<Rightarrow> kernel \<Rightarrow> generation_error + generation option" where
  "generation_read scopes gid k = find_generation (Some scopes) gid k"

definition published_generation ::
  "scope_set \<Rightarrow> string \<Rightarrow> kernel \<Rightarrow> generation_error + generation option" where
  "published_generation scopes collection k =
     map_err generation_sqlite (optional (query_row generation_row
       (filter (\<lambda>row. ge_collection row = collection \<and> ge_state row = ''published''
           \<and> collection_condition (ge_collection row) (parameter scopes))
         (k_generations k))))"

definition generations_read ::
  "scope_set \<Rightarrow> string \<Rightarrow> kernel \<Rightarrow> generation_error + generation list" where
  "generations_read scopes collection k =
     map_err generation_sqlite (collect_results (map generation_row
       (sort_key ge_id (filter (\<lambda>row. ge_collection row = collection
           \<and> collection_condition (ge_collection row) (parameter scopes)) (k_generations k)))))"

section \<open>The states of a generation\<close>

interpretation generation_states: named_enum GENERATION_STATES generation_state_str
proof unfold_locales
  show "v \<in> set GENERATION_STATES" for v by (cases v) (simp_all add: GENERATION_STATES_def)
  show "v = w" if "generation_state_str v = generation_state_str w" for v w
    using that by (cases v; cases w) simp_all
qed

fun generation_rank :: "generation_state \<Rightarrow> nat" where
  "generation_rank Building = 0"
| "generation_rank Verified = 1"
| "generation_rank Published = 2"
| "generation_rank _ = 3"

interpretation generation_life: lifecycle GENERATION_MOVES generation_rank
  by unfold_locales (auto simp: GENERATION_MOVES_def)

lemma generation_state_named_iff: "generation_state_named s = Some v \<longleftrightarrow> generation_state_str v = s"
  unfolding generation_state_named_def by (rule generation_states.named_iff)

lemma generation_state_str_cases:
  "generation_state_str v = ''building'' \<longleftrightarrow> v = Building"
  "generation_state_str v = ''verified'' \<longleftrightarrow> v = Verified"
  "generation_state_str v = ''published'' \<longleftrightarrow> v = Published"
  "generation_state_str v = ''retired'' \<longleftrightarrow> v = Retired"
  "generation_state_str v = ''failed'' \<longleftrightarrow> v = GenerationFailed"
  by (cases v; simp)+

lemma generation_may_move_iff:
  "generation_may_move v w \<longleftrightarrow>
     v = Building \<and> (w = Verified \<or> w = GenerationFailed)
     \<or> v = Verified \<and> (w = Published \<or> w = GenerationFailed) \<or> v = Published \<and> w = Retired"
  by (auto simp: generation_may_move_def GENERATION_MOVES_def)

section \<open>The rows\<close>

definition generations_ok :: "kernel \<Rightarrow> bool" where
  "generations_ok k \<longleftrightarrow>
     sorted_wrt (<) (map ge_id (k_generations k))
     \<and> list_all (\<lambda>row. generation_checks row \<and> 1 \<le> ge_id row \<and> ge_id row \<le> k_generation_seq k)
         (k_generations k)
     \<and> one_published (k_generations k) \<and> 0 \<le> k_generation_seq k"

definition the_state :: "generation_record \<Rightarrow> generation_state" where
  "the_state row = the (generation_state_named (ge_state row))"

definition the_generation :: "generation_record \<Rightarrow> generation" where
  "the_generation row =
     \<lparr>gn_id = ge_id row, gn_collection = ge_collection row, gn_chunk_set = ge_chunk_set row,
      gn_embedding = ge_embedding row, gn_sparse = ge_sparse row, gn_state = the_state row,
      gn_points = map_option nat (ge_points row), gn_published_at = ge_published_at row\<rparr>"

lemma checked_generation_state: "generation_checks row \<Longrightarrow> generation_state_str (the_state row) = ge_state row"
proof -
  assume "generation_checks row"
  then have "\<exists>v. generation_state_str v = ge_state row"
    by (simp add: generation_checks_def) (metis generation_state_str.simps)
  then obtain v where "generation_state_str v = ge_state row" by blast
  then show ?thesis by (simp add: the_state_def generation_state_named_iff[THEN iffD2])
qed

lemma generation_row_ok: "generation_checks row \<Longrightarrow> generation_row row = Inr (the_generation row)"
proof -
  assume c: "generation_checks row"
  have "generation_state_named (ge_state row) = Some (the_state row)"
    using checked_generation_state[OF c] by (simp add: generation_state_named_iff)
  with c show ?thesis
    by (cases "ge_points row")
      (simp_all add: generation_row_def the_generation_def generation_checks_def unsigned_i64_def)
qed

lemma find_generation_ok:
  assumes "generations_ok k"
  shows "find_generation None gid k
    = Inr (map_option the_generation (List.find (\<lambda>row. ge_id row = gid) (k_generations k)))"
proof (cases "List.find (\<lambda>row. ge_id row = gid) (k_generations k)")
  case None
  then have "filter (\<lambda>row. ge_id row = gid) (k_generations k) = []"
    by (simp add: find_None_iff filter_empty_conv)
  with None show ?thesis by (simp add: find_generation_def optional_def)
next
  case (Some row)
  have "query_row generation_row (filter (\<lambda>row. ge_id row = gid) rows)
      = (case List.find (\<lambda>row. ge_id row = gid) rows of None \<Rightarrow> Inl QueryReturnedNoRows
         | Some r \<Rightarrow> generation_row r)" for rows
    by (induction rows) auto
  moreover have "generation_checks row"
    using assms find_mem[OF Some] by (simp add: generations_ok_def list_all_iff)
  ultimately show ?thesis
    using Some by (simp add: find_generation_def optional_def generation_row_ok)
qed

lemma legal_move_ok:
  assumes "generations_ok k"
  shows "legal_generation_move gid to k =
    (case List.find (\<lambda>row. ge_id row = gid) (k_generations k) of
       None \<Rightarrow> Inl (UnknownGeneration gid)
     | Some row \<Rightarrow> if generation_may_move (the_state row) to then Inr (the_generation row)
                   else Inl (GenerationIllegalMove gid (the_state row) to))"
  by (simp add: legal_generation_move_def find_generation_ok[OF assms] the_generation_def split: option.split)

text \<open>How a generation may change: forward only, and once retired or failed not at all.\<close>

definition generation_evolves :: "generation_record \<Rightarrow> generation_record \<Rightarrow> bool" where
  "generation_evolves row new \<longleftrightarrow>
     ge_id new = ge_id row \<and> ge_collection new = ge_collection row
     \<and> ge_chunk_set new = ge_chunk_set row \<and> ge_embedding new = ge_embedding row
     \<and> ge_sparse new = ge_sparse row
     \<and> (the_state row, the_state new) \<in> (set GENERATION_MOVES)\<^sup>*
     \<and> (the_state row \<in> {Retired, GenerationFailed} \<longrightarrow> new = row)"

definition generations_evolve :: "kernel \<Rightarrow> kernel \<Rightarrow> bool" where
  "generations_evolve k k' \<longleftrightarrow>
     (\<exists>kept added. k_generations k' = kept @ added \<and> list_all2 generation_evolves (k_generations k) kept
        \<and> (\<forall>row\<in>set added. k_generation_seq k < ge_id row))
     \<and> k_generation_seq k \<le> k_generation_seq k'"

lemma generation_evolves_refl [simp]: "generation_evolves row row"
  by (simp add: generation_evolves_def)

lemma generation_evolves_trans:
  "generation_evolves a b \<Longrightarrow> generation_evolves b c \<Longrightarrow> generation_evolves a c"
  unfolding generation_evolves_def by (metis rtrancl_trans)

lemma generations_evolve_same:
  "k_generations k' = k_generations k \<Longrightarrow> k_generation_seq k' = k_generation_seq k \<Longrightarrow> generations_evolve k k'"
  unfolding generations_evolve_def
  by (intro conjI exI[of _ "k_generations k"] exI[of _ "[]"]) (simp_all add: list_all2_same)

lemma generations_evolve_trans:
  assumes "generations_evolve a b" and "generations_evolve b c"
  shows "generations_evolve a c"
proof -
  obtain kept added where b: "k_generations b = kept @ added"
      "list_all2 generation_evolves (k_generations a) kept" "\<forall>row\<in>set added. k_generation_seq a < ge_id row"
    using assms(1) by (auto simp: generations_evolve_def)
  obtain kept' added' where c: "k_generations c = kept' @ added'"
      "list_all2 generation_evolves (kept @ added) kept'" "\<forall>row\<in>set added'. k_generation_seq b < ge_id row"
    using assms(2) b(1) by (auto simp: generations_evolve_def)
  obtain k1 k2 where k: "kept' = k1 @ k2" "list_all2 generation_evolves kept k1"
      "list_all2 generation_evolves added k2"
    using c(2) by (auto simp: list_all2_append1)
  have "list_all2 generation_evolves (k_generations a) k1"
    by (rule list_all2_trans[OF generation_evolves_trans b(2) k(2)])
  moreover have "\<forall>row\<in>set k2. k_generation_seq a < ge_id row"
  proof
    fix row assume "row \<in> set k2"
    then obtain old where "old \<in> set added" "generation_evolves old row"
      using k(3) by (metis in_set_conv_nth list_all2_conv_all_nth)
    then show "k_generation_seq a < ge_id row" using b(3) by (auto simp: generation_evolves_def)
  qed
  moreover have "k_generation_seq a \<le> k_generation_seq b" "k_generation_seq b \<le> k_generation_seq c"
    using assms by (auto simp: generations_evolve_def)
  ultimately show ?thesis
    using c k unfolding generations_evolve_def
    by (intro conjI exI[of _ k1] exI[of _ "k2 @ added'"]) auto
qed

text \<open>An update that keeps the identity of its rows keeps the table well formed.\<close>

lemma update_generations_ok:
  assumes ok: "generations_ok k"
    and up: "update_generations selects assign k = Inr (returned, k')"
    and keep: "\<And>row. row \<in> set (k_generations k) \<Longrightarrow> selects row \<Longrightarrow> ge_id (assign row) = ge_id row"
  shows "generations_ok k'
    \<and> k' = k\<lparr>k_generations := map (\<lambda>row. if selects row then assign row else row) (k_generations k)\<rparr>
    \<and> returned = map assign (filter selects (k_generations k))"
proof -
  let ?rows = "map (\<lambda>row. if selects row then assign row else row) (k_generations k)"
  have up': "list_all generation_checks ?rows" "one_published ?rows"
      "returned = map assign (filter selects (k_generations k))" "k' = k\<lparr>k_generations := ?rows\<rparr>"
    using up by (auto simp: update_generations_def Let_def split: if_splits)
  have ids: "map ge_id ?rows = map ge_id (k_generations k)" using keep by auto
  have bounds: "list_all (\<lambda>row. 1 \<le> ge_id row \<and> ge_id row \<le> k_generation_seq k) ?rows"
    using ok keep by (auto simp: generations_ok_def list_all_iff)
  have sorted: "sorted_wrt (<) (map ge_id ?rows)" unfolding ids using ok by (simp add: generations_ok_def)
  have well: "generations_ok (k\<lparr>k_generations := rows\<rparr>)"
    if "sorted_wrt (<) (map ge_id rows)" "list_all generation_checks rows" "one_published rows"
      "list_all (\<lambda>row. 1 \<le> ge_id row \<and> ge_id row \<le> k_generation_seq k) rows" for rows
    using ok that by (simp add: generations_ok_def list_all_iff)
  show ?thesis using up' well[OF sorted up'(1,2) bounds] by simp
qed

lemma find_generation_mem:
  assumes "generations_ok k" and "List.find (\<lambda>row. ge_id row = gid) (k_generations k) = Some row"
  shows "row \<in> set (k_generations k) \<and> ge_id row = gid
    \<and> (\<forall>other\<in>set (k_generations k). ge_id other = gid \<longrightarrow> other = row) \<and> generation_checks row"
proof -
  have "distinct (map ge_id (k_generations k))"
    using assms(1) by (simp add: generations_ok_def strict_sorted_iff)
  then show ?thesis
    using find_mem[OF assms(2)] assms(1)
    by (auto simp: distinct_map generations_ok_def list_all_iff dest: inj_onD)
qed

text \<open>The move of one generation, found by its id, to another state.\<close>

lemma moved_evolves:
  assumes "generation_checks row" and "generation_may_move (the_state row) w"
    and "new = row\<lparr>ge_state := generation_state_str w, ge_points := p, ge_published_at := t\<rparr>"
  shows "generation_evolves row new \<and> the_state new = w"
proof -
  have w: "the_state new = w"
    using assms(3) by (simp add: the_state_def generation_state_named_iff[THEN iffD2])
  have "the_state row \<notin> {Retired, GenerationFailed}"
    using assms(2) by (auto simp: generation_may_move_iff)
  moreover have "(the_state row, w) \<in> (set GENERATION_MOVES)\<^sup>*"
    using assms(2) by (auto simp: generation_may_move_def)
  ultimately show ?thesis using assms(3) w by (simp add: generation_evolves_def)
qed

lemma move_by_id:
  assumes ok: "generations_ok k" and legal: "legal_generation_move gid w k = Inr generation"
    and up: "update_generations (\<lambda>row. ge_id row = gid)
      (\<lambda>row. row\<lparr>ge_state := generation_state_str w, ge_points := p row, ge_published_at := t row\<rparr>) k
      = Inr (returned, k')"
  shows "generations_ok k' \<and> generations_evolve k k'
    \<and> (\<exists>row\<in>set (k_generations k). ge_id row = gid \<and> generation = the_generation row
         \<and> generation_may_move (the_state row) w)
    \<and> k' = k\<lparr>k_generations := map (\<lambda>row. if ge_id row = gid then row\<lparr>ge_state := generation_state_str w,
        ge_points := p row, ge_published_at := t row\<rparr> else row) (k_generations k)\<rparr>"
proof -
  let ?assign = "\<lambda>row. row\<lparr>ge_state := generation_state_str w, ge_points := p row, ge_published_at := t row\<rparr>"
  obtain row where row: "List.find (\<lambda>row. ge_id row = gid) (k_generations k) = Some row"
    and may: "generation_may_move (the_state row) w" and gen: "generation = the_generation row"
    using legal by (auto simp: legal_move_ok[OF ok] split: option.splits if_splits)
  note found = find_generation_mem[OF ok row]
  have up': "generations_ok k'"
    "k' = k\<lparr>k_generations := map (\<lambda>row. if ge_id row = gid then ?assign row else row) (k_generations k)\<rparr>"
    using update_generations_ok[OF ok up] by auto
  have "generation_evolves r (if ge_id r = gid then ?assign r else r)" if "r \<in> set (k_generations k)" for r
    using found that moved_evolves[OF _ may, where new = "?assign row" and p = "p row" and t = "t row"] by auto
  moreover have rows: "k_generations k' = map (\<lambda>row. if ge_id row = gid then ?assign row else row) (k_generations k)"
    by (simp add: up'(2))
  ultimately have "list_all2 generation_evolves (k_generations k) (k_generations k')"
    unfolding rows list.rel_map list_all2_same by blast
  then have "generations_evolve k k'"
    unfolding generations_evolve_def using up'(2)
    by (intro conjI exI[of _ "k_generations k'"] exI[of _ "[]"]) simp_all
  with up' found may gen show ?thesis by blast
qed

section \<open>Publishing\<close>

lemma record_knowledge_event_Inr:
  assumes "record_knowledge_event x d i collection t data k = Inr k'"
  shows "\<exists>er e. k' = k\<lparr>k_events := k_events k @ [er]\<rparr> \<and> event_row x er = Inr e
    \<and> ev_stream e = knowledge_stream collection \<and> ev_type e = t
    \<and> ev_scope e = collection_path collection \<and> (journal_ok x k \<longrightarrow> journal_ok x k')"
proof -
  let ?new = "\<lparr>ne_stream = knowledge_stream collection, ne_type = t,
      ne_subject = knowledge_stream collection, ne_scope = collection_path collection, ne_data = data\<rparr>"
  obtain e where r: "record_event x d i ?new k = Inr (e, k')"
    using assms by (auto simp: record_knowledge_event_def results)
  then have dec: "event_row x (recorded_row x d i ?new (k_events k)) = Inr e"
    by (simp add: record_event_Inr)
  show ?thesis
    using r event_row_fields[OF dec] record_event_ok[OF _ r] dec
    by (intro exI[of _ "recorded_row x d i ?new (k_events k)"] exI[of _ e]) (auto simp: record_event_Inr)
qed

lemma published_of_one:
  assumes "one_published rows"
  shows "filter (\<lambda>row. ge_collection row = c \<and> ge_state row = ''published'') rows = []
    \<or> (\<exists>old. filter (\<lambda>row. ge_collection row = c \<and> ge_state row = ''published'') rows = [old])"
proof -
  let ?vs = "filter (\<lambda>row. ge_collection row = c \<and> ge_state row = ''published'') rows"
  have eq: "filter (\<lambda>row. ge_collection row = c) (published_rows rows) = ?vs"
    by (simp add: published_rows_def conj_commute)
  have "distinct (map ge_collection (filter (\<lambda>row. ge_collection row = c) (published_rows rows)))"
    using assms unfolding one_published_def by (rule distinct_map_filter)
  then have d: "distinct (map ge_collection ?vs)" unfolding eq .
  have all: "ge_collection v = c" if "v \<in> set ?vs" for v using that by simp
  show ?thesis
  proof (cases ?vs)
    case (Cons a vs)
    show ?thesis
    proof (cases vs)
      case (Cons b ws)
      with \<open>?vs = a # vs\<close> d all[of a] all[of b] show ?thesis by simp
    qed (use Cons in simp)
  qed simp
qed

text \<open>What a publication leaves: the generation published, its predecessor retired.\<close>

definition published_after :: "int \<Rightarrow> string \<Rightarrow> string \<Rightarrow> generation_record \<Rightarrow> generation_record" where
  "published_after gid c now row =
     (if ge_id row = gid then row\<lparr>ge_state := ''published'', ge_published_at := Some now\<rparr>
      else if ge_collection row = c \<and> ge_state row = ''published'' then row\<lparr>ge_state := ''retired''\<rparr>
      else row)"

definition predecessor :: "string \<Rightarrow> kernel \<Rightarrow> int option" where
  "predecessor c k =
     (case filter (\<lambda>row. ge_collection row = c \<and> ge_state row = ''published'') (k_generations k) of
        [] \<Rightarrow> None
      | row # _ \<Rightarrow> Some (ge_id row))"

lemma publish_in_Inr:
  assumes ok: "generations_ok k" and legal: "legal_generation_move gid Published k = Inr generation"
    and r: "publish_in x d generation k = Inr (retired, k')"
  shows "\<exists>row\<in>set (k_generations k). ge_id row = gid \<and> ge_state row = ''verified''
    \<and> generation = the_generation row
    \<and> k_generations k' = map (published_after gid (ge_collection row) (d_now d)) (k_generations k)
    \<and> generations_ok k' \<and> generations_evolve k k' \<and> retired = predecessor (ge_collection row) k
    \<and> (journal_ok x k \<longrightarrow> journal_ok x k')
    \<and> (\<exists>generations events. k' = k\<lparr>k_generations := generations, k_events := events\<rparr>)
    \<and> (\<exists>rows es. k_events k' = k_events k @ rows \<and> map (event_row x) rows = map Inr es
         \<and> map ev_type es = (if retired = None then [GENERATION_PUBLISHED]
                             else [GENERATION_RETIRED, GENERATION_PUBLISHED])
         \<and> (\<forall>e\<in>set es. ev_stream e = knowledge_stream (ge_collection row)
              \<and> ev_scope e = collection_path (ge_collection row)))"
proof -
  obtain row where find: "List.find (\<lambda>row. ge_id row = gid) (k_generations k) = Some row"
    and may: "generation_may_move (the_state row) Published" and gen: "generation = the_generation row"
    using legal by (auto simp: legal_move_ok[OF ok] split: option.splits if_splits)
  note row = find_generation_mem[OF ok find]
  let ?c = "ge_collection row"
  let ?old = "\<lambda>r. ge_collection r = ?c \<and> ge_state r = ''published''"
  have verified: "ge_state row = ''verified''"
    using may checked_generation_state[of row] row by (auto simp: generation_may_move_iff)
  have gen': "gn_collection generation = ?c" "gn_id generation = gid"
    using gen row by (simp_all add: the_generation_def)
  obtain returned k1 returned2 k2 i k3 where
    up1: "update_generations ?old (set_state ''retired'') k = Inr (returned, k1)"
    and ret: "optional (query_row (\<lambda>row. Inr (ge_id row)) returned) = Inr retired"
    and up2: "update_generations (\<lambda>row. ge_id row = gid)
        (\<lambda>row. row\<lparr>ge_state := ''published'', ge_published_at := Some (d_now d)\<rparr>) k1 = Inr (returned2, k2)"
    and ev1: "(case retired of None \<Rightarrow> Inr (0, k2)
        | Some old \<Rightarrow> and_then (record_retired x d 0 ?c old k2) (\<lambda>k'. Inr (1, k'))) = Inr (i, k3)"
    and ev2: "record_published x d i generation k3 = Inr k'"
    using r unfolding publish_in_def gen' by (auto simp: results split: prod.splits)
  have u1: "generations_ok k1" "k1 = k\<lparr>k_generations := map (\<lambda>r. if ?old r then set_state ''retired'' r else r) (k_generations k)\<rparr>"
      "returned = map (set_state ''retired'') (filter ?old (k_generations k))"
    using update_generations_ok[OF ok up1] by (auto simp: set_state_def)
  have u2: "generations_ok k2"
      "k2 = k1\<lparr>k_generations := map (\<lambda>r. if ge_id r = gid then r\<lparr>ge_state := ''published'',
        ge_published_at := Some (d_now d)\<rparr> else r) (k_generations k1)\<rparr>"
    using update_generations_ok[OF u1(1) up2] by auto
  have gens: "k_generations k2 = map (published_after gid ?c (d_now d)) (k_generations k)"
  proof -
    have "(if ge_id (if ?old r then set_state ''retired'' r else r) = gid
        then (if ?old r then set_state ''retired'' r else r)\<lparr>ge_state := ''published'', ge_published_at := Some (d_now d)\<rparr>
        else (if ?old r then set_state ''retired'' r else r)) = published_after gid ?c (d_now d) r"
      if "r \<in> set (k_generations k)" for r
    proof (cases "ge_id r = gid")
      case True
      then have "r = row" using row that by blast
      then show ?thesis using verified row by (simp add: published_after_def)
    qed (simp add: published_after_def set_state_def)
    then show ?thesis by (simp add: u2(2) u1(2))
  qed
  have retired: "retired = predecessor ?c k"
    using ret unfolding u1(3) predecessor_def
    by (cases "filter ?old (k_generations k)") (auto simp: optional_def set_state_def)
  have evolves: "generation_evolves r (published_after gid ?c (d_now d) r)" if "r \<in> set (k_generations k)" for r
  proof (cases "ge_id r = gid")
    case True
    then have "r = row" using row that by blast
    then show ?thesis
      using moved_evolves[OF _ may, where new = "row\<lparr>ge_state := ''published'', ge_published_at := Some (d_now d)\<rparr>"
          and p = "ge_points row" and t = "Some (d_now d)"] row True
      by (simp add: published_after_def)
  next
    case False
    show ?thesis
    proof (cases "?old r")
      case True
      have c: "generation_checks r" using ok that by (simp add: generations_ok_def list_all_iff)
      then have "the_state r = Published"
        using checked_generation_state[OF c] True generation_state_str_cases(3) by metis
      then show ?thesis
        using moved_evolves[OF c, of Retired, where new = "r\<lparr>ge_state := ''retired''\<rparr>"
            and p = "ge_points r" and t = "ge_published_at r"] False True
        by (simp add: published_after_def generation_may_move_iff)
    next
      case o: False
      then show ?thesis using False by (auto simp: published_after_def)
    qed
  qed
  have k2: "k2 = k\<lparr>k_generations := k_generations k2\<rparr>" by (simp add: u2(2) u1(2))
  then have events2: "k_events k2 = k_events k" by (metis kernel.select_convs(1) kernel.surjective kernel.update_convs(10))
  have "\<exists>rows es. k3 = k2\<lparr>k_events := k_events k @ rows\<rparr> \<and> map (event_row x) rows = map Inr es
      \<and> map ev_type es = (if retired = None then [] else [GENERATION_RETIRED])
      \<and> (\<forall>e\<in>set es. ev_stream e = knowledge_stream ?c \<and> ev_scope e = collection_path ?c)
      \<and> (journal_ok x k2 \<longrightarrow> journal_ok x k3)"
  proof (cases retired)
    case None
    then have "k3 = k2" using ev1 by simp
    then show ?thesis using None events2 by (intro exI[of _ "[]"]) simp
  next
    case (Some old)
    obtain data where "record_knowledge_event x d 0 ?c GENERATION_RETIRED data k2 = Inr k3"
      using ev1 Some by (auto simp: record_retired_def results)
    from record_knowledge_event_Inr[OF this] obtain er e where "k3 = k2\<lparr>k_events := k_events k2 @ [er]\<rparr>"
      "event_row x er = Inr e" "ev_stream e = knowledge_stream ?c" "ev_type e = GENERATION_RETIRED"
      "ev_scope e = collection_path ?c" "journal_ok x k2 \<longrightarrow> journal_ok x k3" by blast
    then show ?thesis using Some events2 by (intro exI[of _ "[er]"] exI[of _ "[e]"]) simp
  qed
  then obtain rows es where k3: "k3 = k2\<lparr>k_events := k_events k @ rows\<rparr>" "map (event_row x) rows = map Inr es"
      "map ev_type es = (if retired = None then [] else [GENERATION_RETIRED])"
      "\<forall>e\<in>set es. ev_stream e = knowledge_stream ?c \<and> ev_scope e = collection_path ?c"
      "journal_ok x k2 \<longrightarrow> journal_ok x k3" by blast
  obtain data where "record_knowledge_event x d i ?c GENERATION_PUBLISHED data k3 = Inr k'"
    using ev2 unfolding record_published_def gen' by (auto simp: results)
  from record_knowledge_event_Inr[OF this] obtain er e where k': "k' = k3\<lparr>k_events := k_events k3 @ [er]\<rparr>"
    "event_row x er = Inr e" "ev_stream e = knowledge_stream ?c" "ev_type e = GENERATION_PUBLISHED"
    "ev_scope e = collection_path ?c" "journal_ok x k3 \<longrightarrow> journal_ok x k'" by blast
  have same: "k_generations k' = k_generations k2" "k_generation_seq k' = k_generation_seq k"
    by (simp_all add: k'(1) k3(1)) (simp add: u2(2) u1(2))
  have gens': "k_generations k' = map (published_after gid ?c (d_now d)) (k_generations k)"
    using same gens by simp
  have "k' = k\<lparr>k_generations := k_generations k2, k_events := k_events k @ rows @ [er]\<rparr>"
    by (simp add: k'(1) k3(1)) (subst k2, simp)
  then have frame: "\<exists>generations events. k' = k\<lparr>k_generations := generations, k_events := events\<rparr>" by blast
  have "list_all2 generation_evolves (k_generations k) (k_generations k')"
    unfolding gens' list.rel_map list_all2_same using evolves by blast
  then have evolve: "generations_evolve k k'"
    unfolding generations_evolve_def using same(2)
    by (intro conjI exI[of _ "k_generations k'"] exI[of _ "[]"]) simp_all
  have ok': "generations_ok k'"
    using u2(1) same u2(2) u1(2) by (simp add: generations_ok_def)
  have jok: "journal_ok x k \<longrightarrow> journal_ok x k'"
    using k'(6) k3(5) journal_ok_same[OF events2] by blast
  have evs: "\<exists>rs es. k_events k' = k_events k @ rs \<and> map (event_row x) rs = map Inr es
         \<and> map ev_type es = (if retired = None then [GENERATION_PUBLISHED]
                             else [GENERATION_RETIRED, GENERATION_PUBLISHED])
         \<and> (\<forall>e\<in>set es. ev_stream e = knowledge_stream ?c \<and> ev_scope e = collection_path ?c)"
    using k' k3 by (intro exI[of _ "rows @ [er]"] exI[of _ "es @ [e]"]) simp
  show ?thesis
    using row verified gen gens' ok' evolve retired jok frame evs by (intro bexI[of _ row] conjI) simp_all
qed

section \<open>What an operation does\<close>

definition generation_effect :: "ext \<Rightarrow> kernel \<Rightarrow> kernel \<Rightarrow> bool" where
  "generation_effect x k k' \<longleftrightarrow>
     generations_ok k' \<and> generations_evolve k k' \<and> journal_grows k k' \<and> (journal_ok x k \<longrightarrow> journal_ok x k')
     \<and> (\<exists>generations sequence events.
          k' = k\<lparr>k_generations := generations, k_generation_seq := sequence, k_events := events\<rparr>)"

lemma kernel_generation_frame:
  "k = k\<lparr>k_generations := k_generations k, k_generation_seq := k_generation_seq k, k_events := k_events k\<rparr>"
  by simp

lemma generation_effect_refl: "generations_ok k \<Longrightarrow> generation_effect x k k"
proof -
  assume "generations_ok k"
  moreover have "\<exists>generations sequence events.
      k = k\<lparr>k_generations := generations, k_generation_seq := sequence, k_events := events\<rparr>"
    using kernel_generation_frame[of k] by blast
  ultimately show ?thesis
    by (simp add: generation_effect_def journal_grows_def generations_evolve_same)
qed

lemma create_generation_Inr:
  assumes ok: "generations_ok k" and r: "create_generation new k = (Inr generation, k')"
  shows "generation_effect x k k' \<and> gn_state generation = Building
    \<and> (\<forall>row\<in>set (k_generations k). ge_id row < gn_id generation)
    \<and> (\<exists>row. k_generations k' = k_generations k @ [row] \<and> generation = the_generation row)
    \<and> k_generation_seq k < gn_id generation \<and> k_generation_seq k' = gn_id generation"
proof -
  let ?last = "max (k_generation_seq k) (coalesce_max (map ge_id (k_generations k)))"
  let ?row = "\<lparr>ge_id = ?last + 1, ge_collection = ng_collection new, ge_chunk_set = ng_chunk_set new,
      ge_embedding = ng_embedding new, ge_sparse = ng_sparse new,
      ge_state = ''building'', ge_points = None, ge_published_at = None\<rparr>"
  have r': "generation_row ?row = Inr generation" "one_published (k_generations k @ [?row])"
    "k' = k\<lparr>k_generations := k_generations k @ [?row], k_generation_seq := ?last + 1\<rparr>"
    using r by (auto simp: create_generation_def insert_generation_def results Let_def split: if_splits)
  have checks: "generation_checks ?row" by (simp add: generation_checks_def)
  have gen: "generation = the_generation ?row" using r'(1) generation_row_ok[OF checks] by simp
  have "generation_state_named ''building'' = Some Building" by (simp add: generation_state_named_iff)
  then have state: "the_state ?row = Building" by (simp add: the_state_def)
  have below: "ge_id row \<le> ?last" if "row \<in> set (k_generations k)" for row
    using coalesce_max_ge[of "ge_id row" "map ge_id (k_generations k)"] that by simp
  have nonneg: "0 \<le> k_generation_seq k" using ok by (simp add: generations_ok_def)
  have rows: "k_generations k' = k_generations k @ [?row]" "k_generation_seq k' = ?last + 1"
    by (simp_all add: r'(3))
  have "generations_ok k'"
    using ok r'(2) checks below nonneg unfolding generations_ok_def rows
    by (auto simp: sorted_wrt_append list_all_iff less_le_trans add1_zle_eq intro: le_less_trans)
  moreover have "generations_evolve k k'"
    unfolding generations_evolve_def using rows
    by (intro conjI exI[of _ "k_generations k"] exI[of _ "[?row]"]) (simp_all add: list_all2_same)
  moreover have "k' = k\<lparr>k_generations := k_generations k @ [?row], k_generation_seq := ?last + 1, k_events := k_events k\<rparr>"
    by (simp add: r'(3))
  then have "\<exists>generations sequence events.
      k' = k\<lparr>k_generations := generations, k_generation_seq := sequence, k_events := events\<rparr>" by blast
  moreover have "journal_grows k k'" "journal_ok x k \<longrightarrow> journal_ok x k'"
    by (simp_all add: r'(3) journal_grows_def journal_ok_def)
  ultimately have "generation_effect x k k'" by (simp add: generation_effect_def)
  moreover have "gn_id generation = ?last + 1" "gn_state generation = Building"
    by (simp_all add: gen the_generation_def state)
  ultimately show ?thesis using rows gen below by fastforce
qed

lemma generation_effect_move:
  assumes "generations_ok k'" and "generations_evolve k k'" and "k' = k\<lparr>k_generations := rows\<rparr>"
  shows "generation_effect x k k'"
proof -
  have "k' = k\<lparr>k_generations := rows, k_generation_seq := k_generation_seq k, k_events := k_events k\<rparr>"
    using assms(3) by simp
  then have "\<exists>generations sequence events.
      k' = k\<lparr>k_generations := generations, k_generation_seq := sequence, k_events := events\<rparr>" by blast
  moreover have "journal_grows k k'" "journal_ok x k \<longrightarrow> journal_ok x k'"
    by (simp_all add: assms(3) journal_grows_def journal_ok_def)
  ultimately show ?thesis using assms by (simp add: generation_effect_def)
qed

text \<open>The three assignments that name a state and keep the other columns are of one form.\<close>

lemma set_state_form: "set_state s row = row\<lparr>ge_state := s, ge_points := ge_points row, ge_published_at := ge_published_at row\<rparr>"
  by (simp add: set_state_def)

lemma verify_generation_Inr:
  assumes ok: "generations_ok k" and r: "verify_generation gid points k = (Inr u, k')"
  shows "generation_effect x k k'"
proof -
  obtain generation returned where legal: "legal_generation_move gid Verified k = Inr generation"
    and up: "update_generations (\<lambda>row. ge_id row = gid)
        (\<lambda>row. row\<lparr>ge_state := ''verified'', ge_points := Some (int points)\<rparr>) k = Inr (returned, k')"
    using r by (auto simp: verify_generation_def results split: if_splits prod.splits)
  have "(\<lambda>row. row\<lparr>ge_state := ''verified'', ge_points := Some (int points)\<rparr>)
      = (\<lambda>row. row\<lparr>ge_state := generation_state_str Verified, ge_points := Some (int points),
          ge_published_at := ge_published_at row\<rparr> :: generation_record)"
    by (simp add: fun_eq_iff)
  from move_by_id[OF ok legal up[unfolded this]] show ?thesis
    using generation_effect_move by blast
qed

lemma generation_move_to_Inr:
  assumes ok: "generations_ok k" and r: "generation_move_to gid w k = Inr (u, k')"
  shows "generation_effect x k k'"
proof -
  obtain generation returned where legal: "legal_generation_move gid w k = Inr generation"
    and up: "update_generations (\<lambda>row. ge_id row = gid) (set_state (generation_state_str w)) k
        = Inr (returned, k')"
    using r by (auto simp: generation_move_to_def results split: prod.splits)
  from move_by_id[OF ok legal up[unfolded set_state_form[abs_def]]] show ?thesis
    using generation_effect_move by blast
qed

lemma publish_generation_Inr:
  assumes ok: "generations_ok k" and r: "publish_generation x d gid k = (Inr retired, k')"
  shows "\<exists>generation. legal_generation_move gid Published k = Inr generation
    \<and> publish_in x d generation k = Inr (retired, k')"
  using r by (auto simp: publish_generation_def results)

lemma publish_in_effect:
  assumes ok: "generations_ok k" and legal: "legal_generation_move gid Published k = Inr generation"
    and r: "publish_in x d generation k = Inr (retired, k')"
  shows "generation_effect x k k'"
proof -
  note p = publish_in_Inr[OF ok legal r]
  then obtain generations events where k': "k' = k\<lparr>k_generations := generations, k_events := events\<rparr>" by blast
  then have "k' = k\<lparr>k_generations := generations, k_generation_seq := k_generation_seq k, k_events := events\<rparr>"
    by simp
  then have "\<exists>generations sequence events.
      k' = k\<lparr>k_generations := generations, k_generation_seq := sequence, k_events := events\<rparr>" by blast
  moreover have "journal_grows k k'" using p by (auto simp: journal_grows_def)
  ultimately show ?thesis using p by (auto simp: generation_effect_def)
qed

lemma if_current_Inr:
  assumes r: "publish_generation_if_current x d gid expected k = (Inr retired, k')"
  shows "\<exists>generation. legal_generation_move gid Published k = Inr generation
    \<and> publish_in x d generation k = Inr (retired, k')"
  using r by (auto simp: publish_generation_if_current_def results split: if_splits)

lemma retire_generation_Inr:
  assumes ok: "generations_ok k" and r: "retire_generation x d gid k = (Inr u, k')"
  shows "generation_effect x k k'"
proof -
  obtain generation returned k1 where legal: "legal_generation_move gid Retired k = Inr generation"
    and up: "update_generations (\<lambda>row. ge_id row = gid) (set_state ''retired'') k = Inr (returned, k1)"
    and ev: "record_retired x d 0 (gn_collection generation) gid k1 = Inr k'"
    using r by (auto simp: retire_generation_def results split: prod.splits)
  have "set_state ''retired'' = (\<lambda>row. row\<lparr>ge_state := generation_state_str Retired,
      ge_points := ge_points row, ge_published_at := ge_published_at row\<rparr>)"
    by (simp add: fun_eq_iff set_state_def)
  from move_by_id[OF ok legal up[unfolded this]]
  obtain rows where ok1: "generations_ok k1" "generations_evolve k k1" and k1: "k1 = k\<lparr>k_generations := rows\<rparr>"
    by blast
  obtain data where "record_knowledge_event x d 0 (gn_collection generation) GENERATION_RETIRED data k1 = Inr k'"
    using ev by (auto simp: record_retired_def results)
  from record_knowledge_event_Inr[OF this] obtain er where k': "k' = k1\<lparr>k_events := k_events k1 @ [er]\<rparr>"
    and j: "journal_ok x k1 \<longrightarrow> journal_ok x k'" by blast
  have "k' = k\<lparr>k_generations := rows, k_generation_seq := k_generation_seq k, k_events := k_events k @ [er]\<rparr>"
    by (simp add: k' k1)
  then have frame: "\<exists>generations sequence events.
      k' = k\<lparr>k_generations := generations, k_generation_seq := sequence, k_events := events\<rparr>" by blast
  have "journal_grows k k'" by (simp add: k' k1 journal_grows_def)
  moreover have "journal_ok x k \<longrightarrow> journal_ok x k'" using j by (simp add: k1 journal_ok_def)
  moreover have "generations_ok k'" "generations_evolve k k'"
    using ok1 by (simp_all add: k' generations_ok_def generations_evolve_def)
  ultimately show ?thesis using frame by (simp add: generation_effect_def)
qed

section \<open>Properties\<close>

lemma published_after_published:
  assumes ok: "generations_ok k" and row: "row \<in> set (k_generations k)" "ge_id row = gid"
  shows "filter (\<lambda>r. ge_collection r = ge_collection row \<and> ge_state r = ''published'')
      (map (published_after gid (ge_collection row) now) (k_generations k))
    = [row\<lparr>ge_state := ''published'', ge_published_at := Some now\<rparr>]"
proof -
  have "distinct (map ge_id (k_generations k))"
    using ok by (simp add: generations_ok_def strict_sorted_iff)
  then have "filter (\<lambda>r. ge_id r = gid) (k_generations k) = [row]"
    using row
  proof (induction "k_generations k" arbitrary: k rule: list.induct)
    case (Cons r rows)
    show ?case
    proof (cases "ge_id r = gid")
      case True
      with Cons have "\<forall>s\<in>set rows. ge_id s \<noteq> gid" by (metis distinct.simps(2) imageI list.set_map list.simps(9))
      then show ?thesis using Cons.hyps(2)[symmetric] Cons.prems True by (auto simp: filter_empty_conv)
    next
      case False
      have "filter (\<lambda>r. ge_id r = gid) (k_generations (k\<lparr>k_generations := rows\<rparr>)) = [row]"
        using Cons.prems Cons.hyps(2)[symmetric] False by (intro Cons.hyps(1)) auto
      then show ?thesis using Cons.hyps(2)[symmetric] False by simp
    qed
  qed simp
  moreover have "filter (\<lambda>r. ge_collection r = ge_collection row \<and> ge_state r = ''published'')
      (map (published_after gid (ge_collection row) now) (k_generations k))
    = map (published_after gid (ge_collection row) now) (filter (\<lambda>r. ge_id r = gid) (k_generations k))"
  proof -
    have "ge_collection (published_after gid (ge_collection row) now r) = ge_collection row
        \<and> ge_state (published_after gid (ge_collection row) now r) = ''published'' \<longleftrightarrow> ge_id r = gid"
      if "r \<in> set (k_generations k)" for r
    proof -
      have "r = row" if "ge_id r = gid"
        using \<open>distinct (map ge_id (k_generations k))\<close> row \<open>r \<in> set (k_generations k)\<close> that
        by (auto simp: distinct_map dest: inj_onD)
      then show ?thesis by (auto simp: published_after_def)
    qed
    then have "filter (\<lambda>r. ge_collection (published_after gid (ge_collection row) now r) = ge_collection row
          \<and> ge_state (published_after gid (ge_collection row) now r) = ''published'') (k_generations k)
        = filter (\<lambda>r. ge_id r = gid) (k_generations k)"
      by (intro filter_cong) auto
    then show ?thesis by (simp add: filter_map comp_def)
  qed
  ultimately show ?thesis using row by (simp add: published_after_def)
qed

end
