(* ===== verification/Publishing.thy ===== *)
theory Publishing
  imports Generations
begin

text \<open>
  What publishing a generation shows to a reader: the properties of
  \<open>crates/maestro-kernel/src/generation/lifecycle.rs\<close>, over the model of \<open>Generations\<close>.
\<close>

section \<open>When a publication succeeds\<close>

lemma one_published_iff:
  assumes "distinct (map ge_id rows)"
  shows "one_published rows \<longleftrightarrow>
    (\<forall>a\<in>set rows. \<forall>b\<in>set rows. ge_state a = ''published'' \<longrightarrow> ge_state b = ''published''
       \<longrightarrow> ge_collection a = ge_collection b \<longrightarrow> a = b)"
proof -
  have "distinct (published_rows rows)"
    using assms by (simp add: published_rows_def distinct_map)
  then show ?thesis
    by (auto simp: one_published_def distinct_map inj_on_def published_rows_def)
qed

lemma generations_distinct: "generations_ok k \<Longrightarrow> distinct (map ge_id (k_generations k))"
  by (simp add: generations_ok_def strict_sorted_iff)

text \<open>An update that names a state of the table and leaves one published row a collection is taken.\<close>

lemma update_generations_taken:
  assumes ok: "generations_ok k"
    and keep: "\<And>row. row \<in> set (k_generations k) \<Longrightarrow> selects row \<Longrightarrow>
        ge_id (assign row) = ge_id row \<and> ge_collection (assign row) = ge_collection row
        \<and> generation_checks (assign row)"
    and one: "\<And>row other. row \<in> set (k_generations k) \<Longrightarrow> other \<in> set (k_generations k) \<Longrightarrow> selects row
        \<Longrightarrow> ge_state (assign row) = ''published'' \<Longrightarrow> ge_collection other = ge_collection row
        \<Longrightarrow> ge_id other \<noteq> ge_id row \<Longrightarrow>
        \<not> selects other \<and> ge_state other \<noteq> ''published''"
  shows "update_generations selects assign k
    = Inr (map assign (filter selects (k_generations k)),
           k\<lparr>k_generations := map (\<lambda>row. if selects row then assign row else row) (k_generations k)\<rparr>)"
proof -
  let ?g = "\<lambda>row. if selects row then assign row else row"
  have checks: "list_all generation_checks (map ?g (k_generations k))"
    using ok keep by (auto simp: generations_ok_def list_all_iff)
  have ids: "map ge_id (map ?g (k_generations k)) = map ge_id (k_generations k)" using keep by auto
  have was: "a = b" if "a \<in> set (k_generations k)" "b \<in> set (k_generations k)"
    "ge_state a = ''published''" "ge_state b = ''published''" "ge_collection a = ge_collection b" for a b
    using ok one_published_iff[OF generations_distinct[OF ok]] that by (auto simp: generations_ok_def)
  have "?g a = ?g b" if "a \<in> set (k_generations k)" "b \<in> set (k_generations k)"
    "ge_state (?g a) = ''published''" "ge_state (?g b) = ''published''"
    "ge_collection (?g a) = ge_collection (?g b)" for a b
  proof (cases "ge_id a = ge_id b")
    case True
    then have "a = b" using generations_distinct[OF ok] that by (auto simp: distinct_map dest: inj_onD)
    then show ?thesis by simp
  next
    case False
    have same: "ge_collection a = ge_collection b"
      using that keep by (auto split: if_splits)
    show ?thesis
      using one[of a b] one[of b a] was[of a b] that same False by (auto split: if_splits)
  qed
  then have "one_published (map ?g (k_generations k))"
    unfolding one_published_iff[OF generations_distinct[OF ok, folded ids]] set_map ball_simps by blast
  with checks show ?thesis by (simp add: update_generations_def Let_def)
qed

lemma record_knowledge_event_taken:
  assumes "lawful x" and "journal_ok x k" and "collection_name c" and "t \<noteq> []"
    and "plain_json READABLE_DEPTH data" and "ulid_text x (d_event d i) \<notin> er_id ` set (k_events k)"
    and "int (stream_length (knowledge_stream c) k) < I64_MAX"
  shows "\<exists>er. record_knowledge_event x d i c t data k = Inr (k\<lparr>k_events := k_events k @ [er]\<rparr>)
    \<and> er_id er = ulid_text x (d_event d i) \<and> er_stream er = knowledge_stream c"
proof -
  let ?new = "\<lparr>ne_stream = knowledge_stream c, ne_type = t,
      ne_subject = knowledge_stream c, ne_scope = collection_path c, ne_data = data\<rparr>"
  let ?row = "recorded_row x d i ?new (k_events k)"
  have "scope_from_str (collection_path c) = Inr (Scope (collection_path c))"
    using assms(3) unfolding scope_from_str_Inr collection_path_render
    by (intro exI[of _ "CollectionNode ''default'' c"]) (simp add: valid_name_def name_char_def LONGEST_NAME_def is_ascii_lowercase_def)
  moreover have plain: "plain_json READABLE_DEPTH (ne_data ?new)" using assms(5) by simp
  ultimately have "\<exists>e. record_event x d i ?new k = Inr (e, k\<lparr>k_events := k_events k @ [?row]\<rparr>)"
    using assms(4,6,7) insert_recorded[OF assms(1) plain assms(2), of d i]
      recorded_event[OF assms(1) plain assms(2), of d i] journal_ok_sequence[OF assms(2)]
    by (auto simp: record_event_Inr knowledge_stream_def)
  then show ?thesis
    by (intro exI[of _ ?row]) (auto simp: record_knowledge_event_def)
qed

lemma predecessor_mem:
  assumes "predecessor c k = Some old"
  shows "\<exists>r\<in>set (k_generations k). ge_id r = old \<and> ge_collection r = c \<and> ge_state r = ''published''"
proof -
  let ?old = "filter (\<lambda>r. ge_collection r = c \<and> ge_state r = ''published'') (k_generations k)"
  obtain r rs where "?old = r # rs" and "ge_id r = old"
    using assms by (auto simp: predecessor_def split: list.splits)
  then have "r \<in> set ?old" by simp
  with \<open>ge_id r = old\<close> show ?thesis by auto
qed

text \<open>The publication of a verified generation, and the row it leaves in the table.\<close>

lemma publish_in_taken:
  assumes law: "lawful x" and ok: "generations_ok k" and journal: "journal_ok x k"
    and row: "row \<in> set (k_generations k)" "ge_state row = ''verified''"
    and name: "collection_name (ge_collection row)"
    and fresh: "ulid_text x (d_event d 0) \<notin> er_id ` set (k_events k)"
      "ulid_text x (d_event d 1) \<notin> er_id ` set (k_events k)" "d_event d 0 \<noteq> d_event d 1"
    and room: "int (stream_length (knowledge_stream (ge_collection row)) k) + 1 < I64_MAX"
  shows "\<exists>k'. publish_in x d (the_generation row) k = Inr (predecessor (ge_collection row) k, k')"
proof -
  let ?c = "ge_collection row"
  let ?old = "\<lambda>r. ge_collection r = ?c \<and> ge_state r = ''published''"
  let ?retire = "\<lambda>r. if ?old r then set_state ''retired'' r else r"
  let ?assign = "\<lambda>r. r\<lparr>ge_state := ''published'', ge_published_at := Some (d_now d)\<rparr> :: generation_record"
  let ?k1 = "k\<lparr>k_generations := map ?retire (k_generations k)\<rparr>"
  have checks: "generation_checks r" if "r \<in> set (k_generations k)" for r
    using ok that by (simp add: generations_ok_def list_all_iff)
  have up1: "update_generations ?old (set_state ''retired'') k
      = Inr (map (set_state ''retired'') (filter ?old (k_generations k)), ?k1)"
    using checks by (intro update_generations_taken[OF ok]) (auto simp: set_state_def generation_checks_def)
  have ok1: "generations_ok ?k1"
    using update_generations_ok[OF ok up1] by (simp add: set_state_def)
  have id1: "r = row" if "r \<in> set (k_generations k)" "ge_id r = ge_id row" for r
    using generations_distinct[OF ok] row that by (auto simp: distinct_map dest: inj_onD)
  let ?k2 = "?k1\<lparr>k_generations := map (\<lambda>r. if ge_id r = ge_id row then ?assign r else r) (k_generations ?k1)\<rparr>"
  have up2: "update_generations (\<lambda>r. ge_id r = ge_id row) ?assign ?k1
      = Inr (map ?assign (filter (\<lambda>r. ge_id r = ge_id row) (k_generations ?k1)), ?k2)"
  proof (rule update_generations_taken[OF ok1])
    fix r assume "r \<in> set (k_generations ?k1)"
    then show "ge_id (?assign r) = ge_id r \<and> ge_collection (?assign r) = ge_collection r
        \<and> generation_checks (?assign r)"
      using checks by (auto simp: set_state_def generation_checks_def split: if_splits)
  next
    fix r other
    assume "r \<in> set (k_generations ?k1)" "other \<in> set (k_generations ?k1)" "ge_id r = ge_id row"
      "ge_collection other = ge_collection r" "ge_id other \<noteq> ge_id r"
    then show "\<not> ge_id other = ge_id row \<and> ge_state other \<noteq> ''published''"
      using id1 row by (auto simp: set_state_def split: if_splits)
  qed
  have ids: "1 \<le> ge_id row" using ok row by (auto simp: generations_ok_def list_all_iff)
  have gen: "gn_collection (the_generation row) = ?c" "gn_id (the_generation row) = ge_id row"
    by (simp_all add: the_generation_def)
  obtain returned2 k2 where up2': "update_generations (\<lambda>r. ge_id r = ge_id row) ?assign ?k1 = Inr (returned2, k2)"
    and events2: "k_events k2 = k_events k" using up2 by simp
  have j2: "journal_ok x k2" using journal events2 by (simp add: journal_ok_def)
  have len2: "stream_length s k2 = stream_length s k" for s by (simp add: stream_length_def events2)
  have room2: "int (stream_length (knowledge_stream ?c) k2) < I64_MAX" using room by (simp add: len2)
  have inj: "ulid_text x (d_event d 0) \<noteq> ulid_text x (d_event d 1)"
    using lawful_ulid_text[OF law] fresh(3) by (metis option.inject)
  have plain: "plain_json READABLE_DEPTH (json_object [(''collection'', JStr c), (''generation'', JNumber n)])"
      "plain_json READABLE_DEPTH (json_object [(''collection'', JStr c), (''generation'', JNumber n),
         (''point_count'', JNumber m)])" for c n m
    using plain_json_object[of _ 126] by (simp_all add: READABLE_DEPTH_def)
  have published: "\<exists>k4. record_published x d i (the_generation row) k3 = Inr k4"
    if "journal_ok x k3" "ulid_text x (d_event d i) \<notin> er_id ` set (k_events k3)"
      "int (stream_length (knowledge_stream ?c) k3) < I64_MAX" for i k3
    using record_knowledge_event_taken[OF law that(1) name _ plain(2) that(2,3)] ids
    by (fastforce simp: record_published_def gen unsigned_id_def GENERATION_PUBLISHED_def)
  have returned: "optional (query_row (\<lambda>r. Inr (ge_id r))
        (map (set_state ''retired'') (filter ?old (k_generations k)))) = Inr (predecessor ?c k)"
    by (cases "filter ?old (k_generations k)") (simp_all add: optional_def predecessor_def set_state_def)
  show ?thesis
  proof (cases "predecessor ?c k")
    case None
    obtain k4 where "record_published x d 0 (the_generation row) k2 = Inr k4"
      using published[OF j2 _ room2, of 0] fresh events2 by auto
    then show ?thesis
      using None by (simp add: publish_in_def gen up1 up2' returned)
  next
    case (Some old)
    have "old \<in> ge_id ` set (k_generations k)"
      using predecessor_mem[OF Some] by auto
    then have "1 \<le> old" using ok by (auto simp: generations_ok_def list_all_iff)
    then obtain k3 er where r: "record_retired x d 0 ?c old k2 = Inr k3"
        "k3 = k2\<lparr>k_events := k_events k @ [er]\<rparr>" "er_id er = ulid_text x (d_event d 0)"
        "er_stream er = knowledge_stream ?c"
      using record_knowledge_event_taken[OF law j2 name _ plain(1), of GENERATION_RETIRED d 0 ?c old] fresh room2
      by (auto simp: record_retired_def unsigned_id_def GENERATION_RETIRED_def events2)
    obtain data where "record_knowledge_event x d 0 ?c GENERATION_RETIRED data k2 = Inr k3"
      using r(1) by (auto simp: record_retired_def results)
    from record_knowledge_event_Inr[OF this] j2 have j3: "journal_ok x k3" by blast
    have "int (stream_length (knowledge_stream ?c) k3) < I64_MAX"
      using room r by (simp add: stream_length_def stream_sequences_def)
    then obtain k4 where "record_published x d 1 (the_generation row) k3 = Inr k4"
      using published[OF j3, of 1] fresh inj r by auto
    then show ?thesis
      using Some r(1) by (simp add: publish_in_def gen up1 up2' returned)
  qed
qed

section \<open>Properties\<close>

text \<open>A collection with a published generation, a verified one and a retired one.\<close>

definition sample_generation :: "int \<Rightarrow> string \<Rightarrow> generation_record" where
  "sample_generation gid state =
     \<lparr>ge_id = gid, ge_collection = ''ct'', ge_chunk_set = ''s'', ge_embedding = ''e'', ge_sparse = ''p'',
      ge_state = state, ge_points = Some 4, ge_published_at = None\<rparr>"

definition sample_catalog :: kernel where
  "sample_catalog = empty_kernel\<lparr>
     k_collections := [\<lparr>co_id = ''ct'', co_title = ''t'', co_visibility = ''private'', co_profiles = ''{}''\<rparr>],
     k_chunk_sets := [\<lparr>cs_id = ''s'', cs_collection = ''ct'', cs_profile = ''d'', cs_counter = ''c'',
       cs_state = ''complete'', cs_manifest = None\<rparr>],
     k_generations :=
       [sample_generation 1 ''retired'', sample_generation 2 ''published'', sample_generation 3 ''verified''],
     k_generation_seq := 3\<rparr>"

lemma sample_catalog_ok: "generations_ok sample_catalog" "journal_ok x sample_catalog"
proof -
  show "generations_ok sample_catalog" by code_simp
  show "journal_ok x sample_catalog"
    using journal_ok_empty[of x] by (simp add: sample_catalog_def journal_ok_def)
qed

lemma published_rows_append:
  "published_rows (rows @ [row]) = published_rows rows @ (if ge_state row = ''published'' then [row] else [])"
  by (simp add: published_rows_def)

lemma last_generation:
  assumes "generations_ok k"
  shows "max (k_generation_seq k) (coalesce_max (map ge_id (k_generations k))) = k_generation_seq k"
proof -
  have "fold max ids v \<le> m" if "\<forall>i\<in>set ids. i \<le> m" "v \<le> m" for ids and v m :: int
    using that by (induction ids arbitrary: v) auto
  then have "coalesce_max ids \<le> m" if "\<forall>i\<in>set ids. i \<le> m" "0 \<le> m" for ids and m :: int
    using that by (auto simp: coalesce_max_def split: list.split)
  then show ?thesis using assms by (simp add: generations_ok_def list_all_iff max_absorb1)
qed

text \<open>
  A generation is created exactly when its collection and its chunk set are recorded and an id
  is left; it is then building, with no points, its id is one above every id the table ever gave,
  and its row is appended.
\<close>

theorem create_generation_exact:
  assumes "generations_ok k"
  shows "create_generation new k = (Inr generation, k') \<longleftrightarrow>
    (\<exists>c\<in>set (k_collections k). co_id c = ng_collection new)
    \<and> (\<exists>s\<in>set (k_chunk_sets k). cs_collection s = ng_collection new \<and> cs_id s = ng_chunk_set new)
    \<and> k_generation_seq k < I64_MAX
    \<and> generation = \<lparr>gn_id = k_generation_seq k + 1, gn_collection = ng_collection new,
         gn_chunk_set = ng_chunk_set new, gn_embedding = ng_embedding new, gn_sparse = ng_sparse new,
         gn_state = Building, gn_points = None, gn_published_at = None\<rparr>
    \<and> k' = k\<lparr>k_generations := k_generations k @
          [\<lparr>ge_id = k_generation_seq k + 1, ge_collection = ng_collection new,
            ge_chunk_set = ng_chunk_set new, ge_embedding = ng_embedding new, ge_sparse = ng_sparse new,
            ge_state = ''building'', ge_points = None, ge_published_at = None\<rparr>],
        k_generation_seq := k_generation_seq k + 1\<rparr>"
proof -
  let ?row = "\<lparr>ge_id = k_generation_seq k + 1, ge_collection = ng_collection new,
      ge_chunk_set = ng_chunk_set new, ge_embedding = ng_embedding new, ge_sparse = ng_sparse new,
      ge_state = ''building'', ge_points = None, ge_published_at = None\<rparr>"
  have named: "generation_state_named ''building'' = Some Building" by (simp add: generation_state_named_iff)
  have checks: "generation_checks ?row" by (simp add: generation_checks_def)
  have one: "one_published (k_generations k @ [?row])"
    using assms by (simp add: generations_ok_def one_published_def published_rows_append)
  show ?thesis
    using checks one
    by (auto simp: create_generation_def insert_generation_def last_generation[OF assms] results Let_def
        generation_row_ok the_generation_def the_state_def named list_ex_iff)
qed

lemma create_generation_exact_witness:
  "(\<exists>k'. create_generation \<lparr>ng_collection = ''ct'', ng_chunk_set = ''s'', ng_embedding = ''e'', ng_sparse = ''p''\<rparr>
       sample_catalog =
     (Inr \<lparr>gn_id = 4, gn_collection = ''ct'', gn_chunk_set = ''s'', gn_embedding = ''e'', gn_sparse = ''p'',
       gn_state = Building, gn_points = None, gn_published_at = None\<rparr>, k'))
   \<and> (\<forall>g k'. create_generation \<lparr>ng_collection = ''ct'', ng_chunk_set = ''r'', ng_embedding = ''e'', ng_sparse = ''p''\<rparr>
       sample_catalog \<noteq> (Inr g, k'))"
  unfolding create_generation_exact[OF sample_catalog_ok(1)]
  by (simp add: sample_catalog_def I64_MAX_def)

text \<open>
  C4: publishing a verified generation always succeeds where the journal has room for its events:
  the caller gets the id of the generation it replaces, which is retired in the same write, the
  collection has that one published generation, a reader who sees the collection finds it, and the
  collection's stream gets the retirement, then the publication.
\<close>

theorem publish_exact:
  assumes "lawful x" and "generations_ok k" and "journal_ok x k"
    and row: "row \<in> set (k_generations k)" "ge_state row = ''verified''"
    and "collection_name (ge_collection row)"
    and "ulid_text x (d_event d 0) \<notin> er_id ` set (k_events k)"
    and "ulid_text x (d_event d 1) \<notin> er_id ` set (k_events k)" and "d_event d 0 \<noteq> d_event d 1"
    and "int (stream_length (knowledge_stream (ge_collection row)) k) + 1 < I64_MAX"
    and sees: "collection_condition (ge_collection row) (parameter scopes)"
  shows "\<exists>k' events es.
    publish_generation x d (ge_id row) k = (Inr (predecessor (ge_collection row) k), k')
    \<and> k' = k\<lparr>k_generations := map (published_after (ge_id row) (ge_collection row) (d_now d)) (k_generations k),
           k_events := k_events k @ events\<rparr>
    \<and> published_generation scopes (ge_collection row) k'
        = Inr (Some ((the_generation row)\<lparr>gn_state := Published, gn_published_at := Some (d_now d)\<rparr>))
    \<and> map (event_row x) events = map Inr es
    \<and> map ev_type es = (if predecessor (ge_collection row) k = None then [GENERATION_PUBLISHED]
                        else [GENERATION_RETIRED, GENERATION_PUBLISHED])
    \<and> (\<forall>e\<in>set es. ev_stream e = knowledge_stream (ge_collection row)
         \<and> ev_scope e = collection_path (ge_collection row))"
proof -
  let ?c = "ge_collection row" and ?g = "the_generation row"
  have find: "List.find (\<lambda>r. ge_id r = ge_id row) (k_generations k) = Some row"
    by (rule find_unique[OF generations_distinct[OF assms(2)] row(1)])
  have "generation_checks row" using assms(2) row by (simp add: generations_ok_def list_all_iff)
  then have state: "the_state row = Verified"
    using checked_generation_state[of row] row(2) generation_state_str_cases(2) by metis
  then have legal: "legal_generation_move (ge_id row) Published k = Inr ?g"
    by (simp add: legal_move_ok[OF assms(2)] find generation_may_move_iff)
  obtain k' where p: "publish_in x d ?g k = Inr (predecessor ?c k, k')"
    using publish_in_taken[OF assms(1,2,3) row assms(6-10)] by blast
  have gens: "k_generations k' = map (published_after (ge_id row) ?c (d_now d)) (k_generations k)"
      and ok': "generations_ok k'" and frame: "\<exists>generations events. k' = k\<lparr>k_generations := generations, k_events := events\<rparr>"
      and events: "\<exists>rows es. k_events k' = k_events k @ rows \<and> map (event_row x) rows = map Inr es
         \<and> map ev_type es = (if predecessor ?c k = None then [GENERATION_PUBLISHED]
                             else [GENERATION_RETIRED, GENERATION_PUBLISHED])
         \<and> (\<forall>e\<in>set es. ev_stream e = knowledge_stream ?c \<and> ev_scope e = collection_path ?c)"
    using publish_in_Inr[OF assms(2) legal p] find_generation_mem[OF assms(2) find] row(1) by metis+
  obtain rows es where ev: "k_events k' = k_events k @ rows" "map (event_row x) rows = map Inr es"
      "map ev_type es = (if predecessor ?c k = None then [GENERATION_PUBLISHED]
                         else [GENERATION_RETIRED, GENERATION_PUBLISHED])"
      "\<forall>e\<in>set es. ev_stream e = knowledge_stream ?c \<and> ev_scope e = collection_path ?c"
    using events by blast
  let ?new = "row\<lparr>ge_state := ''published'', ge_published_at := Some (d_now d)\<rparr>"
  have k': "k' = k\<lparr>k_generations := map (published_after (ge_id row) ?c (d_now d)) (k_generations k),
      k_events := k_events k @ rows\<rparr>"
    using frame gens ev(1) by auto
  have new: "filter (\<lambda>r. ge_collection r = ?c \<and> ge_state r = ''published'') (k_generations k') = [?new]"
    unfolding gens by (rule published_after_published[OF assms(2) row(1)]) simp
  have "filter (\<lambda>r. ge_collection r = ?c \<and> ge_state r = ''published''
      \<and> collection_condition (ge_collection r) (parameter scopes)) rows
      = filter (\<lambda>r. ge_collection r = ?c \<and> ge_state r = ''published'') rows" for rows
    using sees by (intro filter_cong) auto
  from this new have one: "filter (\<lambda>r. ge_collection r = ?c \<and> ge_state r = ''published''
      \<and> collection_condition (ge_collection r) (parameter scopes)) (k_generations k') = [?new]" by (rule trans)
  have named: "generation_state_named ''published'' = Some Published" by (simp add: generation_state_named_iff)
  have "generation_checks ?new" using \<open>generation_checks row\<close> by (simp add: generation_checks_def)
  then have "published_generation scopes ?c k' = Inr (Some (the_generation ?new))"
    by (simp add: published_generation_def one optional_def generation_row_ok)
  moreover have "the_generation ?new = ?g\<lparr>gn_state := Published, gn_published_at := Some (d_now d)\<rparr>"
    by (simp add: the_generation_def the_state_def named)
  ultimately have read: "published_generation scopes ?c k'
      = Inr (Some (?g\<lparr>gn_state := Published, gn_published_at := Some (d_now d)\<rparr>))"
    by (rule back_subst[of "\<lambda>g. published_generation scopes ?c k' = Inr (Some g)"])
  have "publish_generation x d (ge_id row) k = (Inr (predecessor ?c k), k')"
    using legal p by (simp add: publish_generation_def db_write_def)
  from this k' read ev(2,3,4) show ?thesis by blast
qed

lemma publish_exact_witness:
  "\<exists>k'. publish_generation sample (sample_draws 1) 3 sample_catalog = (Inr (Some 2), k')
     \<and> map ge_state (k_generations k') = [''retired'', ''retired'', ''published'']"
proof -
  let ?row = "sample_generation 3 ''verified''"
  have name: "collection_name ''ct''" by code_simp
  have events: "k_events sample_catalog = []" by (simp add: sample_catalog_def empty_kernel_def)
  have draws: "d_event (sample_draws 1) 0 \<noteq> d_event (sample_draws 1) 1" by (simp add: sample_draws_def)
  have mem: "?row \<in> set (k_generations sample_catalog)" by (simp add: sample_catalog_def)
  have fields: "ge_id ?row = 3" "ge_collection ?row = ''ct''" "ge_state ?row = ''verified''"
    by (simp_all add: sample_generation_def)
  have sees: "collection_condition ''ct'' (parameter (ScopeSet [Scope ''workspace/default'']))" by code_simp
  have before: "predecessor ''ct'' sample_catalog = Some 2" by code_simp
  have "map ge_state (map (published_after 3 ''ct'' t) (k_generations sample_catalog))
      = [''retired'', ''retired'', ''published'']" for t
    by (simp add: sample_catalog_def sample_generation_def published_after_def)
  then show ?thesis
    using publish_exact[OF lawful_sample sample_catalog_ok mem, unfolded fields, OF refl name,
        of "sample_draws 1", OF _ _ draws _ sees] before
    by (fastforce simp: events stream_length_def stream_sequences_def I64_MAX_def)
qed

text \<open>
  A publication on a condition is a compare and set: it refuses a generation that is not
  known or may not be published, then a collection whose published generation is not the one the
  caller named, telling it which one is, and changes nothing; otherwise it is a publication.
\<close>

theorem publish_if_current_exact:
  assumes "generations_ok k"
  shows "publish_generation_if_current x d gid expected k =
    (case List.find (\<lambda>row. ge_id row = gid) (k_generations k) of
       None \<Rightarrow> (Inl (UnknownGeneration gid), k)
     | Some row \<Rightarrow>
         if the_state row \<noteq> Verified then (Inl (GenerationIllegalMove gid (the_state row) Published), k)
         else if predecessor (ge_collection row) k \<noteq> expected
         then (Inl (PublishedChanged expected (predecessor (ge_collection row) k)), k)
         else publish_generation x d gid k)"
proof (cases "List.find (\<lambda>row. ge_id row = gid) (k_generations k)")
  case None
  then show ?thesis
    by (simp add: publish_generation_if_current_def db_write_def legal_move_ok[OF assms])
next
  case (Some row)
  have "optional (query_row (\<lambda>r. Inr (ge_id r))
      (filter (\<lambda>r. ge_collection r = c \<and> ge_state r = ''published'') (k_generations k)))
    = Inr (predecessor c k)" for c
    by (cases "filter (\<lambda>r. ge_collection r = c \<and> ge_state r = ''published'') (k_generations k)")
      (simp_all add: optional_def predecessor_def)
  then show ?thesis
    using Some
    by (simp add: publish_generation_if_current_def publish_generation_def db_write_def
        legal_move_ok[OF assms] generation_may_move_iff the_generation_def)
qed

lemma publish_if_current_exact_witness:
  "publish_generation_if_current sample (sample_draws 1) 3 (Some 1) sample_catalog
     = (Inl (PublishedChanged (Some 1) (Some 2)), sample_catalog)
   \<and> publish_generation_if_current sample (sample_draws 1) 4 (Some 2) sample_catalog
     = (Inl (UnknownGeneration 4), sample_catalog)"
proof -
  have find: "List.find (\<lambda>row. ge_id row = 3) (k_generations sample_catalog) = Some (sample_generation 3 ''verified'')"
      "List.find (\<lambda>row. ge_id row = 4) (k_generations sample_catalog) = None"
    by (simp_all add: sample_catalog_def sample_generation_def)
  have "the_state (sample_generation 3 ''verified'') = Verified"
      "predecessor (ge_collection (sample_generation 3 ''verified'')) sample_catalog = Some 2" by code_simp+
  then show ?thesis
    using publish_if_current_exact[OF sample_catalog_ok(1)] find by simp
qed

text \<open>
  A retired or failed generation is final: whatever else happened to the database since, no
  call verifies, publishes, retires or fails it, each is told the state it is in, and nothing is
  written.
\<close>

theorem ended_generation_final:
  assumes ok: "generations_ok k" and later: "generations_evolve k k'" and ok': "generations_ok k'"
    and row: "row \<in> set (k_generations k)" "ge_state row = ''retired'' \<or> ge_state row = ''failed''"
    and points: "int points \<le> I64_MAX"
  shows "row \<in> set (k_generations k')
    \<and> verify_generation (ge_id row) points k' = (Inl (GenerationIllegalMove (ge_id row) (the_state row) Verified), k')
    \<and> publish_generation x d (ge_id row) k' = (Inl (GenerationIllegalMove (ge_id row) (the_state row) Published), k')
    \<and> publish_generation_if_current x d (ge_id row) expected k'
        = (Inl (GenerationIllegalMove (ge_id row) (the_state row) Published), k')
    \<and> retire_generation x d (ge_id row) k' = (Inl (GenerationIllegalMove (ge_id row) (the_state row) Retired), k')
    \<and> fail_generation (ge_id row) k' = (Inl (GenerationIllegalMove (ge_id row) (the_state row) GenerationFailed), k')"
proof -
  have "generation_checks row" using ok row by (simp add: generations_ok_def list_all_iff)
  then have ended: "the_state row \<in> {Retired, GenerationFailed}"
    using checked_generation_state[of row] row(2) by (cases "the_state row") auto
  obtain kept added where k': "k_generations k' = kept @ added"
      "list_all2 generation_evolves (k_generations k) kept"
    using later by (auto simp: generations_evolve_def)
  obtain new where "new \<in> set kept" "generation_evolves row new"
    using k'(2) row(1) by (metis in_set_conv_nth list_all2_conv_all_nth)
  then have mem: "row \<in> set (k_generations k')" using ended k'(1) by (auto simp: generation_evolves_def)
  have "List.find (\<lambda>r. ge_id r = ge_id row) (k_generations k') = Some row"
    by (rule find_unique[OF generations_distinct[OF ok'] mem])
  then have refused: "legal_generation_move (ge_id row) w k' = Inl (GenerationIllegalMove (ge_id row) (the_state row) w)" for w
    using ended by (auto simp: legal_move_ok[OF ok'] generation_may_move_iff)
  show ?thesis
    using mem points
    by (simp add: verify_generation_def publish_generation_def publish_generation_if_current_def
        retire_generation_def fail_generation_def generation_move_to_def db_write_def refused)
qed

lemma ended_generation_final_witness:
  "verify_generation 1 4 sample_catalog = (Inl (GenerationIllegalMove 1 Retired Verified), sample_catalog)
   \<and> fail_generation 1 sample_catalog = (Inl (GenerationIllegalMove 1 Retired GenerationFailed), sample_catalog)"
proof -
  have row: "sample_generation 1 ''retired'' \<in> set (k_generations sample_catalog)"
      "ge_state (sample_generation 1 ''retired'') = ''retired'' \<or> ge_state (sample_generation 1 ''retired'') = ''failed''"
      "ge_id (sample_generation 1 ''retired'') = 1"
    by (simp_all add: sample_catalog_def sample_generation_def)
  have "the_state (sample_generation 1 ''retired'') = Retired" by code_simp
  then show ?thesis
    using ended_generation_final[OF sample_catalog_ok(1) generations_evolve_same[OF refl refl] sample_catalog_ok(1)
        row(1,2), of 4]
    by (simp add: row(3) I64_MAX_def)
qed

end
