(* ===== verification/Artifacts.thy ===== *)
theory Artifacts
  imports Kernel_Store
begin

text \<open>
  The artifact store, \<open>crates/maestro-kernel/src/artifact/store.rs\<close>, and the \<open>artifacts\<close> table of
  \<open>store/artifacts.rs\<close> and \<open>migrations/0001_artifacts.sql\<close>: the puts, the pins and the garbage
  collection, each call in the steps between which another process may run. The file system is a
  map from paths below the store's root to what stands there.
\<close>

section \<open>The store (artifact/store.rs)\<close>

text \<open>
  What stands at a path: a regular file with its bytes, a directory, or anything else (a link, a
  pipe), which a rename replaces.
\<close>

datatype entry = RegularFile string | DirectoryEntry | OtherEntry

type_synonym tree = "string list \<rightharpoonup> entry"

text \<open>\<open>split_at_checked(2)\<close> with its default, of ASCII text.\<close>

definition split_two :: "string \<Rightarrow> string \<times> string" where
  "split_two text = (if length text < 2 then ([], []) else (take 2 text, drop 2 text))"

definition artifact_path :: "digest \<Rightarrow> string list" where
  "artifact_path digest =
     (let hex = digest_str digest; (first, rest) = split_two hex; (second, _) = split_two rest in
      [''sha256'', first, second, hex])"

definition store_get :: "ext \<Rightarrow> digest \<Rightarrow> tree \<Rightarrow> artifact_error + string" where
  "store_get x digest files =
     (case files (artifact_path digest) of
        None \<Rightarrow> Inl (MissingArtifact digest)
      | Some (RegularFile bytes) \<Rightarrow>
          (let found = digest_of x bytes in
           if found = digest then Inr bytes else Inl (CorruptArtifact digest found))
      | Some _ \<Rightarrow> Inl (ArtifactIo (artifact_path digest)))"

text \<open>
  A put of bytes not stored intact writes a temporary file and renames it into place, which a
  directory there refuses.
\<close>

definition store_put :: "ext \<Rightarrow> string \<Rightarrow> tree \<Rightarrow> (artifact_error + digest) \<times> tree" where
  "store_put x bytes files =
     (let digest = digest_of x bytes; path = artifact_path digest in
      if \<not> isl (store_get x digest files) then (Inr digest, files)
      else if files path = Some DirectoryEntry then (Inl (ArtifactIo path), files)
      else (Inr digest, files(path \<mapsto> RegularFile bytes)))"

definition store_remove :: "digest \<Rightarrow> tree \<Rightarrow> (artifact_error + unit) \<times> tree" where
  "store_remove digest files =
     (let path = artifact_path digest in
      if files path = Some DirectoryEntry then (Inl (ArtifactIo path), files)
      else (Inr (), files(path := None)))"

section \<open>The table (store/artifacts.rs)\<close>

record artifact =
  at_digest :: digest
  at_bytes :: nat
  at_media :: string
  at_pins :: nat

record artifact_check =
  ac_recorded :: nat
  ac_missing :: "digest list"
  ac_damaged :: "digest list"

definition digest_column :: "string \<Rightarrow> nat \<Rightarrow> sqlite_error + digest" where
  "digest_column hex index = map_err (\<lambda>_. FromSqlConversionFailure index) (digest_parse hex)"

definition artifact_row :: "artifact_record \<Rightarrow> sqlite_error + artifact" where
  "artifact_row row =
     and_then (digest_column (ar_digest row) 0) (\<lambda>digest.
     and_then (unsigned_i64 (ar_bytes row) 1) (\<lambda>bytes.
     and_then (unsigned_i64 (ar_pins row) 3) (\<lambda>pins.
       Inr \<lparr>at_digest = digest, at_bytes = bytes, at_media = ar_media row, at_pins = pins\<rparr>)))"

definition artifact_recorded :: "digest \<Rightarrow> kernel \<Rightarrow> bool" where
  "artifact_recorded digest k \<longleftrightarrow> list_ex (\<lambda>row. ar_digest row = digest_str digest) (k_artifacts k)"

text \<open>The insert does nothing where the digest is recorded already.\<close>

definition record_artifact ::
  "draws \<Rightarrow> digest \<Rightarrow> int \<Rightarrow> string \<Rightarrow> kernel \<Rightarrow> store_error + unit \<times> kernel" where
  "record_artifact d digest bytes media k =
     (let k' = (if artifact_recorded digest k then k
                else k\<lparr>k_artifacts := k_artifacts k @
                  [\<lparr>ar_digest = digest_str digest, ar_bytes = bytes, ar_media = media, ar_pins = 0,
                    ar_created_at = d_now d\<rparr>]\<rparr>) in
      and_then (map_err Sqlite (query_row (\<lambda>row. Inr (ar_media row))
          (filter (\<lambda>row. ar_digest row = digest_str digest) (k_artifacts k')))) (\<lambda>recorded.
        if recorded = media then Inr ((), k')
        else Inl (MediaConflict digest recorded media)))"

definition repin :: "digest \<Rightarrow> int \<Rightarrow> kernel \<Rightarrow> store_error + unit \<times> kernel" where
  "repin digest change k =
     (let selects = (\<lambda>row. ar_digest row = digest_str digest \<and> 0 \<le> ar_pins row + change) in
      if list_ex (\<lambda>row. selects row \<and> ar_pins row + change > I64_MAX) (k_artifacts k)
      then Inl (Sqlite (ConstraintViolation ''STRICT''))
      else if list_ex selects (k_artifacts k)
      then Inr ((), k\<lparr>k_artifacts := map (\<lambda>row. if selects row
                        then row\<lparr>ar_pins := ar_pins row + change\<rparr> else row) (k_artifacts k)\<rparr>)
      else if artifact_recorded digest k then Inl (NotPinned digest)
      else Inl (UnknownArtifact digest))"

definition pin :: "digest \<Rightarrow> kernel \<Rightarrow> store_error + unit \<times> kernel" where
  "pin digest = repin digest 1"

definition unpin :: "digest \<Rightarrow> kernel \<Rightarrow> store_error + unit \<times> kernel" where
  "unpin digest = repin digest (- 1)"

definition database_pin :: "digest \<Rightarrow> kernel \<Rightarrow> (store_error + unit) \<times> kernel" where
  "database_pin digest = db_write (pin digest)"

definition database_unpin :: "digest \<Rightarrow> kernel \<Rightarrow> (store_error + unit) \<times> kernel" where
  "database_unpin digest = db_write (unpin digest)"

definition artifact_read :: "digest \<Rightarrow> kernel \<Rightarrow> store_error + artifact option" where
  "artifact_read digest k =
     map_err Sqlite (optional (query_row artifact_row
       (filter (\<lambda>row. ar_digest row = digest_str digest) (k_artifacts k))))"

definition garbage :: "kernel \<Rightarrow> store_error + artifact list" where
  "garbage k =
     map_err Sqlite (collect_results (map artifact_row
       (sort_key ar_digest (filter (\<lambda>row. ar_pins row = 0) (k_artifacts k)))))"

text \<open>The deletion of the rows still unpinned, one statement a listed artifact.\<close>

fun delete_unpinned :: "artifact list \<Rightarrow> kernel \<Rightarrow> artifact list \<times> kernel" where
  "delete_unpinned [] k = ([], k)"
| "delete_unpinned (artifact # listed) k =
     (let dies = (\<lambda>row. ar_digest row = digest_str (at_digest artifact) \<and> ar_pins row = 0);
          changed = list_ex dies (k_artifacts k);
          (deleted, k') = delete_unpinned listed
            (k\<lparr>k_artifacts := filter (\<lambda>row. \<not> dies row) (k_artifacts k)\<rparr>) in
      (if changed then artifact # deleted else deleted, k'))"

definition delete_rows :: "artifact list \<Rightarrow> kernel \<Rightarrow> (store_error + artifact list) \<times> kernel" where
  "delete_rows listed = db_write (\<lambda>k. Inr (delete_unpinned listed k))"

section \<open>The calls over the table and the files\<close>

record disk =
  dk_kernel :: kernel
  dk_files :: tree

definition put_size :: "string \<Rightarrow> int" where
  "put_size bytes = min (int (length bytes)) I64_MAX"

definition store_step :: "ext \<Rightarrow> string \<Rightarrow> disk \<Rightarrow> (store_error + digest) \<times> disk" where
  "store_step x bytes disk =
     (case store_put x bytes (dk_files disk) of
        (r, files) \<Rightarrow> (map_err ArtifactError r, disk\<lparr>dk_files := files\<rparr>))"

definition record_step ::
  "draws \<Rightarrow> digest \<Rightarrow> string \<Rightarrow> string \<Rightarrow> disk \<Rightarrow> (store_error + unit) \<times> disk" where
  "record_step d digest bytes media disk =
     (case db_write (record_artifact d digest (put_size bytes) media) (dk_kernel disk) of
        (r, k) \<Rightarrow> (r, disk\<lparr>dk_kernel := k\<rparr>))"

definition record_then_store ::
  "ext \<Rightarrow> draws \<Rightarrow> string \<Rightarrow> digest \<Rightarrow> string \<Rightarrow> disk \<Rightarrow> (store_error + unit) \<times> disk" where
  "record_then_store x d bytes digest media disk =
     (case record_step d digest bytes media disk of
        (Inl e, disk') \<Rightarrow> (Inl e, disk')
      | (Inr _, disk') \<Rightarrow>
          (case store_step x bytes disk' of
             (Inl e, disk'') \<Rightarrow> (Inl e, disk'')
           | (Inr _, disk'') \<Rightarrow> (Inr (), disk'')))"

definition put :: "ext \<Rightarrow> draws \<Rightarrow> string \<Rightarrow> string \<Rightarrow> disk \<Rightarrow> (store_error + digest) \<times> disk" where
  "put x d bytes media disk =
     (case store_step x bytes disk of
        (Inl e, disk') \<Rightarrow> (Inl e, disk')
      | (Inr digest, disk') \<Rightarrow>
          (case record_then_store x d bytes digest media disk' of
             (Inl e, disk'') \<Rightarrow> (Inl e, disk'')
           | (Inr _, disk'') \<Rightarrow> (Inr digest, disk'')))"

definition get :: "ext \<Rightarrow> digest \<Rightarrow> disk \<Rightarrow> store_error + string" where
  "get x digest disk = map_err ArtifactError (store_get x digest (dk_files disk))"

definition remove_unrecorded :: "digest \<Rightarrow> disk \<Rightarrow> (store_error + unit) \<times> disk" where
  "remove_unrecorded digest disk =
     (if artifact_recorded digest (dk_kernel disk) then (Inr (), disk)
      else case store_remove digest (dk_files disk) of
             (r, files) \<Rightarrow> (map_err ArtifactError r, disk\<lparr>dk_files := files\<rparr>))"

text \<open>Every removed artifact's file is visited; the first failure is kept.\<close>

fun remove_files :: "artifact list \<Rightarrow> store_error option \<Rightarrow> disk \<Rightarrow> store_error option \<times> disk" where
  "remove_files [] failed disk = (failed, disk)"
| "remove_files (artifact # removed) failed disk =
     (case remove_unrecorded (at_digest artifact) disk of
        (r, disk') \<Rightarrow>
          remove_files removed
            (case failed of
               Some e \<Rightarrow> Some e
             | None \<Rightarrow> (case r of Inl e \<Rightarrow> Some e | Inr _ \<Rightarrow> None)) disk')"

definition collect_garbage :: "disk \<Rightarrow> (store_error + artifact list) \<times> disk" where
  "collect_garbage disk =
     (case garbage (dk_kernel disk) of
        Inl e \<Rightarrow> (Inl e, disk)
      | Inr listed \<Rightarrow>
          (case delete_rows listed (dk_kernel disk) of
             (Inl e, k) \<Rightarrow> (Inl e, disk\<lparr>dk_kernel := k\<rparr>)
           | (Inr removed, k) \<Rightarrow>
               (case remove_files removed None (disk\<lparr>dk_kernel := k\<rparr>) of
                  (None, disk') \<Rightarrow> (Inr removed, disk')
                | (Some e, disk') \<Rightarrow> (Inl e, disk'))))"

definition check_artifacts :: "ext \<Rightarrow> disk \<Rightarrow> store_error + artifact_check" where
  "check_artifacts x disk =
     and_then (map_err Sqlite (collect_results (map (\<lambda>hex. digest_column hex 0)
        (sort (map ar_digest (k_artifacts (dk_kernel disk))))))) (\<lambda>digests.
       Inr \<lparr>ac_recorded = length digests,
            ac_missing = filter (\<lambda>digest. store_get x digest (dk_files disk) = Inl (MissingArtifact digest)) digests,
            ac_damaged = filter (\<lambda>digest. isl (store_get x digest (dk_files disk))
              \<and> store_get x digest (dk_files disk) \<noteq> Inl (MissingArtifact digest)) digests\<rparr>)"

end
