(* ===== verification/Chunk_Sets.thy ===== *)
theory Chunk_Sets
  imports Artifacts
begin

text \<open>
  Chunk sets and their chunks, \<open>crates/maestro-kernel/src/chunk_set/\<close>: the states (\<open>state.rs\<close>),
  the calls that begin, complete, fail and read a set (\<open>record.rs\<close>) and those that record and read
  its chunks (\<open>chunk.rs\<close>), over the tables of \<open>migrations/0004_documents.sql\<close> with the triggers
  of \<open>migrations/0007\<close>.
\<close>

section \<open>States (chunk_set/state.rs)\<close>

datatype chunk_set_state = SetBuilding | SetComplete | SetFailed

definition CHUNK_SET_STATES :: "chunk_set_state list" where
  "CHUNK_SET_STATES = [SetBuilding, SetComplete, SetFailed]"

definition set_may_move :: "chunk_set_state \<Rightarrow> chunk_set_state \<Rightarrow> bool" where
  "set_may_move from to \<longleftrightarrow> from = SetBuilding \<and> to \<noteq> SetBuilding"

fun chunk_set_state_str :: "chunk_set_state \<Rightarrow> string" where
  "chunk_set_state_str SetBuilding = ''building''"
| "chunk_set_state_str SetComplete = ''complete''"
| "chunk_set_state_str SetFailed = ''failed''"

definition chunk_set_state_named :: "string \<Rightarrow> chunk_set_state option" where
  "chunk_set_state_named name = List.find (\<lambda>state. chunk_set_state_str state = name) CHUNK_SET_STATES"

section \<open>Chunk sets (chunk_set/record.rs, chunk_set/error.rs)\<close>

record new_chunk_set =
  nc_id :: string
  nc_collection :: string
  nc_profile :: string
  nc_counter :: string

record chunk_set =
  ct_id :: string
  ct_collection :: string
  ct_profile :: string
  ct_counter :: string
  ct_state :: chunk_set_state
  ct_manifest :: "digest option"

datatype chunk_set_error =
    UnknownChunkSet string
  | ChunkSetConflict string
  | ChunkSetIllegalMove string chunk_set_state chunk_set_state
  | NotBuilding string chunk_set_state
  | ChunksConflict string string
  | ChunkSetStore store_error

definition chunk_set_sqlite :: "sqlite_error \<Rightarrow> chunk_set_error" where
  "chunk_set_sqlite e = ChunkSetStore (Sqlite e)"

definition chunk_set_row :: "chunk_set_record \<Rightarrow> sqlite_error + chunk_set" where
  "chunk_set_row row =
     and_then (ok_or (FromSqlConversionFailure 4) (chunk_set_state_named (cs_state row))) (\<lambda>state.
     and_then (case cs_manifest row of
                 None \<Rightarrow> Inr None
               | Some hex \<Rightarrow> and_then (digest_column hex 5) (\<lambda>digest. Inr (Some digest))) (\<lambda>manifest.
       Inr \<lparr>ct_id = cs_id row, ct_collection = cs_collection row, ct_profile = cs_profile row,
            ct_counter = cs_counter row, ct_state = state, ct_manifest = manifest\<rparr>))"

definition find_chunk_set :: "scope_set option \<Rightarrow> string \<Rightarrow> kernel \<Rightarrow> sqlite_error + chunk_set option" where
  "find_chunk_set scopes sid k =
     optional (query_row chunk_set_row
       (filter (\<lambda>row. cs_id row = sid
           \<and> (case scopes of None \<Rightarrow> True
              | Some s \<Rightarrow> collection_condition (cs_collection row) (parameter s)))
         (k_chunk_sets k)))"

definition found_again :: "chunk_set \<Rightarrow> new_chunk_set \<Rightarrow> chunk_set_error + chunk_set" where
  "found_again recorded new =
     (if ct_collection recorded = nc_collection new \<and> ct_profile recorded = nc_profile new
         \<and> ct_counter recorded = nc_counter new
      then Inr recorded else Inl (ChunkSetConflict (nc_id new)))"

text \<open>The insert, behind the triggers: a set begins building, without a manifest, and replaces none.\<close>

definition insert_chunk_set :: "chunk_set_record \<Rightarrow> kernel \<Rightarrow> sqlite_error + chunk_set_record \<times> kernel" where
  "insert_chunk_set row k =
     (if cs_state row \<noteq> ''building'' \<or> cs_manifest row \<noteq> None
      then Inl (ConstraintViolation ''chunk_sets_begin_building'')
      else if list_ex (\<lambda>other. cs_id other = cs_id row) (k_chunk_sets k)
      then Inl (ConstraintViolation ''chunk_sets_are_never_replaced'')
      else if \<not> list_ex (\<lambda>c. co_id c = cs_collection row) (k_collections k)
      then Inl (ConstraintViolation ''FOREIGN KEY'')
      else Inr (row, k\<lparr>k_chunk_sets := k_chunk_sets k @ [row]\<rparr>))"

definition begin_chunk_set :: "new_chunk_set \<Rightarrow> kernel \<Rightarrow> (chunk_set_error + chunk_set) \<times> kernel" where
  "begin_chunk_set new =
     db_write (\<lambda>k.
       and_then (map_err chunk_set_sqlite (find_chunk_set None (nc_id new) k)) (\<lambda>found.
         case found of
           Some recorded \<Rightarrow> and_then (found_again recorded new) (\<lambda>set. Inr (set, k))
         | None \<Rightarrow>
             map_err chunk_set_sqlite
               (and_then (insert_chunk_set
                   \<lparr>cs_id = nc_id new, cs_collection = nc_collection new, cs_profile = nc_profile new,
                    cs_counter = nc_counter new, cs_state = ''building'', cs_manifest = None\<rparr> k) (\<lambda>(row, k').
                and_then (chunk_set_row row) (\<lambda>set. Inr (set, k'))))))"

definition legal_set_move :: "string \<Rightarrow> chunk_set_state \<Rightarrow> kernel \<Rightarrow> chunk_set_error + unit" where
  "legal_set_move sid to k =
     and_then (map_err chunk_set_sqlite (find_chunk_set None sid k)) (\<lambda>found.
     and_then (ok_or (UnknownChunkSet sid) found) (\<lambda>set.
       if set_may_move (ct_state set) to then Inr ()
       else Inl (ChunkSetIllegalMove sid (ct_state set) to)))"

text \<open>The update of one set's state and manifest, behind its trigger.\<close>

definition chunk_set_moves :: "chunk_set_record \<Rightarrow> chunk_set_record \<Rightarrow> bool" where
  "chunk_set_moves old new \<longleftrightarrow>
     cs_state old = ''building''
     \<and> (cs_state new = ''complete'' \<and> cs_manifest new \<noteq> None
        \<or> cs_state new = ''failed'' \<and> cs_manifest new = None)"

definition update_chunk_set ::
  "string \<Rightarrow> (chunk_set_record \<Rightarrow> chunk_set_record) \<Rightarrow> kernel \<Rightarrow> sqlite_error + kernel" where
  "update_chunk_set sid assign k =
     (if list_ex (\<lambda>row. cs_id row = sid \<and> \<not> chunk_set_moves row (assign row)) (k_chunk_sets k)
      then Inl (ConstraintViolation ''chunk_sets_move_only_from_building'')
      else Inr (k\<lparr>k_chunk_sets := map (\<lambda>row. if cs_id row = sid then assign row else row) (k_chunk_sets k)\<rparr>))"

definition complete_chunk_set :: "string \<Rightarrow> digest \<Rightarrow> kernel \<Rightarrow> (chunk_set_error + unit) \<times> kernel" where
  "complete_chunk_set sid manifest =
     db_write (\<lambda>k.
       and_then (legal_set_move sid SetComplete k) (\<lambda>_.
       and_then (map_err chunk_set_sqlite (update_chunk_set sid
           (\<lambda>row. row\<lparr>cs_state := ''complete'', cs_manifest := Some (digest_str manifest)\<rparr>) k)) (\<lambda>k'.
         map_err ChunkSetStore (pin manifest k'))))"

definition fail_chunk_set :: "string \<Rightarrow> kernel \<Rightarrow> (chunk_set_error + unit) \<times> kernel" where
  "fail_chunk_set sid =
     db_write (\<lambda>k.
       and_then (legal_set_move sid SetFailed k) (\<lambda>_.
       and_then (map_err chunk_set_sqlite (update_chunk_set sid (\<lambda>row. row\<lparr>cs_state := ''failed''\<rparr>) k)) (\<lambda>k'.
         Inr ((), k'))))"

definition chunk_set_read :: "scope_set \<Rightarrow> string \<Rightarrow> kernel \<Rightarrow> chunk_set_error + chunk_set option" where
  "chunk_set_read scopes sid k = map_err chunk_set_sqlite (find_chunk_set (Some scopes) sid k)"

text \<open>The document of a revision, as the joins over \<open>revisions\<close> and \<open>documents\<close> find it.\<close>

definition document_of :: "kernel \<Rightarrow> string \<Rightarrow> document_record option" where
  "document_of k revision =
     (case List.find (\<lambda>r. re_id r = revision) (k_revisions k) of
        None \<Rightarrow> None
      | Some r \<Rightarrow> List.find (\<lambda>doc. do_id doc = re_document r) (k_documents k))"

definition sees_document :: "scope_set \<Rightarrow> document_record \<Rightarrow> bool" where
  "sees_document scopes doc \<longleftrightarrow> source_condition (do_collection doc) (do_source doc) (parameter scopes)"

definition chunk_set_for_revision ::
  "scope_set \<Rightarrow> string \<Rightarrow> string \<Rightarrow> kernel \<Rightarrow> chunk_set_error + chunk_set option" where
  "chunk_set_for_revision scopes sid revision k =
     map_err chunk_set_sqlite (optional (query_row chunk_set_row
       (filter (\<lambda>row. cs_id row = sid
           \<and> list_ex (\<lambda>chunk. ch_set chunk = cs_id row \<and> ch_revision chunk = revision
               \<and> (case document_of k revision of None \<Rightarrow> False
                  | Some doc \<Rightarrow> do_collection doc = cs_collection row \<and> sees_document scopes doc))
             (k_chunks k))
         (k_chunk_sets k))))"

definition latest_complete_chunk_set ::
  "scope_set \<Rightarrow> string \<Rightarrow> string \<Rightarrow> kernel \<Rightarrow> chunk_set_error + chunk_set option" where
  "latest_complete_chunk_set scopes collection profile k =
     map_err chunk_set_sqlite (optional (query_row chunk_set_row (rev
       (filter (\<lambda>row. cs_collection row = collection \<and> cs_profile row = profile
           \<and> cs_state row = ''complete''
           \<and> collection_condition (cs_collection row) (parameter scopes))
         (k_chunk_sets k)))))"

section \<open>Chunks (chunk_set/chunk.rs)\<close>

record chunk =
  ck_id :: string
  ck_revision :: string
  ck_section :: "string option"
  ck_digest :: digest
  ck_tokens :: nat
  ck_start :: nat
  ck_end :: nat

definition chunk_row :: "chunk_record \<Rightarrow> sqlite_error + chunk" where
  "chunk_row row =
     and_then (digest_column (ch_digest row) 3) (\<lambda>digest.
     and_then (unsigned_i64 (ch_tokens row) 4) (\<lambda>tokens.
     and_then (unsigned_i64 (ch_start row) 5) (\<lambda>start.
     and_then (unsigned_i64 (ch_end row) 6) (\<lambda>last.
       Inr \<lparr>ck_id = ch_id row, ck_revision = ch_revision row, ck_section = ch_section row,
            ck_digest = digest, ck_tokens = tokens, ck_start = start, ck_end = last\<rparr>))))"

text \<open>The chunks that meet a condition on the chunk and its document, in the order they were recorded.\<close>

definition read_chunks ::
  "(chunk_record \<Rightarrow> document_record \<Rightarrow> bool) \<Rightarrow> kernel \<Rightarrow> sqlite_error + chunk list" where
  "read_chunks meets k =
     collect_results (map chunk_row
       (filter (\<lambda>row. case document_of k (ch_revision row) of None \<Rightarrow> False | Some doc \<Rightarrow> meets row doc)
         (k_chunks k)))"

definition chunks_read :: "scope_set \<Rightarrow> string \<Rightarrow> kernel \<Rightarrow> chunk_set_error + chunk list" where
  "chunks_read scopes sid k =
     map_err chunk_set_sqlite
       (read_chunks (\<lambda>row doc. ch_set row = sid \<and> sees_document scopes doc) k)"

definition i64_integer :: "nat \<Rightarrow> sqlite_error + int" where
  "i64_integer n = (if int n \<le> I64_MAX then Inr (int n) else Inl (ToSqlConversionFailure IntegerCause))"

text \<open>
  The insert of a chunk, behind its triggers, its CHECKs and its foreign keys. The tables here hold no
  unit graphs, whose recording is not modelled: where one is recorded for the revision in this set, the
  trigger \<open>chunks_cannot_extend_recorded_graph\<close> (migrations/0017_unit_graphs.sql) refuses the insert too.
\<close>

definition insert_chunk :: "chunk_record \<Rightarrow> kernel \<Rightarrow> sqlite_error + kernel" where
  "insert_chunk row k =
     (let set = List.find (\<lambda>s. cs_id s = ch_set row) (k_chunk_sets k);
          revision = List.find (\<lambda>r. re_id r = ch_revision row) (k_revisions k) in
      if set \<noteq> None \<and> revision \<noteq> None
         \<and> \<not> (cs_state (the set) = ''building''
              \<and> (case document_of k (ch_revision row) of None \<Rightarrow> False
                 | Some doc \<Rightarrow> do_collection doc = cs_collection (the set)))
      then Inl (ConstraintViolation ''chunks_enter_a_building_set_of_their_collection'')
      else if list_ex (\<lambda>other. ch_set other = ch_set row \<and> ch_id other = ch_id row) (k_chunks k)
      then Inl (ConstraintViolation ''chunks_are_never_replaced'')
      else if ch_tokens row < 0 \<or> ch_start row < 0 \<or> ch_end row < ch_start row
      then Inl (ConstraintViolation ''chunks'')
      else if set = None \<or> revision = None then Inl (ConstraintViolation ''FOREIGN KEY'')
      else Inr (k\<lparr>k_chunks := k_chunks k @ [row]\<rparr>))"

definition record_chunk :: "string \<Rightarrow> chunk \<Rightarrow> kernel \<Rightarrow> chunk_set_error + unit \<times> kernel" where
  "record_chunk sid chunk k =
     and_then (map_err chunk_set_sqlite
       (and_then (i64_integer (ck_tokens chunk)) (\<lambda>tokens.
        and_then (i64_integer (ck_start chunk)) (\<lambda>start.
        and_then (i64_integer (ck_end chunk)) (\<lambda>last.
          insert_chunk \<lparr>ch_set = sid, ch_id = ck_id chunk, ch_revision = ck_revision chunk,
            ch_section = ck_section chunk, ch_digest = digest_str (ck_digest chunk), ch_tokens = tokens,
            ch_start = start, ch_end = last\<rparr> k))))) (\<lambda>k'.
       map_err ChunkSetStore (pin (ck_digest chunk) k'))"

fun record_each :: "string \<Rightarrow> chunk list \<Rightarrow> kernel \<Rightarrow> chunk_set_error + unit \<times> kernel" where
  "record_each sid [] k = Inr ((), k)"
| "record_each sid (chunk # chunks) k =
     and_then (record_chunk sid chunk k) (\<lambda>(_, k'). record_each sid chunks k')"

definition record_in :: "string \<Rightarrow> string \<Rightarrow> chunk list \<Rightarrow> kernel \<Rightarrow> chunk_set_error + unit \<times> kernel" where
  "record_in sid revision chunks k =
     and_then (map_err chunk_set_sqlite (find_chunk_set None sid k)) (\<lambda>found.
     and_then (ok_or (UnknownChunkSet sid) found) (\<lambda>set.
       if ct_state set \<noteq> SetBuilding then Inl (NotBuilding (ct_id set) (ct_state set))
       else if list_ex (\<lambda>chunk. ck_revision chunk \<noteq> revision) chunks
       then Inl (ChunksConflict sid revision)
       else and_then (map_err chunk_set_sqlite
           (read_chunks (\<lambda>row _. ch_set row = sid \<and> ch_revision row = revision) k)) (\<lambda>recorded.
         if recorded \<noteq> []
         then (if recorded = chunks then Inr ((), k) else Inl (ChunksConflict sid revision))
         else record_each sid chunks k)))"

definition record_chunks ::
  "string \<Rightarrow> string \<Rightarrow> chunk list \<Rightarrow> kernel \<Rightarrow> (chunk_set_error + unit) \<times> kernel" where
  "record_chunks sid revision chunks = db_write (record_in sid revision chunks)"

end
