(* ===== verification/Documents.thy ===== *)
theory Documents
  imports Chunk_Sets Journal "HOL-Library.Product_Lexorder"
begin

text \<open>
  The records of the pipeline, \<open>crates/maestro-kernel/src/document/\<close>: collections, their sources
  and documents (\<open>collection.rs\<close>), revisions (\<open>revision.rs\<close>), quality dispositions
  (\<open>disposition.rs\<close>), occurrences and groups of near duplicates (\<open>duplicate.rs\<close>), the counts of a
  collection (\<open>counts.rs\<close>), and the reader of \<open>chunk_set/chunk.rs\<close> that joins the dispositions, over
  the tables of \<open>migrations/0004_documents.sql\<close> and the guards of \<open>0008_document_guards.sql\<close>.
\<close>

section \<open>Errors (document/error.rs)\<close>

datatype document_error =
    InvalidId invalid_name
  | DocumentConflict string
  | RevisionConflict string
  | SourceRefConflict (ref_recorded: string) (ref_given: string)
  | NearDuplicateConflict string
  | DocumentStore store_error

definition document_sqlite :: "sqlite_error \<Rightarrow> document_error" where
  "document_sqlite e = DocumentStore (Sqlite e)"

text \<open>\<open>json\<close>: the value of a column that holds JSON text, as a type reads it.\<close>

definition json_column :: "ext \<Rightarrow> string \<Rightarrow> nat \<Rightarrow> (json \<Rightarrow> 'a option) \<Rightarrow> sqlite_error + 'a" where
  "json_column x text index read = ok_or (FromSqlConversionFailure index) (Option.bind (json_parse x text) read)"

fun json_string :: "json \<Rightarrow> string option" where
  "json_string (JStr s) = Some s"
| "json_string v = None"

fun json_string_map :: "json \<Rightarrow> (string \<times> string) list option" where
  "json_string_map (JObj members) =
     collect_options (map (\<lambda>(k, v). map_option (\<lambda>s. (k, s)) (json_string v)) members)"
| "json_string_map v = None"

fun json_strings :: "json \<Rightarrow> string list option" where
  "json_strings (JArr vs) = collect_options (map json_string vs)"
| "json_strings v = None"

fun json_map :: "json \<Rightarrow> (string \<times> json) list option" where
  "json_map (JObj members) = Some members"
| "json_map v = None"

section \<open>Collections, sources and documents (document/collection.rs)\<close>

record collection =
  cl_id :: string
  cl_title :: string
  cl_visibility :: string
  cl_profiles :: "(string \<times> string) list"

record knowledge_source =
  ks_collection :: string
  ks_id :: string
  ks_kind :: string
  ks_transport :: "string option"
  ks_reference :: string
  ks_profiles :: "(string \<times> string) list"

record knowledge_document =
  kd_id :: string
  kd_collection :: string
  kd_source :: string
  kd_source_ref :: string

definition profiles_json :: "ext \<Rightarrow> (string \<times> string) list \<Rightarrow> string" where
  "profiles_json x profiles = json_text x (json_object (map (\<lambda>(stage, profile). (stage, JStr profile)) profiles))"

definition collection_row :: "ext \<Rightarrow> collection_record \<Rightarrow> sqlite_error + collection" where
  "collection_row x row =
     and_then (json_column x (co_profiles row) 3 json_string_map) (\<lambda>profiles.
       Inr \<lparr>cl_id = co_id row, cl_title = co_title row, cl_visibility = co_visibility row,
            cl_profiles = profiles\<rparr>)"

text \<open>The insert of a collection, which updates the row of its id, behind its CHECK.\<close>

definition upsert_collection :: "ext \<Rightarrow> collection_record \<Rightarrow> kernel \<Rightarrow> sqlite_error + unit \<times> kernel" where
  "upsert_collection x row k =
     (if json_type x (co_profiles row) \<noteq> Some ''object'' then Inl (ConstraintViolation ''collections'')
      else if list_ex (\<lambda>other. co_id other = co_id row) (k_collections k)
      then Inr ((), k\<lparr>k_collections := map (\<lambda>other. if co_id other = co_id row then row else other)
                        (k_collections k)\<rparr>)
      else Inr ((), k\<lparr>k_collections := k_collections k @ [row]\<rparr>))"

definition record_collection :: "ext \<Rightarrow> collection \<Rightarrow> kernel \<Rightarrow> (document_error + unit) \<times> kernel" where
  "record_collection x c k =
     (case check_collection_name (cl_id c) of
        Inl invalid \<Rightarrow> (Inl (InvalidId invalid), k)
      | Inr _ \<Rightarrow>
          db_write (\<lambda>k. map_err document_sqlite (upsert_collection x
            \<lparr>co_id = cl_id c, co_title = cl_title c, co_visibility = cl_visibility c,
             co_profiles = profiles_json x (cl_profiles c)\<rparr> k)) k)"

definition collection_read :: "ext \<Rightarrow> scope_set \<Rightarrow> string \<Rightarrow> kernel \<Rightarrow> document_error + collection option" where
  "collection_read x scopes cid k =
     map_err document_sqlite (optional (query_row (collection_row x)
       (filter (\<lambda>row. co_id row = cid \<and> collection_condition (co_id row) (parameter scopes))
         (k_collections k))))"

definition collections_read :: "ext \<Rightarrow> scope_set \<Rightarrow> kernel \<Rightarrow> document_error + collection list" where
  "collections_read x scopes k =
     map_err document_sqlite (collect_results (map (collection_row x) (sort_key co_id
       (filter (\<lambda>row. collection_condition (co_id row) (parameter scopes)) (k_collections k)))))"

definition upsert_source :: "ext \<Rightarrow> source_record \<Rightarrow> kernel \<Rightarrow> sqlite_error + unit \<times> kernel" where
  "upsert_source x row k =
     (let same = (\<lambda>other. so_collection other = so_collection row \<and> so_id other = so_id row) in
      if json_type x (so_profiles row) \<noteq> Some ''object'' then Inl (ConstraintViolation ''sources'')
      else if list_ex same (k_sources k)
      then Inr ((), k\<lparr>k_sources := map (\<lambda>other. if same other then row else other) (k_sources k)\<rparr>)
      else if \<not> list_ex (\<lambda>c. co_id c = so_collection row) (k_collections k)
      then Inl (ConstraintViolation ''FOREIGN KEY'')
      else Inr ((), k\<lparr>k_sources := k_sources k @ [row]\<rparr>))"

definition record_source :: "ext \<Rightarrow> knowledge_source \<Rightarrow> kernel \<Rightarrow> (document_error + unit) \<times> kernel" where
  "record_source x s k =
     (case and_then (check_collection_name (ks_collection s)) (\<lambda>_. check_name (ks_id s)) of
        Inl invalid \<Rightarrow> (Inl (InvalidId invalid), k)
      | Inr _ \<Rightarrow>
          db_write (\<lambda>k. map_err document_sqlite (upsert_source x
            \<lparr>so_collection = ks_collection s, so_id = ks_id s, so_kind = ks_kind s,
             so_transport = ks_transport s, so_reference = ks_reference s,
             so_profiles = profiles_json x (ks_profiles s)\<rparr> k)) k)"

definition source_read :: "ext \<Rightarrow> scope_set \<Rightarrow> string \<Rightarrow> string \<Rightarrow> kernel \<Rightarrow> document_error + knowledge_source option" where
  "source_read x scopes cid sid k =
     map_err document_sqlite (optional (query_row
       (\<lambda>row. and_then (json_column x (so_profiles row) 5 json_string_map) (\<lambda>profiles.
          Inr \<lparr>ks_collection = so_collection row, ks_id = so_id row, ks_kind = so_kind row,
               ks_transport = so_transport row, ks_reference = so_reference row, ks_profiles = profiles\<rparr>))
       (filter (\<lambda>row. so_collection row = cid \<and> so_id row = sid
           \<and> source_condition (so_collection row) (so_id row) (parameter scopes))
         (k_sources k))))"

definition document_row :: "document_record \<Rightarrow> knowledge_document" where
  "document_row row =
     \<lparr>kd_id = do_id row, kd_collection = do_collection row, kd_source = do_source row,
      kd_source_ref = do_source_ref row\<rparr>"

definition find_document :: "scope_set option \<Rightarrow> string \<Rightarrow> kernel \<Rightarrow> sqlite_error + knowledge_document option" where
  "find_document scopes did k =
     optional (query_row (\<lambda>row. Inr (document_row row))
       (filter (\<lambda>row. do_id row = did \<and> (case scopes of None \<Rightarrow> True | Some s \<Rightarrow> sees_document s row))
         (k_documents k)))"

text \<open>The insert of a document, behind its trigger and its foreign key.\<close>

definition insert_document_row :: "document_record \<Rightarrow> kernel \<Rightarrow> sqlite_error + unit \<times> kernel" where
  "insert_document_row row k =
     (if list_ex (\<lambda>other. do_id other = do_id row
           \<or> do_collection other = do_collection row \<and> do_source_ref other = do_source_ref row) (k_documents k)
      then Inl (ConstraintViolation ''documents_are_never_replaced'')
      else if \<not> list_ex (\<lambda>s. so_collection s = do_collection row \<and> so_id s = do_source row) (k_sources k)
      then Inl (ConstraintViolation ''FOREIGN KEY'')
      else Inr ((), k\<lparr>k_documents := k_documents k @ [row]\<rparr>))"

definition insert_document :: "knowledge_document \<Rightarrow> kernel \<Rightarrow> document_error + unit \<times> kernel" where
  "insert_document doc k =
     and_then (map_err document_sqlite (optional (query_row (\<lambda>row. Inr (do_id row))
         (filter (\<lambda>row. do_collection row = kd_collection doc \<and> do_source_ref row = kd_source_ref doc)
           (k_documents k))))) (\<lambda>recorded.
       case recorded of
         Some other \<Rightarrow> Inl (SourceRefConflict other (kd_id doc))
       | None \<Rightarrow>
           map_err document_sqlite (insert_document_row
             \<lparr>do_id = kd_id doc, do_collection = kd_collection doc, do_source = kd_source doc,
              do_source_ref = kd_source_ref doc\<rparr> k))"

definition record_document :: "knowledge_document \<Rightarrow> kernel \<Rightarrow> (document_error + unit) \<times> kernel" where
  "record_document doc =
     db_write (\<lambda>k.
       and_then (map_err document_sqlite (find_document None (kd_id doc) k)) (\<lambda>found.
         case found of
           Some recorded \<Rightarrow> if recorded = doc then Inr ((), k) else Inl (DocumentConflict (kd_id doc))
         | None \<Rightarrow> insert_document doc k))"

definition document_read :: "scope_set \<Rightarrow> string \<Rightarrow> kernel \<Rightarrow> document_error + knowledge_document option" where
  "document_read scopes did k = map_err document_sqlite (find_document (Some scopes) did k)"

section \<open>Revisions (document/revision.rs)\<close>

datatype revision_status = RevisionValid | RevisionValidWithWarnings | RevisionFailed

definition REVISION_STATUSES :: "revision_status list" where
  "REVISION_STATUSES = [RevisionValid, RevisionValidWithWarnings, RevisionFailed]"

fun revision_status_str :: "revision_status \<Rightarrow> string" where
  "revision_status_str RevisionValid = ''valid''"
| "revision_status_str RevisionValidWithWarnings = ''valid_with_warnings''"
| "revision_status_str RevisionFailed = ''failed''"

definition status_column :: "string \<Rightarrow> nat \<Rightarrow> sqlite_error + revision_status" where
  "status_column name index =
     ok_or (FromSqlConversionFailure index) (List.find (\<lambda>status. revision_status_str status = name) REVISION_STATUSES)"

record revision =
  rv_id :: string
  rv_document :: string
  rv_original :: digest
  rv_canonical :: digest
  rv_status :: revision_status
  rv_captured_at :: "string option"
  rv_metadata :: "(string \<times> json) list"

datatype recorded = New | Unchanged

definition revision_row :: "ext \<Rightarrow> revision_record \<Rightarrow> sqlite_error + revision" where
  "revision_row x row =
     and_then (digest_column (re_original row) 2) (\<lambda>original.
     and_then (digest_column (re_canonical row) 3) (\<lambda>canonical.
     and_then (status_column (re_status row) 4) (\<lambda>status.
     and_then (json_column x (re_metadata row) 6 json_map) (\<lambda>metadata.
       Inr \<lparr>rv_id = re_id row, rv_document = re_document row, rv_original = original,
            rv_canonical = canonical, rv_status = status, rv_captured_at = re_captured_at row,
            rv_metadata = metadata\<rparr>))))"

text \<open>The document a revision is joined with.\<close>

definition joined_document :: "kernel \<Rightarrow> revision_record \<Rightarrow> document_record option" where
  "joined_document k row = List.find (\<lambda>doc. do_id doc = re_document row) (k_documents k)"

definition joins :: "kernel \<Rightarrow> (document_record \<Rightarrow> bool) \<Rightarrow> revision_record \<Rightarrow> bool" where
  "joins k meets row = (case joined_document k row of None \<Rightarrow> False | Some doc \<Rightarrow> meets doc)"

definition find_revision :: "ext \<Rightarrow> scope_set option \<Rightarrow> string \<Rightarrow> kernel \<Rightarrow> sqlite_error + revision option" where
  "find_revision x scopes rid k =
     optional (query_row (revision_row x)
       (filter (\<lambda>row. re_id row = rid
           \<and> joins k (\<lambda>doc. case scopes of None \<Rightarrow> True | Some s \<Rightarrow> sees_document s doc) row)
         (k_revisions k)))"

definition record_again :: "revision \<Rightarrow> revision \<Rightarrow> document_error + recorded" where
  "record_again recorded given =
     (if recorded\<lparr>rv_status := rv_status given\<rparr> = given then Inr Unchanged
      else Inl (RevisionConflict (rv_id given)))"

text \<open>The insert of a revision, behind its trigger, its CHECK and its foreign key.\<close>

definition insert_revision_row :: "ext \<Rightarrow> revision_record \<Rightarrow> kernel \<Rightarrow> sqlite_error + kernel" where
  "insert_revision_row x row k =
     (if list_ex (\<lambda>other. re_id other = re_id row) (k_revisions k)
      then Inl (ConstraintViolation ''revisions_are_never_replaced'')
      else if json_type x (re_metadata row) \<noteq> Some ''object'' then Inl (ConstraintViolation ''revisions'')
      else if \<not> list_ex (\<lambda>doc. do_id doc = re_document row) (k_documents k)
      then Inl (ConstraintViolation ''FOREIGN KEY'')
      else Inr (k\<lparr>k_revisions := k_revisions k @ [row]\<rparr>))"

definition new_revision_row :: "ext \<Rightarrow> draws \<Rightarrow> revision \<Rightarrow> revision_record" where
  "new_revision_row x d new =
     \<lparr>re_id = rv_id new, re_document = rv_document new, re_original = digest_str (rv_original new),
      re_canonical = digest_str (rv_canonical new), re_status = revision_status_str (rv_status new),
      re_captured_at = rv_captured_at new, re_metadata = json_text x (JObj (rv_metadata new)),
      re_recorded_at = d_now d\<rparr>"

definition insert_revision :: "ext \<Rightarrow> draws \<Rightarrow> revision \<Rightarrow> kernel \<Rightarrow> document_error + recorded \<times> kernel" where
  "insert_revision x d new k =
     and_then (map_err document_sqlite (insert_revision_row x (new_revision_row x d new) k)) (\<lambda>k1.
     and_then (map_err DocumentStore (pin (rv_original new) k1)) (\<lambda>(_, k2).
     and_then (map_err DocumentStore (pin (rv_canonical new) k2)) (\<lambda>(_, k3).
       Inr (New, k3))))"

definition record_revision_in :: "ext \<Rightarrow> draws \<Rightarrow> revision \<Rightarrow> kernel \<Rightarrow> document_error + recorded \<times> kernel" where
  "record_revision_in x d new k =
     and_then (map_err document_sqlite (find_revision x None (rv_id new) k)) (\<lambda>found.
       case found of
         Some recorded \<Rightarrow> and_then (record_again recorded new) (\<lambda>r. Inr (r, k))
       | None \<Rightarrow> insert_revision x d new k)"

definition record_revision :: "ext \<Rightarrow> draws \<Rightarrow> revision \<Rightarrow> kernel \<Rightarrow> (document_error + recorded) \<times> kernel" where
  "record_revision x d new = db_write (record_revision_in x d new)"

definition revision_read :: "ext \<Rightarrow> scope_set \<Rightarrow> string \<Rightarrow> kernel \<Rightarrow> document_error + revision option" where
  "revision_read x scopes rid k = map_err document_sqlite (find_revision x (Some scopes) rid k)"

definition of_collection ::
  "ext \<Rightarrow> scope_set \<Rightarrow> string \<Rightarrow> bool \<Rightarrow> kernel \<Rightarrow> sqlite_error + revision list" where
  "of_collection x scopes cid failed_included k =
     collect_results (map (revision_row x)
       (filter (\<lambda>row. (failed_included \<or> re_status row \<noteq> ''failed'')
           \<and> joins k (\<lambda>doc. do_collection doc = cid \<and> sees_document scopes doc) row)
         (k_revisions k)))"

definition revisions_read :: "ext \<Rightarrow> scope_set \<Rightarrow> string \<Rightarrow> kernel \<Rightarrow> document_error + revision list" where
  "revisions_read x scopes cid k = map_err document_sqlite (of_collection x scopes cid True k)"

definition eligible_revisions :: "ext \<Rightarrow> scope_set \<Rightarrow> string \<Rightarrow> kernel \<Rightarrow> document_error + revision list" where
  "eligible_revisions x scopes cid k = map_err document_sqlite (of_collection x scopes cid False k)"

section \<open>Quality dispositions (document/disposition.rs)\<close>

datatype outcome = Accepted | AcceptedWithWarnings | NeedsReextraction | Quarantined | Excluded

definition OUTCOMES :: "outcome list" where
  "OUTCOMES = [Accepted, AcceptedWithWarnings, NeedsReextraction, Quarantined, Excluded]"

fun outcome_str :: "outcome \<Rightarrow> string" where
  "outcome_str Accepted = ''accepted''"
| "outcome_str AcceptedWithWarnings = ''accepted_with_warnings''"
| "outcome_str NeedsReextraction = ''needs_reextraction''"
| "outcome_str Quarantined = ''quarantined''"
| "outcome_str Excluded = ''excluded''"

text \<open>The disposition an event names, with its name in JSON.\<close>

datatype held_disposition = HeldNeedsReextraction | HeldQuarantined | HeldExcluded

fun held_str :: "held_disposition \<Rightarrow> string" where
  "held_str HeldNeedsReextraction = ''needs_reextraction''"
| "held_str HeldQuarantined = ''quarantined''"
| "held_str HeldExcluded = ''excluded''"

fun outcome_held :: "outcome \<Rightarrow> held_disposition option" where
  "outcome_held Accepted = None"
| "outcome_held AcceptedWithWarnings = None"
| "outcome_held NeedsReextraction = Some HeldNeedsReextraction"
| "outcome_held Quarantined = Some HeldQuarantined"
| "outcome_held Excluded = Some HeldExcluded"

definition outcome_column :: "string \<Rightarrow> nat \<Rightarrow> sqlite_error + outcome" where
  "outcome_column name index =
     ok_or (FromSqlConversionFailure index) (List.find (\<lambda>outcome. outcome_str outcome = name) OUTCOMES)"

record disposition =
  ds_revision :: string
  ds_outcome :: outcome
  ds_reasons :: "string list"
  ds_rules :: "string list"
  ds_decided_by :: string

definition json_list :: "ext \<Rightarrow> string list \<Rightarrow> string" where
  "json_list x items = json_text x (JArr (map JStr items))"

definition revision_held :: "string \<Rightarrow> string \<Rightarrow> string \<Rightarrow> held_disposition \<Rightarrow> new_event" where
  "revision_held cid sid rid held =
     \<lparr>ne_stream = knowledge_stream cid, ne_type = REVISION_HELD, ne_subject = ''revision/'' @ rid,
      ne_scope = source_path cid sid,
      ne_data = json_object [(''collection'', JStr cid), (''revision'', JStr rid), (''disposition'', JStr (held_str held))]\<rparr>"

definition journal_hold ::
  "ext \<Rightarrow> draws \<Rightarrow> string \<Rightarrow> held_disposition \<Rightarrow> kernel \<Rightarrow> document_error + unit \<times> kernel" where
  "journal_hold x d rid held k =
     and_then (map_err document_sqlite (ok_or QueryReturnedNoRows (document_of k rid))) (\<lambda>doc.
     and_then (map_err DocumentStore (record_event x d 0 (revision_held (do_collection doc) (do_source doc) rid held) k))
       (\<lambda>(_, k'). Inr ((), k')))"

text \<open>
  The insert of a disposition: its CHECKs come first, a revision that has one keeps it, and the
  foreign key is checked of a row that enters. The number says how many rows entered.
\<close>

definition insert_disposition :: "ext \<Rightarrow> disposition_record \<Rightarrow> kernel \<Rightarrow> sqlite_error + nat \<times> kernel" where
  "insert_disposition x row k =
     (if \<not> json_valid x (qd_reasons row) \<or> \<not> json_valid x (qd_rules row)
      then Inl (ConstraintViolation ''quality_dispositions'')
      else if list_ex (\<lambda>other. qd_revision other = qd_revision row) (k_dispositions k) then Inr (0, k)
      else if \<not> list_ex (\<lambda>r. re_id r = qd_revision row) (k_revisions k)
      then Inl (ConstraintViolation ''FOREIGN KEY'')
      else Inr (1, k\<lparr>k_dispositions := k_dispositions k @ [row]\<rparr>))"

definition new_disposition_row :: "ext \<Rightarrow> draws \<Rightarrow> disposition \<Rightarrow> disposition_record" where
  "new_disposition_row x d decided =
     \<lparr>qd_revision = ds_revision decided, qd_disposition = outcome_str (ds_outcome decided),
      qd_reasons = json_list x (ds_reasons decided), qd_rules = json_list x (ds_rules decided),
      qd_decided_by = ds_decided_by decided, qd_decided_at = d_now d\<rparr>"

definition record_disposition_in ::
  "ext \<Rightarrow> draws \<Rightarrow> disposition \<Rightarrow> kernel \<Rightarrow> document_error + recorded \<times> kernel" where
  "record_disposition_in x d decided k =
     and_then (map_err document_sqlite (insert_disposition x (new_disposition_row x d decided) k)) (\<lambda>(inserted, k').
       if inserted = 0 then Inr (Unchanged, k')
       else case outcome_held (ds_outcome decided) of
         None \<Rightarrow> Inr (New, k')
       | Some held \<Rightarrow>
           and_then (journal_hold x d (ds_revision decided) held k') (\<lambda>(_, k''). Inr (New, k'')))"

definition record_disposition :: "ext \<Rightarrow> draws \<Rightarrow> disposition \<Rightarrow> kernel \<Rightarrow> (document_error + recorded) \<times> kernel" where
  "record_disposition x d decided = db_write (record_disposition_in x d decided)"

definition record_revision_with_disposition ::
  "ext \<Rightarrow> draws \<Rightarrow> revision \<Rightarrow> disposition \<Rightarrow> kernel \<Rightarrow> (document_error + recorded) \<times> kernel" where
  "record_revision_with_disposition x d new decided =
     db_write (\<lambda>k. and_then (record_revision_in x d new k) (\<lambda>(_, k'). record_disposition_in x d decided k'))"

definition disposition_row :: "ext \<Rightarrow> disposition_record \<Rightarrow> sqlite_error + disposition" where
  "disposition_row x row =
     and_then (outcome_column (qd_disposition row) 1) (\<lambda>outcome.
     and_then (json_column x (qd_reasons row) 2 json_strings) (\<lambda>reasons.
     and_then (json_column x (qd_rules row) 3 json_strings) (\<lambda>rules.
       Inr \<lparr>ds_revision = qd_revision row, ds_outcome = outcome, ds_reasons = reasons, ds_rules = rules,
            ds_decided_by = qd_decided_by row\<rparr>)))"

definition disposition_read ::
  "ext \<Rightarrow> scope_set \<Rightarrow> string \<Rightarrow> kernel \<Rightarrow> document_error + disposition option" where
  "disposition_read x scopes rid k =
     map_err document_sqlite (optional (query_row (disposition_row x)
       (filter (\<lambda>row. qd_revision row = rid
           \<and> (case document_of k rid of None \<Rightarrow> False | Some doc \<Rightarrow> sees_document scopes doc))
         (k_dispositions k))))"

section \<open>Occurrences and near duplicates (document/duplicate.rs)\<close>

record occurrence =
  ou_revision :: string
  ou_collection :: string
  ou_source :: string
  ou_source_ref :: string

record near_duplicate =
  nu_group :: string
  nu_revision :: string
  nu_jaccard :: f64

definition occurrence_row :: "occurrence \<Rightarrow> occurrence_record" where
  "occurrence_row o' =
     \<lparr>oc_revision = ou_revision o', oc_collection = ou_collection o', oc_source = ou_source o',
      oc_source_ref = ou_source_ref o'\<rparr>"

text \<open>The insert of an occurrence, which does nothing where it is recorded.\<close>

definition insert_occurrence :: "occurrence_record \<Rightarrow> kernel \<Rightarrow> sqlite_error + kernel" where
  "insert_occurrence row k =
     (if row \<in> set (k_occurrences k) then Inr k
      else if \<not> list_ex (\<lambda>r. re_id r = oc_revision row) (k_revisions k)
           \<or> \<not> list_ex (\<lambda>s. so_collection s = oc_collection row \<and> so_id s = oc_source row) (k_sources k)
      then Inl (ConstraintViolation ''FOREIGN KEY'')
      else Inr (k\<lparr>k_occurrences := k_occurrences k @ [row]\<rparr>))"

fun insert_occurrences :: "occurrence list \<Rightarrow> kernel \<Rightarrow> document_error + unit \<times> kernel" where
  "insert_occurrences [] k = Inr ((), k)"
| "insert_occurrences (o' # os) k =
     and_then (map_err document_sqlite (insert_occurrence (occurrence_row o') k)) (insert_occurrences os)"

definition record_occurrences :: "occurrence list \<Rightarrow> kernel \<Rightarrow> (document_error + unit) \<times> kernel" where
  "record_occurrences occurrences = db_write (insert_occurrences occurrences)"

definition occurrences_read :: "scope_set \<Rightarrow> string \<Rightarrow> kernel \<Rightarrow> document_error + occurrence list" where
  "occurrences_read scopes rid k =
     Inr (map (\<lambda>row. \<lparr>ou_revision = oc_revision row, ou_collection = oc_collection row,
                     ou_source = oc_source row, ou_source_ref = oc_source_ref row\<rparr>)
       (sort_key (\<lambda>row. (oc_collection row, oc_source row, oc_source_ref row))
         (filter (\<lambda>row. oc_revision row = rid
             \<and> source_condition (oc_collection row) (oc_source row) (parameter scopes))
           (k_occurrences k))))"

text \<open>
  A batch as groups and their members, each an ordered map; a member given twice with different
  numbers is refused.
\<close>

type_synonym groups = "(string \<times> (string \<times> f64) list) list"

definition group_rows :: "groups \<Rightarrow> string \<Rightarrow> (string \<times> f64) list" where
  "group_rows groups g = (case map_of groups g of None \<Rightarrow> [] | Some rows \<Rightarrow> rows)"

fun group_members :: "near_duplicate list \<Rightarrow> groups \<Rightarrow> document_error + groups" where
  "group_members [] groups = Inr groups"
| "group_members (m # ms) groups =
     (let rows = group_rows groups (nu_group m) in
      if (case map_of rows (nu_revision m) of None \<Rightarrow> False | Some v \<Rightarrow> \<not> f64_eq v (nu_jaccard m))
      then Inl (NearDuplicateConflict (nu_group m))
      else group_members ms
             (btree_insert (nu_group m) (btree_insert (nu_revision m) (nu_jaccard m) rows) groups))"

text \<open>What a REAL column holds of a number: SQLite stores a negative zero as zero.\<close>

definition sqlite_real :: "f64 \<Rightarrow> f64" where
  "sqlite_real v = (if f_bits v = 0 then F64 False 0 else v)"

definition is_jaccard :: "f64 \<Rightarrow> bool" where
  "is_jaccard v \<longleftrightarrow> f64_le (F64 False 0) v \<and> f64_le v (F64 False 4607182418800017408)"

text \<open>The insert of a member, behind NOT NULL (a NaN is NULL), its CHECK, its key and its foreign key.\<close>

definition insert_near_dup :: "near_dup_record \<Rightarrow> kernel \<Rightarrow> sqlite_error + kernel" where
  "insert_near_dup row k =
     (if f64_is_nan (nd_jaccard row) then Inl (ConstraintViolation ''NOT NULL'')
      else if \<not> is_jaccard (nd_jaccard row) then Inl (ConstraintViolation ''near_dup_groups'')
      else if list_ex (\<lambda>other. nd_group other = nd_group row \<and> nd_revision other = nd_revision row) (k_near_dups k)
      then Inl (ConstraintViolation ''PRIMARY KEY'')
      else if \<not> list_ex (\<lambda>r. re_id r = nd_revision row) (k_revisions k)
      then Inl (ConstraintViolation ''FOREIGN KEY'')
      else Inr (k\<lparr>k_near_dups := k_near_dups k @ [row]\<rparr>))"

definition stored_near_duplicate_rows :: "string \<Rightarrow> kernel \<Rightarrow> (string \<times> f64) list" where
  "stored_near_duplicate_rows g k =
     sort_key fst (map (\<lambda>row. (nd_revision row, nd_jaccard row))
       (filter (\<lambda>row. nd_group row = g) (k_near_dups k)))"

text \<open>The equality of lists of members, whose numbers are compared as numbers.\<close>

definition same_rows :: "(string \<times> f64) list \<Rightarrow> (string \<times> f64) list \<Rightarrow> bool" where
  "same_rows stored incoming = list_all2 (\<lambda>(r, v) (s, w). r = s \<and> f64_eq v w) stored incoming"

fun insert_members :: "string \<Rightarrow> (string \<times> f64) list \<Rightarrow> kernel \<Rightarrow> document_error + kernel" where
  "insert_members g [] k = Inr k"
| "insert_members g ((r, v) # rows) k =
     and_then (map_err document_sqlite (insert_near_dup \<lparr>nd_group = g, nd_revision = r, nd_jaccard = sqlite_real v\<rparr> k))
       (insert_members g rows)"

definition record_near_duplicate_group ::
  "string \<Rightarrow> (string \<times> f64) list \<Rightarrow> kernel \<Rightarrow> document_error + kernel" where
  "record_near_duplicate_group g incoming k =
     (let stored = stored_near_duplicate_rows g k in
      if same_rows stored incoming then Inr k
      else if stored \<noteq> [] then Inl (NearDuplicateConflict g)
      else insert_members g incoming k)"

fun record_groups :: "groups \<Rightarrow> kernel \<Rightarrow> document_error + unit \<times> kernel" where
  "record_groups [] k = Inr ((), k)"
| "record_groups ((g, rows) # groups) k =
     and_then (record_near_duplicate_group g rows k) (record_groups groups)"

definition record_near_duplicates :: "near_duplicate list \<Rightarrow> kernel \<Rightarrow> (document_error + unit) \<times> kernel" where
  "record_near_duplicates members k =
     (case group_members members [] of
        Inl e \<Rightarrow> (Inl e, k)
      | Inr groups \<Rightarrow> db_write (record_groups groups) k)"

definition sees_member :: "kernel \<Rightarrow> scope_set \<Rightarrow> near_dup_record \<Rightarrow> bool" where
  "sees_member k scopes row =
     (case document_of k (nd_revision row) of None \<Rightarrow> False | Some doc \<Rightarrow> sees_document scopes doc)"

definition member_key :: "near_dup_record \<Rightarrow> string \<times> string" where
  "member_key row = (nd_group row, nd_revision row)"

definition member_of :: "near_dup_record \<Rightarrow> near_duplicate" where
  "member_of row = \<lparr>nu_group = nd_group row, nu_revision = nd_revision row, nu_jaccard = nd_jaccard row\<rparr>"

text \<open>The query both readers share: the members of the groups one of the revisions is a member of.\<close>

definition group_query :: "scope_set \<Rightarrow> string list \<Rightarrow> kernel \<Rightarrow> near_dup_record list" where
  "group_query scopes rids k =
     (let seen = filter (sees_member k scopes) (k_near_dups k);
          touched = map nd_group (filter (\<lambda>row. nd_revision row \<in> set rids) seen) in
      sort_key member_key (filter (\<lambda>row. nd_group row \<in> set touched) seen))"

definition near_duplicates :: "scope_set \<Rightarrow> string \<Rightarrow> kernel \<Rightarrow> document_error + near_duplicate list" where
  "near_duplicates scopes rid k = Inr (map member_of (group_query scopes [rid] k))"

definition MAX_REVISION_IDS_PER_QUERY :: nat where
  "MAX_REVISION_IDS_PER_QUERY = 499"

text \<open>\<open>slice::chunks\<close>: pieces of at most \<open>n\<close>.\<close>

function pieces_of :: "nat \<Rightarrow> 'a list \<Rightarrow> 'a list list" where
  "pieces_of n xs = (if xs = [] \<or> n = 0 then [] else take n xs # pieces_of n (drop n xs))"
  by auto

termination pieces_of
  by (relation "measure (length \<circ> snd)") auto

declare pieces_of.simps [simp del]

text \<open>One query for each batch of revisions, its rows inserted into an ordered map.\<close>

fun collect_batches ::
  "scope_set \<Rightarrow> kernel \<Rightarrow> string list list \<Rightarrow> ((string \<times> string) \<times> near_duplicate) list
     \<Rightarrow> ((string \<times> string) \<times> near_duplicate) list" where
  "collect_batches scopes k [] members = members"
| "collect_batches scopes k (batch # batches) members =
     collect_batches scopes k batches
       (fold (\<lambda>row. btree_insert (member_key row) (member_of row)) (group_query scopes batch k) members)"

definition near_duplicates_for_revisions ::
  "scope_set \<Rightarrow> string list \<Rightarrow> kernel \<Rightarrow> document_error + near_duplicate list" where
  "near_duplicates_for_revisions scopes rids k =
     (let revisions = sort (remdups rids) in
      if revisions = [] then Inr []
      else Inr (map snd (collect_batches scopes k (pieces_of MAX_REVISION_IDS_PER_QUERY revisions) [])))"

section \<open>Counts (document/counts.rs)\<close>

record counts =
  cn_documents :: nat
  cn_statuses :: "(revision_status \<times> nat) list"
  cn_outcomes :: "(outcome \<times> nat) list"
  cn_undecided :: nat

definition counts_of :: "nat \<Rightarrow> counts" where
  "counts_of documents =
     \<lparr>cn_documents = documents, cn_statuses = map (\<lambda>status. (status, 0)) REVISION_STATUSES,
      cn_outcomes = map (\<lambda>outcome. (outcome, 0)) OUTCOMES, cn_undecided = 0\<rparr>"

definition add_to :: "('k \<times> nat) list \<Rightarrow> 'k \<Rightarrow> nat \<Rightarrow> ('k \<times> nat) list" where
  "add_to counts key number = map (\<lambda>(each, count). (each, if each = key then count + number else count)) counts"

definition counts_add :: "counts \<Rightarrow> revision_status \<Rightarrow> outcome option \<Rightarrow> nat \<Rightarrow> counts" where
  "counts_add counts status decided number =
     (let counts = counts\<lparr>cn_statuses := add_to (cn_statuses counts) status number\<rparr> in
      case decided of
        Some outcome \<Rightarrow> counts\<lparr>cn_outcomes := add_to (cn_outcomes counts) outcome number\<rparr>
      | None \<Rightarrow> counts\<lparr>cn_undecided := cn_undecided counts + number\<rparr>)"

text \<open>A revision's columns the query groups by: the LEFT JOIN gives none without a disposition.\<close>

definition disposition_of :: "kernel \<Rightarrow> string \<Rightarrow> disposition_record option" where
  "disposition_of k rid = List.find (\<lambda>row. qd_revision row = rid) (k_dispositions k)"

definition counted_columns :: "scope_set \<Rightarrow> string \<Rightarrow> kernel \<Rightarrow> (string \<times> string option) list" where
  "counted_columns scopes cid k =
     map (\<lambda>row. (re_status row, map_option qd_disposition (disposition_of k (re_id row))))
       (filter (joins k (\<lambda>doc. do_collection doc = cid \<and> sees_document scopes doc)) (k_revisions k))"

definition counted_group ::
  "string \<times> string option \<Rightarrow> nat \<Rightarrow> sqlite_error + revision_status \<times> outcome option \<times> nat" where
  "counted_group columns number =
     and_then (case snd columns of
                 None \<Rightarrow> Inr None
               | Some name \<Rightarrow> and_then (outcome_column name 1) (\<lambda>outcome. Inr (Some outcome))) (\<lambda>decided.
     and_then (status_column (fst columns) 0) (\<lambda>status. Inr (status, decided, number)))"

fun count_groups ::
  "(string \<times> string option) list \<Rightarrow> (string \<times> string option) list \<Rightarrow> counts \<Rightarrow> sqlite_error + counts" where
  "count_groups rows [] counts = Inr counts"
| "count_groups rows (columns # groups) counts =
     and_then (counted_group columns (count_list rows columns)) (\<lambda>(status, decided, number).
       count_groups rows groups (counts_add counts status decided number))"

definition collection_counts :: "scope_set \<Rightarrow> string \<Rightarrow> kernel \<Rightarrow> document_error + counts" where
  "collection_counts scopes cid k =
     (let documents = length (filter (\<lambda>doc. do_collection doc = cid \<and> sees_document scopes doc) (k_documents k));
          rows = counted_columns scopes cid k in
      map_err document_sqlite (count_groups rows (remdups rows) (counts_of documents)))"

section \<open>The revisions of a section (chunk_set/chunk.rs)\<close>

text \<open>DISTINCT pairs in the order the chunks give them, of which SQL promises none, at most two.\<close>

definition section_revisions ::
  "scope_set \<Rightarrow> string \<Rightarrow> string \<Rightarrow> kernel \<Rightarrow> chunk_set_error + (string \<times> string) list" where
  "section_revisions scopes sid section_id k =
     Inr (take 2 (rev (remdups (rev (List.map_filter (\<lambda>chunk.
       case List.find (\<lambda>r. re_id r = ch_revision chunk) (k_revisions k) of
         None \<Rightarrow> None
       | Some r \<Rightarrow>
           (case (joined_document k r, disposition_of k (re_id r)) of
              (Some doc, Some decided) \<Rightarrow>
                if ch_set chunk = sid \<and> ch_section chunk = Some section_id
                   \<and> list_ex (\<lambda>set. cs_id set = ch_set chunk) (k_chunk_sets k)
                   \<and> re_status r \<noteq> ''failed''
                   \<and> (qd_disposition decided = ''accepted'' \<or> qd_disposition decided = ''accepted_with_warnings'')
                   \<and> sees_document scopes doc
                then Some (do_id doc, re_id r) else None
            | _ \<Rightarrow> None)) (k_chunks k))))))"

end
