(* ===== verification/Artifact_Safety.thy ===== *)
theory Artifact_Safety
  imports Artifacts Sample_Ext "HOL-Library.Multiset"
begin

text \<open>
  What the artifact store and its table promise together (\<open>store/artifacts.rs\<close>): the steps of
  puts and garbage collections of several processes in every order, the invariant that a
  recorded artifact can be read unless a put is about to store its bytes again, and the exact
  effect of each call.
\<close>

section \<open>The store\<close>

lemma artifact_path_inj: "artifact_path a = artifact_path b \<longleftrightarrow> a = b"
  by (auto simp: artifact_path_def Let_def split: prod.splits intro: digest.expand)

lemma store_get_other:
  "a \<noteq> b \<Longrightarrow> store_get x a (files(artifact_path b := e)) = store_get x a files"
  by (simp add: store_get_def artifact_path_inj)

definition regular_files :: "tree \<Rightarrow> bool" where
  "regular_files files \<longleftrightarrow> (\<forall>path e. files path = Some e \<longrightarrow> (\<exists>bytes. e = RegularFile bytes))"

lemma store_put_effect:
  assumes "regular_files files" and "store_put x bytes files = (r, files')"
  shows "r = Inr (digest_of x bytes) \<and> regular_files files'
    \<and> (\<exists>b. store_get x (digest_of x bytes) files' = Inr b)
    \<and> (\<forall>digest b. store_get x digest files = Inr b \<longrightarrow> store_get x digest files' = Inr b)
    \<and> (\<forall>digest. digest \<noteq> digest_of x bytes \<longrightarrow> store_get x digest files' = store_get x digest files)
    \<and> (files (artifact_path (digest_of x bytes)) = None
         \<longrightarrow> store_get x (digest_of x bytes) files' = Inr bytes)"
proof (cases "isl (store_get x (digest_of x bytes) files)")
  case True
  let ?d = "digest_of x bytes"
  have "files (artifact_path ?d) \<noteq> Some DirectoryEntry"
    using assms(1) by (auto simp: regular_files_def)
  then have r: "r = Inr ?d" "files' = files(artifact_path ?d \<mapsto> RegularFile bytes)"
    using assms(2) True by (auto simp: store_put_def Let_def)
  have get: "store_get x ?d files' = Inr bytes" by (simp add: r store_get_def)
  have "regular_files files'" using assms(1) by (auto simp: regular_files_def r)
  moreover have other: "store_get x digest files' = store_get x digest files" if "digest \<noteq> ?d" for digest
    unfolding r by (rule store_get_other[OF that])
  moreover have "store_get x digest files' = Inr b" if "store_get x digest files = Inr b" for digest b
    using that other[of digest] True by (cases "digest = ?d") auto
  ultimately show ?thesis using r get by blast
next
  case False
  then have r: "r = Inr (digest_of x bytes)" "files' = files"
    using assms(2) by (auto simp: store_put_def Let_def)
  obtain b where "store_get x (digest_of x bytes) files = Inr b"
    using False by (cases "store_get x (digest_of x bytes) files") auto
  moreover from this have "files (artifact_path (digest_of x bytes)) \<noteq> None"
    by (auto simp: store_get_def split: option.splits)
  ultimately show ?thesis using r assms(1) by auto
qed

lemma store_remove_effect:
  assumes "regular_files files" and "store_remove digest files = (r, files')"
  shows "r = Inr () \<and> regular_files files' \<and> files' = files(artifact_path digest := None)"
proof -
  have "files (artifact_path digest) \<noteq> Some DirectoryEntry"
    using assms(1) by (auto simp: regular_files_def)
  then have "r = Inr ()" "files' = files(artifact_path digest := None)"
    using assms(2) by (auto simp: store_remove_def Let_def)
  with assms(1) show ?thesis by (auto simp: regular_files_def)
qed

section \<open>The rows\<close>

definition artifact_row_ok :: "artifact_record \<Rightarrow> bool" where
  "artifact_row_ok row \<longleftrightarrow>
     digest_parse (ar_digest row) = Inr (Digest (ar_digest row))
     \<and> 0 \<le> ar_bytes row \<and> 0 \<le> ar_pins row \<and> ar_pins row \<le> I64_MAX"

definition artifacts_ok :: "kernel \<Rightarrow> bool" where
  "artifacts_ok k \<longleftrightarrow>
     distinct (map ar_digest (k_artifacts k)) \<and> list_all artifact_row_ok (k_artifacts k)"

definition the_artifact :: "artifact_record \<Rightarrow> artifact" where
  "the_artifact row =
     \<lparr>at_digest = Digest (ar_digest row), at_bytes = nat (ar_bytes row), at_media = ar_media row,
      at_pins = nat (ar_pins row)\<rparr>"

lemma artifact_row_the: "artifact_row_ok row \<Longrightarrow> artifact_row row = Inr (the_artifact row)"
  by (simp add: artifact_row_ok_def artifact_row_def digest_column_def unsigned_i64_def the_artifact_def)

lemma artifact_recorded_iff:
  "artifact_recorded digest k \<longleftrightarrow> digest_str digest \<in> ar_digest ` set (k_artifacts k)"
  unfolding artifact_recorded_def list_ex_iff image_iff by metis

lemma repin_Inr:
  assumes ok: "artifacts_ok k" and r: "repin digest change k = Inr (u, k')"
  shows "artifacts_ok k' \<and> map ar_digest (k_artifacts k') = map ar_digest (k_artifacts k)
    \<and> k' = k\<lparr>k_artifacts := map (\<lambda>row. if ar_digest row = digest_str digest
          then row\<lparr>ar_pins := ar_pins row + change\<rparr> else row) (k_artifacts k)\<rparr>
    \<and> artifact_recorded digest k"
proof -
  let ?selects = "\<lambda>row. ar_digest row = digest_str digest \<and> 0 \<le> ar_pins row + change"
  let ?g = "\<lambda>row. if ?selects row then row\<lparr>ar_pins := ar_pins row + change\<rparr> else row"
  have fits: "\<forall>row\<in>set (k_artifacts k). ?selects row \<longrightarrow> ar_pins row + change \<le> I64_MAX"
    and some: "\<exists>row\<in>set (k_artifacts k). ?selects row"
    and k': "k' = k\<lparr>k_artifacts := map ?g (k_artifacts k)\<rparr>"
    using r by (auto simp: repin_def Let_def list_ex_iff not_le split: if_splits)
  obtain row where row: "row \<in> set (k_artifacts k)" "?selects row" using some by blast
  have "?selects other" if "other \<in> set (k_artifacts k)" "ar_digest other = digest_str digest" for other
  proof -
    have "other = row"
      using ok row that same_key[of ar_digest "k_artifacts k" other row] by (simp add: artifacts_ok_def)
    then show ?thesis using row by simp
  qed
  then have same: "map ?g (k_artifacts k) = map (\<lambda>row. if ar_digest row = digest_str digest
      then row\<lparr>ar_pins := ar_pins row + change\<rparr> else row) (k_artifacts k)" by auto
  have digests: "map ar_digest (map ?g (k_artifacts k)) = map ar_digest (k_artifacts k)" by auto
  have "list_all artifact_row_ok (map ?g (k_artifacts k))"
    using ok fits by (auto simp: artifacts_ok_def list_all_iff artifact_row_ok_def)
  moreover have "distinct (map ar_digest (map ?g (k_artifacts k)))"
    unfolding digests using ok by (simp add: artifacts_ok_def)
  ultimately have "artifacts_ok k'" by (simp add: artifacts_ok_def k' del: map_map)
  moreover have "artifact_recorded digest k"
    using row unfolding artifact_recorded_iff image_iff by metis
  ultimately show ?thesis using k' digests same by simp
qed

definition pinned_row :: "string \<Rightarrow> artifact_record \<Rightarrow> artifact_record" where
  "pinned_row hex row = (if ar_digest row = hex then row\<lparr>ar_pins := ar_pins row + 1\<rparr> else row)"

text \<open>A pin is taken exactly where the artifact is recorded and its pins can be counted.\<close>

lemma pin_exact:
  assumes ok: "artifacts_ok k"
  shows "pin digest k =
    (case List.find (\<lambda>row. ar_digest row = digest_str digest) (k_artifacts k) of
       None \<Rightarrow> Inl (UnknownArtifact digest)
     | Some row \<Rightarrow>
         if ar_pins row = I64_MAX then Inl (Sqlite (ConstraintViolation ''STRICT''))
         else Inr ((), k\<lparr>k_artifacts := map (pinned_row (digest_str digest)) (k_artifacts k)\<rparr>))"
proof (cases "List.find (\<lambda>row. ar_digest row = digest_str digest) (k_artifacts k)")
  case None
  then have "\<not> artifact_recorded digest k" "\<not> list_ex (\<lambda>row. ar_digest row = digest_str digest \<and> P row) (k_artifacts k)" for P
    by (auto simp: find_None_iff artifact_recorded_def list_ex_iff)
  with None show ?thesis by (simp add: pin_def repin_def Let_def conj_assoc)
next
  case (Some row)
  have row: "row \<in> set (k_artifacts k)" "ar_digest row = digest_str digest" using find_mem[OF Some] by auto
  have same: "other = row" if "other \<in> set (k_artifacts k)" "ar_digest other = digest_str digest" for other
    using ok row that same_key[of ar_digest "k_artifacts k" other row] by (simp add: artifacts_ok_def)
  have bounds: "0 \<le> ar_pins row" "ar_pins row \<le> I64_MAX"
    using ok row by (auto simp: artifacts_ok_def list_all_iff artifact_row_ok_def)
  have full: "list_ex (\<lambda>row. (ar_digest row = digest_str digest \<and> 0 \<le> ar_pins row + 1) \<and> ar_pins row + 1 > I64_MAX)
      (k_artifacts k) \<longleftrightarrow> ar_pins row = I64_MAX"
    unfolding list_ex_iff
  proof
    assume "\<exists>r\<in>set (k_artifacts k). (ar_digest r = digest_str digest \<and> 0 \<le> ar_pins r + 1) \<and> I64_MAX < ar_pins r + 1"
    then have "I64_MAX < ar_pins row + 1" using same by blast
    then show "ar_pins row = I64_MAX" using bounds by simp
  qed (use row bounds in \<open>intro bexI[of _ row]\<close>, simp_all)
  have some: "list_ex (\<lambda>row. ar_digest row = digest_str digest \<and> 0 \<le> ar_pins row + 1) (k_artifacts k)"
    unfolding list_ex_iff using row bounds by (intro bexI[of _ row]) simp_all
  have "map (\<lambda>row. if ar_digest row = digest_str digest \<and> 0 \<le> ar_pins row + 1
      then row\<lparr>ar_pins := ar_pins row + 1\<rparr> else row) (k_artifacts k) = map (pinned_row (digest_str digest)) (k_artifacts k)"
  proof (rule map_cong[OF refl])
    fix other assume "other \<in> set (k_artifacts k)"
    then have "ar_digest other = digest_str digest \<Longrightarrow> 0 \<le> ar_pins other + 1"
      using same[of other] bounds by auto
    then show "(if ar_digest other = digest_str digest \<and> 0 \<le> ar_pins other + 1
        then other\<lparr>ar_pins := ar_pins other + 1\<rparr> else other) = pinned_row (digest_str digest) other"
      by (auto simp: pinned_row_def)
  qed
  with Some full some show ?thesis by (simp add: pin_def repin_def Let_def)
qed

lemma pin_Inr:
  assumes "artifacts_ok k" and "pin digest k = Inr (u, k')"
  shows "artifacts_ok k' \<and> k' = k\<lparr>k_artifacts := map (pinned_row (digest_str digest)) (k_artifacts k)\<rparr>
    \<and> digest_str digest \<in> ar_digest ` set (k_artifacts k)
    \<and> digest_parse (digest_str digest) = Inr digest"
proof -
  have k': "k' = k\<lparr>k_artifacts := map (pinned_row (digest_str digest)) (k_artifacts k)\<rparr>"
    using assms(2) by (auto simp: pin_exact[OF assms(1)] split: option.splits if_splits)
  have r: "artifacts_ok k'" "digest_str digest \<in> ar_digest ` set (k_artifacts k)"
    using repin_Inr[OF assms(1) assms(2)[unfolded pin_def]] by (auto simp: artifact_recorded_iff)
  then have "digest_parse (digest_str digest) = Inr (Digest (digest_str digest))"
    using assms(1) by (auto simp: artifacts_ok_def list_all_iff artifact_row_ok_def simp del: digest.collapse)
  with k' r show ?thesis by simp
qed

lemma record_artifact_Inr:
  assumes ok: "artifacts_ok k" and digest: "digest_parse (digest_str digest) = Inr digest" and "0 \<le> bytes"
    and r: "record_artifact d digest bytes media k = Inr (u, k')"
  shows "artifacts_ok k' \<and> artifact_recorded digest k'
    \<and> k' = (if artifact_recorded digest k then k
        else k\<lparr>k_artifacts := k_artifacts k @ [\<lparr>ar_digest = digest_str digest, ar_bytes = bytes,
               ar_media = media, ar_pins = 0, ar_created_at = d_now d\<rparr>]\<rparr>)"
proof -
  have k': "k' = (if artifact_recorded digest k then k
        else k\<lparr>k_artifacts := k_artifacts k @ [\<lparr>ar_digest = digest_str digest, ar_bytes = bytes,
               ar_media = media, ar_pins = 0, ar_created_at = d_now d\<rparr>]\<rparr>)"
    using r by (auto simp: record_artifact_def Let_def results split: if_splits)
  have "Digest (digest_str digest) = digest" by simp
  then have "artifacts_ok k'"
    using ok digest assms(3) unfolding k'
    by (auto simp: artifacts_ok_def artifact_row_ok_def artifact_recorded_iff I64_MAX_def)
  with k' show ?thesis by (auto simp: artifact_recorded_iff)
qed

lemma delete_unpinned_effect:
  "delete_unpinned listed k = (deleted, k') \<Longrightarrow>
     k' = k\<lparr>k_artifacts := filter (\<lambda>row. \<not> (ar_pins row = 0
            \<and> ar_digest row \<in> (digest_str \<circ> at_digest) ` set listed)) (k_artifacts k)\<rparr>
     \<and> set deleted \<subseteq> set listed"
proof (induction listed arbitrary: k deleted)
  case (Cons a listed)
  obtain deleted' where rest: "delete_unpinned listed
      (k\<lparr>k_artifacts := filter (\<lambda>row. \<not> (ar_digest row = digest_str (at_digest a) \<and> ar_pins row = 0))
          (k_artifacts k)\<rparr>) = (deleted', k')" and sub: "deleted = deleted' \<or> deleted = a # deleted'"
    using Cons.prems by (auto simp: Let_def split: prod.splits if_splits)
  from Cons.IH[OF rest] sub show ?case
    by (auto intro!: kernel.fold_congs filter_cong)
qed simp

lemma artifacts_ok_filter:
  "artifacts_ok k \<Longrightarrow> artifacts_ok (k\<lparr>k_artifacts := filter P (k_artifacts k)\<rparr>)"
  by (auto simp: artifacts_ok_def list_all_iff distinct_map_filter)

section \<open>Puts and collections of several processes\<close>

text \<open>
  What is left of a call in progress: a put that stores its bytes, records them, then stores them
  again; a collection that deletes the rows it listed, then visits their files. The flag says
  whether anything unpins: in the repository nothing but a test does.
\<close>

datatype task =
    Storing string string
  | Recording string string digest
  | Restoring string
  | Deleting "artifact list"
  | Removing "artifact list"

inductive artifact_step ::
  "ext \<Rightarrow> bool \<Rightarrow> disk \<times> task multiset \<Rightarrow> disk \<times> task multiset \<Rightarrow> bool" for x unpinning where
  starts_put: "artifact_step x unpinning (disk, ts) (disk, add_mset (Storing bytes media) ts)"
| stores: "store_step x bytes disk = (Inr digest, disk') \<Longrightarrow>
     artifact_step x unpinning (disk, add_mset (Storing bytes media) ts) (disk', add_mset (Recording bytes media digest) ts)"
| store_fails: "store_step x bytes disk = (Inl e, disk') \<Longrightarrow>
     artifact_step x unpinning (disk, add_mset (Storing bytes media) ts) (disk', ts)"
| records: "record_step d digest bytes media disk = (Inr u, disk') \<Longrightarrow>
     artifact_step x unpinning (disk, add_mset (Recording bytes media digest) ts) (disk', add_mset (Restoring bytes) ts)"
| record_fails: "record_step d digest bytes media disk = (Inl e, disk') \<Longrightarrow>
     artifact_step x unpinning (disk, add_mset (Recording bytes media digest) ts) (disk', ts)"
| stores_again: "store_step x bytes disk = (r, disk') \<Longrightarrow>
     artifact_step x unpinning (disk, add_mset (Restoring bytes) ts) (disk', ts)"
| lists: "garbage (dk_kernel disk) = Inr listed \<Longrightarrow>
     artifact_step x unpinning (disk, ts) (disk, add_mset (Deleting listed) ts)"
| deletes: "delete_rows listed (dk_kernel disk) = (Inr removed, k) \<Longrightarrow>
     artifact_step x unpinning (disk, add_mset (Deleting listed) ts) (disk\<lparr>dk_kernel := k\<rparr>, add_mset (Removing removed) ts)"
| removes: "remove_unrecorded (at_digest artifact) disk = (r, disk') \<Longrightarrow>
     artifact_step x unpinning (disk, add_mset (Removing (artifact # removed)) ts) (disk', add_mset (Removing removed) ts)"
| collected: "artifact_step x unpinning (disk, add_mset (Removing []) ts) (disk, ts)"
| pins: "database_pin digest (dk_kernel disk) = (r, k) \<Longrightarrow>
     artifact_step x unpinning (disk, ts) (disk\<lparr>dk_kernel := k\<rparr>, ts)"
| unpins: "unpinning \<Longrightarrow> database_unpin digest (dk_kernel disk) = (r, k) \<Longrightarrow>
     artifact_step x unpinning (disk, ts) (disk\<lparr>dk_kernel := k\<rparr>, ts)"

inductive_cases artifact_stepE: "artifact_step x unpinning s t"

text \<open>
  The invariant: the files are regular, the rows well formed, a put records the digest of its
  bytes, and every recorded artifact is in the tree, or a put of its bytes will store it again.
\<close>

definition restoring :: "ext \<Rightarrow> task multiset \<Rightarrow> string \<Rightarrow> bool" where
  "restoring x ts hex \<longleftrightarrow> (\<exists>bytes. Restoring bytes \<in># ts \<and> digest_str (digest_of x bytes) = hex)"

definition readable :: "ext \<Rightarrow> tree \<Rightarrow> string \<Rightarrow> bool" where
  "readable x files hex \<longleftrightarrow> (\<exists>bytes. store_get x (Digest hex) files = Inr bytes)"

definition artifacts_safe :: "ext \<Rightarrow> disk \<times> task multiset \<Rightarrow> bool" where
  "artifacts_safe x s \<longleftrightarrow>
     regular_files (dk_files (fst s)) \<and> artifacts_ok (dk_kernel (fst s))
     \<and> (\<forall>bytes media digest. Recording bytes media digest \<in># snd s \<longrightarrow> digest = digest_of x bytes)
     \<and> (\<forall>row\<in>set (k_artifacts (dk_kernel (fst s))).
          readable x (dk_files (fst s)) (ar_digest row) \<or> restoring x (snd s) (ar_digest row))"

lemma artifacts_safeI:
  assumes "artifacts_safe x (disk, ts)"
    and "regular_files (dk_files disk')" and "artifacts_ok (dk_kernel disk')"
    and "\<And>bytes media digest. Recording bytes media digest \<in># ts' \<Longrightarrow>
           Recording bytes media digest \<in># ts \<or> digest = digest_of x bytes"
    and "\<And>row. row \<in> set (k_artifacts (dk_kernel disk')) \<Longrightarrow>
           readable x (dk_files disk') (ar_digest row) \<or> restoring x ts' (ar_digest row)"
  shows "artifacts_safe x (disk', ts')"
  using assms unfolding artifacts_safe_def fst_conv snd_conv by metis

lemma store_step_effect:
  assumes "regular_files (dk_files disk)" and "store_step x bytes disk = (r, disk')"
  shows "r = Inr (digest_of x bytes) \<and> dk_kernel disk' = dk_kernel disk \<and> regular_files (dk_files disk')
    \<and> readable x (dk_files disk') (digest_str (digest_of x bytes))
    \<and> (\<forall>hex. readable x (dk_files disk) hex \<longrightarrow> readable x (dk_files disk') hex)"
proof -
  obtain r0 files where put: "store_put x bytes (dk_files disk) = (r0, files)"
    and r: "r = map_err ArtifactError r0" "disk' = disk\<lparr>dk_files := files\<rparr>"
    using assms(2) by (auto simp: store_step_def split: prod.splits)
  from store_put_effect[OF assms(1) put] r show ?thesis by (auto simp: readable_def)
qed

lemma restoring_more: "restoring x ts hex \<Longrightarrow> restoring x (add_mset t ts) hex"
  by (auto simp: restoring_def)

lemma restoring_less: "restoring x (add_mset t ts) hex \<Longrightarrow> (\<And>bytes. t \<noteq> Restoring bytes) \<Longrightarrow> restoring x ts hex"
  by (auto simp: restoring_def)

lemma artifacts_safe_store:
  assumes safe: "artifacts_safe x (disk, add_mset t ts)" and st: "store_step x bytes disk = (r, disk')"
    and t: "t = Storing bytes media \<or> t = Restoring bytes"
  shows "artifacts_safe x (disk', ts)
    \<and> (\<forall>digest. r = Inr digest \<longrightarrow> artifacts_safe x (disk', add_mset (Recording bytes media digest) ts))"
proof -
  have regular: "regular_files (dk_files disk)" using safe by (simp add: artifacts_safe_def)
  note e = store_step_effect[OF regular st]
  have rows: "readable x (dk_files disk') (ar_digest row) \<or> restoring x ts (ar_digest row)"
    if "row \<in> set (k_artifacts (dk_kernel disk'))" for row
  proof -
    have "readable x (dk_files disk) (ar_digest row) \<or> restoring x (add_mset t ts) (ar_digest row)"
      using safe that e by (auto simp: artifacts_safe_def)
    moreover have "restoring x (add_mset t ts) (ar_digest row) \<Longrightarrow>
        readable x (dk_files disk') (ar_digest row) \<or> restoring x ts (ar_digest row)"
      using t e by (auto simp: restoring_def)
    ultimately show ?thesis using e by blast
  qed
  have ok: "artifacts_ok (dk_kernel disk')" using safe e by (simp add: artifacts_safe_def)
  have regular': "regular_files (dk_files disk')" using e by blast
  have "artifacts_safe x (disk', ts)"
    by (rule artifacts_safeI[OF safe regular' ok]) (simp_all add: rows)
  moreover have "artifacts_safe x (disk', add_mset (Recording bytes media digest) ts)" if "r = Inr digest" for digest
    by (rule artifacts_safeI[OF safe regular' ok]) (use rows restoring_more that e in fastforce)+
  ultimately show ?thesis by blast
qed

lemma artifacts_safe_record:
  assumes law: "lawful_sha x" and safe: "artifacts_safe x (disk, add_mset (Recording bytes media digest) ts)"
    and st: "record_step d digest bytes media disk = (r, disk')"
  shows "(case r of Inl _ \<Rightarrow> artifacts_safe x (disk', ts)
    | Inr _ \<Rightarrow> artifacts_safe x (disk', add_mset (Restoring bytes) ts))"
proof -
  obtain k where w: "db_write (record_artifact d digest (put_size bytes) media) (dk_kernel disk) = (r, k)"
    and disk': "disk' = disk\<lparr>dk_kernel := k\<rparr>"
    using st by (auto simp: record_step_def split: prod.splits)
  have ok: "artifacts_ok (dk_kernel disk)" and regular: "regular_files (dk_files disk)"
    and digest: "digest = digest_of x bytes" using safe by (auto simp: artifacts_safe_def)
  have was: "readable x (dk_files disk) (ar_digest row) \<or> restoring x ts (ar_digest row)"
    if "row \<in> set (k_artifacts (dk_kernel disk))" for row
    using safe that restoring_less[of x "Recording bytes media digest" ts] by (auto simp: artifacts_safe_def)
  show ?thesis
  proof (cases r)
    case (Inl e)
    then have "k = dk_kernel disk" using w by (simp add: db_write_Inl)
    then have "disk' = disk" by (simp add: disk')
    then have "artifacts_safe x (disk', ts)"
      using ok regular was by (intro artifacts_safeI[OF safe]) simp_all
    then show ?thesis using Inl by simp
  next
    case (Inr u)
    then have "record_artifact d digest (put_size bytes) media (dk_kernel disk) = Inr (u, k)"
      using w by (simp add: db_write_Inr)
    moreover have "digest_parse (digest_str digest) = Inr digest" using digest_of_parses[OF law] digest by simp
    moreover have "0 \<le> put_size bytes" by (simp add: put_size_def I64_MAX_def)
    ultimately have k: "artifacts_ok k" "k_artifacts k = k_artifacts (dk_kernel disk)
        \<or> (\<exists>row. k_artifacts k = k_artifacts (dk_kernel disk) @ [row] \<and> ar_digest row = digest_str digest)"
      using record_artifact_Inr[OF ok, of digest "put_size bytes" d media u k] by auto
    have "restoring x (add_mset (Restoring bytes) ts) (digest_str digest)"
      using digest by (auto simp: restoring_def)
    then have "readable x (dk_files disk) (ar_digest row) \<or> restoring x (add_mset (Restoring bytes) ts) (ar_digest row)"
      if "row \<in> set (k_artifacts k)" for row
    proof (cases "ar_digest row = digest_str digest")
      case False
      then have "row \<in> set (k_artifacts (dk_kernel disk))" using that k(2) by auto
      from was[OF this] show ?thesis using restoring_more by blast
    qed (use \<open>restoring x (add_mset (Restoring bytes) ts) (digest_str digest)\<close> in simp)
    then have "artifacts_safe x (disk', add_mset (Restoring bytes) ts)"
      using k(1) regular by (intro artifacts_safeI[OF safe]) (auto simp: disk')
    then show ?thesis using Inr by simp
  qed
qed

lemma artifacts_safe_kernel:
  assumes safe: "artifacts_safe x (disk, ts)" and "artifacts_ok k"
    and "ar_digest ` set (k_artifacts k) \<subseteq> ar_digest ` set (k_artifacts (dk_kernel disk))"
    and tasks: "\<And>bytes. Restoring bytes \<in># ts \<Longrightarrow> Restoring bytes \<in># ts'"
      "\<And>bytes media digest. Recording bytes media digest \<in># ts' \<Longrightarrow> Recording bytes media digest \<in># ts"
  shows "artifacts_safe x (disk\<lparr>dk_kernel := k\<rparr>, ts')"
proof (rule artifacts_safeI[OF safe])
  fix row assume "row \<in> set (k_artifacts (dk_kernel (disk\<lparr>dk_kernel := k\<rparr>)))"
  then obtain old where "old \<in> set (k_artifacts (dk_kernel disk))" "ar_digest old = ar_digest row"
    using assms(3) by (auto simp: subset_iff image_iff)
  then have "readable x (dk_files disk) (ar_digest row) \<or> restoring x ts (ar_digest row)"
    using safe unfolding artifacts_safe_def by force
  then show "readable x (dk_files (disk\<lparr>dk_kernel := k\<rparr>)) (ar_digest row) \<or> restoring x ts' (ar_digest row)"
    using tasks(1) by (auto simp: restoring_def)
qed (use assms in \<open>auto simp: artifacts_safe_def\<close>)

lemma remove_unrecorded_effect:
  assumes "regular_files (dk_files disk)" and "remove_unrecorded digest disk = (r, disk')"
  shows "r = Inr () \<and> dk_kernel disk' = dk_kernel disk \<and> regular_files (dk_files disk')
    \<and> (\<forall>hex. hex \<noteq> digest_str digest \<or> artifact_recorded digest (dk_kernel disk) \<longrightarrow>
         store_get x (Digest hex) (dk_files disk') = store_get x (Digest hex) (dk_files disk))"
proof (cases "artifact_recorded digest (dk_kernel disk)")
  case True
  with assms show ?thesis by (auto simp: remove_unrecorded_def)
next
  case False
  then obtain r0 files where rem: "store_remove digest (dk_files disk) = (r0, files)"
    and r: "r = map_err ArtifactError r0" "disk' = disk\<lparr>dk_files := files\<rparr>"
    using assms(2) by (auto simp: remove_unrecorded_def split: prod.splits)
  note e = store_remove_effect[OF assms(1) rem]
  have "store_get x (Digest hex) files = store_get x (Digest hex) (dk_files disk)"
    if "hex \<noteq> digest_str digest" for hex
  proof -
    have "Digest hex \<noteq> digest" using that by auto
    then show ?thesis using e store_get_other by simp
  qed
  moreover have "regular_files files" using e by blast
  ultimately show ?thesis using False conjunct1[OF e] r by simp
qed

text \<open>What a step keeps: an artifact with a pin keeps its row, and its pins where nothing unpins.\<close>

definition pins_kept :: "bool \<Rightarrow> disk \<times> task multiset \<Rightarrow> disk \<times> task multiset \<Rightarrow> bool" where
  "pins_kept unpinning s t \<longleftrightarrow> (\<not> unpinning \<longrightarrow>
     (\<forall>row\<in>set (k_artifacts (dk_kernel (fst s))). 0 < ar_pins row \<longrightarrow>
        (\<exists>new\<in>set (k_artifacts (dk_kernel (fst t))). ar_digest new = ar_digest row
           \<and> ar_bytes new = ar_bytes row \<and> ar_media new = ar_media row \<and> ar_pins row \<le> ar_pins new)))"

lemma pins_kept_kernel:
  assumes "set (k_artifacts (dk_kernel (fst s))) \<subseteq> set (k_artifacts (dk_kernel (fst t))) \<union> {row. ar_pins row = 0}"
  shows "pins_kept unpinning s t"
  unfolding pins_kept_def
proof (intro impI ballI)
  fix row assume "row \<in> set (k_artifacts (dk_kernel (fst s)))" "0 < ar_pins row"
  then have "row \<in> set (k_artifacts (dk_kernel (fst t)))" using assms by auto
  then show "\<exists>new\<in>set (k_artifacts (dk_kernel (fst t))). ar_digest new = ar_digest row
      \<and> ar_bytes new = ar_bytes row \<and> ar_media new = ar_media row \<and> ar_pins row \<le> ar_pins new" by auto
qed

lemma pins_kept_trans: "pins_kept u r s \<Longrightarrow> pins_kept u s t \<Longrightarrow> pins_kept u r t"
  unfolding pins_kept_def by (metis order.trans order_less_le_trans)

lemma database_repin_effect:
  assumes ok: "artifacts_ok k" and r: "db_write (repin digest change) k = (r, k')"
  shows "artifacts_ok k' \<and> ar_digest ` set (k_artifacts k') = ar_digest ` set (k_artifacts k)
    \<and> (0 \<le> change \<longrightarrow> (\<forall>row\<in>set (k_artifacts k). \<exists>new\<in>set (k_artifacts k'). ar_digest new = ar_digest row
           \<and> ar_bytes new = ar_bytes row \<and> ar_media new = ar_media row \<and> ar_pins row \<le> ar_pins new))"
proof (cases r)
  case (Inl e)
  with r have "k' = k" by (simp add: db_write_Inl)
  with ok show ?thesis by auto
next
  case (Inr u)
  with r have "repin digest change k = Inr (u, k')" by (simp add: db_write_Inr)
  note e = repin_Inr[OF ok this]
  then have digests: "ar_digest ` set (k_artifacts k') = ar_digest ` set (k_artifacts k)"
    by (metis list.set_map)
  have k': "k_artifacts k' = map (\<lambda>row. if ar_digest row = digest_str digest
      then row\<lparr>ar_pins := ar_pins row + change\<rparr> else row) (k_artifacts k)" using e by auto
  have "\<exists>new\<in>set (k_artifacts k'). ar_digest new = ar_digest row \<and> ar_bytes new = ar_bytes row
      \<and> ar_media new = ar_media row \<and> ar_pins row \<le> ar_pins new"
    if "0 \<le> change" "row \<in> set (k_artifacts k)" for row
    using that unfolding k' set_map bex_simps by (intro bexI[of _ row]) auto
  with e digests show ?thesis by blast
qed

lemma delete_rows_effect:
  assumes "delete_rows listed k = (r, k')"
  shows "\<exists>removed. r = Inr removed \<and> set removed \<subseteq> set listed
    \<and> k' = k\<lparr>k_artifacts := filter (\<lambda>row. \<not> (ar_pins row = 0
        \<and> ar_digest row \<in> (digest_str \<circ> at_digest) ` set listed)) (k_artifacts k)\<rparr>"
proof -
  obtain removed where "delete_unpinned listed k = (removed, k')" "r = Inr removed"
    using assms by (cases "delete_unpinned listed k") (auto simp: delete_rows_def db_write_def)
  then show ?thesis using delete_unpinned_effect by blast
qed

lemma artifact_step_safe:
  assumes law: "lawful_sha x" and safe: "artifacts_safe x s" and st: "artifact_step x unpinning s t"
  shows "artifacts_safe x t \<and> pins_kept unpinning s t"
  using st
proof cases
  case (starts_put disk ts bytes media)
  then show ?thesis
    using safe by (auto simp: artifacts_safe_def restoring_def intro: pins_kept_kernel)
next
  case (stores bytes disk digest disk' media ts)
  have regular: "regular_files (dk_files disk)" using safe stores(1) by (simp add: artifacts_safe_def)
  note e = store_step_effect[OF regular stores(3)]
  have "pins_kept unpinning s t" by (rule pins_kept_kernel) (simp add: stores(1,2) e)
  then show ?thesis
    using artifacts_safe_store[OF safe[unfolded stores(1)] stores(3)] by (simp add: stores(2))
next
  case (store_fails bytes disk e disk' media ts)
  have regular: "regular_files (dk_files disk)" using safe store_fails(1) by (simp add: artifacts_safe_def)
  note e = store_step_effect[OF regular store_fails(3)]
  have "pins_kept unpinning s t" by (rule pins_kept_kernel) (simp add: store_fails(1,2) e)
  then show ?thesis
    using artifacts_safe_store[OF safe[unfolded store_fails(1)] store_fails(3)] by (simp add: store_fails(2))
next
  case (stores_again bytes disk r disk' ts)
  have regular: "regular_files (dk_files disk)" using safe stores_again(1) by (simp add: artifacts_safe_def)
  note e = store_step_effect[OF regular stores_again(3)]
  have "pins_kept unpinning s t" by (rule pins_kept_kernel) (simp add: stores_again(1,2) e)
  then show ?thesis
    using artifacts_safe_store[OF safe[unfolded stores_again(1)] stores_again(3)] by (simp add: stores_again(2))
next
  case (collected disk ts)
  then show ?thesis
    using safe by (auto simp: artifacts_safe_def restoring_def intro: pins_kept_kernel)
next
  case (lists disk listed ts)
  then show ?thesis
    using safe by (auto simp: artifacts_safe_def restoring_def intro: pins_kept_kernel)
next
  case (records d digest bytes media disk u disk' ts)
  note e = artifacts_safe_record[OF law safe[unfolded records(1)] records(3)]
  have "set (k_artifacts (dk_kernel disk)) \<subseteq> set (k_artifacts (dk_kernel disk'))"
    using records(3) by (auto simp: record_step_def db_write_def record_artifact_def Let_def results
        split: prod.splits sum.splits if_splits)
  then show ?thesis using e records by (auto intro!: pins_kept_kernel)
next
  case (record_fails d digest bytes media disk e disk' ts)
  note e = artifacts_safe_record[OF law safe[unfolded record_fails(1)] record_fails(3)]
  have "disk' = disk" using record_fails(3) by (auto simp: record_step_def results split: prod.splits)
  then show ?thesis using e record_fails by (auto intro!: pins_kept_kernel)
next
  case (deletes listed disk removed k ts)
  obtain P where k: "k = dk_kernel disk\<lparr>k_artifacts := filter P (k_artifacts (dk_kernel disk))\<rparr>"
      "\<forall>row. \<not> P row \<longrightarrow> ar_pins row = 0"
    using delete_rows_effect[OF deletes(3)] by auto
  have "artifacts_ok (dk_kernel disk)" using safe deletes(1) by (simp add: artifacts_safe_def)
  then have "artifacts_ok k" unfolding k by (rule artifacts_ok_filter)
  then have "artifacts_safe x (disk\<lparr>dk_kernel := k\<rparr>, add_mset (Removing removed) ts)"
    by (rule artifacts_safe_kernel[OF safe[unfolded deletes(1)]]) (auto simp: k)
  then show ?thesis using k deletes(1,2) by (auto intro!: pins_kept_kernel)
next
  case (removes artifact disk r disk' removed ts)
  have regular: "regular_files (dk_files disk)" using safe removes(1) by (simp add: artifacts_safe_def)
  note e = remove_unrecorded_effect[OF regular removes(3)]
  have kept: "readable x (dk_files disk') (ar_digest row) = readable x (dk_files disk) (ar_digest row)"
    if "row \<in> set (k_artifacts (dk_kernel disk))" for row
    using e that unfolding readable_def artifact_recorded_iff image_iff by metis
  have "artifacts_safe x (disk', add_mset (Removing removed) ts)"
    using safe e kept removes(1) by (auto simp: artifacts_safe_def restoring_def)
  then show ?thesis using e removes(1,2) by (auto intro!: pins_kept_kernel)
next
  case (pins digest disk r k ts)
  have ok: "artifacts_ok (dk_kernel disk)" using safe pins(1) by (simp add: artifacts_safe_def)
  note e = database_repin_effect[OF ok pins(3)[unfolded database_pin_def pin_def]]
  have "artifacts_safe x (disk\<lparr>dk_kernel := k\<rparr>, ts)"
    by (rule artifacts_safe_kernel[OF safe[unfolded pins(1)]]) (use e in auto)
  then show ?thesis using e pins(1,2) by (auto simp: pins_kept_def)
next
  case (unpins digest disk r k ts)
  have ok: "artifacts_ok (dk_kernel disk)" using safe unpins(1) by (simp add: artifacts_safe_def)
  note e = database_repin_effect[OF ok unpins(4)[unfolded database_unpin_def unpin_def]]
  have "artifacts_safe x (disk\<lparr>dk_kernel := k\<rparr>, ts)"
    by (rule artifacts_safe_kernel[OF safe[unfolded unpins(1)]]) (use e in auto)
  then show ?thesis using unpins(2,3) by (auto simp: pins_kept_def)
qed

interpretation artifact_runs:
  step_system "artifact_step x unpinning" "\<lambda>s. lawful_sha x \<and> artifacts_safe x s" "pins_kept unpinning"
  for x unpinning
proof unfold_locales
  show "pins_kept unpinning s s" for s by (rule pins_kept_kernel) simp
qed (use artifact_step_safe pins_kept_trans in blast)+

lemma readable_get:
  "readable x (dk_files disk) hex \<Longrightarrow>
     \<exists>bytes. get x (Digest hex) disk = Inr bytes \<and> digest_of x bytes = Digest hex"
  by (auto simp: readable_def get_def store_get_def Let_def split: option.splits entry.splits if_splits)

lemma checked_readable:
  assumes "artifacts_ok (dk_kernel disk)"
    and "\<forall>row\<in>set (k_artifacts (dk_kernel disk)). readable x (dk_files disk) (ar_digest row)"
  shows "check_artifacts x disk
    = Inr \<lparr>ac_recorded = length (k_artifacts (dk_kernel disk)), ac_missing = [], ac_damaged = []\<rparr>"
proof -
  let ?hexes = "sort (map ar_digest (k_artifacts (dk_kernel disk)))"
  have "digest_column hex 0 = Inr (Digest hex)" if "hex \<in> set ?hexes" for hex
    using assms(1) that by (auto simp: artifacts_ok_def list_all_iff artifact_row_ok_def digest_column_def)
  then have "collect_results (map (\<lambda>hex. digest_column hex 0) ?hexes) = Inr (map Digest ?hexes)"
    by (rule collect_results_map_Inr)
  moreover have "\<exists>bytes. store_get x digest (dk_files disk) = Inr bytes" if "digest \<in> set (map Digest ?hexes)" for digest
    using assms(2) that by (auto simp: readable_def)
  then have "filter (\<lambda>digest. store_get x digest (dk_files disk) = Inl (MissingArtifact digest)) (map Digest ?hexes) = []"
      "filter (\<lambda>digest. isl (store_get x digest (dk_files disk))
        \<and> store_get x digest (dk_files disk) \<noteq> Inl (MissingArtifact digest)) (map Digest ?hexes) = []"
    unfolding filter_empty_conv by force+
  ultimately show ?thesis by (simp add: check_artifacts_def)
qed

text \<open>A put, and a collection, with no other call in between is a run of these steps.\<close>

lemma put_run:
  assumes "put x d bytes media disk = (r, disk')"
  shows "(artifact_step x unpinning)\<^sup>*\<^sup>* (disk, ts) (disk', ts)"
proof -
  have start: "artifact_step x unpinning (disk, ts) (disk, add_mset (Storing bytes media) ts)" by (rule starts_put)
  obtain r1 disk1 where st: "store_step x bytes disk = (r1, disk1)" by fastforce
  show ?thesis
  proof (cases r1)
    case (Inl e)
    then have "disk' = disk1" using assms st by (simp add: put_def)
    then show ?thesis using start store_fails[of x bytes disk e disk1 unpinning media ts] st Inl by auto
  next
    case (Inr digest)
    then have s1: "artifact_step x unpinning (disk, add_mset (Storing bytes media) ts)
        (disk1, add_mset (Recording bytes media digest) ts)" using st by (auto intro: stores)
    obtain r2 disk2 where rec: "record_step d digest bytes media disk1 = (r2, disk2)" by fastforce
    show ?thesis
    proof (cases r2)
      case (Inl e)
      then have "disk' = disk2" using assms st Inr rec by (simp add: put_def record_then_store_def)
      moreover have "artifact_step x unpinning (disk1, add_mset (Recording bytes media digest) ts) (disk2, ts)"
        using rec Inl by (auto intro: record_fails)
      ultimately show ?thesis using start s1 by (meson converse_rtranclp_into_rtranclp rtranclp.rtrancl_refl)
    next
      case (Inr u)
      then have s2: "artifact_step x unpinning (disk1, add_mset (Recording bytes media digest) ts)
          (disk2, add_mset (Restoring bytes) ts)" using rec by (auto intro: records)
      obtain r3 disk3 where st3: "store_step x bytes disk2 = (r3, disk3)" by fastforce
      have "disk' = disk3"
        using assms st \<open>r1 = Inr digest\<close> rec Inr st3
        by (auto simp: put_def record_then_store_def split: sum.splits)
      moreover have "artifact_step x unpinning (disk2, add_mset (Restoring bytes) ts) (disk3, ts)"
        using st3 by (rule stores_again)
      ultimately show ?thesis using start s1 s2 by (meson converse_rtranclp_into_rtranclp rtranclp.rtrancl_refl)
    qed
  qed
qed

lemma remove_files_run:
  "remove_files removed failed disk = (r, disk') \<Longrightarrow>
     (artifact_step x unpinning)\<^sup>*\<^sup>* (disk, add_mset (Removing removed) ts) (disk', ts)"
proof (induction removed arbitrary: failed disk)
  case Nil
  then show ?case by (auto intro: collected)
next
  case (Cons a removed)
  obtain r1 disk1 where one: "remove_unrecorded (at_digest a) disk = (r1, disk1)" by fastforce
  then have "artifact_step x unpinning (disk, add_mset (Removing (a # removed)) ts) (disk1, add_mset (Removing removed) ts)"
    by (rule removes)
  moreover have "(artifact_step x unpinning)\<^sup>*\<^sup>* (disk1, add_mset (Removing removed) ts) (disk', ts)"
    using Cons.prems one by (auto intro: Cons.IH)
  ultimately show ?case by (rule converse_rtranclp_into_rtranclp)
qed

lemma collect_garbage_run:
  assumes "collect_garbage disk = (r, disk')"
  shows "(artifact_step x unpinning)\<^sup>*\<^sup>* (disk, ts) (disk', ts)"
proof (cases "garbage (dk_kernel disk)")
  case (Inl e)
  then show ?thesis using assms by (simp add: collect_garbage_def)
next
  case (Inr listed)
  obtain removed k where del: "delete_rows listed (dk_kernel disk) = (Inr removed, k)"
    using delete_rows_effect[of listed "dk_kernel disk"] by (cases "delete_rows listed (dk_kernel disk)") auto
  obtain failed where "remove_files removed None (disk\<lparr>dk_kernel := k\<rparr>) = (failed, disk')"
    using assms Inr del by (auto simp: collect_garbage_def split: prod.splits option.splits)
  from remove_files_run[OF this] lists[OF Inr] deletes[OF del] show ?thesis
    by (meson converse_rtranclp_into_rtranclp)
qed

text \<open>A database just made, without an artifact, and one with an artifact put in it.\<close>

definition empty_disk :: disk where
  "empty_disk = \<lparr>dk_kernel = empty_kernel, dk_files = Map.empty\<rparr>"

definition sample_disk :: disk where
  "sample_disk = snd (put sample \<lparr>d_job = 0, d_event = (\<lambda>_. 0), d_event_time = (\<lambda>_. ''now''), d_now = ''now''\<rparr>
     ''bytes'' ''text/plain'' empty_disk)"

lemma empty_disk_safe: "artifacts_safe x (empty_disk, {#})"
  by (simp add: artifacts_safe_def empty_disk_def empty_kernel_def regular_files_def artifacts_ok_def)

lemma lawful_sha_sample: "lawful_sha sample"
  using lawful_sample by (simp add: lawful_def)

lemma sample_disk_run: "(artifact_step sample unpinning)\<^sup>*\<^sup>* (empty_disk, ts) (sample_disk, ts)"
  unfolding sample_disk_def by (rule put_run) (rule prod.collapse[symmetric])

lemma sample_disk_safe: "artifacts_safe sample (sample_disk, {#})"
  using artifact_runs.run_inv[OF sample_disk_run] empty_disk_safe lawful_sha_sample by blast

text \<open>One artifact, of the bytes given, with its pins.\<close>

definition one_artifact :: "ext \<Rightarrow> string \<Rightarrow> int \<Rightarrow> disk" where
  "one_artifact x bytes pins =
     \<lparr>dk_kernel = empty_kernel\<lparr>k_artifacts := [\<lparr>ar_digest = digest_str (digest_of x bytes),
          ar_bytes = put_size bytes, ar_media = ''text/plain'', ar_pins = pins, ar_created_at = ''now''\<rparr>]\<rparr>,
      dk_files = [artifact_path (digest_of x bytes) \<mapsto> RegularFile bytes]\<rparr>"

lemma one_artifact_safe:
  assumes "lawful_sha x" and "0 \<le> pins" and "pins \<le> I64_MAX"
  shows "artifacts_safe x (one_artifact x bytes pins, {#})"
proof -
  have "Digest (digest_str digest) = digest" for digest by (cases digest) simp
  then show ?thesis
    using assms digest_of_parses[OF assms(1), of bytes]
    by (auto simp: artifacts_safe_def one_artifact_def empty_kernel_def regular_files_def artifacts_ok_def
        artifact_row_ok_def readable_def store_get_def put_size_def I64_MAX_def split: if_splits)
qed

section \<open>Properties\<close>

text \<open>
  C2: however many puts and collections of however many processes interleave, pins and unpins
  between them, every artifact the database records can be read back whole once no put is about
  to store its bytes again, and a check of the tree then finds nothing missing and nothing damaged.
\<close>

theorem recorded_artifacts_readable:
  assumes "lawful_sha x" and "artifacts_safe x (disk, ts)"
    and "(artifact_step x unpinning)\<^sup>*\<^sup>* (disk, ts) (disk', ts')"
    and "\<forall>bytes. Restoring bytes \<notin># ts'"
  shows "check_artifacts x disk'
      = Inr \<lparr>ac_recorded = length (k_artifacts (dk_kernel disk')), ac_missing = [], ac_damaged = []\<rparr>
    \<and> (\<forall>row\<in>set (k_artifacts (dk_kernel disk')).
         \<exists>bytes. get x (Digest (ar_digest row)) disk' = Inr bytes \<and> digest_of x bytes = Digest (ar_digest row))"
proof -
  have "artifacts_safe x (disk', ts')" using artifact_runs.run_inv[OF assms(3)] assms(1,2) by blast
  then have "artifacts_ok (dk_kernel disk')"
      "\<forall>row\<in>set (k_artifacts (dk_kernel disk')). readable x (dk_files disk') (ar_digest row)"
    using assms(4) by (auto simp: artifacts_safe_def restoring_def)
  then show ?thesis using checked_readable readable_get by blast
qed

lemma recorded_artifacts_readable_witness:
  "check_artifacts sample sample_disk
     = Inr \<lparr>ac_recorded = length (k_artifacts (dk_kernel sample_disk)), ac_missing = [], ac_damaged = []\<rparr>"
  using recorded_artifacts_readable[OF lawful_sha_sample empty_disk_safe sample_disk_run] by simp

text \<open>
  C6: an artifact with a pin is never collected: whatever puts and collections run, as long as
  nothing unpins it keeps its row, its media type, its size and at least its pins, and its bytes can be
  read unless a put is about to store them again.
\<close>

theorem pinned_never_collected:
  assumes "lawful_sha x" and "artifacts_safe x (disk, ts)"
    and "(artifact_step x False)\<^sup>*\<^sup>* (disk, ts) (disk', ts')"
    and "row \<in> set (k_artifacts (dk_kernel disk))" and "0 < ar_pins row"
  shows "\<exists>new\<in>set (k_artifacts (dk_kernel disk')). ar_digest new = ar_digest row \<and> ar_bytes new = ar_bytes row
    \<and> ar_media new = ar_media row \<and> ar_pins row \<le> ar_pins new
    \<and> ((\<exists>bytes. get x (Digest (ar_digest row)) disk' = Inr bytes) \<or> restoring x ts' (ar_digest row))"
proof -
  have safe: "artifacts_safe x (disk', ts')" and kept: "pins_kept False (disk, ts) (disk', ts')"
    using artifact_runs.run_inv[OF assms(3)] assms(1,2) by blast+
  obtain new where "new \<in> set (k_artifacts (dk_kernel disk'))" "ar_digest new = ar_digest row"
      "ar_bytes new = ar_bytes row" "ar_media new = ar_media row" "ar_pins row \<le> ar_pins new"
    using kept assms(4,5) by (auto simp: pins_kept_def)
  moreover from this have "readable x (dk_files disk') (ar_digest row) \<or> restoring x ts' (ar_digest row)"
    using safe by (force simp: artifacts_safe_def)
  ultimately show ?thesis using readable_get by blast
qed

lemma pinned_never_collected_witness:
  "\<exists>new\<in>set (k_artifacts (dk_kernel (snd (collect_garbage (one_artifact sample ''b'' 1))))).
     ar_digest new = digest_str (digest_of sample ''b'') \<and> 1 \<le> ar_pins new"
proof -
  have safe: "artifacts_safe sample (one_artifact sample ''b'' 1, {#})"
    using one_artifact_safe[OF lawful_sha_sample] by (simp add: I64_MAX_def)
  have run: "(artifact_step sample False)\<^sup>*\<^sup>* (one_artifact sample ''b'' 1, {#})
      (snd (collect_garbage (one_artifact sample ''b'' 1)), {#})"
    by (rule collect_garbage_run) (rule prod.collapse[symmetric])
  let ?row = "hd (k_artifacts (dk_kernel (one_artifact sample ''b'' 1)))"
  have row: "?row \<in> set (k_artifacts (dk_kernel (one_artifact sample ''b'' 1)))" "0 < ar_pins ?row"
      "ar_digest ?row = digest_str (digest_of sample ''b'')" "ar_pins ?row = 1"
    by (simp_all add: one_artifact_def)
  from pinned_never_collected[OF lawful_sha_sample safe run row(1,2)] show ?thesis
    unfolding row(3,4) by blast
qed

text \<open>
  A put names its bytes by their digest: recorded before under the same media type they keep
  their row and their file, under another the put is refused with both types, and otherwise they are
  recorded without a pin and the file is in place; nothing else changes.
\<close>

theorem put_exact:
  assumes law: "lawful_sha x" and safe: "artifacts_safe x (disk, {#})"
  shows "put x d bytes media disk =
    (case List.find (\<lambda>row. ar_digest row = digest_str (digest_of x bytes)) (k_artifacts (dk_kernel disk)) of
       Some row \<Rightarrow>
         (if ar_media row = media then Inr (digest_of x bytes)
          else Inl (MediaConflict (digest_of x bytes) (ar_media row) media), disk)
     | None \<Rightarrow>
         (Inr (digest_of x bytes),
          \<lparr>dk_kernel = dk_kernel disk\<lparr>k_artifacts := k_artifacts (dk_kernel disk) @
              [\<lparr>ar_digest = digest_str (digest_of x bytes), ar_bytes = put_size bytes, ar_media = media,
                ar_pins = 0, ar_created_at = d_now d\<rparr>]\<rparr>,
           dk_files = (if isl (get x (digest_of x bytes) disk)
             then (dk_files disk)(artifact_path (digest_of x bytes) \<mapsto> RegularFile bytes)
             else dk_files disk)\<rparr>))"
proof -
  let ?d = "digest_of x bytes"
  define stored where "stored =
    (if isl (get x ?d disk) then (dk_files disk)(artifact_path ?d \<mapsto> RegularFile bytes) else dk_files disk)"
  have regular: "regular_files (dk_files disk)" and ok: "artifacts_ok (dk_kernel disk)"
    and reads: "\<forall>row\<in>set (k_artifacts (dk_kernel disk)). readable x (dk_files disk) (ar_digest row)"
    using safe by (auto simp: artifacts_safe_def restoring_def)
  have no_directory: "dk_files disk (artifact_path ?d) \<noteq> Some DirectoryEntry"
    using regular by (auto simp: regular_files_def)
  have isl_get: "isl (get x ?d disk) = isl (store_get x ?d (dk_files disk))"
    by (cases "store_get x ?d (dk_files disk)") (simp_all add: get_def)
  have first: "store_step x bytes disk = (Inr ?d, disk\<lparr>dk_files := stored\<rparr>)"
    using no_directory by (simp add: store_step_def store_put_def Let_def isl_get stored_def)
  have "store_get x ?d stored \<noteq> Inl e" for e
    unfolding stored_def isl_get by (cases "store_get x ?d (dk_files disk)") (simp_all add: store_get_def)
  then have "\<not> isl (store_get x ?d stored)" by (cases "store_get x ?d stored") auto
  then have again: "store_step x bytes disk' = (Inr ?d, disk')" if "dk_files disk' = stored" for disk'
    using that by (simp add: store_step_def store_put_def Let_def)
  show ?thesis
  proof (cases "List.find (\<lambda>row. ar_digest row = digest_str ?d) (k_artifacts (dk_kernel disk))")
    case None
    then have "filter (\<lambda>row. ar_digest row = digest_str ?d) (k_artifacts (dk_kernel disk)) = []"
      and "\<not> artifact_recorded ?d (dk_kernel disk)"
      by (auto simp: find_None_iff filter_empty_conv artifact_recorded_iff)
    then have "record_artifact d ?d (put_size bytes) media (dk_kernel disk)
        = Inr ((), dk_kernel disk\<lparr>k_artifacts := k_artifacts (dk_kernel disk) @
            [\<lparr>ar_digest = digest_str ?d, ar_bytes = put_size bytes, ar_media = media, ar_pins = 0,
              ar_created_at = d_now d\<rparr>]\<rparr>)"
      by (simp add: record_artifact_def)
    then show ?thesis
      using None by (simp add: put_def first record_then_store_def record_step_def db_write_def again)
        (simp add: stored_def)
  next
    case (Some row)
    have row: "row \<in> set (k_artifacts (dk_kernel disk))" "ar_digest row = digest_str ?d"
      using find_mem[OF Some] by auto
    then have rec: "artifact_recorded ?d (dk_kernel disk)" unfolding artifact_recorded_iff image_iff by metis
    have "query_row (\<lambda>row. Inr (ar_media row)) (filter (\<lambda>row. ar_digest row = digest_str ?d) rows) = Inr (ar_media row)"
      if "List.find (\<lambda>row. ar_digest row = digest_str ?d) rows = Some row" for rows
      using that by (induction rows) (auto split: if_splits)
    note read = this[OF Some]
    have "readable x (dk_files disk) (digest_str ?d)" using reads row by metis
    then have "stored = dk_files disk" by (auto simp: readable_def isl_get stored_def)
    then show ?thesis
      using Some rec read first again[of disk]
      by (simp add: put_def record_then_store_def record_step_def db_write_def record_artifact_def)
  qed
qed

lemma put_exact_witness:
  "\<forall>d. fst (put sample d ''b'' ''text/html'' (one_artifact sample ''b'' 2))
     = Inl (MediaConflict (digest_of sample ''b'') ''text/plain'' ''text/html'')
   \<and> fst (put sample d ''b'' ''text/plain'' empty_disk) = Inr (digest_of sample ''b'')"
proof
  fix d
  have safe: "artifacts_safe sample (one_artifact sample ''b'' 2, {#})"
    using one_artifact_safe[OF lawful_sha_sample] by (simp add: I64_MAX_def)
  show "fst (put sample d ''b'' ''text/html'' (one_artifact sample ''b'' 2))
     = Inl (MediaConflict (digest_of sample ''b'') ''text/plain'' ''text/html'')
   \<and> fst (put sample d ''b'' ''text/plain'' empty_disk) = Inr (digest_of sample ''b'')"
    using put_exact[OF lawful_sha_sample safe, of d "''b''" "''text/html''"]
      put_exact[OF lawful_sha_sample empty_disk_safe, of d "''b''" "''text/plain''"]
    by (simp add: one_artifact_def empty_disk_def empty_kernel_def)
qed

text \<open>A collection with no other call in between deletes every row it listed and its file.\<close>

lemma delete_all_listed:
  assumes "distinct (map at_digest listed)"
    and "\<forall>a\<in>set listed. \<exists>row\<in>set (k_artifacts k). ar_digest row = digest_str (at_digest a) \<and> ar_pins row = 0"
  shows "fst (delete_unpinned listed k) = listed"
  using assms
proof (induction listed arbitrary: k)
  case (Cons a listed)
  let ?dies = "\<lambda>row. ar_digest row = digest_str (at_digest a) \<and> ar_pins row = 0"
  let ?k = "k\<lparr>k_artifacts := filter (\<lambda>row. \<not> ?dies row) (k_artifacts k)\<rparr>"
  have "\<exists>row\<in>set (k_artifacts ?k). ar_digest row = digest_str (at_digest b) \<and> ar_pins row = 0"
    if b: "b \<in> set listed" for b
  proof -
    obtain row where "row \<in> set (k_artifacts k)" "ar_digest row = digest_str (at_digest b)" "ar_pins row = 0"
      using Cons.prems(2) b by auto
    moreover have "digest_str (at_digest b) \<noteq> digest_str (at_digest a)"
      using Cons.prems(1) b by (metis digest.expand distinct.simps(2) image_eqI list.set_map list.simps(9))
    ultimately show ?thesis by auto
  qed
  then have "fst (delete_unpinned listed ?k) = listed" using Cons by simp
  moreover have "list_ex ?dies (k_artifacts k)" using Cons.prems(2) by (auto simp: list_ex_iff)
  ultimately show ?case by (auto simp: Let_def split: prod.splits)
qed simp

lemma remove_all_files:
  assumes "regular_files (dk_files disk)" and "\<forall>a\<in>set removed. \<not> artifact_recorded (at_digest a) (dk_kernel disk)"
  shows "remove_files removed None disk = (None, disk\<lparr>dk_files := (\<lambda>path.
    if path \<in> (artifact_path \<circ> at_digest) ` set removed then None else dk_files disk path)\<rparr>)"
  using assms
proof (induction removed arbitrary: disk)
  case (Cons a removed)
  define files where "files = (dk_files disk)(artifact_path (at_digest a) := None)"
  have "dk_files disk (artifact_path (at_digest a)) \<noteq> Some DirectoryEntry"
    using Cons.prems(1) by (auto simp: regular_files_def)
  then have "remove_unrecorded (at_digest a) disk = (Inr (), disk\<lparr>dk_files := files\<rparr>)"
    using Cons.prems(2) by (simp add: remove_unrecorded_def store_remove_def files_def)
  moreover have "regular_files files" using Cons.prems(1) by (auto simp: regular_files_def files_def)
  then have "remove_files removed None (disk\<lparr>dk_files := files\<rparr>) = (None, disk\<lparr>dk_files := (\<lambda>path.
      if path \<in> (artifact_path \<circ> at_digest) ` set removed then None else files path)\<rparr>)"
    using Cons.IH[of "disk\<lparr>dk_files := files\<rparr>"] Cons.prems(2) by (simp cong: if_cong)
  moreover have "(\<lambda>path. if path \<in> (artifact_path \<circ> at_digest) ` set removed then None else files path)
      = (\<lambda>path. if path \<in> (artifact_path \<circ> at_digest) ` set (a # removed) then None else dk_files disk path)"
    by (auto simp: fun_eq_iff files_def)
  ultimately show ?case by (simp only: remove_files.simps prod.case option.case sum.case)
qed simp

text \<open>
  A collection with no other call in between removes exactly what nothing pins: the caller gets
  those artifacts in the order of their digests, their rows and their files are gone, and every
  other row and file stays.
\<close>

theorem collect_garbage_exact:
  assumes "artifacts_safe x (disk, {#})"
  shows "collect_garbage disk =
    (Inr (map the_artifact (sort_key ar_digest (filter (\<lambda>row. ar_pins row = 0) (k_artifacts (dk_kernel disk))))),
     \<lparr>dk_kernel = dk_kernel disk\<lparr>k_artifacts := filter (\<lambda>row. ar_pins row \<noteq> 0) (k_artifacts (dk_kernel disk))\<rparr>,
      dk_files = (\<lambda>path. if \<exists>row\<in>set (k_artifacts (dk_kernel disk)).
            ar_pins row = 0 \<and> path = artifact_path (Digest (ar_digest row))
          then None else dk_files disk path)\<rparr>)"
proof -
  let ?rows = "k_artifacts (dk_kernel disk)"
  let ?sorted = "sort_key ar_digest (filter (\<lambda>row. ar_pins row = 0) ?rows)"
  let ?listed = "map the_artifact ?sorted"
  have ok: "artifacts_ok (dk_kernel disk)" and regular: "regular_files (dk_files disk)"
    using assms by (auto simp: artifacts_safe_def)
  have digests: "at_digest (the_artifact row) = Digest (ar_digest row)" for row by (simp add: the_artifact_def)
  have "collect_results (map artifact_row ?sorted) = Inr ?listed"
    using ok by (intro collect_results_map_Inr artifact_row_the) (auto simp: artifacts_ok_def list_all_iff)
  then have listed: "garbage (dk_kernel disk) = Inr ?listed" by (simp add: garbage_def)
  obtain deleted k where del: "delete_unpinned ?listed (dk_kernel disk) = (deleted, k)" by fastforce
  have set: "set ?sorted = {row \<in> set ?rows. ar_pins row = 0}" by auto
  have "distinct (map ar_digest (filter (\<lambda>row. ar_pins row = 0) ?rows))"
    using ok by (simp add: artifacts_ok_def distinct_map_filter)
  then have "distinct (map ar_digest ?sorted)" by (simp add: distinct_map)
  then have "distinct (map at_digest ?listed)"
    by (simp add: comp_def digests distinct_map inj_on_def)
  then have deleted: "deleted = ?listed"
    using delete_all_listed[of ?listed "dk_kernel disk"] del by (fastforce simp: digests)
  have "k = dk_kernel disk\<lparr>k_artifacts := filter (\<lambda>row. \<not> (ar_pins row = 0
      \<and> ar_digest row \<in> (digest_str \<circ> at_digest) ` set ?listed)) ?rows\<rparr>"
    using delete_unpinned_effect[OF del] by blast
  moreover have "filter (\<lambda>row. \<not> (ar_pins row = 0 \<and> ar_digest row \<in> (digest_str \<circ> at_digest) ` set ?listed)) ?rows
      = filter (\<lambda>row. ar_pins row \<noteq> 0) ?rows"
    by (rule filter_cong) (auto simp: image_image digests)
  ultimately have k: "k = dk_kernel disk\<lparr>k_artifacts := filter (\<lambda>row. ar_pins row \<noteq> 0) ?rows\<rparr>" by simp
  have gone: "\<forall>a\<in>set ?listed. \<not> artifact_recorded (at_digest a) k"
  proof
    fix a assume "a \<in> set ?listed"
    then obtain row where row: "row \<in> set ?rows" "ar_pins row = 0" "a = the_artifact row" by auto
    have "other = row" if "other \<in> set ?rows" "ar_digest other = ar_digest row" for other
      using ok that row by (metis artifacts_ok_def same_key)
    then show "\<not> artifact_recorded (at_digest a) k"
      using row unfolding k by (auto simp: artifact_recorded_iff digests)
  qed
  have files: "(\<lambda>path. if path \<in> (artifact_path \<circ> at_digest) ` set ?listed then None else dk_files disk path)
      = (\<lambda>path. if \<exists>row\<in>set ?rows. ar_pins row = 0 \<and> path = artifact_path (Digest (ar_digest row))
           then None else dk_files disk path)"
    by (rule ext) (auto simp: image_image digests image_iff)
  have "remove_files ?listed None (disk\<lparr>dk_kernel := k\<rparr>) = (None, disk\<lparr>dk_kernel := k, dk_files := (\<lambda>path.
      if path \<in> (artifact_path \<circ> at_digest) ` set ?listed then None else dk_files disk path)\<rparr>)"
    using remove_all_files[of "disk\<lparr>dk_kernel := k\<rparr>" ?listed] regular gone by (simp cong: if_cong)
  then show ?thesis
    unfolding files
    by (simp add: collect_garbage_def listed delete_rows_def db_write_def del deleted k)
qed

lemma collect_garbage_exact_witness:
  "collect_garbage (one_artifact sample ''b'' 0) =
     (Inr [\<lparr>at_digest = digest_of sample ''b'', at_bytes = 1, at_media = ''text/plain'', at_pins = 0\<rparr>], empty_disk)
   \<and> collect_garbage (one_artifact sample ''b'' 1) = (Inr [], one_artifact sample ''b'' 1)"
proof -
  have safe: "artifacts_safe sample (one_artifact sample ''b'' 0, {#})"
      "artifacts_safe sample (one_artifact sample ''b'' 1, {#})"
    using one_artifact_safe[OF lawful_sha_sample] by (simp_all add: I64_MAX_def)
  have d: "Digest (digest_str (digest_of sample ''b'')) = digest_of sample ''b''"
    by (cases "digest_of sample ''b''") simp
  show ?thesis
    using collect_garbage_exact[OF safe(1)] collect_garbage_exact[OF safe(2)]
    by (auto simp: one_artifact_def empty_disk_def empty_kernel_def the_artifact_def put_size_def I64_MAX_def d
        fun_eq_iff)
qed

text \<open>With crashes, a task in progress ends anywhere.\<close>

definition crash_step :: "ext \<Rightarrow> disk \<times> task multiset \<Rightarrow> disk \<times> task multiset \<Rightarrow> bool" where
  "crash_step x s t \<longleftrightarrow> artifact_step x False s t \<or> (\<exists>task. s = (fst t, add_mset task (snd t)))"

text \<open>
  C26: with crashes the tree can lack a recorded artifact, which the comment of the put rules out: a
  put that finds its bytes in the tree, records them after a collection deleted their row and
  removed their file, and crashes before it stores them again, leaves a row without its artifact.
\<close>

theorem crash_leaves_a_row:
  assumes "lawful_sha x"
  shows "\<exists>disk. (crash_step x)\<^sup>*\<^sup>* (one_artifact x bytes 0, {#}) (disk, {#})
    \<and> artifact_recorded (digest_of x bytes) (dk_kernel disk)
    \<and> get x (digest_of x bytes) disk = Inl (ArtifactError (MissingArtifact (digest_of x bytes)))"
proof -
  let ?d = "digest_of x bytes" and ?m = "''text/plain''"
  let ?a = "\<lparr>at_digest = ?d, at_bytes = nat (put_size bytes), at_media = ?m, at_pins = 0\<rparr>"
  let ?disk = "one_artifact x bytes 0"
  let ?gone = "\<lparr>dk_kernel = empty_kernel, dk_files = dk_files ?disk\<rparr>"
  let ?bare = "\<lparr>dk_kernel = empty_kernel, dk_files = Map.empty\<rparr>"
  let ?row = "\<lparr>ar_digest = digest_str ?d, ar_bytes = put_size bytes, ar_media = ?m, ar_pins = 0,
      ar_created_at = []\<rparr> :: artifact_record"
  let ?left = "\<lparr>dk_kernel = empty_kernel\<lparr>k_artifacts := [?row]\<rparr>, dk_files = Map.empty\<rparr>"
  let ?draws = "\<lparr>d_job = 0, d_event = (\<lambda>_. 0), d_event_time = (\<lambda>_. []), d_now = []\<rparr>"
  note step = converse_rtranclp_into_rtranclp[of "crash_step x"]
  have size: "0 \<le> put_size bytes" by (simp add: put_size_def I64_MAX_def)
  have d: "Digest (digest_str ?d) = ?d" by (cases ?d) simp
  have "garbage (dk_kernel ?disk) = Inr [?a]"
    using digest_of_parses[OF assms, of bytes] size
    by (simp add: garbage_def one_artifact_def artifact_row_def digest_column_def unsigned_i64_def)
  then have s1: "crash_step x (?disk, {#}) (?disk, {#Deleting [?a]#})"
    by (auto simp: crash_step_def intro: lists)
  have "delete_rows [?a] (dk_kernel ?disk) = (Inr [?a], empty_kernel)"
    by (simp add: delete_rows_def db_write_def one_artifact_def empty_kernel_def)
  from deletes[OF this, of x False "{#}"] have s2: "crash_step x (?disk, {#Deleting [?a]#}) (?gone, {#Removing [?a]#})"
    by (simp add: crash_step_def one_artifact_def)
  have s3: "crash_step x (?gone, {#Removing [?a]#}) (?gone, {#Storing bytes ?m, Removing [?a]#})"
    unfolding crash_step_def by (rule disjI1) (rule starts_put)
  have "store_step x bytes ?gone = (Inr ?d, ?gone)"
    by (simp add: store_step_def store_put_def Let_def store_get_def one_artifact_def)
  from stores[OF this, of False ?m "{#Removing [?a]#}"]
  have s4: "crash_step x (?gone, {#Storing bytes ?m, Removing [?a]#}) (?gone, {#Recording bytes ?m ?d, Removing [?a]#})"
    by (simp add: crash_step_def)
  have "remove_unrecorded (at_digest ?a) ?gone = (Inr (), ?bare)"
    by (auto simp: remove_unrecorded_def artifact_recorded_def store_remove_def Let_def one_artifact_def empty_kernel_def)
  from removes[OF this, of x False "[]" "{#Recording bytes ?m ?d#}"]
  have s5: "crash_step x (?gone, {#Recording bytes ?m ?d, Removing [?a]#}) (?bare, {#Recording bytes ?m ?d, Removing []#})"
    by (simp add: crash_step_def add_mset_commute)
  have "record_step ?draws ?d bytes ?m ?bare = (Inr (), ?left)"
    by (simp add: record_step_def db_write_def record_artifact_def artifact_recorded_def empty_kernel_def)
  from records[OF this, of x False "{#Removing []#}"]
  have s6: "crash_step x (?bare, {#Recording bytes ?m ?d, Removing []#}) (?left, {#Restoring bytes, Removing []#})"
    by (simp add: crash_step_def)
  have s7: "crash_step x (?left, {#Restoring bytes, Removing []#}) (?left, {#Removing []#})"
    by (auto simp: crash_step_def)
  have s8: "crash_step x (?left, {#Removing []#}) (?left, {#})"
    by (auto simp: crash_step_def)
  have "(crash_step x)\<^sup>*\<^sup>* (?disk, {#}) (?left, {#})"
    by (rule step[OF s1], rule step[OF s2], rule step[OF s3], rule step[OF s4], rule step[OF s5],
        rule step[OF s6], rule step[OF s7], rule step[OF s8], rule rtranclp.rtrancl_refl)
  moreover have "artifact_recorded ?d (dk_kernel ?left)" by (simp add: artifact_recorded_def)
  moreover have "get x ?d ?left = Inl (ArtifactError (MissingArtifact ?d))"
    by (simp add: get_def store_get_def)
  ultimately show ?thesis by blast
qed

lemma crash_leaves_a_row_witness:
  "\<exists>disk. (crash_step sample)\<^sup>*\<^sup>* (one_artifact sample ''b'' 0, {#}) (disk, {#})
    \<and> get sample (digest_of sample ''b'') disk = Inl (ArtifactError (MissingArtifact (digest_of sample ''b'')))"
  using crash_leaves_a_row[OF lawful_sha_sample, of "''b''"] by blast

end
