(* ===== verification/Chunk_Safety.thy ===== *)
theory Chunk_Safety
  imports Chunk_Sets Artifact_Safety
begin

text \<open>
  What chunk sets promise (\<open>crates/maestro-kernel/src/chunk_set/\<close>): the invariant of their rows and
  of their pins, the exact effect of each call, and that a set is built once: retried calls
  change nothing, and a set once complete keeps its chunks and their content.
\<close>

section \<open>The states\<close>

interpretation chunk_set_states: named_enum CHUNK_SET_STATES chunk_set_state_str
proof unfold_locales
  show "v \<in> set CHUNK_SET_STATES" for v by (cases v) (simp_all add: CHUNK_SET_STATES_def)
  show "v = w" if "chunk_set_state_str v = chunk_set_state_str w" for v w
    using that by (cases v; cases w) simp_all
qed

lemma chunk_set_state_named_iff: "chunk_set_state_named s = Some v \<longleftrightarrow> chunk_set_state_str v = s"
  unfolding chunk_set_state_named_def by (rule chunk_set_states.named_iff)

lemma chunk_set_state_names [simp]:
  "chunk_set_state_named ''building'' = Some SetBuilding"
  "chunk_set_state_named ''complete'' = Some SetComplete"
  "chunk_set_state_named ''failed'' = Some SetFailed"
  by (simp_all add: chunk_set_state_named_iff)

section \<open>The rows\<close>

definition set_row_ok :: "chunk_set_record \<Rightarrow> bool" where
  "set_row_ok row \<longleftrightarrow>
     cs_state row \<in> {''building'', ''failed''} \<and> cs_manifest row = None
     \<or> cs_state row = ''complete''
       \<and> (\<exists>hex. cs_manifest row = Some hex \<and> digest_parse hex = Inr (Digest hex))"

definition chunk_row_ok :: "chunk_record \<Rightarrow> bool" where
  "chunk_row_ok row \<longleftrightarrow>
     digest_parse (ch_digest row) = Inr (Digest (ch_digest row))
     \<and> 0 \<le> ch_tokens row \<and> 0 \<le> ch_start row \<and> ch_start row \<le> ch_end row"

definition sets_ok :: "chunk_set_record list \<Rightarrow> bool" where
  "sets_ok rows \<longleftrightarrow> distinct (map cs_id rows) \<and> list_all set_row_ok rows"

definition chunks_ok :: "kernel \<Rightarrow> bool" where
  "chunks_ok k \<longleftrightarrow>
     distinct (map (\<lambda>row. (ch_set row, ch_id row)) (k_chunks k))
     \<and> list_all (\<lambda>row. chunk_row_ok row \<and> document_of k (ch_revision row) \<noteq> None) (k_chunks k)"

text \<open>
  How many rows refer to an artifact, and the pins that keep it for them. \<open>U\<close> are the artifacts some
  caller of \<open>Database::unpin\<close> may give up pins of: of these nothing is promised.
\<close>

definition references :: "kernel \<Rightarrow> string \<Rightarrow> nat" where
  "references k hex =
     length (filter (\<lambda>row. ch_digest row = hex) (k_chunks k))
     + length (filter (\<lambda>row. cs_manifest row = Some hex) (k_chunk_sets k))
     + length (filter (\<lambda>row. re_original row = hex) (k_revisions k))
     + length (filter (\<lambda>row. re_canonical row = hex) (k_revisions k))"

definition references_pinned :: "string set \<Rightarrow> kernel \<Rightarrow> bool" where
  "references_pinned U k \<longleftrightarrow>
     (\<forall>hex. hex \<notin> U \<longrightarrow> 0 < references k hex \<longrightarrow>
        (\<exists>row\<in>set (k_artifacts k). ar_digest row = hex \<and> int (references k hex) \<le> ar_pins row))"

definition chunk_sets_ok :: "string set \<Rightarrow> kernel \<Rightarrow> bool" where
  "chunk_sets_ok U k \<longleftrightarrow> sets_ok (k_chunk_sets k) \<and> chunks_ok k \<and> artifacts_ok k \<and> references_pinned U k"

definition the_set_state :: "chunk_set_record \<Rightarrow> chunk_set_state" where
  "the_set_state row = the (chunk_set_state_named (cs_state row))"

definition the_set :: "chunk_set_record \<Rightarrow> chunk_set" where
  "the_set row =
     \<lparr>ct_id = cs_id row, ct_collection = cs_collection row, ct_profile = cs_profile row,
      ct_counter = cs_counter row, ct_state = the_set_state row, ct_manifest = map_option Digest (cs_manifest row)\<rparr>"

definition the_chunk :: "chunk_record \<Rightarrow> chunk" where
  "the_chunk row =
     \<lparr>ck_id = ch_id row, ck_revision = ch_revision row, ck_section = ch_section row,
      ck_digest = Digest (ch_digest row), ck_tokens = nat (ch_tokens row), ck_start = nat (ch_start row),
      ck_end = nat (ch_end row)\<rparr>"

lemma chunk_set_row_the: "set_row_ok row \<Longrightarrow> chunk_set_row row = Inr (the_set row)"
  by (auto simp: set_row_ok_def chunk_set_row_def the_set_def the_set_state_def digest_column_def)

lemma chunk_row_the: "chunk_row_ok row \<Longrightarrow> chunk_row row = Inr (the_chunk row)"
  by (simp add: chunk_row_ok_def chunk_row_def the_chunk_def digest_column_def unsigned_i64_def)

definition set_of :: "string \<Rightarrow> kernel \<Rightarrow> chunk_set_record option" where
  "set_of sid k = List.find (\<lambda>row. cs_id row = sid) (k_chunk_sets k)"

lemma set_of_mem: "set_of sid k = Some row \<Longrightarrow> row \<in> set (k_chunk_sets k) \<and> cs_id row = sid"
  unfolding set_of_def using find_mem by fastforce

lemma set_of_only:
  assumes "sets_ok (k_chunk_sets k)" and "set_of sid k = Some row"
    and "other \<in> set (k_chunk_sets k)" and "cs_id other = sid"
  shows "other = row"
  using assms set_of_mem[OF assms(2)] same_key[of cs_id "k_chunk_sets k" other row] by (simp add: sets_ok_def)

lemma set_of_None: "set_of sid k = None \<longleftrightarrow> sid \<notin> cs_id ` set (k_chunk_sets k)"
  by (auto simp: set_of_def find_None_iff)

lemma find_chunk_set_ok:
  assumes "sets_ok (k_chunk_sets k)"
  shows "find_chunk_set None sid k = Inr (map_option the_set (set_of sid k))"
proof (cases "set_of sid k")
  case None
  then have "filter (\<lambda>row. cs_id row = sid) (k_chunk_sets k) = []"
    by (auto simp: set_of_None filter_empty_conv)
  with None show ?thesis by (simp add: find_chunk_set_def optional_def)
next
  case (Some row)
  have "query_row chunk_set_row (filter (\<lambda>row. cs_id row = sid) rows) = chunk_set_row row"
    if "List.find (\<lambda>row. cs_id row = sid) rows = Some row" for rows
    using that by (induction rows) (auto split: if_splits)
  moreover have "set_row_ok row" using assms set_of_mem[OF Some] by (simp add: sets_ok_def list_all_iff)
  ultimately show ?thesis
    using Some by (simp add: find_chunk_set_def optional_def chunk_set_row_the set_of_def)
qed

lemma legal_set_move_ok:
  assumes "sets_ok (k_chunk_sets k)"
  shows "legal_set_move sid to k =
    (case set_of sid k of
       None \<Rightarrow> Inl (UnknownChunkSet sid)
     | Some row \<Rightarrow> if set_may_move (the_set_state row) to then Inr ()
                   else Inl (ChunkSetIllegalMove sid (the_set_state row) to))"
  by (simp add: legal_set_move_def find_chunk_set_ok[OF assms] the_set_def split: option.split)

lemma building_row:
  assumes "set_row_ok row"
  shows "the_set_state row = SetBuilding \<longleftrightarrow> cs_state row = ''building''"
  using assms by (auto simp: set_row_ok_def the_set_state_def)

section \<open>What an operation does\<close>

definition set_evolves :: "chunk_set_record \<Rightarrow> chunk_set_record \<Rightarrow> bool" where
  "set_evolves old new \<longleftrightarrow>
     cs_id new = cs_id old \<and> cs_collection new = cs_collection old \<and> cs_profile new = cs_profile old
     \<and> cs_counter new = cs_counter old \<and> (new = old \<or> cs_state old = ''building'')"

definition chunk_sets_evolve :: "kernel \<Rightarrow> kernel \<Rightarrow> bool" where
  "chunk_sets_evolve k k' \<longleftrightarrow>
     (\<exists>kept added new.
        k_chunk_sets k' = kept @ added \<and> list_all2 set_evolves (k_chunk_sets k) kept
        \<and> k_chunks k' = k_chunks k @ new
        \<and> (\<forall>row\<in>set new. \<forall>s\<in>set (k_chunk_sets k). cs_id s = ch_set row \<longrightarrow> cs_state s = ''building''))"

lemma set_evolves_refl [simp]: "set_evolves row row"
  by (simp add: set_evolves_def)

lemma set_evolves_trans: "set_evolves a b \<Longrightarrow> set_evolves b c \<Longrightarrow> set_evolves a c"
  by (auto simp: set_evolves_def)

lemma chunk_sets_evolve_refl: "chunk_sets_evolve k k"
  unfolding chunk_sets_evolve_def
  by (intro exI[of _ "k_chunk_sets k"] exI[of _ "[]"] conjI) (simp_all add: list_all2_same)

lemma chunk_sets_evolve_trans:
  assumes "chunk_sets_evolve a b" and "chunk_sets_evolve b c"
  shows "chunk_sets_evolve a c"
proof -
  obtain kept added new where b: "k_chunk_sets b = kept @ added" "list_all2 set_evolves (k_chunk_sets a) kept"
      "k_chunks b = k_chunks a @ new"
      "\<forall>row\<in>set new. \<forall>s\<in>set (k_chunk_sets a). cs_id s = ch_set row \<longrightarrow> cs_state s = ''building''"
    using assms(1) by (auto simp: chunk_sets_evolve_def)
  obtain kept' added' new' where c: "k_chunk_sets c = kept' @ added'" "list_all2 set_evolves (kept @ added) kept'"
      "k_chunks c = k_chunks b @ new'"
      "\<forall>row\<in>set new'. \<forall>s\<in>set (kept @ added). cs_id s = ch_set row \<longrightarrow> cs_state s = ''building''"
    using assms(2) b(1) by (auto simp: chunk_sets_evolve_def)
  obtain k1 k2 where k: "kept' = k1 @ k2" "list_all2 set_evolves kept k1"
    using c(2) by (auto simp: list_all2_append1)
  have "list_all2 set_evolves (k_chunk_sets a) k1"
    by (rule list_all2_trans[OF set_evolves_trans b(2) k(2)])
  moreover have "\<forall>row\<in>set (new @ new'). \<forall>s\<in>set (k_chunk_sets a). cs_id s = ch_set row \<longrightarrow> cs_state s = ''building''"
  proof (intro ballI impI)
    fix row s assume row: "row \<in> set (new @ new')" "s \<in> set (k_chunk_sets a)" "cs_id s = ch_set row"
    obtain s' where s': "s' \<in> set kept" "set_evolves s s'"
      using b(2) row(2) by (metis in_set_conv_nth list_all2_conv_all_nth)
    then have "row \<in> set new' \<Longrightarrow> cs_state s' = ''building''" using c(4) row(3) by (auto simp: set_evolves_def)
    then show "cs_state s = ''building''" using row b(4) s'(2) by (auto simp: set_evolves_def)
  qed
  ultimately show ?thesis
    using b(3) c(1,3) k(1) unfolding chunk_sets_evolve_def
    by (intro exI[of _ k1] exI[of _ "k2 @ added'"] exI[of _ "new @ new'"]) simp
qed

text \<open>A write touches the sets, the chunks and the pins, and nothing else.\<close>

definition chunk_set_effect :: "string set \<Rightarrow> kernel \<Rightarrow> kernel \<Rightarrow> bool" where
  "chunk_set_effect U k k' \<longleftrightarrow>
     chunk_sets_ok U k' \<and> chunk_sets_evolve k k' \<and> pins_kept False (\<lparr>dk_kernel = k, dk_files = Map.empty\<rparr>, {#})
        (\<lparr>dk_kernel = k', dk_files = Map.empty\<rparr>, {#})
     \<and> (\<exists>sets chunks artifacts.
          k' = k\<lparr>k_chunk_sets := sets, k_chunks := chunks, k_artifacts := artifacts\<rparr>)"

lemma references_pinned_after:
  assumes pinned: "references_pinned U k" and "digest_str digest \<in> ar_digest ` set (k_artifacts k)"
    and less: "\<And>hex. references k' hex \<le> references k hex + (if hex = digest_str digest then 1 else 0)"
    and nonneg: "\<forall>row\<in>set (k_artifacts k). 0 \<le> ar_pins row"
    and k': "k_artifacts k' = map (pinned_row (digest_str digest)) (k_artifacts k)"
  shows "references_pinned U k'"
  unfolding references_pinned_def
proof (intro allI impI)
  fix hex assume used: "hex \<notin> U" and some: "0 < references k' hex"
  obtain row where row: "row \<in> set (k_artifacts k)" "ar_digest row = hex" "int (references k hex) \<le> ar_pins row"
  proof (cases "0 < references k hex")
    case True
    then show thesis using pinned used that by (auto simp: references_pinned_def)
  next
    case False
    then have "hex = digest_str digest" using less[of hex] some by (auto split: if_splits)
    then obtain row where "row \<in> set (k_artifacts k)" "ar_digest row = hex" using assms(2) by auto
    then show thesis using that[of row] False nonneg by simp
  qed
  have "ar_digest (pinned_row (digest_str digest) row) = hex"
      "int (references k' hex) \<le> ar_pins (pinned_row (digest_str digest) row)"
    using row less[of hex] by (auto simp: pinned_row_def split: if_splits)
  then show "\<exists>row\<in>set (k_artifacts k'). ar_digest row = hex \<and> int (references k' hex) \<le> ar_pins row"
    using row(1) unfolding k' by auto
qed

lemma artifacts_nonneg: "artifacts_ok k \<Longrightarrow> \<forall>row\<in>set (k_artifacts k). 0 \<le> ar_pins row"
  by (auto simp: artifacts_ok_def list_all_iff artifact_row_ok_def)

lemma pins_kept_pinned:
  assumes "k_artifacts k' = map (pinned_row hex) (k_artifacts k)"
  shows "pins_kept False (\<lparr>dk_kernel = k, dk_files = Map.empty\<rparr>, {#}) (\<lparr>dk_kernel = k', dk_files = Map.empty\<rparr>, {#})"
  unfolding pins_kept_def
proof (intro impI ballI, simp)
  fix row assume "row \<in> set (k_artifacts k)"
  then have "pinned_row hex row \<in> set (k_artifacts k')" using assms by simp
  moreover have "ar_digest (pinned_row hex row) = ar_digest row \<and> ar_bytes (pinned_row hex row) = ar_bytes row
      \<and> ar_media (pinned_row hex row) = ar_media row \<and> ar_pins row \<le> ar_pins (pinned_row hex row)"
    by (simp add: pinned_row_def)
  ultimately show "\<exists>new\<in>set (k_artifacts k'). ar_digest new = ar_digest row \<and> ar_bytes new = ar_bytes row
      \<and> ar_media new = ar_media row \<and> ar_pins row \<le> ar_pins new" by blast
qed

section \<open>The calls over a set\<close>

lemma pins_kept_same:
  "k_artifacts k' = k_artifacts k \<Longrightarrow>
     pins_kept False (\<lparr>dk_kernel = k, dk_files = Map.empty\<rparr>, {#}) (\<lparr>dk_kernel = k', dk_files = Map.empty\<rparr>, {#})"
  by (rule pins_kept_kernel) simp

lemma document_of_cong:
  "k_revisions k' = k_revisions k \<Longrightarrow> k_documents k' = k_documents k \<Longrightarrow> document_of k' = document_of k"
  by (simp add: document_of_def fun_eq_iff cong: option.case_cong)

lemma chunk_set_effect_refl: "chunk_sets_ok U k \<Longrightarrow> chunk_set_effect U k k"
proof -
  have "k = k\<lparr>k_chunk_sets := k_chunk_sets k, k_chunks := k_chunks k, k_artifacts := k_artifacts k\<rparr>" by simp
  then have "\<exists>sets chunks artifacts. k = k\<lparr>k_chunk_sets := sets, k_chunks := chunks, k_artifacts := artifacts\<rparr>"
    by blast
  then show "chunk_sets_ok U k \<Longrightarrow> chunk_set_effect U k k"
    by (simp add: chunk_set_effect_def chunk_sets_evolve_refl pins_kept_same)
qed

definition begun :: "new_chunk_set \<Rightarrow> chunk_set_record" where
  "begun new = \<lparr>cs_id = nc_id new, cs_collection = nc_collection new, cs_profile = nc_profile new,
     cs_counter = nc_counter new, cs_state = ''building'', cs_manifest = None\<rparr>"

definition begun_for :: "new_chunk_set \<Rightarrow> chunk_set_record \<Rightarrow> bool" where
  "begun_for new row \<longleftrightarrow> cs_collection row = nc_collection new \<and> cs_profile row = nc_profile new
     \<and> cs_counter row = nc_counter new"

lemma begin_cases:
  assumes "sets_ok (k_chunk_sets k)"
  shows "begin_chunk_set new k =
    (case set_of (nc_id new) k of
       Some row \<Rightarrow> (if begun_for new row then Inr (the_set row) else Inl (ChunkSetConflict (nc_id new)), k)
     | None \<Rightarrow>
         if \<exists>c\<in>set (k_collections k). co_id c = nc_collection new
         then (Inr (the_set (begun new)), k\<lparr>k_chunk_sets := k_chunk_sets k @ [begun new]\<rparr>)
         else (Inl (chunk_set_sqlite (ConstraintViolation ''FOREIGN KEY'')), k))"
proof (cases "set_of (nc_id new) k")
  case (Some row)
  then show ?thesis
    by (simp add: begin_chunk_set_def find_chunk_set_ok[OF assms] db_write_def found_again_def begun_for_def the_set_def)
next
  case None
  have row: "set_row_ok (begun new)" by (simp add: set_row_ok_def begun_def)
  have fresh: "\<not> list_ex (\<lambda>other. cs_id other = cs_id (begun new)) (k_chunk_sets k)"
    using None unfolding set_of_None image_iff list_ex_iff begun_def by auto
  have insert: "insert_chunk_set (begun new) k =
      (if \<exists>c\<in>set (k_collections k). co_id c = nc_collection new
       then Inr (begun new, k\<lparr>k_chunk_sets := k_chunk_sets k @ [begun new]\<rparr>)
       else Inl (ConstraintViolation ''FOREIGN KEY''))"
    using fresh by (simp add: insert_chunk_set_def list_ex_iff) (simp add: begun_def)
  then show ?thesis
    using None chunk_set_row_the[OF row]
    by (simp add: begin_chunk_set_def find_chunk_set_ok[OF assms] db_write_def begun_def[symmetric])
qed

lemma begin_effect:
  assumes ok: "chunk_sets_ok U k" and r: "begin_chunk_set new k = (r, k')"
  shows "chunk_set_effect U k k'"
proof -
  have sets: "sets_ok (k_chunk_sets k)" using ok by (simp add: chunk_sets_ok_def)
  consider "k' = k" | "set_of (nc_id new) k = None" "k' = k\<lparr>k_chunk_sets := k_chunk_sets k @ [begun new]\<rparr>"
    using r by (auto simp: begin_cases[OF sets] split: option.splits if_splits)
  then show ?thesis
  proof cases
    case 1
    then show ?thesis using chunk_set_effect_refl[OF ok] by simp
  next
    case 2
    have "sets_ok (k_chunk_sets k')"
      using sets 2 by (auto simp: sets_ok_def set_of_None begun_def set_row_ok_def)
    moreover have "chunks_ok k'"
      using ok document_of_cong[of k' k] by (simp add: 2 chunk_sets_ok_def chunks_ok_def)
    moreover have "references k' = references k" by (rule ext) (simp add: references_def 2 begun_def)
    then have "references_pinned U k'" using ok by (simp add: chunk_sets_ok_def references_pinned_def 2)
    moreover have "artifacts_ok k'" using ok by (simp add: chunk_sets_ok_def artifacts_ok_def 2)
    ultimately have "chunk_sets_ok U k'" by (simp add: chunk_sets_ok_def)
    moreover have "chunk_sets_evolve k k'"
      unfolding chunk_sets_evolve_def 2
      by (intro exI[of _ "k_chunk_sets k"] exI[of _ "[begun new]"] exI[of _ "[]"]) (simp add: list_all2_same)
    moreover have "k' = k\<lparr>k_chunk_sets := k_chunk_sets k', k_chunks := k_chunks k, k_artifacts := k_artifacts k\<rparr>"
      by (simp add: 2)
    then have "\<exists>sets chunks artifacts. k' = k\<lparr>k_chunk_sets := sets, k_chunks := chunks, k_artifacts := artifacts\<rparr>"
      by blast
    ultimately show ?thesis by (simp add: chunk_set_effect_def pins_kept_same 2(2))
  qed
qed

text \<open>A set that moves: its row, and the others as they were.\<close>

definition moved_set :: "string \<Rightarrow> (chunk_set_record \<Rightarrow> chunk_set_record) \<Rightarrow> kernel \<Rightarrow> kernel" where
  "moved_set sid assign k =
     k\<lparr>k_chunk_sets := map (\<lambda>row. if cs_id row = sid then assign row else row) (k_chunk_sets k)\<rparr>"

lemma update_building:
  assumes "sets_ok (k_chunk_sets k)" and "set_of sid k = Some row" and "cs_state row = ''building''"
    and "chunk_set_moves row (assign row)"
  shows "update_chunk_set sid assign k = Inr (moved_set sid assign k)"
proof -
  have "\<not> list_ex (\<lambda>row. cs_id row = sid \<and> \<not> chunk_set_moves row (assign row)) (k_chunk_sets k)"
    using set_of_only[OF assms(1,2)] assms(4) by (auto simp: list_ex_iff)
  then show ?thesis by (simp add: update_chunk_set_def moved_set_def)
qed

definition completed :: "digest \<Rightarrow> chunk_set_record \<Rightarrow> chunk_set_record" where
  "completed manifest row = row\<lparr>cs_state := ''complete'', cs_manifest := Some (digest_str manifest)\<rparr>"

definition set_failed :: "chunk_set_record \<Rightarrow> chunk_set_record" where
  "set_failed row = row\<lparr>cs_state := ''failed''\<rparr>"

lemma may_move_building: "set_may_move v w \<longleftrightarrow> v = SetBuilding \<and> w \<noteq> SetBuilding"
  by (simp add: set_may_move_def)

lemma repin_sets:
  "repin digest change (k\<lparr>k_chunk_sets := sets\<rparr>) =
     (case repin digest change k of
        Inl e \<Rightarrow> Inl e | Inr (u, k') \<Rightarrow> Inr (u, k'\<lparr>k_chunk_sets := sets\<rparr>))"
  by (simp add: repin_def Let_def artifact_recorded_def)

lemma complete_cases:
  assumes ok: "sets_ok (k_chunk_sets k)"
  shows "complete_chunk_set sid manifest k =
    (case set_of sid k of
       None \<Rightarrow> (Inl (UnknownChunkSet sid), k)
     | Some row \<Rightarrow>
         if the_set_state row \<noteq> SetBuilding
         then (Inl (ChunkSetIllegalMove sid (the_set_state row) SetComplete), k)
         else (case pin manifest k of
                 Inl e \<Rightarrow> (Inl (ChunkSetStore e), k)
               | Inr (_, k') \<Rightarrow> (Inr (), moved_set sid (completed manifest) k')))"
proof (cases "set_of sid k")
  case None
  then show ?thesis by (simp add: complete_chunk_set_def db_write_def legal_set_move_ok[OF ok])
next
  case (Some row)
  have row: "set_row_ok row" using ok set_of_mem[OF Some] by (simp add: sets_ok_def list_all_iff)
  show ?thesis
  proof (cases "the_set_state row = SetBuilding")
    case False
    then show ?thesis
      using Some by (simp add: complete_chunk_set_def db_write_def legal_set_move_ok[OF ok] may_move_building)
  next
    case True
    then have state: "cs_state row = ''building''" using building_row[OF row] by simp
    have up: "update_chunk_set sid (completed manifest) k = Inr (moved_set sid (completed manifest) k)"
      by (rule update_building[OF ok Some state]) (simp add: chunk_set_moves_def completed_def state)
    have pin: "pin manifest (moved_set sid (completed manifest) k) =
        (case pin manifest k of Inl e \<Rightarrow> Inl e
         | Inr (u, k') \<Rightarrow> Inr (u, k'\<lparr>k_chunk_sets :=
           map (\<lambda>row. if cs_id row = sid then completed manifest row else row) (k_chunk_sets k)\<rparr>))"
      by (simp add: pin_def moved_set_def repin_sets)
    have same: "k_chunk_sets k' = k_chunk_sets k" if "pin manifest k = Inr (u, k')" for u k'
      using that by (auto simp: pin_def repin_def Let_def split: if_splits)
    have legal: "legal_set_move sid SetComplete k = Inr ()"
      using Some True by (simp add: legal_set_move_ok[OF ok] may_move_building)
    have assign: "(\<lambda>row. row\<lparr>cs_state := ''complete'', cs_manifest := Some (digest_str manifest)\<rparr>) = completed manifest"
      by (simp add: fun_eq_iff completed_def)
    show ?thesis
      unfolding complete_chunk_set_def assign
      using Some True legal up pin same
      by (cases "pin manifest k") (auto simp: db_write_def moved_set_def)
  qed
qed

lemma fail_cases:
  assumes ok: "sets_ok (k_chunk_sets k)"
  shows "fail_chunk_set sid k =
    (case set_of sid k of
       None \<Rightarrow> (Inl (UnknownChunkSet sid), k)
     | Some row \<Rightarrow>
         if the_set_state row \<noteq> SetBuilding
         then (Inl (ChunkSetIllegalMove sid (the_set_state row) SetFailed), k)
         else (Inr (), moved_set sid set_failed k))"
proof (cases "set_of sid k")
  case None
  then show ?thesis by (simp add: fail_chunk_set_def db_write_def legal_set_move_ok[OF ok])
next
  case (Some row)
  have row: "set_row_ok row" using ok set_of_mem[OF Some] by (simp add: sets_ok_def list_all_iff)
  have assign: "(\<lambda>row. row\<lparr>cs_state := ''failed''\<rparr>) = set_failed" by (simp add: fun_eq_iff set_failed_def)
  have "update_chunk_set sid set_failed k = Inr (moved_set sid set_failed k)" if "the_set_state row = SetBuilding"
  proof -
    have "cs_state row = ''building''" using building_row[OF row] that by simp
    then show ?thesis
      using row by (intro update_building[OF ok Some]) (auto simp: chunk_set_moves_def set_failed_def set_row_ok_def)
  qed
  then show ?thesis
    unfolding fail_chunk_set_def assign
    using Some by (simp add: db_write_def legal_set_move_ok[OF ok] may_move_building)
qed

lemma filter_update:
  assumes "distinct (map key rows)"
  shows "length (filter P (map (\<lambda>r. if key r = v then f r else r) rows))
    \<le> length (filter P rows) + (if \<exists>r\<in>set rows. key r = v \<and> P (f r) then 1 else 0)"
  using assms
proof (induction rows)
  case (Cons r rows)
  show ?case
  proof (cases "key r = v")
    case True
    then have "map (\<lambda>r. if key r = v then f r else r) rows = rows"
      using Cons.prems True by (intro map_idI) (auto simp: image_iff)
    with True show ?thesis by simp
  next
    case False
    with Cons show ?thesis by (auto split: if_splits)
  qed
qed simp

text \<open>The move of a building set, with the pin of its manifest, keeps the invariant.\<close>

lemma moved_effect:
  assumes ok: "chunk_sets_ok U k" and row: "set_of sid k = Some row" "cs_state row = ''building''"
    and assign: "\<And>r. set_row_ok r \<Longrightarrow> cs_state r = ''building'' \<Longrightarrow> set_row_ok (assign r) \<and> set_evolves r (assign r)"
    and k1: "k1 = k\<lparr>k_artifacts := artifacts\<rparr>" "artifacts_ok k1"
    and pins: "references_pinned U (moved_set sid assign k1)"
      "pins_kept False (\<lparr>dk_kernel = k, dk_files = Map.empty\<rparr>, {#}) (\<lparr>dk_kernel = k1, dk_files = Map.empty\<rparr>, {#})"
  shows "chunk_set_effect U k (moved_set sid assign k1)"
proof -
  let ?k' = "moved_set sid assign k1"
  let ?f = "\<lambda>row. if cs_id row = sid then assign row else row"
  have sets: "sets_ok (k_chunk_sets k)" using ok by (simp add: chunk_sets_ok_def)
  have fields: "k_chunk_sets ?k' = map ?f (k_chunk_sets k)" "k_chunks ?k' = k_chunks k"
      "k_artifacts ?k' = k_artifacts k1" "k_revisions ?k' = k_revisions k" "k_documents ?k' = k_documents k"
    by (simp_all add: moved_set_def k1(1))
  have each: "set_row_ok (?f r) \<and> set_evolves r (?f r)" if r: "r \<in> set (k_chunk_sets k)" for r
  proof (cases "cs_id r = sid")
    case True
    then have "r = row" using set_of_only[OF sets row(1) r] by blast
    then show ?thesis using sets r row(2) assign[of row] by (simp add: sets_ok_def list_all_iff True)
  next
    case False
    then show ?thesis using sets r by (simp add: sets_ok_def list_all_iff)
  qed
  have ids: "map cs_id (map ?f (k_chunk_sets k)) = map cs_id (k_chunk_sets k)"
    using each by (auto simp: set_evolves_def)
  have "distinct (map cs_id (map ?f (k_chunk_sets k)))" unfolding ids using sets by (simp add: sets_ok_def)
  moreover have "list_all set_row_ok (map ?f (k_chunk_sets k))" unfolding list_all_iff set_map ball_simps using each by blast
  ultimately have "sets_ok (k_chunk_sets ?k')"
    unfolding sets_ok_def fields(1) by blast
  moreover have "chunks_ok ?k'"
    using ok document_of_cong[of ?k' k] fields by (simp add: chunk_sets_ok_def chunks_ok_def)
  moreover have "artifacts_ok ?k'" using k1(2) fields(3) by (simp add: artifacts_ok_def)
  ultimately have "chunk_sets_ok U ?k'" using pins(1) by (simp add: chunk_sets_ok_def)
  moreover have "list_all2 set_evolves (k_chunk_sets k) (k_chunk_sets ?k')"
    unfolding fields(1) list.rel_map list_all2_same using each by blast
  then have "chunk_sets_evolve k ?k'"
    unfolding chunk_sets_evolve_def
    by (intro exI[of _ "k_chunk_sets ?k'"] exI[of _ "[]"]) (simp add: fields)
  moreover have "pins_kept False (\<lparr>dk_kernel = k, dk_files = Map.empty\<rparr>, {#}) (\<lparr>dk_kernel = ?k', dk_files = Map.empty\<rparr>, {#})"
    using pins(2) by (simp add: pins_kept_def fields)
  moreover have "?k' = k\<lparr>k_chunk_sets := k_chunk_sets ?k', k_chunks := k_chunks k, k_artifacts := artifacts\<rparr>"
    by (simp add: moved_set_def k1(1))
  then have "\<exists>sets chunks artifacts. ?k' = k\<lparr>k_chunk_sets := sets, k_chunks := chunks, k_artifacts := artifacts\<rparr>"
    by blast
  ultimately show ?thesis by (simp add: chunk_set_effect_def)
qed

lemma complete_effect:
  assumes ok: "chunk_sets_ok U k" and r: "complete_chunk_set sid manifest k = (r, k')"
  shows "chunk_set_effect U k k'"
proof -
  have sets: "sets_ok (k_chunk_sets k)" and arts: "artifacts_ok k" using ok by (simp_all add: chunk_sets_ok_def)
  consider "k' = k" | row u k1 where "set_of sid k = Some row" "the_set_state row = SetBuilding"
      "pin manifest k = Inr (u, k1)" "k' = moved_set sid (completed manifest) k1"
    using r by (auto simp: complete_cases[OF sets] split: option.splits if_splits sum.splits prod.splits)
  then show ?thesis
  proof cases
    case 1
    then show ?thesis using chunk_set_effect_refl[OF ok] by simp
  next
    case 2
    have "set_row_ok row" using sets set_of_mem[OF 2(1)] by (simp add: sets_ok_def list_all_iff)
    then have state: "cs_state row = ''building''" using building_row 2(2) by blast
    note p = pin_Inr[OF arts 2(3)]
    then have k1: "k1 = k\<lparr>k_artifacts := map (pinned_row (digest_str manifest)) (k_artifacts k)\<rparr>" by blast
    let ?f = "\<lambda>row. if cs_id row = sid then completed manifest row else row"
    have "references k' hex \<le> references k hex + (if hex = digest_str manifest then 1 else 0)" for hex
    proof -
      have "length (filter (\<lambda>row. cs_manifest row = Some hex) (map ?f (k_chunk_sets k)))
          \<le> length (filter (\<lambda>row. cs_manifest row = Some hex) (k_chunk_sets k)) + (if hex = digest_str manifest then 1 else 0)"
        using filter_update[of cs_id "k_chunk_sets k" "\<lambda>row. cs_manifest row = Some hex" sid "completed manifest"] sets
        by (auto simp: sets_ok_def completed_def split: if_splits)
      then show ?thesis by (simp add: references_def 2(4) moved_set_def k1)
    qed
    moreover have "k_artifacts k' = map (pinned_row (digest_str manifest)) (k_artifacts k)"
      by (simp add: 2(4) moved_set_def k1)
    moreover have "references_pinned U k" using ok by (simp add: chunk_sets_ok_def)
    ultimately have pinned: "references_pinned U k'"
      using p artifacts_nonneg[OF arts] references_pinned_after[of U k manifest k'] by blast
    have parse: "digest_parse (digest_str manifest) = Inr (Digest (digest_str manifest))" using p by simp
    have "k_artifacts k1 = map (pinned_row (digest_str manifest)) (k_artifacts k)" by (simp add: k1)
    note kept = pins_kept_pinned[OF this]
    have assign: "set_row_ok (completed manifest r) \<and> set_evolves r (completed manifest r)"
      if "cs_state r = ''building''" for r
      using that parse by (simp add: completed_def set_row_ok_def set_evolves_def)
    have "artifacts_ok k1" using p by blast
    from moved_effect[OF ok 2(1) state _ k1 this _ kept, of "completed manifest"] assign pinned show ?thesis
      unfolding 2(4) by blast
  qed
qed

lemma fail_effect:
  assumes ok: "chunk_sets_ok U k" and r: "fail_chunk_set sid k = (r, k')"
  shows "chunk_set_effect U k k'"
proof -
  have sets: "sets_ok (k_chunk_sets k)" and arts: "artifacts_ok k" using ok by (simp_all add: chunk_sets_ok_def)
  consider "k' = k" | row where "set_of sid k = Some row" "the_set_state row = SetBuilding"
      "k' = moved_set sid set_failed k"
    using r by (auto simp: fail_cases[OF sets] split: option.splits if_splits)
  then show ?thesis
  proof cases
    case 1
    then show ?thesis using chunk_set_effect_refl[OF ok] by simp
  next
    case 2
    have "set_row_ok row" using sets set_of_mem[OF 2(1)] by (simp add: sets_ok_def list_all_iff)
    then have state: "cs_state row = ''building''" using building_row 2(2) by blast
    have k: "k = k\<lparr>k_artifacts := k_artifacts k\<rparr>" by simp
    have "map (\<lambda>row. cs_manifest (if cs_id row = sid then set_failed row else row)) rows = map cs_manifest rows" for rows
      by (simp add: set_failed_def)
    have "filter (\<lambda>row. cs_manifest row = Some hex) (map (\<lambda>row. if cs_id row = sid then set_failed row else row) rows)
        = map (\<lambda>row. if cs_id row = sid then set_failed row else row) (filter (\<lambda>row. cs_manifest row = Some hex) rows)" for hex rows
      by (induction rows) (simp_all add: set_failed_def)
    then have "references k' = references k"
      by (simp add: fun_eq_iff references_def 2(3) moved_set_def)
    then have "references_pinned U k'" using ok by (simp add: chunk_sets_ok_def references_pinned_def 2(3) moved_set_def)
    then show ?thesis
      unfolding 2(3) using arts
      by (intro moved_effect[OF ok 2(1) state _ k])
        (auto simp: set_failed_def set_row_ok_def set_evolves_def pins_kept_same)
  qed
qed

section \<open>Recording chunks\<close>

lemma chunk_set_effect_trans:
  assumes "chunk_set_effect U a b" and "chunk_set_effect U b c"
  shows "chunk_set_effect U a c"
proof -
  obtain sets chunks artifacts where b: "b = a\<lparr>k_chunk_sets := sets, k_chunks := chunks, k_artifacts := artifacts\<rparr>"
    using assms(1) by (auto simp: chunk_set_effect_def)
  obtain sets' chunks' artifacts' where "c = b\<lparr>k_chunk_sets := sets', k_chunks := chunks', k_artifacts := artifacts'\<rparr>"
    using assms(2) by (auto simp: chunk_set_effect_def)
  then have "c = a\<lparr>k_chunk_sets := sets', k_chunks := chunks', k_artifacts := artifacts'\<rparr>" by (simp add: b)
  then show ?thesis
    using assms unfolding chunk_set_effect_def by (blast intro: chunk_sets_evolve_trans pins_kept_trans)
qed

definition row_of :: "string \<Rightarrow> chunk \<Rightarrow> chunk_record" where
  "row_of sid chunk = \<lparr>ch_set = sid, ch_id = ck_id chunk, ch_revision = ck_revision chunk,
     ch_section = ck_section chunk, ch_digest = digest_str (ck_digest chunk), ch_tokens = int (ck_tokens chunk),
     ch_start = int (ck_start chunk), ch_end = int (ck_end chunk)\<rparr>"

lemma the_chunk_row_of [simp]: "the_chunk (row_of sid chunk) = chunk"
  by (simp add: the_chunk_def row_of_def)

lemma insert_chunk_Inr:
  "insert_chunk row k = Inr k' \<Longrightarrow>
     k' = k\<lparr>k_chunks := k_chunks k @ [row]\<rparr> \<and> document_of k (ch_revision row) \<noteq> None
     \<and> 0 \<le> ch_tokens row \<and> 0 \<le> ch_start row \<and> ch_start row \<le> ch_end row
     \<and> (ch_set row, ch_id row) \<notin> (\<lambda>row. (ch_set row, ch_id row)) ` set (k_chunks k)"
  by (auto simp: insert_chunk_def Let_def list_ex_iff not_less split: if_splits option.splits)

lemma record_chunk_Inr:
  assumes ok: "chunk_sets_ok U k" and s: "set_of sid k = Some srow" "cs_state srow = ''building''"
    and r: "record_chunk sid chunk k = Inr (u, k')"
  shows "chunk_set_effect U k k' \<and> document_of k (ck_revision chunk) \<noteq> None
    \<and> k' = k\<lparr>k_chunks := k_chunks k @ [row_of sid chunk],
         k_artifacts := map (pinned_row (digest_str (ck_digest chunk))) (k_artifacts k)\<rparr>"
proof -
  let ?row = "row_of sid chunk"
  have arts: "artifacts_ok k" and sets: "sets_ok (k_chunk_sets k)" using ok by (simp_all add: chunk_sets_ok_def)
  obtain k1 where ins: "insert_chunk ?row k = Inr k1" and pin: "pin (ck_digest chunk) k1 = Inr (u, k')"
    using r by (auto simp: record_chunk_def results i64_integer_def row_of_def split: if_splits)
  note i = insert_chunk_Inr[OF ins]
  then have k1: "k1 = k\<lparr>k_chunks := k_chunks k @ [?row]\<rparr>" by blast
  then have "artifacts_ok k1" using arts by (simp add: artifacts_ok_def)
  note p = pin_Inr[OF this pin]
  then have k': "k' = k\<lparr>k_chunks := k_chunks k @ [?row],
      k_artifacts := map (pinned_row (digest_str (ck_digest chunk))) (k_artifacts k)\<rparr>" by (simp add: k1)
  have parse: "digest_parse (digest_str (ck_digest chunk)) = Inr (Digest (digest_str (ck_digest chunk)))"
    using p by simp
  have "chunk_row_ok ?row" using i parse by (simp add: chunk_row_ok_def row_of_def)
  then have "chunks_ok k'"
    using ok i document_of_cong[of k' k] by (simp add: chunk_sets_ok_def chunks_ok_def k')
  moreover have "references k' hex \<le> references k hex + (if hex = digest_str (ck_digest chunk) then 1 else 0)" for hex
    by (simp add: references_def k' row_of_def)
  moreover have "references_pinned U k" using ok by (simp add: chunk_sets_ok_def)
  ultimately have "chunk_sets_ok U k'"
    using sets p artifacts_nonneg[OF arts] references_pinned_after[of U k "ck_digest chunk" k']
    by (simp add: chunk_sets_ok_def k' k1)
  moreover have "chunk_sets_evolve k k'"
  proof -
    have "cs_state s = ''building''" if "s \<in> set (k_chunk_sets k)" "cs_id s = sid" for s
      using set_of_only[OF sets s(1) that] s(2) by simp
    then show ?thesis
      unfolding chunk_sets_evolve_def
      by (intro exI[of _ "k_chunk_sets k"] exI[of _ "[]"] exI[of _ "[?row]"])
        (simp add: k' list_all2_same row_of_def)
  qed
  moreover have "k_artifacts k' = map (pinned_row (digest_str (ck_digest chunk))) (k_artifacts k)" by (simp add: k')
  note pins_kept_pinned[OF this]
  moreover have "k' = k\<lparr>k_chunk_sets := k_chunk_sets k, k_chunks := k_chunks k', k_artifacts := k_artifacts k'\<rparr>"
    by (simp add: k')
  then have "\<exists>sets chunks artifacts. k' = k\<lparr>k_chunk_sets := sets, k_chunks := chunks, k_artifacts := artifacts\<rparr>"
    by blast
  ultimately have "chunk_set_effect U k k'" by (simp add: chunk_set_effect_def)
  then show ?thesis using i k' by (simp add: row_of_def)
qed

lemma record_each_Inr:
  assumes "chunk_sets_ok U k" and "set_of sid k = Some srow" and "cs_state srow = ''building''"
    and "record_each sid chunks k = Inr (u, k')"
  shows "chunk_set_effect U k k' \<and> (\<forall>chunk\<in>set chunks. document_of k (ck_revision chunk) \<noteq> None)
    \<and> (\<exists>artifacts. k' = k\<lparr>k_chunks := k_chunks k @ map (row_of sid) chunks, k_artifacts := artifacts\<rparr>)"
  using assms
proof (induction chunks arbitrary: k)
  case Nil
  then have "k' = k" by simp
  moreover have "k = k\<lparr>k_chunks := k_chunks k @ map (row_of sid) [], k_artifacts := k_artifacts k\<rparr>" by simp
  ultimately show ?case using chunk_set_effect_refl[OF Nil.prems(1)] by (metis empty_iff list.set(1))
next
  case (Cons chunk chunks)
  obtain k1 u1 where one: "record_chunk sid chunk k = Inr (u1, k1)" and rest: "record_each sid chunks k1 = Inr (u, k')"
    using Cons.prems(4) by (auto simp: results)
  note e = record_chunk_Inr[OF Cons.prems(1-3) one]
  then have k1: "k1 = k\<lparr>k_chunks := k_chunks k @ [row_of sid chunk],
      k_artifacts := map (pinned_row (digest_str (ck_digest chunk))) (k_artifacts k)\<rparr>" by blast
  have "chunk_sets_ok U k1" using e unfolding chunk_set_effect_def by blast
  moreover have "set_of sid k1 = Some srow" using Cons.prems(2) by (simp add: set_of_def k1)
  ultimately have r: "chunk_set_effect U k1 k'" "\<forall>chunk\<in>set chunks. document_of k1 (ck_revision chunk) \<noteq> None"
      "\<exists>artifacts. k' = k1\<lparr>k_chunks := k_chunks k1 @ map (row_of sid) chunks, k_artifacts := artifacts\<rparr>"
    using Cons.IH[OF _ _ Cons.prems(3) rest] by blast+
  have "document_of k1 = document_of k" by (rule document_of_cong) (simp_all add: k1)
  moreover obtain artifacts where "k' = k1\<lparr>k_chunks := k_chunks k1 @ map (row_of sid) chunks, k_artifacts := artifacts\<rparr>"
    using r(3) by blast
  then have "k' = k\<lparr>k_chunks := k_chunks k @ map (row_of sid) (chunk # chunks), k_artifacts := artifacts\<rparr>"
    by (simp add: k1)
  ultimately show ?case using chunk_set_effect_trans[OF _ r(1)] e r(2) by auto
qed

lemma read_chunks_ok:
  assumes "chunks_ok k"
  shows "read_chunks meets k = Inr (map the_chunk (filter
    (\<lambda>row. case document_of k (ch_revision row) of None \<Rightarrow> False | Some doc \<Rightarrow> meets row doc) (k_chunks k)))"
  unfolding read_chunks_def
  using assms by (intro collect_results_map_Inr chunk_row_the) (auto simp: chunks_ok_def list_all_iff)

lemma read_chunks_of_revision:
  assumes "chunks_ok k"
  shows "read_chunks (\<lambda>row _. ch_set row = sid \<and> ch_revision row = revision) k
    = Inr (map the_chunk (filter (\<lambda>row. ch_set row = sid \<and> ch_revision row = revision) (k_chunks k)))"
proof -
  have "filter (\<lambda>row. case document_of k (ch_revision row) of None \<Rightarrow> False
        | Some doc \<Rightarrow> ch_set row = sid \<and> ch_revision row = revision) (k_chunks k)
      = filter (\<lambda>row. ch_set row = sid \<and> ch_revision row = revision) (k_chunks k)"
    using assms by (intro filter_cong) (auto simp: chunks_ok_def list_all_iff)
  then show ?thesis by (simp add: read_chunks_ok[OF assms])
qed

text \<open>A recording that succeeded: it found these chunks there, or it added them after the others.\<close>

lemma record_in_Inr:
  assumes ok: "chunk_sets_ok U k" and r: "record_in sid revision chunks k = Inr (u, k')"
  shows "chunk_set_effect U k k' \<and> (\<exists>srow. set_of sid k = Some srow \<and> cs_state srow = ''building'')
    \<and> k_chunk_sets k' = k_chunk_sets k \<and> (\<forall>chunk\<in>set chunks. ck_revision chunk = revision)
    \<and> map the_chunk (filter (\<lambda>row. ch_set row = sid \<and> ch_revision row = revision) (k_chunks k')) = chunks
    \<and> (k' = k \<or> (\<exists>artifacts. k' = k\<lparr>k_chunks := k_chunks k @ map (row_of sid) chunks, k_artifacts := artifacts\<rparr>))"
proof -
  have sets: "sets_ok (k_chunk_sets k)" and chunks: "chunks_ok k" using ok by (simp_all add: chunk_sets_ok_def)
  obtain srow where s: "set_of sid k = Some srow" "the_set_state srow = SetBuilding"
    using r by (auto simp: record_in_def find_chunk_set_ok[OF sets] the_set_def results split: if_splits)
  have "set_row_ok srow" using sets set_of_mem[OF s(1)] by (simp add: sets_ok_def list_all_iff)
  then have building: "cs_state srow = ''building''" using building_row s(2) by blast
  let ?of = "\<lambda>k. filter (\<lambda>row. ch_set row = sid \<and> ch_revision row = revision) (k_chunks k)"
  have revs: "\<forall>chunk\<in>set chunks. ck_revision chunk = revision"
    using r s by (auto simp: record_in_def find_chunk_set_ok[OF sets] the_set_def results list_ex_iff split: if_splits)
  have rest: "(if map the_chunk (?of k) \<noteq> []
       then (if map the_chunk (?of k) = chunks then Inr ((), k) else Inl (ChunksConflict sid revision))
       else record_each sid chunks k) = Inr (u, k')"
    using r s revs by (simp add: record_in_def find_chunk_set_ok[OF sets] the_set_def read_chunks_of_revision[OF chunks]
        list_ex_iff)
  show ?thesis
  proof (cases "?of k = []")
    case False
    then have "k' = k" "map the_chunk (?of k) = chunks" using rest by (auto split: if_splits)
    then show ?thesis using s building revs chunk_set_effect_refl[OF ok] by auto
  next
    case True
    then have "record_each sid chunks k = Inr (u, k')" using rest by simp
    note e = record_each_Inr[OF ok s(1) building this]
    then obtain artifacts where k': "k' = k\<lparr>k_chunks := k_chunks k @ map (row_of sid) chunks, k_artifacts := artifacts\<rparr>"
      by blast
    have "filter (\<lambda>row. ch_set row = sid \<and> ch_revision row = revision) (map (row_of sid) chunks) = map (row_of sid) chunks"
      using revs by (auto simp: row_of_def filter_id_conv)
    then have "map the_chunk (?of k') = chunks" using True by (simp add: k' comp_def)
    then show ?thesis using e s building revs k' by auto
  qed
qed

lemma record_chunks_effect:
  assumes "chunk_sets_ok U k" and "record_chunks sid revision chunks k = (r, k')"
  shows "chunk_set_effect U k k'"
  using assms record_in_Inr[OF assms(1)] chunk_set_effect_refl[OF assms(1)]
  by (cases r) (auto simp: record_chunks_def results)

section \<open>Properties\<close>

lemma referenced_pin:
  assumes "chunk_sets_ok U k" and "0 < references k hex" and "hex \<notin> U"
  shows "\<exists>row\<in>set (k_artifacts k). ar_digest row = hex \<and> 1 \<le> ar_pins row"
proof -
  obtain row where row: "row \<in> set (k_artifacts k)" "ar_digest row = hex" "int (references k hex) \<le> ar_pins row"
    using assms by (auto simp: chunk_sets_ok_def references_pinned_def)
  have "1 \<le> int (references k hex)" using assms(2) by simp
  with row show ?thesis by (intro bexI[of _ row]) auto
qed

text \<open>A collection with a revision, its stored content, and the set of its chunks as the calls build it.\<close>

definition sample_hex :: string where
  "sample_hex = replicate 64 CHR ''0''"

definition sample_shelf :: kernel where
  "sample_shelf = empty_kernel\<lparr>
     k_collections := [\<lparr>co_id = ''ct'', co_title = ''t'', co_visibility = ''private'', co_profiles = ''{}''\<rparr>],
     k_sources := [\<lparr>so_collection = ''ct'', so_id = ''src'', so_kind = ''folder'', so_transport = None,
       so_reference = ''.'', so_profiles = ''{}''\<rparr>],
     k_documents := [\<lparr>do_id = ''doc'', do_collection = ''ct'', do_source = ''src'', do_source_ref = ''a.md''\<rparr>],
     k_revisions := [\<lparr>re_id = ''rev'', re_document = ''doc'', re_original = sample_hex, re_canonical = sample_hex,
       re_status = ''valid'', re_captured_at = None, re_metadata = ''{}'', re_recorded_at = ''now''\<rparr>],
     k_artifacts := [\<lparr>ar_digest = sample_hex, ar_bytes = 3, ar_media = ''text/plain'', ar_pins = 2,
       ar_created_at = ''now''\<rparr>]\<rparr>"

definition sample_new_set :: new_chunk_set where
  "sample_new_set = \<lparr>nc_id = ''set'', nc_collection = ''ct'', nc_profile = ''p/2'', nc_counter = ''c''\<rparr>"

definition sample_chunk :: chunk where
  "sample_chunk = \<lparr>ck_id = ''c1'', ck_revision = ''rev'', ck_section = None, ck_digest = Digest sample_hex,
     ck_tokens = 2, ck_start = 0, ck_end = 3\<rparr>"

definition sample_begun :: kernel where
  "sample_begun = snd (begin_chunk_set sample_new_set sample_shelf)"

definition sample_filled :: kernel where
  "sample_filled = snd (record_chunks ''set'' ''rev'' [sample_chunk] sample_begun)"

definition sample_complete :: kernel where
  "sample_complete = snd (complete_chunk_set ''set'' (Digest sample_hex) sample_filled)"

lemma sample_shelf_ok: "chunk_sets_ok U sample_shelf"
proof -
  have "artifacts_ok sample_shelf" by code_simp
  then show ?thesis
    by (simp add: chunk_sets_ok_def sets_ok_def chunks_ok_def references_pinned_def references_def
        sample_shelf_def empty_kernel_def)
qed

lemma sample_begins:
  "begin_chunk_set sample_new_set sample_shelf =
     (Inr \<lparr>ct_id = ''set'', ct_collection = ''ct'', ct_profile = ''p/2'', ct_counter = ''c'',
       ct_state = SetBuilding, ct_manifest = None\<rparr>, sample_begun)"
  by code_simp

lemma sample_fills: "record_chunks ''set'' ''rev'' [sample_chunk] sample_begun = (Inr (), sample_filled)"
  by code_simp

lemma sample_completes: "complete_chunk_set ''set'' (Digest sample_hex) sample_filled = (Inr (), sample_complete)"
  by code_simp

lemma sample_sets_ok: "chunk_sets_ok U sample_begun" "chunk_sets_ok U sample_filled" "chunk_sets_ok U sample_complete"
  "chunk_sets_evolve sample_begun sample_complete"
proof -
  have b: "chunk_set_effect U sample_shelf sample_begun" by (rule begin_effect[OF sample_shelf_ok sample_begins])
  then show ok1: "chunk_sets_ok U sample_begun" by (simp add: chunk_set_effect_def)
  have f: "chunk_set_effect U sample_begun sample_filled" by (rule record_chunks_effect[OF ok1 sample_fills])
  then show ok2: "chunk_sets_ok U sample_filled" by (simp add: chunk_set_effect_def)
  have c: "chunk_set_effect U sample_filled sample_complete" by (rule complete_effect[OF ok2 sample_completes])
  then show "chunk_sets_ok U sample_complete" by (simp add: chunk_set_effect_def)
  show "chunk_sets_evolve sample_begun sample_complete"
    using chunk_set_effect_trans[OF f c] by (simp add: chunk_set_effect_def)
qed

lemma evolved_set:
  assumes "chunk_sets_evolve k k'" and "sets_ok (k_chunk_sets k')" and "set_of sid k = Some row"
  shows "\<exists>new. set_of sid k' = Some new \<and> set_evolves row new"
proof -
  obtain kept added where k': "k_chunk_sets k' = kept @ added" "list_all2 set_evolves (k_chunk_sets k) kept"
    using assms(1) by (auto simp: chunk_sets_evolve_def)
  note row = set_of_mem[OF assms(3)]
  then obtain new where new: "new \<in> set kept" "set_evolves row new"
    using k'(2) by (metis in_set_conv_nth list_all2_conv_all_nth)
  then have "cs_id new = sid" "new \<in> set (k_chunk_sets k')" using row k'(1) by (auto simp: set_evolves_def)
  then have "set_of sid k' = Some new"
    using find_unique[of cs_id "k_chunk_sets k'" new] assms(2) by (simp add: sets_ok_def set_of_def)
  with new show ?thesis by blast
qed

text \<open>
  A rerun resumes its set: once a call began it, a call for the same collection, profile and
  counter finds it again whatever happened to it since and records nothing, and a call for others
  under the same id is refused and records nothing.
\<close>

theorem begin_resumes:
  assumes "chunk_sets_ok U k" and "begin_chunk_set new k = (Inr set1, k')"
    and "chunk_sets_evolve k' k''" and "chunk_sets_ok U k''" and "nc_id again = nc_id new"
  shows "\<exists>set2. begin_chunk_set again k'' =
      (if nc_collection again = nc_collection new \<and> nc_profile again = nc_profile new
          \<and> nc_counter again = nc_counter new
       then Inr set2 else Inl (ChunkSetConflict (nc_id new)), k'')
    \<and> ct_id set2 = nc_id new \<and> ct_collection set2 = nc_collection new \<and> ct_profile set2 = nc_profile new
    \<and> ct_counter set2 = nc_counter new \<and> (ct_state set1 \<noteq> SetBuilding \<longrightarrow> set2 = set1)"
proof -
  have sets: "sets_ok (k_chunk_sets k)" "sets_ok (k_chunk_sets k'')" using assms(1,4) by (simp_all add: chunk_sets_ok_def)
  have fresh: "set_of (nc_id new) (k\<lparr>k_chunk_sets := k_chunk_sets k @ [begun new]\<rparr>) = Some (begun new)"
    if "set_of (nc_id new) k = None"
  proof -
    have "List.find P (xs @ [a]) = Some a" if "List.find P xs = None" "P a" for P and xs and a :: chunk_set_record
      using that by (induction xs) (auto split: if_splits)
    then show ?thesis using that by (simp add: set_of_def begun_def)
  qed
  obtain row where row: "set_of (nc_id new) k' = Some row" "begun_for new row" "set1 = the_set row"
    using assms(2) fresh
    by (auto simp: begin_cases[OF sets(1)] begun_for_def split: option.splits if_splits)
      (simp_all add: begun_def begun_for_def)
  obtain new' where n: "set_of (nc_id new) k'' = Some new'" "set_evolves row new'"
    using evolved_set[OF assms(3) sets(2) row(1)] by blast
  have same: "begun_for again new' = (nc_collection again = nc_collection new \<and> nc_profile again = nc_profile new
      \<and> nc_counter again = nc_counter new)"
    using n(2) row(2) by (auto simp: begun_for_def set_evolves_def)
  have "new' = row" if "ct_state set1 \<noteq> SetBuilding"
    using n(2) that row(3) by (auto simp: set_evolves_def the_set_def the_set_state_def)
  then show ?thesis
    using n row same assms(5) set_of_mem[OF n(1)]
    by (intro exI[of _ "the_set new'"])
      (auto simp: begin_cases[OF sets(2)] the_set_def set_evolves_def begun_for_def)
qed

lemma begin_resumes_witness:
  "fst (begin_chunk_set (sample_new_set\<lparr>nc_counter := ''d''\<rparr>) sample_complete) = Inl (ChunkSetConflict ''set'')
   \<and> isl (fst (begin_chunk_set sample_new_set sample_complete)) = False"
  using begin_resumes[OF sample_shelf_ok sample_begins sample_sets_ok(4,3), of sample_new_set]
    begin_resumes[OF sample_shelf_ok sample_begins sample_sets_ok(4,3), of "sample_new_set\<lparr>nc_counter := ''d''\<rparr>"]
  by (auto simp: sample_new_set_def)

text \<open>
  Completing a set is one write: it refuses a set that is not recorded or not building, and a
  manifest that is not stored, and changes nothing then; otherwise the set is complete with that
  manifest, whose artifact has one pin more.
\<close>

theorem complete_exact:
  assumes "chunk_sets_ok U k"
  shows "complete_chunk_set sid manifest k =
    (case set_of sid k of
       None \<Rightarrow> (Inl (UnknownChunkSet sid), k)
     | Some row \<Rightarrow>
         if the_set_state row \<noteq> SetBuilding
         then (Inl (ChunkSetIllegalMove sid (the_set_state row) SetComplete), k)
         else (case List.find (\<lambda>row. ar_digest row = digest_str manifest) (k_artifacts k) of
                 None \<Rightarrow> (Inl (ChunkSetStore (UnknownArtifact manifest)), k)
               | Some artifact \<Rightarrow>
                   if ar_pins artifact = I64_MAX
                   then (Inl (chunk_set_sqlite (ConstraintViolation ''STRICT'')), k)
                   else (Inr (), k\<lparr>
                     k_chunk_sets := map (\<lambda>row. if cs_id row = sid then completed manifest row else row) (k_chunk_sets k),
                     k_artifacts := map (pinned_row (digest_str manifest)) (k_artifacts k)\<rparr>)))"
proof -
  have "sets_ok (k_chunk_sets k)" "artifacts_ok k" using assms by (simp_all add: chunk_sets_ok_def)
  then show ?thesis
    by (auto simp: complete_cases pin_exact moved_set_def chunk_set_sqlite_def split: option.split)
qed

lemma complete_exact_witness:
  "fst (complete_chunk_set ''set'' (Digest sample_hex) sample_begun) = Inr ()
   \<and> complete_chunk_set ''set'' (Digest []) sample_begun = (Inl (ChunkSetStore (UnknownArtifact (Digest []))), sample_begun)"
proof -
  have row: "set_of ''set'' sample_begun = Some (begun sample_new_set)" by code_simp
  have state: "the_set_state (begun sample_new_set) = SetBuilding" by code_simp
  have found: "List.find (\<lambda>row. ar_digest row = []) (k_artifacts sample_begun) = None"
      "map_option ar_pins (List.find (\<lambda>row. ar_digest row = sample_hex) (k_artifacts sample_begun)) = Some 2"
    by code_simp+
  show ?thesis
    using complete_exact[OF sample_sets_ok(1), of "''set''" "Digest sample_hex"]
      complete_exact[OF sample_sets_ok(1), of "''set''" "Digest []"] row state found
    by (auto simp: I64_MAX_def)
qed

text \<open>
  C20: recording a revision's chunks is idempotent: once it succeeded, the same call again succeeds
  and changes nothing, while other chunks of that revision are refused; each chunk's content has a
  pin by then, except content in \<open>U\<close>, of which some caller may have given up pins that it did not take
  (\<open>U\<close> is empty where nobody does).
\<close>

theorem record_chunks_idempotent:
  assumes ok: "chunk_sets_ok U k" and r: "record_chunks sid revision chunks k = (Inr u, k')"
  shows "record_chunks sid revision chunks k' = (Inr (), k')
    \<and> (\<forall>other. chunks \<noteq> [] \<longrightarrow> other \<noteq> chunks
         \<longrightarrow> record_chunks sid revision other k' = (Inl (ChunksConflict sid revision), k'))
    \<and> (\<forall>chunk\<in>set chunks. digest_str (ck_digest chunk) \<notin> U \<longrightarrow> (\<exists>row\<in>set (k_artifacts k').
         ar_digest row = digest_str (ck_digest chunk) \<and> 1 \<le> ar_pins row))"
proof -
  have "record_in sid revision chunks k = Inr (u, k')" using r by (simp add: record_chunks_def db_write_Inr)
  note e = record_in_Inr[OF ok this]
  then have ok': "chunk_sets_ok U k'" by (simp add: chunk_set_effect_def)
  then have sets: "sets_ok (k_chunk_sets k')" and chunks': "chunks_ok k'" by (simp_all add: chunk_sets_ok_def)
  let ?rows = "filter (\<lambda>row. ch_set row = sid \<and> ch_revision row = revision) (k_chunks k')"
  have recorded: "map the_chunk ?rows = chunks" and revs: "\<forall>chunk\<in>set chunks. ck_revision chunk = revision"
    using e by blast+
  obtain srow where s: "set_of sid k' = Some srow" "cs_state srow = ''building''"
    using e by (auto simp: set_of_def)
  have "set_row_ok srow" using sets set_of_mem[OF s(1)] by (simp add: sets_ok_def list_all_iff)
  then have building: "the_set_state srow = SetBuilding" using building_row s(2) by blast
  have again: "record_in sid revision other k' =
      (if list_ex (\<lambda>chunk. ck_revision chunk \<noteq> revision) other then Inl (ChunksConflict sid revision)
       else if chunks \<noteq> [] then (if chunks = other then Inr ((), k') else Inl (ChunksConflict sid revision))
       else record_each sid other k')" for other
    using s building recorded
    by (simp add: record_in_def find_chunk_set_ok[OF sets] the_set_def read_chunks_of_revision[OF chunks'])
  have "record_chunks sid revision chunks k' = (Inr (), k')"
    using revs by (auto simp: record_chunks_def db_write_def again list_ex_iff)
  moreover have "record_chunks sid revision other k' = (Inl (ChunksConflict sid revision), k')"
    if "chunks \<noteq> []" "other \<noteq> chunks" for other
    using that by (auto simp: record_chunks_def db_write_def again)
  moreover have "\<exists>row\<in>set (k_artifacts k'). ar_digest row = digest_str (ck_digest chunk) \<and> 1 \<le> ar_pins row"
    if chunk: "chunk \<in> set chunks" and used: "digest_str (ck_digest chunk) \<notin> U" for chunk
  proof -
    obtain row where "row \<in> set ?rows" "chunk = the_chunk row" using recorded chunk by auto
    then have "row \<in> set (k_chunks k')" "ch_digest row = digest_str (ck_digest chunk)" by (auto simp: the_chunk_def)
    then have "filter (\<lambda>row. ch_digest row = digest_str (ck_digest chunk)) (k_chunks k') \<noteq> []"
      by (auto simp: filter_empty_conv)
    then have "0 < references k' (digest_str (ck_digest chunk))" by (simp add: references_def)
    then show ?thesis using referenced_pin[OF ok'] used by simp
  qed
  ultimately show ?thesis by blast
qed

lemma record_chunks_idempotent_witness:
  "record_chunks ''set'' ''rev'' [sample_chunk] sample_filled = (Inr (), sample_filled)
   \<and> record_chunks ''set'' ''rev'' [] sample_filled = (Inl (ChunksConflict ''set'' ''rev''), sample_filled)"
  using record_chunks_idempotent[OF sample_sets_ok(1) sample_fills] by simp

text \<open>
  A set once complete or failed is final: whatever calls ran since, its record and its chunks
  are what they were, no call completes, fails or fills it, and the content of its chunks and its
  manifest has its pins, unless some caller gave up a pin of it.
\<close>

theorem ended_set_frozen:
  assumes ok: "chunk_sets_ok U k" and later: "chunk_sets_evolve k k'" and ok': "chunk_sets_ok U k'"
    and s: "set_of sid k = Some row" and ended: "cs_state row \<noteq> ''building''"
  shows "set_of sid k' = Some row
    \<and> filter (\<lambda>chunk. ch_set chunk = sid) (k_chunks k') = filter (\<lambda>chunk. ch_set chunk = sid) (k_chunks k)
    \<and> record_chunks sid revision chunks k' = (Inl (NotBuilding sid (the_set_state row)), k')
    \<and> complete_chunk_set sid manifest k' = (Inl (ChunkSetIllegalMove sid (the_set_state row) SetComplete), k')
    \<and> fail_chunk_set sid k' = (Inl (ChunkSetIllegalMove sid (the_set_state row) SetFailed), k')
    \<and> (\<forall>hex. hex \<notin> U \<longrightarrow> (\<exists>chunk\<in>set (k_chunks k'). ch_set chunk = sid \<and> ch_digest chunk = hex) \<or> cs_manifest row = Some hex
         \<longrightarrow> (\<exists>artifact\<in>set (k_artifacts k'). ar_digest artifact = hex \<and> 1 \<le> ar_pins artifact))"
proof -
  have sets: "sets_ok (k_chunk_sets k)" "sets_ok (k_chunk_sets k')" using ok ok' by (simp_all add: chunk_sets_ok_def)
  obtain new where "set_of sid k' = Some new" "set_evolves row new" using evolved_set[OF later sets(2) s] by blast
  then have s': "set_of sid k' = Some row" using ended by (auto simp: set_evolves_def)
  have "set_row_ok row" using sets(1) set_of_mem[OF s] by (simp add: sets_ok_def list_all_iff)
  then have state: "the_set_state row \<noteq> SetBuilding" using building_row ended by blast
  obtain added where added: "k_chunks k' = k_chunks k @ added"
      "\<forall>row\<in>set added. \<forall>s\<in>set (k_chunk_sets k). cs_id s = ch_set row \<longrightarrow> cs_state s = ''building''"
    using later by (auto simp: chunk_sets_evolve_def)
  have "filter (\<lambda>chunk. ch_set chunk = sid) added = []"
    using added(2) set_of_mem[OF s] ended by (auto simp: filter_empty_conv)
  then have chunks: "filter (\<lambda>chunk. ch_set chunk = sid) (k_chunks k') = filter (\<lambda>chunk. ch_set chunk = sid) (k_chunks k)"
    by (simp add: added(1))
  have pinned: "\<exists>artifact\<in>set (k_artifacts k'). ar_digest artifact = hex \<and> 1 \<le> ar_pins artifact"
    if "hex \<notin> U" "(\<exists>chunk\<in>set (k_chunks k'). ch_set chunk = sid \<and> ch_digest chunk = hex) \<or> cs_manifest row = Some hex" for hex
  proof -
    have "0 < references k' hex"
      using that(2) set_of_mem[OF s'] by (auto simp: references_def filter_empty_conv)
    then show ?thesis using referenced_pin[OF ok'] that(1) by simp
  qed
  have "record_chunks sid revision chunks k' = (Inl (NotBuilding sid (the_set_state row)), k')"
    using s' state set_of_mem[OF s']
    by (simp add: record_chunks_def db_write_def record_in_def find_chunk_set_ok[OF sets(2)] the_set_def)
  with s' state chunks pinned show ?thesis
    by (simp add: complete_cases[OF sets(2)] fail_cases[OF sets(2)])
qed

lemma ended_set_frozen_witness:
  "record_chunks ''set'' ''rev'' [sample_chunk] sample_complete = (Inl (NotBuilding ''set'' SetComplete), sample_complete)"
proof -
  have row: "set_of ''set'' sample_complete = Some (completed (Digest sample_hex) (begun sample_new_set))" by code_simp
  have state: "cs_state (completed (Digest sample_hex) (begun sample_new_set)) \<noteq> ''building''"
      "the_set_state (completed (Digest sample_hex) (begun sample_new_set)) = SetComplete" by code_simp+
  show ?thesis
    using ended_set_frozen[OF sample_sets_ok(3) chunk_sets_evolve_refl sample_sets_ok(3) row state(1)] state(2) by simp
qed

text \<open>
  A reader of a set's chunks gets exactly those whose document's source it may see, in the order
  they were recorded, and reading a well-formed database never fails.
\<close>

theorem chunks_read_exact:
  assumes "chunk_sets_ok U k"
  shows "\<exists>rows. chunks_read scopes sid k = Inr (map the_chunk rows) \<and> subseq rows (k_chunks k)
    \<and> (\<forall>row. row \<in> set rows \<longleftrightarrow> row \<in> set (k_chunks k) \<and> ch_set row = sid
         \<and> (\<exists>doc. document_of k (ch_revision row) = Some doc
              \<and> set_covers scopes (Scope (source_path (do_collection doc) (do_source doc)))))"
proof -
  have chunks: "chunks_ok k" using assms by (simp add: chunk_sets_ok_def)
  let ?meets = "\<lambda>row. case document_of k (ch_revision row) of None \<Rightarrow> False
      | Some doc \<Rightarrow> ch_set row = sid \<and> sees_document scopes doc"
  have "sees_document scopes doc = set_covers scopes (Scope (source_path (do_collection doc) (do_source doc)))" for doc
    by (simp add: sees_document_def source_condition_def source_path_def collection_path_def
        condition_set_covers[symmetric] WORKSPACE_def)
  then show ?thesis
    by (intro exI[of _ "filter ?meets (k_chunks k)"])
      (auto simp: chunks_read_def read_chunks_ok[OF chunks] split: option.splits)
qed

lemma chunks_read_exact_witness:
  "\<exists>chunks. chunks_read (ScopeSet [Scope ''workspace/default'']) ''set'' sample_complete = Inr chunks
     \<and> length chunks \<le> 1"
proof -
  have "length (k_chunks sample_complete) = 1" by code_simp
  then show ?thesis
    using chunks_read_exact[OF sample_sets_ok(3), of "ScopeSet [Scope ''workspace/default'']" "''set''"]
    by (auto dest: list_emb_length)
qed

end
