(* ===== verification/Document_Safety.thy ===== *)
theory Document_Safety
  imports Documents Chunk_Safety
begin

text \<open>
  What the records of the pipeline are safe to rely on: the invariant of their tables, that they only
  grow (a document keeps its identity, a revision its content, a disposition its outcome, a group of
  near duplicates its members), what each call records and refuses, and how a revision held back is
  journaled with its disposition or not at all.
\<close>

section \<open>Statuses and outcomes\<close>

interpretation revision_statuses: named_enum REVISION_STATUSES revision_status_str
proof
  show "v \<in> set REVISION_STATUSES" for v by (cases v) (simp_all add: REVISION_STATUSES_def)
  show "revision_status_str v = revision_status_str w \<Longrightarrow> v = w" for v w by (cases v; cases w) simp_all
qed

interpretation outcomes: named_enum OUTCOMES outcome_str
proof
  show "v \<in> set OUTCOMES" for v by (cases v) (simp_all add: OUTCOMES_def)
  show "outcome_str v = outcome_str w \<Longrightarrow> v = w" for v w by (cases v; cases w) simp_all
qed

lemma status_column_Inr [results]: "status_column name i = Inr v \<longleftrightarrow> revision_status_str v = name"
  by (simp add: status_column_def ok_or_Inr revision_statuses.named_iff)

lemma status_column_name [simp]: "status_column (revision_status_str v) i = Inr v"
  by (simp add: status_column_Inr)

lemma outcome_column_Inr [results]: "outcome_column name i = Inr v \<longleftrightarrow> outcome_str v = name"
  by (simp add: outcome_column_def ok_or_Inr outcomes.named_iff)

lemma outcome_column_name [simp]: "outcome_column (outcome_str v) i = Inr v"
  by (simp add: outcome_column_Inr)

lemma list_ex_image: "list_ex (\<lambda>v. f v = y) vs \<longleftrightarrow> y \<in> f ` set vs"
  unfolding list_ex_iff image_iff by metis

section \<open>The tables\<close>

definition source_key :: "source_record \<Rightarrow> string \<times> string" where
  "source_key row = (so_collection row, so_id row)"

definition ref_key :: "document_record \<Rightarrow> string \<times> string" where
  "ref_key row = (do_collection row, do_source_ref row)"

definition revision_row_ok :: "revision_record \<Rightarrow> bool" where
  "revision_row_ok row \<longleftrightarrow>
     digest_parse (re_original row) = Inr (Digest (re_original row))
     \<and> digest_parse (re_canonical row) = Inr (Digest (re_canonical row))
     \<and> (\<exists>status. revision_status_str status = re_status row)"

definition disposition_row_ok :: "disposition_record \<Rightarrow> bool" where
  "disposition_row_ok row \<longleftrightarrow> (\<exists>outcome. outcome_str outcome = qd_disposition row)"

definition sources_ok :: "kernel \<Rightarrow> bool" where
  "sources_ok k \<longleftrightarrow>
     distinct (map co_id (k_collections k)) \<and> distinct (map source_key (k_sources k))
     \<and> so_collection ` set (k_sources k) \<subseteq> co_id ` set (k_collections k)"

definition identities_ok :: "kernel \<Rightarrow> bool" where
  "identities_ok k \<longleftrightarrow>
     distinct (map do_id (k_documents k)) \<and> distinct (map ref_key (k_documents k))
     \<and> (\<lambda>doc. (do_collection doc, do_source doc)) ` set (k_documents k) \<subseteq> source_key ` set (k_sources k)"

definition revisions_ok :: "kernel \<Rightarrow> bool" where
  "revisions_ok k \<longleftrightarrow>
     distinct (map re_id (k_revisions k)) \<and> list_all revision_row_ok (k_revisions k)
     \<and> re_document ` set (k_revisions k) \<subseteq> do_id ` set (k_documents k)"

definition decisions_ok :: "kernel \<Rightarrow> bool" where
  "decisions_ok k \<longleftrightarrow>
     distinct (map qd_revision (k_dispositions k)) \<and> list_all disposition_row_ok (k_dispositions k)
     \<and> qd_revision ` set (k_dispositions k) \<subseteq> re_id ` set (k_revisions k)"

definition duplicates_ok :: "kernel \<Rightarrow> bool" where
  "duplicates_ok k \<longleftrightarrow>
     distinct (k_occurrences k) \<and> distinct (map member_key (k_near_dups k))
     \<and> list_all (\<lambda>row. is_jaccard (nd_jaccard row)) (k_near_dups k)
     \<and> oc_revision ` set (k_occurrences k) \<subseteq> re_id ` set (k_revisions k)
     \<and> nd_revision ` set (k_near_dups k) \<subseteq> re_id ` set (k_revisions k)"

definition documents_ok :: "kernel \<Rightarrow> bool" where
  "documents_ok k \<longleftrightarrow>
     sources_ok k \<and> identities_ok k \<and> revisions_ok k \<and> decisions_ok k \<and> duplicates_ok k"

lemmas documents_ok_defs =
  documents_ok_def sources_ok_def identities_ok_def revisions_ok_def decisions_ok_def duplicates_ok_def

lemma documents_ok_same:
  assumes "k_collections k' = k_collections k" "k_sources k' = k_sources k" "k_documents k' = k_documents k"
    "k_revisions k' = k_revisions k" "k_dispositions k' = k_dispositions k"
    "k_occurrences k' = k_occurrences k" "k_near_dups k' = k_near_dups k"
  shows "documents_ok k' = documents_ok k"
  using assms by (simp add: documents_ok_defs)

section \<open>What no call undoes\<close>

text \<open>The rows of a group, complete once there is one.\<close>

definition group_of :: "string \<Rightarrow> kernel \<Rightarrow> near_dup_record list" where
  "group_of g k = filter (\<lambda>row. nd_group row = g) (k_near_dups k)"

definition documents_grow :: "kernel \<Rightarrow> kernel \<Rightarrow> bool" where
  "documents_grow k k' \<longleftrightarrow>
     prefix (k_documents k) (k_documents k') \<and> prefix (k_revisions k) (k_revisions k')
     \<and> prefix (k_dispositions k) (k_dispositions k') \<and> prefix (k_occurrences k) (k_occurrences k')
     \<and> (\<forall>g. group_of g k \<noteq> [] \<longrightarrow> group_of g k' = group_of g k)"

lemma documents_grow_refl [simp]: "documents_grow k k"
  by (simp add: documents_grow_def)

lemma documents_grow_trans: "documents_grow a b \<Longrightarrow> documents_grow b c \<Longrightarrow> documents_grow a c"
  unfolding documents_grow_def by (elim conjE, intro conjI allI impI) (erule (1) prefix_order.trans | simp)+

lemma documents_growD:
  assumes "documents_grow k k'"
  shows "prefix (k_documents k) (k_documents k')" "prefix (k_revisions k) (k_revisions k')"
    "prefix (k_dispositions k) (k_dispositions k')" "prefix (k_occurrences k) (k_occurrences k')"
  using assms by (simp_all add: documents_grow_def)

lemma documents_grow_same:
  assumes "k_documents k' = k_documents k" "k_revisions k' = k_revisions k"
    "k_dispositions k' = k_dispositions k" "k_occurrences k' = k_occurrences k" "k_near_dups k' = k_near_dups k"
  shows "documents_grow k k'"
  using assms by (simp add: documents_grow_def group_of_def)

lemma find_prefix: "prefix xs ys \<Longrightarrow> List.find P xs = Some v \<Longrightarrow> List.find P ys = Some v"
proof (elim prefixE)
  fix zs assume "ys = xs @ zs" "List.find P xs = Some v"
  then show "List.find P ys = Some v" by (induction xs arbitrary: ys) (auto split: if_splits)
qed

lemma document_of_grows:
  assumes "documents_grow k k'" and "document_of k r \<noteq> None"
  shows "document_of k' r = document_of k r"
proof -
  obtain row where row: "List.find (\<lambda>row. re_id row = r) (k_revisions k) = Some row"
    using assms(2) by (cases "List.find (\<lambda>row. re_id row = r) (k_revisions k)") (auto simp: document_of_def)
  obtain doc where doc: "List.find (\<lambda>doc. do_id doc = re_document row) (k_documents k) = Some doc"
    using assms(2) row by (cases "List.find (\<lambda>doc. do_id doc = re_document row) (k_documents k)") (auto simp: document_of_def)
  have "List.find (\<lambda>row. re_id row = r) (k_revisions k') = Some row"
    by (rule find_prefix[OF documents_growD(2)[OF assms(1)] row])
  moreover have "List.find (\<lambda>doc. do_id doc = re_document row) (k_documents k') = Some doc"
    by (rule find_prefix[OF documents_growD(1)[OF assms(1)] doc])
  ultimately show ?thesis using row doc by (simp add: document_of_def)
qed

text \<open>What a call of this part changes: its own tables, the pins and the journal.\<close>

definition beside_documents :: "kernel \<Rightarrow> kernel \<Rightarrow> bool" where
  "beside_documents k k' \<longleftrightarrow>
     k_cursors k' = k_cursors k \<and> k_grants k' = k_grants k \<and> k_chunk_sets k' = k_chunk_sets k
     \<and> k_chunks k' = k_chunks k \<and> k_generations k' = k_generations k
     \<and> k_generation_seq k' = k_generation_seq k \<and> k_jobs k' = k_jobs k"

definition document_effect :: "ext \<Rightarrow> string set \<Rightarrow> kernel \<Rightarrow> kernel \<Rightarrow> bool" where
  "document_effect x U k k' \<longleftrightarrow>
     documents_ok k' \<and> chunk_sets_ok U k' \<and> journal_ok x k'
     \<and> documents_grow k k' \<and> journal_grows k k' \<and> beside_documents k k'
     \<and> pins_kept False (\<lparr>dk_kernel = k, dk_files = Map.empty\<rparr>, {#}) (\<lparr>dk_kernel = k', dk_files = Map.empty\<rparr>, {#})"

definition parts_ok :: "ext \<Rightarrow> string set \<Rightarrow> kernel \<Rightarrow> bool" where
  "parts_ok x U k \<longleftrightarrow> documents_ok k \<and> chunk_sets_ok U k \<and> journal_ok x k"

lemma document_effect_refl: "parts_ok x U k \<Longrightarrow> document_effect x U k k"
  by (simp add: parts_ok_def document_effect_def beside_documents_def pins_kept_same journal_grows_refl)

lemma document_effect_ok: "document_effect x U k k' \<Longrightarrow> parts_ok x U k'"
  by (simp add: parts_ok_def document_effect_def)

lemma document_effect_trans: "document_effect x U a b \<Longrightarrow> document_effect x U b c \<Longrightarrow> document_effect x U a c"
  unfolding document_effect_def beside_documents_def
  by (elim conjE, intro conjI) (simp_all add: documents_grow_trans[of a b c] journal_grows_trans[of a b c] pins_kept_trans)

text \<open>A change of these tables alone keeps the chunks, when every revision stays with its document.\<close>

lemma chunk_sets_ok_grows:
  assumes ok: "chunk_sets_ok U k" and grow: "documents_grow k k'"
    and same: "k_chunk_sets k' = k_chunk_sets k" "k_chunks k' = k_chunks k"
    and artifacts: "artifacts_ok k'" and pinned: "references_pinned U k'"
  shows "chunk_sets_ok U k'"
  using ok artifacts pinned document_of_grows[OF grow]
  by (auto simp: chunk_sets_ok_def chunks_ok_def same list_all_iff)

lemma document_effectI:
  assumes parts: "parts_ok x U k" and ok: "documents_ok k'" and grow: "documents_grow k k'"
    and beside: "beside_documents k k'" and same: "k_artifacts k' = k_artifacts k" "k_events k' = k_events k"
    and revisions: "k_revisions k' = k_revisions k"
  shows "document_effect x U k k'"
proof -
  have "references k' = references k"
    using beside revisions by (simp add: references_def fun_eq_iff beside_documents_def)
  then have "references_pinned U k'" "artifacts_ok k'"
    using parts same by (simp_all add: parts_ok_def chunk_sets_ok_def references_pinned_def artifacts_ok_def)
  then have "chunk_sets_ok U k'"
    using parts beside grow by - (rule chunk_sets_ok_grows[of U k], simp_all add: parts_ok_def beside_documents_def)
  moreover have "journal_ok x k'" using parts journal_ok_same[of k' k x] same(2) by (simp add: parts_ok_def)
  moreover have "journal_grows k k'" by (simp add: journal_grows_def same(2))
  ultimately show ?thesis
    unfolding document_effect_def using ok grow beside pins_kept_same[OF same(1)] by blast
qed

section \<open>The calls\<close>

text \<open>A call that fails leaves the tables; one that succeeds has the effect of its work.\<close>

lemma db_write_effect:
  assumes "parts_ok x U k" and "db_write work k = (r, k')"
    and "\<And>v k'. work k = Inr (v, k') \<Longrightarrow> document_effect x U k k'"
  shows "document_effect x U k k'"
  using assms(2)
proof (cases "work k")
  case (Inl e)
  then show ?thesis using assms(1,2) document_effect_refl by (simp add: db_write_def)
next
  case (Inr p)
  then show ?thesis using assms(2,3) by (cases p) (simp add: db_write_def)
qed

lemma insert_all: "list_ex P xs \<longleftrightarrow> \<not> list_all (\<lambda>v. \<not> P v) xs"
  by (induction xs) auto

lemma map_if_key: "(\<And>v. P v \<Longrightarrow> key w = key v) \<Longrightarrow> map key (map (\<lambda>v. if P v then w else v) vs) = map key vs"
  by (induction vs) auto

lemma collection_effect:
  assumes parts: "parts_ok x U k" and r: "record_collection x c k = (r, k')"
  shows "document_effect x U k k'"
proof -
  have effect: "document_effect x U k k1" if u: "upsert_collection x row k = Inr (v, k1)" for row v k1
  proof -
    obtain cs where k1: "k1 = k\<lparr>k_collections := cs\<rparr>" and cs: "distinct (map co_id cs)"
        "co_id ` set (k_collections k) \<subseteq> co_id ` set cs"
    proof (cases "co_id row \<in> co_id ` set (k_collections k)")
      case True
      let ?cs = "map (\<lambda>other. if co_id other = co_id row then row else other) (k_collections k)"
      have ids: "map co_id ?cs = map co_id (k_collections k)" by (rule map_if_key) simp
      have "co_id ` set ?cs = co_id ` set (k_collections k)" by (metis ids list.set_map)
      moreover have "k1 = k\<lparr>k_collections := ?cs\<rparr>"
        using u True by (auto simp: upsert_collection_def list_ex_iff image_iff split: if_splits)
      ultimately show ?thesis
        using that[of ?cs] ids parts by (simp add: parts_ok_def documents_ok_def sources_ok_def del: map_map set_map)
    next
      case False
      then have "k1 = k\<lparr>k_collections := k_collections k @ [row]\<rparr>"
        using u by (auto simp: upsert_collection_def list_ex_iff image_iff split: if_splits)
      then show ?thesis
        using that[of "k_collections k @ [row]"] False parts by (auto simp: parts_ok_def documents_ok_def sources_ok_def)
    qed
    have "so_collection ` set (k_sources k) \<subseteq> co_id ` set cs"
      using parts cs(2) unfolding parts_ok_def documents_ok_def sources_ok_def by blast
    then have "documents_ok k1"
      using parts cs(1) by (simp add: parts_ok_def documents_ok_defs k1)
    moreover have "documents_grow k k1" by (rule documents_grow_same) (simp_all add: k1)
    ultimately show ?thesis by (intro document_effectI[OF parts]) (simp_all add: beside_documents_def k1)
  qed
  show ?thesis
  proof (cases "check_collection_name (cl_id c)")
    case (Inl invalid)
    then show ?thesis using r document_effect_refl[OF parts] by (simp add: record_collection_def)
  next
    case (Inr u)
    then show ?thesis
      using r effect by (auto simp: record_collection_def map_err_Inr intro: db_write_effect[OF parts])
  qed
qed

lemma source_effect:
  assumes parts: "parts_ok x U k" and r: "record_source x s k = (r, k')"
  shows "document_effect x U k k'"
proof -
  have effect: "document_effect x U k k1" if u: "upsert_source x row k = Inr (v, k1)" for row v k1
  proof -
    have key: "list_ex (\<lambda>other. so_collection other = so_collection row \<and> so_id other = so_id row) (k_sources k)
        \<longleftrightarrow> source_key row \<in> source_key ` set (k_sources k)"
      unfolding list_ex_iff image_iff source_key_def by (metis prod.inject)
    obtain ss where k1: "k1 = k\<lparr>k_sources := ss\<rparr>" and ss: "distinct (map source_key ss)"
        "source_key ` set (k_sources k) \<subseteq> source_key ` set ss"
        "so_collection ` set ss \<subseteq> co_id ` set (k_collections k)"
    proof (cases "source_key row \<in> source_key ` set (k_sources k)")
      case True
      let ?ss = "map (\<lambda>other. if so_collection other = so_collection row \<and> so_id other = so_id row
          then row else other) (k_sources k)"
      have keys: "map source_key ?ss = map source_key (k_sources k)"
        by (rule map_if_key) (simp add: source_key_def)
      have collections: "map so_collection ?ss = map so_collection (k_sources k)" by (rule map_if_key) simp
      have cs: "so_collection ` set ?ss = so_collection ` set (k_sources k)"
        using arg_cong[OF collections, of set] by (simp only: set_map)
      have "source_key ` set ?ss = source_key ` set (k_sources k)"
        using arg_cong[OF keys, of set] by (simp only: set_map)
      moreover have "k1 = k\<lparr>k_sources := ?ss\<rparr>"
        using u True by (simp add: upsert_source_def Let_def key split: if_splits)
      ultimately show ?thesis
        using that[of ?ss] keys cs parts
        by (simp add: parts_ok_def documents_ok_def sources_ok_def del: map_map set_map)
    next
      case False
      then have "k1 = k\<lparr>k_sources := k_sources k @ [row]\<rparr>" "so_collection row \<in> co_id ` set (k_collections k)"
        using u by (simp_all add: upsert_source_def Let_def key list_ex_image split: if_splits)
      then show ?thesis
        using that[of "k_sources k @ [row]"] False parts by (auto simp: parts_ok_def documents_ok_def sources_ok_def)
    qed
    have "(\<lambda>doc. (do_collection doc, do_source doc)) ` set (k_documents k) \<subseteq> source_key ` set ss"
      using parts ss(2) unfolding parts_ok_def documents_ok_def identities_ok_def by blast
    then have "documents_ok k1"
      using parts ss(1,3) by (simp add: parts_ok_def documents_ok_defs k1)
    moreover have "documents_grow k k1" by (rule documents_grow_same) (simp_all add: k1)
    ultimately show ?thesis by (intro document_effectI[OF parts]) (simp_all add: beside_documents_def k1)
  qed
  show ?thesis
  proof (cases "and_then (check_collection_name (ks_collection s)) (\<lambda>_. check_name (ks_id s))")
    case (Inl invalid)
    then show ?thesis using r document_effect_refl[OF parts] by (simp add: record_source_def)
  next
    case (Inr u)
    then show ?thesis
      using r effect by (auto simp: record_source_def map_err_Inr intro: db_write_effect[OF parts])
  qed
qed

lemma query_optional:
  "optional (query_row (\<lambda>row. Inr (f row)) (filter P rows)) = Inr (map_option f (List.find P rows))"
  by (induction rows) (auto simp: optional_def)

lemma find_document_exact:
  "find_document None did k = Inr (map_option document_row (List.find (\<lambda>row. do_id row = did) (k_documents k)))"
  by (simp add: find_document_def query_optional)

text \<open>What \<open>insert_document\<close> does once no document has the id.\<close>

definition new_document_row :: "knowledge_document \<Rightarrow> document_record" where
  "new_document_row doc =
     \<lparr>do_id = kd_id doc, do_collection = kd_collection doc, do_source = kd_source doc, do_source_ref = kd_source_ref doc\<rparr>"

lemma insert_document_Inr:
  assumes r: "insert_document doc k = Inr (u, k')"
  shows "k' = k\<lparr>k_documents := k_documents k @ [new_document_row doc]\<rparr>
    \<and> kd_id doc \<notin> do_id ` set (k_documents k)
    \<and> ref_key (new_document_row doc) \<notin> ref_key ` set (k_documents k)
    \<and> (kd_collection doc, kd_source doc) \<in> source_key ` set (k_sources k)"
  using r unfolding insert_document_def insert_document_row_def query_optional
  by (force simp: results new_document_row_def ref_key_def source_key_def list_ex_iff split: option.splits if_splits)

lemma identities_okI:
  assumes "identities_ok k" and "kd_id doc \<notin> do_id ` set (k_documents k)"
    and "ref_key (new_document_row doc) \<notin> ref_key ` set (k_documents k)"
    and "(kd_collection doc, kd_source doc) \<in> source_key ` set (k_sources k)"
  shows "identities_ok (k\<lparr>k_documents := k_documents k @ [new_document_row doc]\<rparr>)"
  using assms by (simp add: identities_ok_def) (simp add: new_document_row_def)

lemma document_call_effect:
  assumes parts: "parts_ok x U k" and r: "record_document doc k = (r, k')"
  shows "document_effect x U k k'"
proof (rule db_write_effect[OF parts r[unfolded record_document_def]])
  fix v k1
  assume w: "and_then (map_err document_sqlite (find_document None (kd_id doc) k)) (\<lambda>found.
         case found of
           Some recorded \<Rightarrow> if recorded = doc then Inr ((), k) else Inl (DocumentConflict (kd_id doc))
         | None \<Rightarrow> insert_document doc k) = Inr (v, k1)"
  show "document_effect x U k k1"
  proof (cases "List.find (\<lambda>row. do_id row = kd_id doc) (k_documents k)")
    case None
    then have i: "insert_document doc k = Inr (v, k1)" using w by (simp add: find_document_exact)
    note e = insert_document_Inr[OF i]
    then have k1: "k1 = k\<lparr>k_documents := k_documents k @ [new_document_row doc]\<rparr>" by simp
    have "identities_ok k1"
      unfolding k1 using parts e by (intro identities_okI) (simp_all add: parts_ok_def documents_ok_def)
    then have "documents_ok k1"
      using parts by (auto simp: parts_ok_def documents_ok_def sources_ok_def revisions_ok_def decisions_ok_def
          duplicates_ok_def k1)
    moreover have "documents_grow k k1" by (simp add: documents_grow_def k1 group_of_def)
    ultimately show ?thesis by (intro document_effectI[OF parts]) (simp_all add: beside_documents_def k1)
  next
    case (Some row)
    then show ?thesis using w document_effect_refl[OF parts] by (simp add: find_document_exact split: if_splits)
  qed
qed

section \<open>Revisions\<close>

text \<open>The revision a row is, but for its metadata, which is as serde reads it.\<close>

definition revision_of :: "revision_record \<Rightarrow> (string \<times> json) list \<Rightarrow> revision" where
  "revision_of row metadata =
     \<lparr>rv_id = re_id row, rv_document = re_document row, rv_original = Digest (re_original row),
      rv_canonical = Digest (re_canonical row),
      rv_status = (THE status. revision_status_str status = re_status row),
      rv_captured_at = re_captured_at row, rv_metadata = metadata\<rparr>"

lemma revision_row_exact:
  assumes "revision_row_ok row"
  shows "revision_row x row =
    and_then (json_column x (re_metadata row) 6 json_map) (\<lambda>metadata. Inr (revision_of row metadata))"
proof -
  obtain status where status: "revision_status_str status = re_status row"
    using assms by (auto simp: revision_row_ok_def)
  then have "(THE status. revision_status_str status = re_status row) = status"
    using revision_statuses.names_differ by (intro the_equality) simp_all
  moreover have "status_column (re_status row) i = Inr status" for i using status by (simp add: status_column_Inr)
  ultimately show ?thesis
    using assms by (simp add: revision_row_def revision_of_def revision_row_ok_def digest_column_def)
qed

lemma joins_ok:
  assumes "revisions_ok k" and "row \<in> set (k_revisions k)"
  shows "\<exists>doc. joined_document k row = Some doc \<and> doc \<in> set (k_documents k) \<and> do_id doc = re_document row"
proof -
  have "re_document row \<in> do_id ` set (k_documents k)" using assms by (auto simp: revisions_ok_def)
  then obtain doc where "joined_document k row = Some doc"
    unfolding joined_document_def by (cases "List.find (\<lambda>doc. do_id doc = re_document row) (k_documents k)")
      (auto simp: find_None_iff)
  then show ?thesis using find_mem unfolding joined_document_def by fastforce
qed

lemma document_of_joined:
  assumes "revisions_ok k" and "row \<in> set (k_revisions k)"
  shows "document_of k (re_id row) = joined_document k row"
proof -
  have "List.find (\<lambda>r. re_id r = re_id row) (k_revisions k) = Some row"
    using assms by (intro find_unique) (simp_all add: revisions_ok_def)
  then show ?thesis by (simp add: document_of_def joined_document_def)
qed

definition revision_at :: "string \<Rightarrow> kernel \<Rightarrow> revision_record option" where
  "revision_at rid k = List.find (\<lambda>row. re_id row = rid) (k_revisions k)"

lemma find_first:
  "optional (query_row f (filter P rows)) =
     (case List.find P rows of None \<Rightarrow> Inr None | Some row \<Rightarrow> optional (f row))"
  by (induction rows) (auto simp: optional_def split: option.splits)

lemma find_revision_exact:
  assumes ok: "revisions_ok k"
  shows "find_revision x None rid k =
    (case revision_at rid k of None \<Rightarrow> Inr None | Some row \<Rightarrow> optional (revision_row x row))"
proof -
  have "filter (\<lambda>row. re_id row = rid \<and> joins k (\<lambda>doc. True) row) (k_revisions k)
      = filter (\<lambda>row. re_id row = rid) (k_revisions k)"
    using joins_ok[OF ok] by (intro filter_cong) (force simp: joins_def)+
  then show ?thesis by (simp add: find_revision_def find_first revision_at_def)
qed

lemma insert_revision_Inr:
  assumes ok: "artifacts_ok k" and r: "insert_revision x d new k = Inr (r, k')"
  shows "r = New \<and> rv_id new \<notin> re_id ` set (k_revisions k)
    \<and> json_type x (re_metadata (new_revision_row x d new)) = Some ''object''
    \<and> rv_document new \<in> do_id ` set (k_documents k)
    \<and> digest_parse (digest_str (rv_original new)) = Inr (rv_original new)
    \<and> digest_parse (digest_str (rv_canonical new)) = Inr (rv_canonical new)
    \<and> digest_str (rv_original new) \<in> ar_digest ` set (k_artifacts k)
    \<and> digest_str (rv_canonical new) \<in> ar_digest ` set (k_artifacts k)
    \<and> artifacts_ok k'
    \<and> k' = k\<lparr>k_revisions := k_revisions k @ [new_revision_row x d new],
        k_artifacts := map (pinned_row (digest_str (rv_canonical new)))
          (map (pinned_row (digest_str (rv_original new))) (k_artifacts k))\<rparr>"
proof -
  let ?row = "new_revision_row x d new"
  obtain k1 u k2 v where i: "insert_revision_row x ?row k = Inr k1" and p1: "pin (rv_original new) k1 = Inr (u, k2)"
      and p2: "pin (rv_canonical new) k2 = Inr (v, k')" and "r = New"
    using r by (auto simp: insert_revision_def results)
  have k1: "k1 = k\<lparr>k_revisions := k_revisions k @ [?row]\<rparr>" "\<not> list_ex (\<lambda>other. re_id other = re_id ?row) (k_revisions k)"
      "json_type x (re_metadata ?row) = Some ''object''" "list_ex (\<lambda>doc. do_id doc = re_document ?row) (k_documents k)"
    using i by (simp_all add: insert_revision_row_def split: if_splits)
  have ids: "rv_id new \<notin> re_id ` set (k_revisions k)" "rv_document new \<in> do_id ` set (k_documents k)"
    using k1(2,4) by (simp_all add: list_ex_image new_revision_row_def)
  have "artifacts_ok k1" using ok by (simp add: artifacts_ok_def k1(1))
  note f1 = pin_Inr[OF this p1]
  then have "artifacts_ok k2" by blast
  note f2 = pin_Inr[OF this p2]
  have "ar_digest ` set (map (pinned_row hex) rows) = ar_digest ` set rows" for hex rows
    by (induction rows) (simp_all add: pinned_row_def)
  then have "digest_str (rv_canonical new) \<in> ar_digest ` set (k_artifacts k)"
    using f1 f2 by (simp add: k1(1) del: set_map)
  moreover have "artifacts_ok k'" using f2 by blast
  ultimately show ?thesis using f1 conjunct2[OF f2] \<open>r = New\<close> ids k1(3) by (simp add: k1(1))
qed

lemma new_revision_row_ok:
  assumes "digest_parse (digest_str (rv_original new)) = Inr (rv_original new)"
    and "digest_parse (digest_str (rv_canonical new)) = Inr (rv_canonical new)"
  shows "revision_row_ok (new_revision_row x d new)"
  using assms by (auto simp: revision_row_ok_def new_revision_row_def)

text \<open>Two more references to artifacts, each with a pin of its own.\<close>

lemma references_pinned_twice:
  assumes pinned: "references_pinned U k" and arts: "artifacts_ok k"
    and known: "o' \<in> ar_digest ` set (k_artifacts k)" "c \<in> ar_digest ` set (k_artifacts k)"
    and more: "\<And>hex. references k' hex = references k hex + (if hex = o' then 1 else 0) + (if hex = c then 1 else 0)"
    and k': "k_artifacts k' = map (pinned_row c) (map (pinned_row o') (k_artifacts k))"
  shows "references_pinned U k'"
  unfolding references_pinned_def
proof (intro allI impI)
  fix hex assume used: "hex \<notin> U" and some: "0 < references k' hex"
  obtain row where row: "row \<in> set (k_artifacts k)" "ar_digest row = hex" "int (references k hex) \<le> ar_pins row"
  proof (cases "0 < references k hex")
    case True
    then show thesis using pinned used that by (auto simp: references_pinned_def)
  next
    case False
    then have "hex = o' \<or> hex = c" using more[of hex] some by (auto split: if_splits)
    then obtain row where "row \<in> set (k_artifacts k)" "ar_digest row = hex" using known by auto
    then show thesis using that[of row] False artifacts_nonneg[OF arts] by simp
  qed
  let ?new = "pinned_row c (pinned_row o' row)"
  have "?new \<in> set (k_artifacts k')" using row(1) by (simp add: k')
  moreover have "ar_digest ?new = hex" "int (references k' hex) \<le> ar_pins ?new"
    using row(2,3) by (auto simp: pinned_row_def more)
  ultimately show "\<exists>row\<in>set (k_artifacts k'). ar_digest row = hex \<and> int (references k' hex) \<le> ar_pins row" by blast
qed

lemma pins_kept_twice:
  assumes "k_artifacts k' = map (pinned_row c) (map (pinned_row o') (k_artifacts k))"
  shows "pins_kept False (\<lparr>dk_kernel = k, dk_files = Map.empty\<rparr>, {#}) (\<lparr>dk_kernel = k', dk_files = Map.empty\<rparr>, {#})"
proof -
  let ?k = "k\<lparr>k_artifacts := map (pinned_row o') (k_artifacts k)\<rparr>"
  have "pins_kept False (\<lparr>dk_kernel = k, dk_files = Map.empty\<rparr>, {#}) (\<lparr>dk_kernel = ?k, dk_files = Map.empty\<rparr>, {#})"
    by (rule pins_kept_pinned[of _ o']) simp
  moreover have "pins_kept False (\<lparr>dk_kernel = ?k, dk_files = Map.empty\<rparr>, {#}) (\<lparr>dk_kernel = k', dk_files = Map.empty\<rparr>, {#})"
    by (rule pins_kept_pinned[of _ c]) (simp add: assms)
  ultimately show ?thesis by (rule pins_kept_trans)
qed

lemma insert_revision_effect:
  assumes parts: "parts_ok x U k" and r: "insert_revision x d new k = Inr (r, k')"
  shows "document_effect x U k k'"
proof -
  let ?row = "new_revision_row x d new"
  have arts: "artifacts_ok k" and pinned: "references_pinned U k"
    using parts by (simp_all add: parts_ok_def chunk_sets_ok_def)
  note e = insert_revision_Inr[OF arts r]
  then have k': "k' = k\<lparr>k_revisions := k_revisions k @ [?row],
        k_artifacts := map (pinned_row (digest_str (rv_canonical new)))
          (map (pinned_row (digest_str (rv_original new))) (k_artifacts k))\<rparr>" by blast
  have row: "revision_row_ok ?row" using e by (intro new_revision_row_ok) simp_all
  have "re_id ?row \<notin> re_id ` set (k_revisions k)" "re_document ?row \<in> do_id ` set (k_documents k)"
    using e by (simp_all add: new_revision_row_def)
  then have "revisions_ok k'" using parts row by (simp add: parts_ok_def documents_ok_def revisions_ok_def k')
  moreover have "identities_ok k'" "sources_ok k'" "decisions_ok k'" "duplicates_ok k'"
    using parts by (auto simp: parts_ok_def documents_ok_def identities_ok_def sources_ok_def decisions_ok_def
        duplicates_ok_def k')
  ultimately have docs: "documents_ok k'" by (simp add: documents_ok_def)
  have grow: "documents_grow k k'" by (simp add: documents_grow_def group_of_def k')
  have "references k' hex = references k hex + (if hex = digest_str (rv_original new) then 1 else 0)
      + (if hex = digest_str (rv_canonical new) then 1 else 0)" for hex
    by (auto simp: references_def k' new_revision_row_def)
  then have "references_pinned U k'"
    using e by (intro references_pinned_twice[OF pinned arts, of "digest_str (rv_original new)" "digest_str (rv_canonical new)"]) (simp_all add: k')
  then have "chunk_sets_ok U k'"
    using parts e grow by - (rule chunk_sets_ok_grows[of U k], simp_all add: parts_ok_def k')
  moreover have "journal_ok x k'" using parts journal_ok_same[of k' k x] by (simp add: parts_ok_def k')
  moreover have "pins_kept False (\<lparr>dk_kernel = k, dk_files = Map.empty\<rparr>, {#}) (\<lparr>dk_kernel = k', dk_files = Map.empty\<rparr>, {#})"
    by (rule pins_kept_twice[of _ "digest_str (rv_canonical new)" "digest_str (rv_original new)"]) (simp add: k')
  ultimately show ?thesis
    using docs grow by (simp add: document_effect_def beside_documents_def journal_grows_def k')
qed

lemma record_revision_effect:
  assumes parts: "parts_ok x U k" and r: "record_revision_in x d new k = Inr (r, k')"
  shows "document_effect x U k k'"
  using r insert_revision_effect[OF parts] document_effect_refl[OF parts]
  by (auto simp: record_revision_in_def results split: option.splits)

section \<open>Dispositions\<close>

lemma insert_disposition_Inr:
  assumes r: "insert_disposition x row k = Inr (n, k')"
  shows "n = 0 \<and> k' = k \<and> qd_revision row \<in> qd_revision ` set (k_dispositions k)
    \<or> n = 1 \<and> k' = k\<lparr>k_dispositions := k_dispositions k @ [row]\<rparr>
      \<and> qd_revision row \<notin> qd_revision ` set (k_dispositions k) \<and> qd_revision row \<in> re_id ` set (k_revisions k)"
  using r by (simp add: insert_disposition_def list_ex_image split: if_splits)

lemma journal_effect:
  assumes parts: "parts_ok x U k" and r: "record_event x d i event k = Inr (e, k')"
  shows "document_effect x U k k'"
proof -
  obtain events where k': "k' = k\<lparr>k_events := events\<rparr>" using r by (auto simp: record_event_Inr)
  have "journal_ok x k'" "journal_grows k k'"
    using record_event_ok[OF _ r] journal_grows_event[OF r] parts by (simp_all add: parts_ok_def)
  moreover have "documents_ok k'" using parts documents_ok_same[of k' k] by (simp add: parts_ok_def k')
  moreover have "documents_grow k k'" by (rule documents_grow_same) (simp_all add: k')
  moreover have "references k' = references k" by (simp add: fun_eq_iff references_def k')
  then have "references_pinned U k'" "artifacts_ok k'"
    using parts by (simp_all add: parts_ok_def chunk_sets_ok_def references_pinned_def artifacts_ok_def k')
  then have "chunk_sets_ok U k'"
    using parts \<open>documents_grow k k'\<close> by - (rule chunk_sets_ok_grows[of U k], simp_all add: parts_ok_def k')
  moreover have "pins_kept False (\<lparr>dk_kernel = k, dk_files = Map.empty\<rparr>, {#}) (\<lparr>dk_kernel = k', dk_files = Map.empty\<rparr>, {#})"
    by (rule pins_kept_same) (simp add: k')
  ultimately show ?thesis by (simp add: document_effect_def beside_documents_def k')
qed

lemma disposition_entry_effect:
  assumes parts: "parts_ok x U k" and i: "insert_disposition x (new_disposition_row x d decided) k = Inr (n, k')"
  shows "document_effect x U k k'"
proof -
  let ?row = "new_disposition_row x d decided"
  consider "k' = k" | "k' = k\<lparr>k_dispositions := k_dispositions k @ [?row]\<rparr>"
      "qd_revision ?row \<notin> qd_revision ` set (k_dispositions k)" "qd_revision ?row \<in> re_id ` set (k_revisions k)"
    using insert_disposition_Inr[OF i] by blast
  then show ?thesis
  proof cases
    case 1
    then show ?thesis using document_effect_refl[OF parts] by simp
  next
    case 2
    have "disposition_row_ok ?row" by (auto simp: disposition_row_ok_def new_disposition_row_def)
    then have "decisions_ok k'" using parts 2 by (simp add: parts_ok_def documents_ok_def decisions_ok_def)
    then have "documents_ok k'"
      using parts by (simp add: parts_ok_def documents_ok_def sources_ok_def identities_ok_def revisions_ok_def
          duplicates_ok_def 2(1))
    moreover have "documents_grow k k'" by (simp add: documents_grow_def group_of_def 2(1))
    ultimately show ?thesis by (intro document_effectI[OF parts]) (simp_all add: beside_documents_def 2(1))
  qed
qed

lemma record_disposition_effect:
  assumes parts: "parts_ok x U k" and r: "record_disposition_in x d decided k = Inr (r, k')"
  shows "document_effect x U k k'"
proof -
  obtain n k1 where i: "insert_disposition x (new_disposition_row x d decided) k = Inr (n, k1)"
    using r by (auto simp: record_disposition_in_def results)
  note e = disposition_entry_effect[OF parts i]
  have "k' = k1 \<or> (\<exists>event ev. record_event x d 0 event k1 = Inr (ev, k'))"
    using r i by (auto simp: record_disposition_in_def journal_hold_def results split: if_splits option.splits)
  then show ?thesis
    using e document_effect_trans[OF e] journal_effect[OF document_effect_ok[OF e]] by blast
qed

section \<open>Occurrences and near duplicates\<close>

lemma occurrence_effect:
  assumes parts: "parts_ok x U k" and i: "insert_occurrence row k = Inr k'"
  shows "document_effect x U k k'"
proof (cases "row \<in> set (k_occurrences k)")
  case True
  then show ?thesis using i document_effect_refl[OF parts] by (simp add: insert_occurrence_def)
next
  case False
  then have k': "k' = k\<lparr>k_occurrences := k_occurrences k @ [row]\<rparr>" and "oc_revision row \<in> re_id ` set (k_revisions k)"
    using i by (simp_all add: insert_occurrence_def list_ex_image split: if_splits)
  then have "duplicates_ok k'" using parts False by (simp add: parts_ok_def documents_ok_def duplicates_ok_def)
  then have "documents_ok k'"
    using parts by (simp add: parts_ok_def documents_ok_def sources_ok_def identities_ok_def revisions_ok_def
        decisions_ok_def k')
  moreover have "documents_grow k k'" by (simp add: documents_grow_def group_of_def k')
  ultimately show ?thesis by (intro document_effectI[OF parts]) (simp_all add: beside_documents_def k')
qed

lemma occurrences_effect:
  "parts_ok x U k \<Longrightarrow> insert_occurrences os k = Inr (u, k') \<Longrightarrow> document_effect x U k k'"
proof (induction os arbitrary: k)
  case Nil
  then show ?case by (simp add: document_effect_refl)
next
  case (Cons o' os)
  obtain k1 where k1: "insert_occurrence (occurrence_row o') k = Inr k1" "insert_occurrences os k1 = Inr (u, k')"
    using Cons.prems(2) by (auto simp: results)
  note e = occurrence_effect[OF Cons.prems(1) k1(1)]
  show ?case by (rule document_effect_trans[OF e Cons.IH[OF document_effect_ok[OF e] k1(2)]])
qed

text \<open>
  A group that has no rows is given all of its members: the rows enter one by one, so the whole
  insertion is looked at rather than each entry.
\<close>

definition near_row :: "string \<Rightarrow> string \<times> f64 \<Rightarrow> near_dup_record" where
  "near_row g entry = \<lparr>nd_group = g, nd_revision = fst entry, nd_jaccard = sqlite_real (snd entry)\<rparr>"

lemma insert_members_Inr:
  "insert_members g rows k = Inr k' \<Longrightarrow> duplicates_ok k \<Longrightarrow>
     k' = k\<lparr>k_near_dups := k_near_dups k @ map (near_row g) rows\<rparr> \<and> duplicates_ok k'"
proof (induction g rows k rule: insert_members.induct)
  case (2 g r v rows k)
  let ?row = "near_row g (r, v)"
  obtain k1 where i: "insert_near_dup ?row k = Inr k1" and rest: "insert_members g rows k1 = Inr k'"
    using 2(2) by (auto simp: results near_row_def)
  have key: "list_ex (\<lambda>other. nd_group other = nd_group ?row \<and> nd_revision other = nd_revision ?row) (k_near_dups k)
      \<longleftrightarrow> member_key ?row \<in> member_key ` set (k_near_dups k)"
    unfolding list_ex_image[symmetric] member_key_def by simp
  have k1: "k1 = k\<lparr>k_near_dups := k_near_dups k @ [?row]\<rparr>" and ok: "is_jaccard (nd_jaccard ?row)"
      "member_key ?row \<notin> member_key ` set (k_near_dups k)" "nd_revision ?row \<in> re_id ` set (k_revisions k)"
    using i by (simp_all add: insert_near_dup_def key list_ex_image split: if_splits)
  have "duplicates_ok k1" using 2(3) ok by (simp add: duplicates_ok_def k1)
  note e = 2(1)[OF rest this]
  show ?case using conjunct1[OF e] conjunct2[OF e] by (simp add: k1)
qed simp

lemma sort_nothing: "sort_key f xs = [] \<longleftrightarrow> xs = []"
  using length_sort[of f xs] by (metis length_0_conv)

lemma group_effect:
  assumes parts: "parts_ok x U k" and r: "record_near_duplicate_group g rows k = Inr k'"
  shows "document_effect x U k k'"
proof -
  have stored: "stored_near_duplicate_rows g k = [] \<longleftrightarrow> group_of g k = []"
    unfolding stored_near_duplicate_rows_def group_of_def by (simp add: sort_nothing)
  consider "k' = k" | "group_of g k = []" "insert_members g rows k = Inr k'"
    using r stored by (auto simp: record_near_duplicate_group_def Let_def split: if_splits)
  then show ?thesis
  proof cases
    case 1
    then show ?thesis using document_effect_refl[OF parts] by simp
  next
    case 2
    have "duplicates_ok k" using parts by (simp add: parts_ok_def documents_ok_def)
    note e = insert_members_Inr[OF 2(2) this]
    then have k': "k' = k\<lparr>k_near_dups := k_near_dups k @ map (near_row g) rows\<rparr>" by blast
    have "documents_ok k'"
      using parts e by (simp add: parts_ok_def documents_ok_def sources_ok_def identities_ok_def revisions_ok_def
          decisions_ok_def k')
    moreover have "group_of h k' = group_of h k" if "group_of h k \<noteq> []" for h
    proof -
      have "h \<noteq> g" using that 2(1) by auto
      then have "filter (\<lambda>row. nd_group row = h) (map (near_row g) rows) = []"
        by (induction rows) (simp_all add: near_row_def)
      then show ?thesis by (simp add: group_of_def k')
    qed
    then have "documents_grow k k'" by (simp add: documents_grow_def k')
    ultimately show ?thesis by (intro document_effectI[OF parts]) (simp_all add: beside_documents_def k')
  qed
qed

lemma groups_effect: "parts_ok x U k \<Longrightarrow> record_groups gs k = Inr (u, k') \<Longrightarrow> document_effect x U k k'"
proof (induction gs k rule: record_groups.induct)
  case (1 k)
  then show ?case by (simp add: document_effect_refl)
next
  case (2 g rows gs k)
  obtain k1 where k1: "record_near_duplicate_group g rows k = Inr k1" "record_groups gs k1 = Inr (u, k')"
    using 2(3) by (auto simp: results)
  note e = group_effect[OF 2(2) k1(1)]
  show ?case by (rule document_effect_trans[OF e 2(1)[OF document_effect_ok[OF e] k1(2)]])
qed

section \<open>The effect of every call\<close>

lemma revision_call_effect:
  "parts_ok x U k \<Longrightarrow> record_revision x d new k = (r, k') \<Longrightarrow> document_effect x U k k'"
  unfolding record_revision_def by (rule db_write_effect, assumption+) (rule record_revision_effect)

lemma disposition_call_effect:
  "parts_ok x U k \<Longrightarrow> record_disposition x d decided k = (r, k') \<Longrightarrow> document_effect x U k k'"
  unfolding record_disposition_def by (rule db_write_effect, assumption+) (rule record_disposition_effect)

lemma both_call_effect:
  assumes parts: "parts_ok x U k" and r: "record_revision_with_disposition x d new decided k = (r, k')"
  shows "document_effect x U k k'"
proof (rule db_write_effect[OF parts r[unfolded record_revision_with_disposition_def]])
  fix v k2 assume "and_then (record_revision_in x d new k) (\<lambda>(_, k'). record_disposition_in x d decided k') = Inr (v, k2)"
  then obtain r1 k1 where k1: "record_revision_in x d new k = Inr (r1, k1)" "record_disposition_in x d decided k1 = Inr (v, k2)"
    by (auto simp: results)
  note e = record_revision_effect[OF parts k1(1)]
  show "document_effect x U k k2"
    by (rule document_effect_trans[OF e record_disposition_effect[OF document_effect_ok[OF e] k1(2)]])
qed

lemma occurrences_call_effect:
  "parts_ok x U k \<Longrightarrow> record_occurrences os k = (r, k') \<Longrightarrow> document_effect x U k k'"
  unfolding record_occurrences_def by (rule db_write_effect, assumption+) (rule occurrences_effect)

lemma near_duplicates_call_effect:
  assumes parts: "parts_ok x U k" and r: "record_near_duplicates members k = (r, k')"
  shows "document_effect x U k k'"
proof (cases "group_members members []")
  case (Inl e)
  then show ?thesis using r document_effect_refl[OF parts] by (simp add: record_near_duplicates_def)
next
  case (Inr groups)
  then have "db_write (record_groups groups) k = (r, k')" using r by (simp add: record_near_duplicates_def)
  then show ?thesis by (rule db_write_effect[OF parts]) (rule groups_effect[OF parts])
qed

lemmas document_call_effects = collection_effect source_effect document_call_effect revision_call_effect
  disposition_call_effect both_call_effect occurrences_call_effect near_duplicates_call_effect

end
