(* ===== verification/Kernel_Runs.thy ===== *)
theory Kernel_Runs
  imports Grants Job_Safety Publishing Document_Safety
begin

text \<open>
  Runs of the whole kernel: one step relation over every call of its modelled parts that writes, the
  invariant all parts share and what no run undoes. The calls of different processes interleave as
  whole steps: each is one immediate transaction of the database. Here are the lemmas that lift an
  effect on one part's tables to the whole kernel; the properties of runs are in the root theory.

  \<open>Database::unpin\<close> is a step too. It takes a pin without asking whose it was, so that after it nothing
  keeps the artifact for the revision or the chunk that refers to it. The relation is therefore over a
  set \<open>U\<close> of digests: those its callers give up pins of. What the invariant says of pins it says of the
  other artifacts; all else holds whatever \<open>U\<close> is. In the repository only tests call it: \<open>U\<close> is empty in
  a run of the program. The calls of the parts that are not modelled (model cards, representations,
  search inputs, unit graphs, evaluation reports) are no steps: they write tables of their own, and of
  the tables here they add events and pins.
\<close>

section \<open>The step relation\<close>

inductive kernel_step :: "ext \<Rightarrow> string set \<Rightarrow> kernel \<Rightarrow> kernel \<Rightarrow> bool" for x U where
  records: "journal_record x d event k = (r1, k') \<Longrightarrow> kernel_step x U k k'"
| acknowledges: "ack d consumer stream position k = (r2, k') \<Longrightarrow> kernel_step x U k k'"
| grants: "valid_scope scope \<Longrightarrow> grant_right x d who scope right actor k = (r3, k') \<Longrightarrow> kernel_step x U k k'"
| revokes: "revoke_right x d who scope right actor k = (r3, k') \<Longrightarrow> kernel_step x U k k'"
| applies: "config_load parse_toml contents = Inr config \<Longrightarrow> apply_config x d config k = (r4, k') \<Longrightarrow> kernel_step x U k k'"
| refreshes: "refresh_config x d (config_load parse_toml contents) k = (r5, k') \<Longrightarrow> kernel_step x U k k'"
| submits: "submit_job x d new k = (r6, k') \<Longrightarrow> kernel_step x U k k'"
| takes: "take_job x d jid holder now term k = (r7, k') \<Longrightarrow> kernel_step x U k k'"
| beats: "heartbeat x lease now term k = (r8, lease', k') \<Longrightarrow> kernel_step x U k k'"
| progresses: "progress x d lease now term data k = (r9, lease', k') \<Longrightarrow> kernel_step x U k k'"
| ends: "complete_job x d lease to outcome k = (r6, k') \<Longrightarrow> kernel_step x U k k'"
| cancels: "cancel_job x d jid outcome k = (r6, k') \<Longrightarrow> kernel_step x U k k'"
| creates: "create_generation new' k = (r10, k') \<Longrightarrow> kernel_step x U k k'"
| verifies: "verify_generation gid points k = (r11, k') \<Longrightarrow> kernel_step x U k k'"
| publishes: "publish_generation x d gid k = (r12, k') \<Longrightarrow> kernel_step x U k k'"
| publishes_if: "publish_generation_if_current x d gid expected k = (r12, k') \<Longrightarrow> kernel_step x U k k'"
| retires: "retire_generation x d gid k = (r11, k') \<Longrightarrow> kernel_step x U k k'"
| fails: "fail_generation gid k = (r11, k') \<Longrightarrow> kernel_step x U k k'"
| begins: "begin_chunk_set new'' k = (r13, k') \<Longrightarrow> kernel_step x U k k'"
| fills: "record_chunks sid revision chunks k = (r14, k') \<Longrightarrow> kernel_step x U k k'"
| completes: "complete_chunk_set sid manifest k = (r13, k') \<Longrightarrow> kernel_step x U k k'"
| fails_set: "fail_chunk_set sid k = (r13, k') \<Longrightarrow> kernel_step x U k k'"
| stores: "db_write (record_artifact d (digest_of x bytes) (put_size bytes) media) k = (r15, k') \<Longrightarrow> kernel_step x U k k'"
| pins: "database_pin digest k = (r15, k') \<Longrightarrow> kernel_step x U k k'"
| unpins: "digest_str digest \<in> U \<Longrightarrow> database_unpin digest k = (r15, k') \<Longrightarrow> kernel_step x U k k'"
| collects: "delete_rows listed k = (r16, k') \<Longrightarrow> kernel_step x U k k'"
| collections: "record_collection x c k = (r17, k') \<Longrightarrow> kernel_step x U k k'"
| sources: "record_source x s k = (r17, k') \<Longrightarrow> kernel_step x U k k'"
| documents: "record_document doc k = (r17, k') \<Longrightarrow> kernel_step x U k k'"
| revises: "record_revision x d new3 k = (r18, k') \<Longrightarrow> kernel_step x U k k'"
| decides: "record_disposition x d decided k = (r18, k') \<Longrightarrow> kernel_step x U k k'"
| revises_decided: "record_revision_with_disposition x d new3 decided k = (r18, k') \<Longrightarrow> kernel_step x U k k'"
| occurs: "record_occurrences occurrences k = (r17, k') \<Longrightarrow> kernel_step x U k k'"
| groups_near: "record_near_duplicates members k = (r17, k') \<Longrightarrow> kernel_step x U k k'"

inductive_cases kernel_stepE: "kernel_step x U k k'"

section \<open>The invariant and what runs keep\<close>

definition kernel_ok :: "ext \<Rightarrow> string set \<Rightarrow> kernel \<Rightarrow> bool" where
  "kernel_ok x U k \<longleftrightarrow>
     journal_ok x k \<and> cursors_ok k \<and> grants_ok k \<and> jobs_ok x k \<and> generations_ok k \<and> chunk_sets_ok U k
     \<and> documents_ok k"

definition cursors_forward :: "kernel \<Rightarrow> kernel \<Rightarrow> bool" where
  "cursors_forward k k' \<longleftrightarrow>
     (\<forall>key p. cursor_map (k_cursors k) key = Some p \<longrightarrow> (\<exists>q\<ge>p. cursor_map (k_cursors k') key = Some q))"

definition kernel_grows :: "kernel \<Rightarrow> kernel \<Rightarrow> bool" where
  "kernel_grows k k' \<longleftrightarrow>
     journal_grows k k' \<and> cursors_forward k k' \<and> jobs_evolve k k' \<and> generations_evolve k k'
     \<and> chunk_sets_evolve k k' \<and> documents_grow k k'"

definition kernel_evolves :: "ext \<Rightarrow> string set \<Rightarrow> kernel \<Rightarrow> kernel \<Rightarrow> bool" where
  "kernel_evolves x U k k' \<longleftrightarrow> (kernel_ok x U k \<longrightarrow> kernel_ok x U k' \<and> kernel_grows k k')"

lemma cursors_forward_trans: "cursors_forward a b \<Longrightarrow> cursors_forward b c \<Longrightarrow> cursors_forward a c"
  unfolding cursors_forward_def by (meson order.trans)

lemma cursors_forward_same: "k_cursors k' = k_cursors k \<Longrightarrow> cursors_forward k k'"
  by (simp add: cursors_forward_def)

lemma chunk_sets_evolve_same:
  "k_chunk_sets k' = k_chunk_sets k \<Longrightarrow> k_chunks k' = k_chunks k \<Longrightarrow> chunk_sets_evolve k k'"
  using chunk_sets_evolve_refl[of k] by (simp add: chunk_sets_evolve_def)

lemma kernel_grows_refl: "kernel_grows k k"
  by (simp add: kernel_grows_def journal_grows_def cursors_forward_def generations_evolve_same
      chunk_sets_evolve_refl documents_grow_refl)

lemma kernel_grows_trans:
  assumes "kernel_ok x U a" and "kernel_grows a b" and "kernel_grows b c"
  shows "kernel_grows a c"
  using assms unfolding kernel_grows_def kernel_ok_def
  by (meson journal_grows_trans cursors_forward_trans jobs_evolve_trans generations_evolve_trans
      chunk_sets_evolve_trans documents_grow_trans)

lemma kernel_evolves_refl: "kernel_evolves x U k k"
  by (simp add: kernel_evolves_def kernel_grows_refl)

lemma kernel_evolves_trans: "kernel_evolves x U a b \<Longrightarrow> kernel_evolves x U b c \<Longrightarrow> kernel_evolves x U a c"
  unfolding kernel_evolves_def using kernel_grows_trans by blast

section \<open>Effects on one part's tables\<close>

lemma chunk_sets_ok_same:
  assumes "k_chunk_sets k' = k_chunk_sets k" "k_chunks k' = k_chunks k" "k_artifacts k' = k_artifacts k"
    and "k_revisions k' = k_revisions k" "k_documents k' = k_documents k"
  shows "chunk_sets_ok U k' = chunk_sets_ok U k"
  using assms document_of_cong[OF assms(4,5)]
  by (simp add: chunk_sets_ok_def chunks_ok_def artifacts_ok_def references_pinned_def references_def)

lemma generations_ok_same:
  "k_generations k' = k_generations k \<Longrightarrow> k_generation_seq k' = k_generation_seq k \<Longrightarrow>
     generations_ok k' = generations_ok k"
  by (simp add: generations_ok_def)

lemma keeps_tables:
  assumes ok: "kernel_ok x U k" and grows: "journal_grows k k'" and journal: "journal_ok x k'"
    and same: "k_cursors k' = k_cursors k"
    and grants: "k_grants k' = k_grants k \<or> grants_ok k'"
    and jobs: "k_jobs k' = k_jobs k \<or> jobs_ok x k' \<and> jobs_evolve k k'"
    and generations: "k_generations k' = k_generations k \<and> k_generation_seq k' = k_generation_seq k
        \<or> generations_ok k' \<and> generations_evolve k k'"
    and sets: "k_chunk_sets k' = k_chunk_sets k \<and> k_chunks k' = k_chunks k \<and> k_artifacts k' = k_artifacts k
          \<and> k_revisions k' = k_revisions k \<and> k_documents k' = k_documents k
        \<or> chunk_sets_ok U k' \<and> chunk_sets_evolve k k'"
    and documents: "k_collections k' = k_collections k \<and> k_sources k' = k_sources k \<and> k_documents k' = k_documents k
          \<and> k_revisions k' = k_revisions k \<and> k_dispositions k' = k_dispositions k
          \<and> k_occurrences k' = k_occurrences k \<and> k_near_dups k' = k_near_dups k
        \<or> documents_ok k' \<and> documents_grow k k'"
  shows "kernel_evolves x U k k'"
proof -
  have parts: "cursors_ok k" "grants_ok k" "jobs_ok x k" "generations_ok k" "chunk_sets_ok U k" "documents_ok k"
    using ok by (simp_all add: kernel_ok_def)
  have "grants_ok k'" using grants parts(2) grants_ok_same by blast
  moreover have "jobs_ok x k' \<and> jobs_evolve k k'" using jobs parts(3) jobs_ok_same jobs_evolve_same by blast
  moreover have "generations_ok k' \<and> generations_evolve k k'"
    using generations parts(4) generations_ok_same generations_evolve_same by blast
  moreover have "chunk_sets_ok U k' \<and> chunk_sets_evolve k k'"
    using sets parts(5) chunk_sets_ok_same chunk_sets_evolve_same by blast
  moreover have "documents_ok k' \<and> documents_grow k k'"
    using documents parts(6) documents_ok_same[of k' k] documents_grow_same[of k' k] by metis
  ultimately show ?thesis
    using grows journal cursors_ok_grows[OF parts(1) same grows] cursors_forward_same[OF same]
    by (simp add: kernel_evolves_def kernel_ok_def kernel_grows_def)
qed

lemma keeps_journal:
  assumes "kernel_ok x U k" and "journal_grows k k'" and "journal_ok x k'" and k': "k' = k\<lparr>k_events := events\<rparr>"
  shows "kernel_evolves x U k k'"
  by (rule keeps_tables[OF assms(1-3)]) (simp_all add: k')

lemma keeps_grants:
  assumes "kernel_ok x U k" and "journal_grows k k'" and "journal_ok x k'" and "grants_ok k'"
    and k': "k' = k\<lparr>k_grants := rows, k_events := events\<rparr>"
  shows "kernel_evolves x U k k'"
  using assms(4) by (intro keeps_tables[OF assms(1-3)]) (simp_all add: k')

lemma keeps_jobs:
  assumes ok: "kernel_ok x U k" and effect: "job_effect x k k'"
  shows "kernel_evolves x U k k'"
proof -
  obtain jobs events where k': "k' = k\<lparr>k_jobs := jobs, k_events := events\<rparr>" using effect by (auto simp: job_effect_def)
  have e: "jobs_ok x k' \<and> jobs_evolve k k'" "journal_grows k k'" "journal_ok x k'"
    using effect ok by (simp_all add: job_effect_def kernel_ok_def)
  show ?thesis by (rule keeps_tables[OF ok e(2,3)]) (use e(1) in \<open>simp_all add: k'\<close>)
qed

lemma keeps_generations:
  assumes ok: "kernel_ok x U k" and effect: "generation_effect x k k'"
  shows "kernel_evolves x U k k'"
proof -
  obtain rows sequence events where k': "k' = k\<lparr>k_generations := rows, k_generation_seq := sequence, k_events := events\<rparr>"
    using effect by (auto simp: generation_effect_def)
  have e: "generations_ok k' \<and> generations_evolve k k'" "journal_grows k k'" "journal_ok x k'"
    using effect ok by (simp_all add: generation_effect_def kernel_ok_def)
  show ?thesis by (rule keeps_tables[OF ok e(2,3)]) (use e(1) in \<open>simp_all add: k'\<close>)
qed

lemma keeps_chunk_sets:
  assumes ok: "kernel_ok x U k" and effect: "chunk_set_effect U k k'"
  shows "kernel_evolves x U k k'"
proof -
  obtain sets chunks artifacts
    where k': "k' = k\<lparr>k_chunk_sets := sets, k_chunks := chunks, k_artifacts := artifacts\<rparr>"
    using effect by (auto simp: chunk_set_effect_def)
  have e: "chunk_sets_ok U k' \<and> chunk_sets_evolve k k'"
    using effect by (simp add: chunk_set_effect_def)
  have grows: "journal_grows k k'" "journal_ok x k'"
    using ok by (simp_all add: k' journal_grows_def kernel_ok_def journal_ok_def)
  show ?thesis by (rule keeps_tables[OF ok grows]) (use e in \<open>simp_all add: k'\<close>)
qed

text \<open>
  A change of the artifacts that keeps what is pinned keeps what the chunks and revisions refer to,
  whatever it does to the artifacts of \<open>U\<close>.
\<close>

lemma keeps_artifacts:
  assumes ok: "kernel_ok x U k" and k': "k' = k\<lparr>k_artifacts := artifacts\<rparr>" and "artifacts_ok k'"
    and kept: "\<forall>row\<in>set (k_artifacts k). ar_digest row \<notin> U \<longrightarrow> 0 < ar_pins row \<longrightarrow>
        (\<exists>new\<in>set artifacts. ar_digest new = ar_digest row \<and> ar_pins row \<le> ar_pins new)"
  shows "kernel_evolves x U k k'"
proof -
  have same: "references k' hex = references k hex" for hex by (simp add: references_def k')
  have pinned: "references_pinned U k" using ok by (simp add: kernel_ok_def chunk_sets_ok_def)
  have "references_pinned U k'"
    unfolding references_pinned_def same
  proof (intro allI impI)
    fix hex assume used: "hex \<notin> U" and some: "0 < references k hex"
    then obtain row where "row \<in> set (k_artifacts k)" "ar_digest row = hex" "int (references k hex) \<le> ar_pins row"
      using pinned unfolding references_pinned_def by blast
    with kept used some show "\<exists>row\<in>set (k_artifacts k'). ar_digest row = hex \<and> int (references k hex) \<le> ar_pins row"
      unfolding k' by force
  qed
  moreover have "document_of k' = document_of k" by (rule document_of_cong) (simp_all add: k')
  ultimately have sets: "chunk_sets_ok U k' \<and> chunk_sets_evolve k k'"
    using ok assms(3) chunk_sets_evolve_same[of k' k] by (simp add: kernel_ok_def chunk_sets_ok_def chunks_ok_def k')
  have grows: "journal_grows k k'" "journal_ok x k'"
    using ok by (simp_all add: k' journal_grows_def kernel_ok_def journal_ok_def)
  show ?thesis by (rule keeps_tables[OF ok grows]) (use sets in \<open>simp_all add: k'\<close>)
qed

section \<open>Every step keeps the invariant\<close>

lemma step_records:
  assumes "kernel_ok x U k" and r: "journal_record x d event k = (r, k')"
  shows "kernel_evolves x U k k'"
proof (cases r)
  case (Inl e)
  with r show ?thesis by (simp add: journal_record_def db_write_Inl kernel_evolves_refl)
next
  case (Inr e)
  with r have "map_err JournalStore (record_event x d 0 event k) = Inr (e, k')"
    by (simp add: journal_record_def db_write_Inr)
  then have "record_event x d 0 event k = Inr (e, k')" by (simp add: map_err_Inr)
  then obtain events where "k' = k\<lparr>k_events := events\<rparr>" by (auto simp: record_event_Inr)
  with journal_grows_record[of k x d event] journal_record_ok[of x k d event] assms show ?thesis
    by (intro keeps_journal[of x U k k' events]) (simp_all add: kernel_ok_def)
qed

lemma step_acknowledges:
  assumes ok: "kernel_ok x U k" and r: "ack d consumer stream position k = (r, k')"
  shows "kernel_evolves x U k k'"
proof -
  have "journal_ok x k" "cursors_ok k" using ok by (simp_all add: kernel_ok_def)
  note keeps = ack_keeps[OF this, of d consumer stream position, unfolded r snd_conv]
  have "k' = k \<or> (\<exists>cursors. k' = k\<lparr>k_cursors := cursors\<rparr>)"
    using r by (auto simp: ack_def db_write_def Let_def results split: sum.splits if_splits)
  then obtain cursors where k': "k' = k\<lparr>k_cursors := cursors\<rparr>" by (metis kernel.surjective kernel.update_convs(2))
  have "grants_ok k' = grants_ok k" "jobs_ok x k' = jobs_ok x k" "generations_ok k' = generations_ok k"
      "chunk_sets_ok U k' = chunk_sets_ok U k" "journal_ok x k' = journal_ok x k"
      "documents_ok k' = documents_ok k"
    by (rule grants_ok_same jobs_ok_same generations_ok_same chunk_sets_ok_same journal_ok_same documents_ok_same;
        simp add: k')+
  with ok keeps have "kernel_ok x U k'" by (simp add: kernel_ok_def)
  moreover have "kernel_grows k k'"
    using keeps unfolding k'
    by (simp add: kernel_grows_def journal_grows_def cursors_forward_def jobs_evolve_same
        generations_evolve_same chunk_sets_evolve_same documents_grow_same)
  ultimately show ?thesis by (simp add: kernel_evolves_def)
qed

lemma step_grants:
  assumes ok: "kernel_ok x U k" and scope: "valid_scope scope" and r: "grant_right x d who scope right actor k = (r, k')"
  shows "kernel_evolves x U k k'"
proof (cases r)
  case (Inl e)
  with r show ?thesis by (simp add: grant_right_def db_write_Inl kernel_evolves_refl)
next
  case (Inr recorded)
  let ?g = "\<lparr>g_principal = who, g_scope = scope, g_right = right, g_actor = actor\<rparr>"
  have "grant_add x d ?g 0 k = Inr (recorded, k')" using r Inr by (simp add: grant_right_def db_write_Inr)
  moreover have "grants_ok k" "journal_ok x k" using ok by (simp_all add: kernel_ok_def)
  moreover have "valid_scope (g_scope ?g)" using scope by simp
  ultimately have "grants_ok k'" "journal_grows k k'" "journal_ok x k'"
      "\<exists>rows events. k' = k\<lparr>k_grants := rows, k_events := events\<rparr>"
    using grant_add_change[of k ?g x d 0 recorded k'] unfolding grant_change_def by blast+
  with ok show ?thesis using keeps_grants by blast
qed

lemma step_revokes:
  assumes ok: "kernel_ok x U k" and r: "revoke_right x d who scope right actor k = (r, k')"
  shows "kernel_evolves x U k k'"
proof (cases r)
  case (Inl e)
  with r show ?thesis by (simp add: revoke_right_def db_write_Inl kernel_evolves_refl)
next
  case (Inr recorded)
  let ?g = "\<lparr>g_principal = who, g_scope = scope, g_right = right, g_actor = actor\<rparr>"
  have "grant_remove x d ?g 0 k = Inr (recorded, k')" using r Inr by (simp add: revoke_right_def db_write_Inr)
  moreover have "grants_ok k" "journal_ok x k" using ok by (simp_all add: kernel_ok_def)
  ultimately have "grants_ok k'" "journal_grows k k'" "journal_ok x k'"
      "\<exists>rows events. k' = k\<lparr>k_grants := rows, k_events := events\<rparr>"
    using grant_remove_change[of k x d ?g 0 recorded k'] unfolding grant_change_def by blast+
  with ok show ?thesis using keeps_grants by blast
qed

lemma step_moved:
  assumes ok: "kernel_ok x U k" and moved: "grants_moved x k events k' changes after"
  shows "kernel_evolves x U k k'"
proof -
  have "grants_ok k'" "journal_ok x k'" "journal_grows k k'"
      "\<exists>rows events. k' = k\<lparr>k_grants := rows, k_events := events\<rparr>"
    using moved ok unfolding grants_moved_def kernel_ok_def journal_grows_def by auto
  with ok show ?thesis using keeps_grants by blast
qed

lemma step_applies:
  assumes ok: "kernel_ok x U k" and config: "config_ok config" and r: "apply_config x d config k = (r, k')"
  shows "kernel_evolves x U k k'"
proof (cases r)
  case (Inl e)
  with r show ?thesis by (simp add: apply_config_def db_write_Inl kernel_evolves_refl)
next
  case (Inr events)
  have "grants_ok k" using ok by (simp add: kernel_ok_def)
  from step_moved[OF ok apply_config_moved[OF this config r[unfolded Inr]]] show ?thesis .
qed

lemma step_refreshes:
  assumes ok: "kernel_ok x U k" and r: "refresh_config x d (config_load parse_toml contents) k = (r, k')"
  shows "kernel_evolves x U k k'"
proof (cases r)
  case (Inl e)
  with r show ?thesis by (simp add: refresh_config_def db_write_Inl kernel_evolves_refl)
next
  case (Inr scopes)
  then obtain config events where "config_load parse_toml contents = Inr config"
      "reconcile x d config k = Inr (events, k')"
    using r by (auto simp: refresh_config_def results)
  moreover have "grants_ok k" using ok by (simp add: kernel_ok_def)
  ultimately show ?thesis using step_moved[OF ok] reconcile_moved config_load_ok by blast
qed

lemma db_write_pair:
  "db_write work k = (r, k') \<Longrightarrow> (\<And>v. r = Inr v \<Longrightarrow> work k = Inr (v, k') \<Longrightarrow> P) \<Longrightarrow> (k' = k \<Longrightarrow> P) \<Longrightarrow> P"
  by (cases r) (auto simp: results)

text \<open>A call that fails leaves the tables as they are; one that succeeds has its part's effect.\<close>

lemma step_job_call:
  assumes ok: "kernel_ok x U k" and "k' = k \<or> job_effect x k k'"
  shows "kernel_evolves x U k k'"
  using assms keeps_jobs kernel_evolves_refl by blast

lemma step_generation_call:
  assumes ok: "kernel_ok x U k" and "k' = k \<or> generation_effect x k k'"
  shows "kernel_evolves x U k k'"
  using assms keeps_generations kernel_evolves_refl by blast

lemma submit_job_kept: "submit_job x d new k = (Inl e, k') \<Longrightarrow> k' = k"
  by (simp add: submit_job_def Let_def db_write_Inl)

lemma step_submits:
  assumes ok: "jobs_ok x k" and r: "submit_job x d new k = (r, k')"
  shows "k' = k \<or> job_effect x k k'"
proof (cases r)
  case (Inr job)
  show ?thesis
  proof (cases "live_job (idempotency_key x new) k")
    case None
    then show ?thesis using submit_job_new[OF ok None r[unfolded Inr]] by simp
  next
    case (Some row)
    then show ?thesis using submit_job_live[OF ok Some, of d] r by simp
  qed
qed (use r submit_job_kept in simp)

lemma step_takes:
  assumes ok: "jobs_ok x k" and law: "lawful x" and r: "take_job x d jid holder now term k = (r, k')"
  shows "k' = k \<or> job_effect x k k'"
proof (cases r)
  case (Inl e)
  with r show ?thesis by (simp add: take_job_def db_write_Inl)
next
  case (Inr lease)
  show ?thesis using take_job_Inr[OF ok law r[unfolded Inr]] by simp
qed

lemma step_beats:
  assumes ok: "jobs_ok x k" and r: "heartbeat x lease now term k = (r, lease', k')"
  shows "k' = k \<or> job_effect x k k'"
proof (cases r)
  case (Inl e)
  with r show ?thesis by (auto simp: heartbeat_def db_write_Inl split: prod.splits sum.splits)
next
  case (Inr u)
  show ?thesis using heartbeat_Inr[OF ok r[unfolded Inr]] by simp
qed

lemma step_progresses:
  assumes ok: "jobs_ok x k" and r: "progress x d lease now term data k = (r, lease', k')"
  shows "k' = k \<or> job_effect x k k'"
proof (cases r)
  case (Inl e)
  with r show ?thesis by (auto simp: progress_def db_write_Inl split: prod.splits sum.splits)
next
  case (Inr u)
  show ?thesis using progress_Inr[OF ok r[unfolded Inr]] by simp
qed

lemma step_ends:
  assumes ok: "jobs_ok x k" and law: "lawful x" and r: "complete_job x d lease to outcome k = (r, k')"
  shows "k' = k \<or> job_effect x k k'"
proof (cases r)
  case (Inl e)
  with r show ?thesis by (simp add: complete_job_def db_write_Inl)
next
  case (Inr ended)
  then show ?thesis using complete_job_Inr[OF ok] end_job_Inr[OF ok law] r by blast
qed

lemma step_cancels:
  assumes ok: "jobs_ok x k" and law: "lawful x" and r: "cancel_job x d jid outcome k = (r, k')"
  shows "k' = k \<or> job_effect x k k'"
proof (cases r)
  case (Inl e)
  with r show ?thesis by (simp add: cancel_job_def db_write_Inl)
next
  case (Inr ended)
  then show ?thesis using cancel_job_Inr[OF ok] end_job_Inr[OF ok law] r by blast
qed

lemma step_creates:
  assumes ok: "generations_ok k" and r: "create_generation new k = (r, k')"
  shows "k' = k \<or> generation_effect x k k'"
proof (cases r)
  case (Inl e)
  with r show ?thesis by (simp add: create_generation_def db_write_Inl)
next
  case (Inr generation)
  show ?thesis using create_generation_Inr[OF ok r[unfolded Inr]] by blast
qed

lemma step_verifies:
  assumes ok: "generations_ok k" and r: "verify_generation gid points k = (r, k')"
  shows "k' = k \<or> generation_effect x k k'"
proof (cases r)
  case (Inl e)
  with r show ?thesis by (auto simp: verify_generation_def db_write_Inl split: if_splits)
next
  case (Inr u)
  show ?thesis using verify_generation_Inr[OF ok r[unfolded Inr]] by blast
qed

lemma step_publishes:
  assumes ok: "generations_ok k" and "publish_generation x d gid k = (r, k')"
  shows "k' = k \<or> generation_effect x k k'"
  using assms(2) publish_generation_Inr[OF ok] publish_in_effect[OF ok]
  by (cases r) (auto simp: publish_generation_def db_write_Inl db_write_Inr results)

lemma step_publishes_if:
  assumes ok: "generations_ok k" and r: "publish_generation_if_current x d gid expected k = (r, k')"
  shows "k' = k \<or> generation_effect x k k'"
proof (cases r)
  case (Inl e)
  with r show ?thesis by (simp add: publish_generation_if_current_def db_write_Inl)
next
  case (Inr retired)
  show ?thesis using if_current_Inr[OF r[unfolded Inr]] publish_in_effect[OF ok] by blast
qed

lemma step_retires:
  assumes ok: "generations_ok k" and r: "retire_generation x d gid k = (r, k')"
  shows "k' = k \<or> generation_effect x k k'"
proof (cases r)
  case (Inl e)
  with r show ?thesis by (simp add: retire_generation_def db_write_Inl)
next
  case (Inr u)
  show ?thesis using retire_generation_Inr[OF ok r[unfolded Inr]] by blast
qed

lemma step_fails:
  assumes ok: "generations_ok k" and r: "fail_generation gid k = (r, k')"
  shows "k' = k \<or> generation_effect x k k'"
  using r unfolding fail_generation_def
  by (rule db_write_pair) (use generation_move_to_Inr[OF ok] in blast)+

lemma repin_rows:
  assumes "artifacts_ok k" and w: "db_write (repin digest change) k = (r, k')"
  shows "\<exists>artifacts. k' = k\<lparr>k_artifacts := artifacts\<rparr>
    \<and> (\<forall>row\<in>set (k_artifacts k). ar_digest row \<noteq> digest_str digest \<or> 0 \<le> change \<longrightarrow>
          (\<exists>new\<in>set artifacts. ar_digest new = ar_digest row \<and> ar_pins row \<le> ar_pins new))"
  using w
proof (rule db_write_pair)
  fix u assume "repin digest change k = Inr (u, k')"
  from repin_Inr[OF assms(1) this] show ?thesis by force
next
  assume "k' = k"
  then show ?thesis by (intro exI[of _ "k_artifacts k"]) auto
qed

lemma step_pins:
  assumes ok: "kernel_ok x U k" and r: "database_pin digest k = (r, k')"
  shows "kernel_evolves x U k k'"
proof -
  have artifacts: "artifacts_ok k" using ok by (simp add: kernel_ok_def chunk_sets_ok_def)
  have w: "db_write (repin digest 1) k = (r, k')" using r by (simp add: database_pin_def pin_def[abs_def])
  from repin_rows[OF artifacts w] database_repin_effect[OF artifacts w] show ?thesis
    using keeps_artifacts[OF ok] by force
qed

text \<open>Giving up a pin takes it from that artifact only.\<close>

lemma step_unpins:
  assumes ok: "kernel_ok x U k" and given_up: "digest_str digest \<in> U" and r: "database_unpin digest k = (r, k')"
  shows "kernel_evolves x U k k'"
proof -
  have artifacts: "artifacts_ok k" using ok by (simp add: kernel_ok_def chunk_sets_ok_def)
  have w: "db_write (repin digest (- 1)) k = (r, k')" using r by (simp add: database_unpin_def unpin_def[abs_def])
  from repin_rows[OF artifacts w] database_repin_effect[OF artifacts w] given_up show ?thesis
    using keeps_artifacts[OF ok] by metis
qed

lemma step_stores:
  assumes ok: "kernel_ok x U k" and law: "lawful x"
    and r: "db_write (record_artifact d (digest_of x bytes) (put_size bytes) media) k = (r, k')"
  shows "kernel_evolves x U k k'"
  using r
proof (rule db_write_pair)
  fix u assume "record_artifact d (digest_of x bytes) (put_size bytes) media k = Inr (u, k')"
  moreover have "artifacts_ok k" using ok by (simp add: kernel_ok_def chunk_sets_ok_def)
  moreover have "digest_parse (digest_str (digest_of x bytes)) = Inr (digest_of x bytes)"
    using law by (simp add: lawful_def digest_of_parses)
  moreover have "0 \<le> put_size bytes" by (simp add: put_size_def I64_MAX_def)
  ultimately have e: "artifacts_ok k'" "k' = k \<or> (\<exists>row. k' = k\<lparr>k_artifacts := k_artifacts k @ [row]\<rparr>)"
    using record_artifact_Inr by (blast, metis record_artifact_Inr)
  from e(2) show ?thesis
  proof
    assume "\<exists>row. k' = k\<lparr>k_artifacts := k_artifacts k @ [row]\<rparr>"
    then obtain row where "k' = k\<lparr>k_artifacts := k_artifacts k @ [row]\<rparr>" by blast
    then show ?thesis using e(1) by (intro keeps_artifacts[OF ok]) auto
  qed (simp add: kernel_evolves_refl)
qed (simp add: kernel_evolves_refl)

lemma step_collects:
  assumes ok: "kernel_ok x U k" and r: "delete_rows listed k = (r, k')"
  shows "kernel_evolves x U k k'"
proof -
  obtain P where k': "k' = k\<lparr>k_artifacts := filter P (k_artifacts k)\<rparr>" and P: "\<And>row. 0 < ar_pins row \<Longrightarrow> P row"
    using delete_rows_effect[OF r] by force
  have "artifacts_ok k" using ok by (simp add: kernel_ok_def chunk_sets_ok_def)
  then have "artifacts_ok k'" using artifacts_ok_filter by (simp add: k')
  with P show ?thesis by (intro keeps_artifacts[OF ok k']) auto
qed

lemma keeps_documents:
  assumes ok: "kernel_ok x U k" and effect: "document_effect x U k k'"
  shows "kernel_evolves x U k k'"
proof -
  have e: "documents_ok k' \<and> documents_grow k k'" "chunk_sets_ok U k'" "journal_ok x k'" "journal_grows k k'"
    and same: "k_cursors k' = k_cursors k" "k_grants k' = k_grants k" "k_jobs k' = k_jobs k"
      "k_generations k' = k_generations k" "k_generation_seq k' = k_generation_seq k"
      "k_chunk_sets k' = k_chunk_sets k" "k_chunks k' = k_chunks k"
    using effect by (simp_all add: document_effect_def beside_documents_def)
  show ?thesis
    using e(1,2) chunk_sets_evolve_same[OF same(6,7)] by (intro keeps_tables[OF ok e(4,3) same(1)]) (simp_all add: same)
qed

lemma kernel_parts: "kernel_ok x U k \<Longrightarrow> parts_ok x U k"
  by (simp add: kernel_ok_def parts_ok_def)

theorem step_evolves:
  assumes law: "lawful x" and ok: "kernel_ok x U k" and st: "kernel_step x U k k'"
  shows "kernel_evolves x U k k'"
proof -
  have parts: "jobs_ok x k" "generations_ok k" "chunk_sets_ok U k" using ok by (simp_all add: kernel_ok_def)
  note jobs = step_job_call[OF ok] and generations = step_generation_call[OF ok]
    and sets = keeps_chunk_sets[OF ok]
  from st show ?thesis
    by cases (erule step_records[OF ok] step_acknowledges[OF ok] step_grants[OF ok, rotated]
        step_revokes[OF ok] step_applies[OF ok config_load_ok, rotated] step_refreshes[OF ok]
        jobs[OF step_submits[OF parts(1)]] jobs[OF step_takes[OF parts(1) law]] jobs[OF step_beats[OF parts(1)]]
        jobs[OF step_progresses[OF parts(1)]] jobs[OF step_ends[OF parts(1) law]] jobs[OF step_cancels[OF parts(1) law]]
        generations[OF step_creates[OF parts(2)]] generations[OF step_verifies[OF parts(2)]]
        generations[OF step_publishes[OF parts(2)]] generations[OF step_publishes_if[OF parts(2)]]
        generations[OF step_retires[OF parts(2)]] generations[OF step_fails[OF parts(2)]]
        sets[OF begin_effect[OF parts(3)]] sets[OF record_chunks_effect[OF parts(3)]]
        sets[OF complete_effect[OF parts(3)]] sets[OF fail_effect[OF parts(3)]]
        step_stores[OF ok law] step_pins[OF ok] step_unpins[OF ok] step_collects[OF ok], assumption?
      | blast intro: keeps_documents[OF ok] document_call_effects[OF kernel_parts[OF ok]])+
qed

interpretation kernel_runs:
  step_system "kernel_step x U" "\<lambda>k. lawful x \<and> kernel_ok x U k" "kernel_evolves x U"
  by unfold_locales
    (meson step_evolves kernel_evolves_def, simp add: step_evolves, rule kernel_evolves_refl, erule (1) kernel_evolves_trans)

lemma kernel_run:
  assumes "lawful x" and "kernel_ok x U k" and "(kernel_step x U)\<^sup>*\<^sup>* k k'"
  shows "kernel_ok x U k' \<and> kernel_grows k k'"
  using kernel_runs.run_inv[OF assms(3)] assms(1,2) by (simp add: kernel_evolves_def)

end
