(* ===== verification/Job_Completion.thy ===== *)
theory Job_Completion
  imports Job_Safety
begin

text \<open>
  No job is stuck (job/lease.rs, job/outcome.rs): whoever asks for an unfinished job once its lease
  expired is given a lease, and whoever holds the lease ends the job.
\<close>

section \<open>Writes that are taken\<close>

lemma record_on_stream_taken:
  assumes law: "lawful x" and journal: "journal_ok x k" and plain: "plain_json READABLE_DEPTH data"
    and "t \<noteq> []" and "scope_from_str (as_str scope) = Inr s"
    and fresh: "ulid_text x (d_event d 0) \<notin> er_id ` set (k_events k)"
    and room: "int (stream_length (job_stream x jid) k) < I64_MAX"
  shows "\<exists>e. record_on_stream x d jid scope t data k = Inr (e, k\<lparr>k_events := k_events k
    @ [recorded_row x d 0 (job_event x jid scope t data) (k_events k)]\<rparr>)"
proof -
  let ?event = "job_event x jid scope t data"
  have plain': "plain_json READABLE_DEPTH (ne_data ?event)" using plain by (simp add: job_event_def)
  have "job_stream x jid \<noteq> []" by (simp add: job_stream_def)
  then obtain e where "journal_record x d ?event k = (Inr e, k\<lparr>k_events := k_events k
      @ [recorded_row x d 0 ?event (k_events k)]\<rparr>)"
    unfolding journal_record_def db_write_Inr map_err_Inr record_event_Inr
      insert_recorded[OF law plain' journal] recorded_event[OF law plain' journal] journal_ok_sequence[OF journal]
    using assms by (auto simp: job_event_def)
  then show ?thesis
    unfolding journal_record_def db_write_Inr map_err_Inr record_on_stream_def by blast
qed

text \<open>A row that stays out of the way of the others still does once it moved on.\<close>

lemma clash_of_unfinished:
  assumes "same_identity old new" and "job_unfinished old" and "job_clash new other"
  shows "job_clash old other"
  using assms by (auto simp: same_identity_def job_clash_def job_unfinished_def job_live_def)

lemma update_job_taken:
  assumes ok: "jobs_ok x k" and at: "job_at x jid k = Some row" and "job_unfinished row"
    and new: "assign row = Inr new" and same: "same_identity row new"
    and "\<not> job_update_refused row new" and "job_checks x new"
  shows "update_job x (ulid_text x jid) assign (k_jobs k)
    = Inr ([new], map (\<lambda>r. if jr_id r = ulid_text x jid then new else r) (k_jobs k))"
proof -
  have find: "List.find (\<lambda>r. jr_id r = ulid_text x jid) (k_jobs k) = Some row"
    using at by (simp add: job_at_def)
  have row: "row \<in> set (k_jobs k)" "jr_id row = ulid_text x jid" using job_at_mem[OF at] by simp_all
  have "\<not> job_clash new other" if "other \<in> set (k_jobs k)" "jr_id other \<noteq> ulid_text x jid" for other
  proof -
    have "\<not> job_clash row other"
      using ok row that unfolding jobs_ok_def job_rows_ok_def by metis
    then show ?thesis using clash_of_unfinished[OF same \<open>job_unfinished row\<close>] by blast
  qed
  then have "\<not> list_ex (\<lambda>other. jr_id other \<noteq> ulid_text x jid \<and> job_clash new other) (k_jobs k)"
    by (auto simp: list_ex_iff)
  then show ?thesis using assms(6,7) by (simp add: update_job_def find new)
qed

lemma plain_lease_data: "plain_json (Suc d) (lease_data lease)"
  by (simp add: lease_data_def json_object_def)

lemma plain_lease_event:
  "plain_json READABLE_DEPTH (json_object [(''lease'', lease_data lease)])"
  "plain_json READABLE_DEPTH
     (json_object [(''lease'', lease_data lease), (''previous_lease'', lease_data previous)])"
  using plain_lease_data[of 125] by (simp_all add: json_object_def READABLE_DEPTH_def)

lemma plain_outcome_event:
  assumes "plain_json (READABLE_DEPTH - 1) outcome"
  shows "plain_json READABLE_DEPTH (json_object [(''outcome'', outcome), (''lease'', lease_data lease)])"
    and "plain_json READABLE_DEPTH (json_object [(''outcome'', outcome)])"
  using plain_lease_data[of 125] assms by (simp_all add: json_object_def READABLE_DEPTH_def)

lemma plain_json_deeper: "plain_json d v \<Longrightarrow> d \<le> e \<Longrightarrow> plain_json e v"
proof (induction d v arbitrary: e rule: plain_json.induct)
  case (1 d vs)
  then show ?case by (force simp: list_all_iff)
next
  case (2 d members)
  then show ?case by (force simp: list_all_iff)
qed auto

section \<open>An expired lease is given to who asks\<close>

lemma the_job_reads:
  assumes "jobs_ok x k" and "lawful x" and "job_at x jid k = Some row"
  shows "scope_from_str (as_str (jo_scope (the_job x row))) = Inr (jo_scope (the_job x row))"
    and "jo_id (the_job x row) = jid"
proof -
  have "job_row x row = Inr (the_job x row)" by (rule job_row_the[OF job_at_ok[OF assms(1,3)]])
  from job_row_facts[OF this] show "scope_from_str (as_str (jo_scope (the_job x row))) = Inr (jo_scope (the_job x row))"
    by simp
  show "jo_id (the_job x row) = jid" using job_at_decoded[OF assms(1,3,2)] by simp
qed

lemma take_taken:
  assumes ok: "jobs_ok x k" and journal: "journal_ok x k" and law: "lawful x"
    and at: "job_at x jid k = Some row" and unfinished: "job_unfinished row"
    and times: "lease_times x now term = Inr (beat, expires)"
    and expired: "jr_state row = ''running'' \<longrightarrow> the (jr_expires row) \<le> beat"
    and room: "jr_number row < I64_MAX" "int (stream_length (job_stream x jid) k) < I64_MAX"
    and fresh: "ulid_text x (d_event d 0) \<notin> er_id ` set (k_events k)"
  shows "\<exists>lease k' event. take_job x d jid holder now term k = (Inr lease, k')
    \<and> k_events k' = k_events k @ [recorded_row x d 0 event (k_events k)]"
proof -
  let ?job = "the_job x row"
  let ?new = "row\<lparr>jr_state := ''running'', jr_number := jr_number row + 1, jr_holder := Some holder,
      jr_heartbeat := Some beat, jr_expires := Some expires\<rparr>"
  note rok = job_at_ok[OF ok at]
  have checks: "job_checks x row" using rok by (simp add: job_row_ok_def)
  have forms: "clock_form beat \<and> clock_form expires"
    using lease_times_Inr[OF _ times] law by (simp add: lawful_def)
  have "job_checks x ?new"
    using checks forms unfinished by (simp add: job_checks_def null_or_def job_ended_def job_unfinished_def) auto
  moreover have "\<not> job_update_refused row ?new"
    using unfinished by (auto simp: job_update_refused_def job_ended_def job_unfinished_def)
  ultimately have up: "update_job x (ulid_text x jid)
      (\<lambda>row. and_then (strict_integer (jr_number row + 1)) (\<lambda>number.
         Inr (row\<lparr>jr_state := ''running'', jr_number := number, jr_holder := Some holder,
                  jr_heartbeat := Some beat, jr_expires := Some expires\<rparr>))) (k_jobs k)
    = Inr ([?new], map (\<lambda>r. if jr_id r = ulid_text x jid then ?new else r) (k_jobs k))"
    using room(1) by (intro update_job_taken[OF ok at unfinished]) (auto simp: results same_identity_def)
  obtain number where number: "query_row (\<lambda>row. unsigned_i64 (jr_number row) 0) [?new] = Inr number"
    using checks by (auto simp: job_checks_def unsigned_i64_def)
  let ?k = "k\<lparr>k_jobs := map (\<lambda>r. if jr_id r = ulid_text x jid then ?new else r) (k_jobs k)\<rparr>"
  let ?lease = "\<lparr>le_job = jid, le_holder = holder, le_number = number, le_heartbeat = beat, le_expires = expires\<rparr>"
  have event: "\<exists>e k'. record_on_stream x d jid (jo_scope ?job) t data ?k = Inr (e, k')
      \<and> k_events k' = k_events k @ [recorded_row x d 0 (job_event x jid (jo_scope ?job) t data) (k_events k)]"
    if plain: "plain_json READABLE_DEPTH data" and t: "t \<noteq> []" for t data
  proof -
    have journal': "journal_ok x ?k" using journal by (simp add: journal_ok_def)
    have length': "stream_length (job_stream x jid) ?k = stream_length (job_stream x jid) k"
      by (simp add: stream_length_def)
    have "\<exists>e. record_on_stream x d jid (jo_scope ?job) t data ?k = Inr (e, ?k\<lparr>k_events := k_events ?k
        @ [recorded_row x d 0 (job_event x jid (jo_scope ?job) t data) (k_events ?k)]\<rparr>)"
      by (rule record_on_stream_taken[OF law journal' plain t the_job_reads(1)[OF ok law at]])
        (use fresh room(2) length' in simp_all)
    then show ?thesis by auto
  qed
  have known: "known_job x jid k = Inr ?job" using at by (simp add: known_job_ok[OF ok])
  show ?thesis
  proof (cases "jo_lease ?job")
    case None
    have "jr_state row = ''queued''"
      using row_lease(1)[OF rok] None unfinished by (auto simp: job_unfinished_def)
    then have "jo_state ?job = Queued" using row_state[OF rok] by (metis job_state_str_cases(1))
    then have move: "may_move_to (jo_state ?job) Running" by (simp add: may_move_iff)
    let ?data = "json_object [(''lease'', lease_data ?lease)]"
    obtain e k' where "record_on_stream x d jid (jo_scope ?job) (moved_into Running) ?data ?k = Inr (e, k')"
        "k_events k' = k_events k @ [recorded_row x d 0 (job_event x jid (jo_scope ?job) (moved_into Running) ?data) (k_events k)]"
      using event[OF plain_lease_event(1), of "moved_into Running" ?lease] by (auto simp: JOB_TAKEN_def)
    moreover from this(1) have "take_job x d jid holder now term k = (Inr ?lease, k')"
      using known times None move up number by (simp add: take_job_def db_write_def Let_def)
    ultimately show ?thesis by blast
  next
    case (Some current)
    have "\<not> le_expires current > beat"
      using row_lease[OF rok] Some expired by (auto simp: not_less)
    let ?data = "json_object [(''lease'', lease_data ?lease), (''previous_lease'', lease_data current)]"
    obtain e k' where rec: "record_on_stream x d jid (jo_scope ?job) JOB_TAKEN_OVER ?data ?k = Inr (e, k')"
        "k_events k' = k_events k @ [recorded_row x d 0 (job_event x jid (jo_scope ?job) JOB_TAKEN_OVER ?data) (k_events k)]"
      using event[OF plain_lease_event(2), of JOB_TAKEN_OVER ?lease current] by (auto simp: JOB_TAKEN_OVER_def)
    have "take_job x d jid holder now term k = (Inr ?lease, k')"
      using known times Some up number rec(1) \<open>\<not> le_expires current > beat\<close>
      by (simp add: take_job_def db_write_def Let_def)
    with rec(2) show ?thesis by blast
  qed
qed

section \<open>Who holds the lease ends the job\<close>

lemma complete_taken:
  assumes ok: "jobs_ok x k" and journal: "journal_ok x k" and law: "lawful x"
    and held: "held_lease x lease k = Inr job"
    and to: "to \<in> {Succeeded, Failed, Cancelled}" and plain: "plain_json (READABLE_DEPTH - 1) outcome"
    and room: "int (stream_length (job_stream x (le_job lease)) k) < I64_MAX"
    and fresh: "ulid_text x (d_event d 0) \<notin> er_id ` set (k_events k)"
  shows "\<exists>ended k'. complete_job x d lease to outcome k = (Inr ended, k')
    \<and> jo_id ended = le_job lease \<and> jo_state ended = to \<and> jo_outcome ended = Some outcome"
proof -
  let ?jid = "le_job lease"
  obtain row where at: "job_at x ?jid k = Some row" and running: "jr_state row = ''running''"
      and job: "job = the_job x row"
    using held by (auto simp: held_lease_ok[OF ok] split: option.splits if_splits)
  note rok = job_at_ok[OF ok at]
  have checks: "job_checks x row" using rok by (simp add: job_row_ok_def)
  note reads = the_job_reads[OF ok law at]
  have state: "jo_state job = Running" using row_state[OF rok] running job by (metis job_state_str_cases(2))
  let ?new = "row\<lparr>jr_state := job_state_str to, jr_outcome := Some (json_text x outcome),
      jr_holder := None, jr_heartbeat := None, jr_expires := None\<rparr>"
  have readable: "json_parse x (json_text x outcome) = Some outcome \<and> json_valid x (json_text x outcome)"
    by (rule lawful_readable[OF law plain_json_deeper[OF plain]]) (simp add: READABLE_DEPTH_def)
  have "job_checks x ?new"
    using checks readable to by (cases to) (simp_all add: job_checks_def null_or_def job_ended_def)
  moreover have "\<not> job_update_refused row ?new"
    using running to by (cases to) (simp_all add: job_update_refused_def job_ended_def)
  moreover have "job_unfinished row" using running by (simp add: job_unfinished_def)
  ultimately have up: "update_job x (ulid_text x ?jid)
      (\<lambda>row. Inr (row\<lparr>jr_state := job_state_str to, jr_outcome := Some (json_text x outcome),
            jr_holder := None, jr_heartbeat := None, jr_expires := None\<rparr>)) (k_jobs k)
    = Inr ([?new], map (\<lambda>r. if jr_id r = ulid_text x ?jid then ?new else r) (k_jobs k))"
    by (intro update_job_taken[OF ok at]) (auto simp: same_identity_def)
  have named: "job_state_named (job_state_str to) = Some to" by (simp add: job_state_named_iff)
  have dec: "job_row x row = Inr job" using job_row_the[OF rok] job by simp
  then have new: "job_row x ?new = Inr (job\<lparr>jo_state := to, jo_lease := None, jo_outcome := Some outcome\<rparr>)"
    using readable named by (auto simp: job_row_def results lease_of_def)
  let ?ended = "job\<lparr>jo_state := to, jo_lease := None, jo_outcome := Some outcome\<rparr>"
  let ?k = "k\<lparr>k_jobs := map (\<lambda>r. if jr_id r = ulid_text x ?jid then ?new else r) (k_jobs k)\<rparr>"
  obtain current where current: "jo_lease job = Some current"
    using row_lease(1)[OF rok] running job by auto
  let ?data = "json_object [(''outcome'', outcome), (''lease'', lease_data current)]"
  have "moved_into to \<noteq> []" using to by (auto simp: JOB_SUCCEEDED_def JOB_FAILED_def JOB_CANCELLED_def)
  moreover have "journal_ok x ?k" using journal by (simp add: journal_ok_def)
  moreover have "stream_length (job_stream x ?jid) ?k = stream_length (job_stream x ?jid) k"
    by (simp add: stream_length_def)
  ultimately have "\<exists>e. record_on_stream x d ?jid (jo_scope (the_job x row)) (moved_into to) ?data ?k
      = Inr (e, ?k\<lparr>k_events := k_events ?k @ [recorded_row x d 0
          (job_event x ?jid (jo_scope (the_job x row)) (moved_into to) ?data) (k_events ?k)]\<rparr>)"
    using fresh room by (intro record_on_stream_taken[OF law _ plain_outcome_event(1)[OF plain] _ reads(1)]) simp_all
  then obtain e k' where rec: "record_on_stream x d ?jid (jo_scope job) (moved_into to) ?data ?k = Inr (e, k')"
    unfolding job by blast
  have "jo_id job = ?jid" using reads(2) job by simp
  then have "end_job x d job to outcome k = Inr (?ended, k')"
    using up new rec current by (simp add: end_job_def Let_def)
  then have "complete_job x d lease to outcome k = (Inr ?ended, k')"
    using held to by (auto simp: complete_job_def db_write_def may_move_iff state)
  then show ?thesis using \<open>jo_id job = ?jid\<close> by auto
qed

section \<open>A job can always be finished\<close>

text \<open>
  C24: no job is stuck: whatever the calls before did, an unfinished job whose lease, when it has one,
  expired is given to whoever asks for it, and that holder can end it in any final state with the
  outcome it chose; unless a number ran out (of leases, of the stream's events) or an identifier
  drawn for an event is taken.
\<close>

theorem unfinished_job_can_end:
  assumes "jobs_ok x k" and "journal_ok x k" and "lawful x"
    and "job_at x jid k = Some row" and "job_unfinished row"
    and "lease_times x now term = Inr (beat, expires)"
    and "jr_state row = ''running'' \<longrightarrow> the (jr_expires row) \<le> beat"
    and "jr_number row < I64_MAX" and "int (stream_length (job_stream x jid) k) + 1 < I64_MAX"
    and fresh: "ulid_text x (d_event d 0) \<notin> er_id ` set (k_events k)"
      "ulid_text x (d_event d' 0) \<notin> er_id ` set (k_events k)" "d_event d 0 \<noteq> d_event d' 0"
    and "to \<in> {Succeeded, Failed, Cancelled}" and "plain_json (READABLE_DEPTH - 1) outcome"
  shows "\<exists>lease taken ended k'. take_job x d jid holder now term k = (Inr lease, taken)
    \<and> complete_job x d' lease to outcome taken = (Inr ended, k')
    \<and> jo_id ended = jid \<and> jo_state ended = to \<and> jo_outcome ended = Some outcome"
proof -
  obtain lease taken event where take: "take_job x d jid holder now term k = (Inr lease, taken)"
      and events: "k_events taken = k_events k @ [recorded_row x d 0 event (k_events k)]"
    using take_taken[where holder = holder, OF assms(1-8) _ fresh(1)] assms(9) by fastforce
  note effect = take_job_Inr[OF assms(1,3) take]
  have ok: "jobs_ok x taken" and journal: "journal_ok x taken"
    using effect assms(2) by (simp_all add: job_effect_def)
  obtain job where held: "held_lease x lease taken = Inr job" and jid: "le_job lease = jid"
    using effect by (auto simp: held_lease_ok[OF ok] job_row_ok_def job_checks_def
        dest!: job_at_ok[OF assms(1)])
  have "int (stream_length (job_stream x (le_job lease)) taken) < I64_MAX"
    using assms(9) jid events by (simp add: stream_length_def stream_sequences_def)
  moreover have "ulid_text x (d_event d' 0) \<notin> er_id ` set (k_events taken)"
    using fresh events lawful_ulid_text[OF assms(3)] by simp (metis option.inject)
  ultimately show ?thesis
    using complete_taken[OF ok journal assms(3) held assms(13,14)] take jid by blast
qed

lemma sample_taken_journal: "journal_ok sample sample_taken"
proof -
  have "journal_ok sample sample_submitted"
    using submit_job_new[OF jobs_ok_empty _ sample_submit] journal_ok_empty
    by (auto simp: job_effect_def live_job_def empty_kernel_def)
  then show ?thesis using take_job_Inr[OF sample_submitted_ok lawful_sample sample_take] by (simp add: job_effect_def)
qed

lemma unfinished_job_can_end_witness:
  "\<exists>lease taken ended k'. take_job sample (sample_draws 2) 0 ''bob'' 4999999 1 sample_taken = (Inr lease, taken)
    \<and> complete_job sample (sample_draws 3) lease Failed JNull taken = (Inr ended, k')
    \<and> jo_id ended = 0 \<and> jo_state ended = Failed \<and> jo_outcome ended = Some JNull"
proof -
  have drawn: "list_all (\<lambda>event. ulid_text sample (d_event (sample_draws 2) 0) \<noteq> er_id event
      \<and> ulid_text sample (d_event (sample_draws 3) 0) \<noteq> er_id event) (k_events sample_taken)
    \<and> stream_length (job_stream sample 0) sample_taken = 2
    \<and> d_event (sample_draws 2) 0 \<noteq> d_event (sample_draws 3) 0"
    by code_simp
  show ?thesis
  proof (rule unfinished_job_can_end[OF sample_taken_ok sample_taken_journal lawful_sample sample_at])
    have "the (sample_clock 3) \<le> the (sample_clock 4) \<and> sample_clock 3 \<noteq> None" by code_simp
    then show "jr_state sample_running = ''running'' \<longrightarrow> the (jr_expires sample_running) \<le> the (sample_clock 4)"
      by (simp add: sample_running_def)
    show "job_unfinished sample_running" "jr_number sample_running < I64_MAX"
      by (simp_all add: sample_running_def job_unfinished_def I64_MAX_def)
    show "lease_times sample 4999999 1 = Inr (the (sample_clock 4), the (sample_clock 5))" by code_simp
    show "int (stream_length (job_stream sample 0) sample_taken) + 1 < I64_MAX" using drawn by (simp add: I64_MAX_def)
  qed (use drawn in \<open>auto simp: list_all_iff\<close>)
qed

end
