(* ===== verification/Document_Props.thy ===== *)
theory Document_Props
  imports Document_Safety
begin

text \<open>
  The properties of the records of the pipeline: what the readers return beside a query without
  batches or a count without groups, what is recorded with a decision, and the sample the witnesses
  run on.
\<close>

section \<open>Reading near duplicates in batches\<close>

lemma pieces_concat: "0 < n \<Longrightarrow> concat (pieces_of n xs) = xs"
proof (induction n xs rule: pieces_of.induct)
  case (1 n xs)
  then show ?case by (subst pieces_of.simps) auto
qed

text \<open>Two ordered maps with the same entries are the same list.\<close>

lemma btree_unique:
  fixes m n :: "('k::linorder \<times> 'v) list"
  assumes "btree_ok m" and "btree_ok n" and same: "set m = set n"
  shows "m = n"
proof -
  have keys: "map fst m = map fst n"
    using assms by (intro strict_sorted_equal) (simp_all add: btree_ok_def)
  have "map snd l = map (\<lambda>key. the (map_of l key)) (map fst l)" if "btree_ok l" for l :: "('k \<times> 'v) list"
    using btree_ok_distinct[OF that] by (auto simp: map_of_is_SomeI)
  moreover have "map_of m = map_of n"
    using assms btree_ok_distinct map_of_inject_set[of m n] by blast
  ultimately have "map snd m = map snd n" using assms(1,2) keys by metis
  with keys show ?thesis by (metis zip_map_fst_snd)
qed

definition keyed :: "near_dup_record \<Rightarrow> (string \<times> string) \<times> near_duplicate" where
  "keyed row = (member_key row, member_of row)"

lemma keyed_inj: "distinct (map member_key rows) \<Longrightarrow> r \<in> set rows \<Longrightarrow> s \<in> set rows \<Longrightarrow>
    member_key r = member_key s \<longleftrightarrow> r = s"
  by (auto dest: same_key)

lemma fold_keyed:
  assumes "distinct (map member_key table)"
  shows "set found \<subseteq> set table \<Longrightarrow> before \<subseteq> set table \<Longrightarrow> btree_ok m \<Longrightarrow> set m = keyed ` before \<Longrightarrow>
    btree_ok (fold (\<lambda>row. btree_insert (member_key row) (member_of row)) found m)
    \<and> set (fold (\<lambda>row. btree_insert (member_key row) (member_of row)) found m) = keyed ` (before \<union> set found)"
proof (induction found arbitrary: m before)
  case (Cons row found)
  let ?m = "btree_insert (member_key row) (member_of row) m"
  have "set ?m = insert (keyed row) {e \<in> keyed ` before. fst e \<noteq> member_key row}"
    using btree_set_insert[OF Cons.prems(3)] Cons.prems(4) by (simp add: keyed_def)
  also have "\<dots> = keyed ` insert row before"
    using keyed_inj[OF assms] Cons.prems(1,2) by (auto simp: keyed_def subset_iff)
  finally have "set ?m = keyed ` insert row before" .
  from Cons.IH[OF _ _ btree_insert_ok[OF Cons.prems(3)] this] Cons.prems(1,2) show ?case by simp
qed simp

lemma group_query_set:
  "set (group_query scopes rids k) =
     {row \<in> set (k_near_dups k). sees_member k scopes row
        \<and> (\<exists>other\<in>set (k_near_dups k). sees_member k scopes other \<and> nd_revision other \<in> set rids
             \<and> nd_group other = nd_group row)}"
  by (auto simp: group_query_def Let_def image_iff)

lemma group_query_btree:
  assumes "distinct (map member_key (k_near_dups k))"
  shows "btree_ok (map keyed (group_query scopes rids k))"
proof -
  have fst_keyed: "map fst (map keyed rows) = map member_key rows" for rows by (simp add: keyed_def comp_def)
  have "distinct (map member_key (group_query scopes rids k))"
    using assms by (auto simp: group_query_def Let_def distinct_map intro: inj_on_subset)
  moreover have "sorted (map member_key (group_query scopes rids k))"
    by (simp add: group_query_def Let_def)
  ultimately show ?thesis unfolding btree_ok_def fst_keyed by (simp add: strict_sorted_iff)
qed

lemma collect_batches_set:
  assumes distinct: "distinct (map member_key (k_near_dups k))"
  shows "before \<subseteq> set (k_near_dups k) \<Longrightarrow> btree_ok m \<Longrightarrow> set m = keyed ` before \<Longrightarrow>
    btree_ok (collect_batches scopes k batches m)
    \<and> set (collect_batches scopes k batches m)
        = keyed ` (before \<union> (\<Union>batch\<in>set batches. set (group_query scopes batch k)))"
proof (induction batches arbitrary: m before)
  case (Cons batch batches)
  have sub: "set (group_query scopes batch k) \<subseteq> set (k_near_dups k)" by (auto simp: group_query_set)
  note f = fold_keyed[OF distinct sub Cons.prems]
  have "before \<union> set (group_query scopes batch k) \<subseteq> set (k_near_dups k)" using sub Cons.prems(1) by simp
  from Cons.IH[OF this conjunct1[OF f] conjunct2[OF f]] show ?case by (simp add: Un_assoc)
qed simp

text \<open>
  Reading the near duplicates of many revisions in batches of at most 499 parameters gives what
  one query over all of them would: every visible member of every group one of the revisions is a
  visible member of, once, in the order of groups and revisions.
\<close>

theorem near_duplicates_batched:
  assumes "duplicates_ok k"
  shows "near_duplicates_for_revisions scopes rids k = Inr (map member_of (group_query scopes rids k))"
proof -
  have distinct: "distinct (map member_key (k_near_dups k))" using assms by (simp add: duplicates_ok_def)
  let ?revisions = "sort (remdups rids)"
  let ?batches = "pieces_of MAX_REVISION_IDS_PER_QUERY ?revisions"
  let ?found = "collect_batches scopes k ?batches []"
  have pieces: "\<Union> (set ` set ?batches) = set rids"
    using arg_cong[OF pieces_concat[of MAX_REVISION_IDS_PER_QUERY ?revisions], of set]
    by (simp add: MAX_REVISION_IDS_PER_QUERY_def)
  have "btree_ok ?found \<and> set ?found = keyed ` ({} \<union> (\<Union>batch\<in>set ?batches. set (group_query scopes batch k)))"
    by (rule collect_batches_set[OF distinct]) simp_all
  moreover have "(\<Union>batch\<in>set ?batches. set (group_query scopes batch k)) = set (group_query scopes rids k)"
    unfolding group_query_set using pieces by blast
  ultimately have "?found = map keyed (group_query scopes rids k)"
    by (intro btree_unique group_query_btree[OF distinct]) simp_all
  moreover have "group_query scopes rids k = []" if "?revisions = []"
    using that by (simp add: group_query_def Let_def sort_nothing)
  ultimately show ?thesis
    by (simp add: near_duplicates_for_revisions_def Let_def keyed_def comp_def)
qed

section \<open>Counting by groups\<close>

lemma sum_groups:
  "(\<Sum>g\<in>{g \<in> set rows. P g}. count_list rows g) = length (filter P rows)"
proof -
  have "count_list (filter P rows) g = (if P g then count_list rows g else 0)" for g
    by (induction rows) auto
  then have "(\<Sum>g\<in>{g \<in> set rows. P g}. count_list rows g) = (\<Sum>g\<in>{g \<in> set rows. P g}. count_list (filter P rows) g)"
    by (intro sum.cong) simp_all
  also have "\<dots> = length (filter P rows)" by (rule sum_count_set) auto
  finally show ?thesis .
qed

text \<open>A table of counts with every key, and what a group adds to it.\<close>

definition count_of :: "('k \<times> nat) list \<Rightarrow> 'k \<Rightarrow> nat" where
  "count_of counts key = (case map_of counts key of None \<Rightarrow> 0 | Some n \<Rightarrow> n)"

lemma add_to_keys [simp]: "map fst (add_to counts key n) = map fst counts"
  by (simp add: add_to_def case_prod_unfold comp_def)

lemma count_of_add:
  assumes "key \<in> fst ` set counts"
  shows "count_of (add_to counts key n) other = count_of counts other + (if other = key then n else 0)"
proof -
  have "map_of (add_to counts key n) other = map_option (\<lambda>m. if other = key then m + n else m) (map_of counts other)"
    by (induction counts) (auto simp: add_to_def)
  moreover have "map_of counts key \<noteq> None" using assms by (simp add: map_of_eq_None_iff)
  ultimately show ?thesis by (auto simp: count_of_def split: option.split)
qed

lemma counts_add_fields:
  "cn_documents (counts_add c status decided n) = cn_documents c"
  "map fst (cn_statuses (counts_add c status decided n)) = map fst (cn_statuses c)"
  "map fst (cn_outcomes (counts_add c status decided n)) = map fst (cn_outcomes c)"
  "status \<in> fst ` set (cn_statuses c) \<Longrightarrow>
     count_of (cn_statuses (counts_add c status decided n)) s = count_of (cn_statuses c) s + (if s = status then n else 0)"
  "OUTCOMES = map fst (cn_outcomes c) \<Longrightarrow>
     count_of (cn_outcomes (counts_add c status decided n)) v = count_of (cn_outcomes c) v + (if Some v = decided then n else 0)"
  "cn_undecided (counts_add c status decided n) = cn_undecided c + (if decided = None then n else 0)"
proof -
  have "v \<in> fst ` set (cn_outcomes c)" if "OUTCOMES = map fst (cn_outcomes c)" for v
    using outcomes.all_complete[of v] arg_cong[OF that, of set] by simp
  then show "OUTCOMES = map fst (cn_outcomes c) \<Longrightarrow>
     count_of (cn_outcomes (counts_add c status decided n)) v = count_of (cn_outcomes c) v + (if Some v = decided then n else 0)"
    by (auto simp: counts_add_def Let_def count_of_add split: option.split)
qed (auto simp: counts_add_def Let_def count_of_add split: option.split)

text \<open>The columns of a revision, decoded.\<close>

definition columns_ok :: "string \<times> string option \<Rightarrow> bool" where
  "columns_ok g \<longleftrightarrow>
     (\<exists>status. fst g = revision_status_str status) \<and> (\<forall>name. snd g = Some name \<longrightarrow> (\<exists>outcome. name = outcome_str outcome))"

definition group_status :: "revision_status \<Rightarrow> string \<times> string option \<Rightarrow> bool" where
  "group_status status g \<longleftrightarrow> fst g = revision_status_str status"

definition group_outcome :: "outcome option \<Rightarrow> string \<times> string option \<Rightarrow> bool" where
  "group_outcome decided g \<longleftrightarrow> snd g = map_option outcome_str decided"

lemma counted_group_ok:
  assumes "columns_ok g"
  shows "\<exists>status decided. counted_group g n = Inr (status, decided, n) \<and> fst g = revision_status_str status
    \<and> snd g = map_option outcome_str decided"
  using assms by (cases "snd g") (auto simp: columns_ok_def counted_group_def)

lemma count_groups_exact:
  "distinct gs \<Longrightarrow> list_all columns_ok gs \<Longrightarrow> REVISION_STATUSES = map fst (cn_statuses c) \<Longrightarrow>
     OUTCOMES = map fst (cn_outcomes c) \<Longrightarrow>
     \<exists>c'. count_groups rows gs c = Inr c' \<and> cn_documents c' = cn_documents c
       \<and> REVISION_STATUSES = map fst (cn_statuses c') \<and> OUTCOMES = map fst (cn_outcomes c')
       \<and> (\<forall>s. count_of (cn_statuses c') s = count_of (cn_statuses c) s + (\<Sum>g\<in>{g \<in> set gs. group_status s g}. count_list rows g))
       \<and> (\<forall>v. count_of (cn_outcomes c') v = count_of (cn_outcomes c) v + (\<Sum>g\<in>{g \<in> set gs. group_outcome (Some v) g}. count_list rows g))
       \<and> cn_undecided c' = cn_undecided c + (\<Sum>g\<in>{g \<in> set gs. group_outcome None g}. count_list rows g)"
proof (induction gs arbitrary: c)
  case (Cons g gs)
  obtain status decided where g: "counted_group g (count_list rows g) = Inr (status, decided, count_list rows g)"
      "fst g = revision_status_str status" "snd g = map_option outcome_str decided"
    using counted_group_ok Cons.prems(2) by fastforce
  let ?c = "counts_add c status decided (count_list rows g)"
  have keys: "status \<in> fst ` set (cn_statuses c)"
    using revision_statuses.all_complete[of status] arg_cong[OF Cons.prems(3), of set] by simp
  note f = counts_add_fields[where c = c and status = status and decided = decided and n = "count_list rows g"]
  have split: "(\<Sum>h\<in>{h. (h = g \<or> h \<in> set gs) \<and> P h}. count_list rows h)
      = (if P g then count_list rows g else 0) + (\<Sum>h\<in>{h \<in> set gs. P h}. count_list rows h)" for P
  proof -
    have "{h. (h = g \<or> h \<in> set gs) \<and> P h} = (if P g then insert g {h \<in> set gs. P h} else {h \<in> set gs. P h})" by auto
    then show ?thesis using Cons.prems(1) by simp
  qed
  have here: "group_status s g \<longleftrightarrow> s = status" "group_outcome d g \<longleftrightarrow> d = decided" for s d
    using revision_statuses.names_differ[of status s] outcomes.names_differ
    by (auto simp: group_status_def group_outcome_def g(2,3) intro: option.inj_map_strong[where f = outcome_str and fa = outcome_str])
  have prems: "distinct gs" "list_all columns_ok gs" "REVISION_STATUSES = map fst (cn_statuses ?c)"
      "OUTCOMES = map fst (cn_outcomes ?c)"
    using Cons.prems f(2,3) by simp_all
  obtain c' where c': "count_groups rows gs ?c = Inr c'" "cn_documents c' = cn_documents ?c"
      "REVISION_STATUSES = map fst (cn_statuses c')" "OUTCOMES = map fst (cn_outcomes c')"
      "\<forall>s. count_of (cn_statuses c') s = count_of (cn_statuses ?c) s + (\<Sum>h\<in>{h \<in> set gs. group_status s h}. count_list rows h)"
      "\<forall>v. count_of (cn_outcomes c') v = count_of (cn_outcomes ?c) v + (\<Sum>h\<in>{h \<in> set gs. group_outcome (Some v) h}. count_list rows h)"
      "cn_undecided c' = cn_undecided ?c + (\<Sum>h\<in>{h \<in> set gs. group_outcome None h}. count_list rows h)"
    using Cons.IH[OF prems] by blast
  have "count_groups rows (g # gs) c = Inr c'" using g(1) c'(1) by simp
  then show ?case
    using c'(2-7) f(1) f(4)[OF keys] f(5)[OF Cons.prems(4)] f(6)
    by (intro exI[of _ c']) (simp add: split here add.assoc)
qed simp

text \<open>The revisions of a collection a reader sees, and those decided in a way.\<close>

definition seen_revisions :: "scope_set \<Rightarrow> string \<Rightarrow> kernel \<Rightarrow> revision_record list" where
  "seen_revisions scopes cid k =
     filter (joins k (\<lambda>doc. do_collection doc = cid \<and> sees_document scopes doc)) (k_revisions k)"

definition decided_as :: "kernel \<Rightarrow> outcome option \<Rightarrow> revision_record \<Rightarrow> bool" where
  "decided_as k decided row \<longleftrightarrow> map_option qd_disposition (disposition_of k (re_id row)) = map_option outcome_str decided"

lemma columns_all_ok:
  assumes "documents_ok k"
  shows "list_all columns_ok (counted_columns scopes cid k)"
proof -
  have "columns_ok (re_status row, map_option qd_disposition (disposition_of k (re_id row)))"
    if "row \<in> set (k_revisions k)" for row
  proof -
    have "revision_row_ok row" using assms that by (simp add: documents_ok_def revisions_ok_def list_all_iff)
    moreover have "disposition_row_ok q" if "disposition_of k (re_id row) = Some q" for q
      using assms that find_mem unfolding disposition_of_def documents_ok_def decisions_ok_def list_all_iff by fastforce
    ultimately show ?thesis
      unfolding columns_ok_def revision_row_ok_def disposition_row_ok_def by (metis fst_conv map_option_eq_Some snd_conv)
  qed
  then show ?thesis by (auto simp: counted_columns_def list_all_iff)
qed

lemma partition_lengths:
  assumes "\<And>row. row \<in> set rows \<Longrightarrow> columns_ok (re_status row, map_option qd_disposition (disposition_of k (re_id row)))"
  shows "length (filter (\<lambda>row. re_status row = ''valid'') rows)
      + (length (filter (\<lambda>row. re_status row = ''valid_with_warnings'') rows)
      + length (filter (\<lambda>row. re_status row = ''failed'') rows)) = length rows
    \<and> length (filter (decided_as k (Some Accepted)) rows) + (length (filter (decided_as k (Some AcceptedWithWarnings)) rows)
      + (length (filter (decided_as k (Some NeedsReextraction)) rows) + (length (filter (decided_as k (Some Quarantined)) rows)
      + length (filter (decided_as k (Some Excluded)) rows)))) + length (filter (decided_as k None) rows) = length rows"
  using assms
proof (induction rows)
  case (Cons row rows)
  obtain status where status: "re_status row = revision_status_str status"
    using Cons.prems[of row] by (auto simp: columns_ok_def)
  obtain decided where "map_option qd_disposition (disposition_of k (re_id row)) = map_option outcome_str decided"
  proof (cases "disposition_of k (re_id row)")
    case None
    then show thesis using that[of None] by simp
  next
    case (Some q)
    then obtain v where "qd_disposition q = outcome_str v" using Cons.prems[of row] by (auto simp: columns_ok_def)
    then show thesis using that[of "Some v"] Some by simp
  qed
  then have decided: "decided_as k d row \<longleftrightarrow> d = decided" for d
    unfolding decided_as_def by (cases d; cases decided) (auto dest: outcomes.names_differ)
  have rest: "row' \<in> set rows \<Longrightarrow> columns_ok (re_status row', map_option qd_disposition (disposition_of k (re_id row')))" for row'
    using Cons.prems by simp
  note ih = Cons.IH[OF rest]
  have "decided = None \<or> (\<exists>v\<in>set OUTCOMES. decided = Some v)" using outcomes.all_complete by (cases decided) auto
  then show ?case
    using ih by (cases status) (auto simp: status decided OUTCOMES_def)
qed simp

lemma filter_columns:
  "length (filter P (counted_columns scopes cid k)) =
     length (filter (\<lambda>row. P (re_status row, map_option qd_disposition (disposition_of k (re_id row)))) (seen_revisions scopes cid k))"
  by (simp add: counted_columns_def seen_revisions_def filter_map comp_def)

lemma count_of_zero: "count_of (map (\<lambda>key. (key, 0)) keys) key = 0"
  by (induction keys) (auto simp: count_of_def)

text \<open>
  A collection's counts are exact: they never fail, count each document and each revision the
  reader sees once, the revisions by each status and by each outcome, and apart those not decided
  yet; the statuses add up to the revisions, and so do the outcomes with those undecided.
\<close>

theorem counts_exact:
  assumes ok: "documents_ok k"
  shows "\<exists>c. collection_counts scopes cid k = Inr c
    \<and> cn_documents c = length (filter (\<lambda>doc. do_collection doc = cid \<and> sees_document scopes doc) (k_documents k))
    \<and> cn_statuses c = map (\<lambda>status. (status,
          length (filter (\<lambda>row. re_status row = revision_status_str status) (seen_revisions scopes cid k)))) REVISION_STATUSES
    \<and> cn_outcomes c = map (\<lambda>outcome. (outcome,
          length (filter (decided_as k (Some outcome)) (seen_revisions scopes cid k)))) OUTCOMES
    \<and> cn_undecided c = length (filter (decided_as k None) (seen_revisions scopes cid k))
    \<and> sum_list (map snd (cn_statuses c)) = length (seen_revisions scopes cid k)
    \<and> sum_list (map snd (cn_outcomes c)) + cn_undecided c = length (seen_revisions scopes cid k)"
proof -
  let ?rows = "counted_columns scopes cid k" and ?seen = "seen_revisions scopes cid k"
  let ?n = "length (filter (\<lambda>doc. do_collection doc = cid \<and> sees_document scopes doc) (k_documents k))"
  have all: "list_all columns_ok (remdups ?rows)" using columns_all_ok[OF ok] by (simp add: list_all_iff)
  have keys: "REVISION_STATUSES = map fst (cn_statuses (counts_of n))" "OUTCOMES = map fst (cn_outcomes (counts_of n))" for n
    by (simp_all add: counts_of_def comp_def)
  obtain c where c: "count_groups ?rows (remdups ?rows) (counts_of ?n) = Inr c" "cn_documents c = ?n"
      "REVISION_STATUSES = map fst (cn_statuses c)" "OUTCOMES = map fst (cn_outcomes c)"
      "\<And>s. count_of (cn_statuses c) s = length (filter (group_status s) ?rows)"
      "\<And>v. count_of (cn_outcomes c) v = length (filter (group_outcome (Some v)) ?rows)"
      "cn_undecided c = length (filter (group_outcome None) ?rows)"
    using count_groups_exact[OF distinct_remdups all keys, of ?rows ?n]
    by (auto simp: counts_of_def count_of_zero sum_groups)
  have table: "t = map (\<lambda>key. (key, count_of t key)) (map fst t)" if "distinct (map fst t)" for t :: "('k \<times> nat) list"
  proof -
    have "count_of t (fst e) = snd e" if "e \<in> set t" for e
      using \<open>distinct (map fst t)\<close> that by (cases e) (simp add: count_of_def)
    then show ?thesis by (simp add: comp_def map_idI)
  qed
  have distinct: "distinct REVISION_STATUSES" "distinct OUTCOMES" by (simp_all add: REVISION_STATUSES_def OUTCOMES_def)
  have statuses: "cn_statuses c = map (\<lambda>s. (s, length (filter (\<lambda>row. re_status row = revision_status_str s) ?seen))) REVISION_STATUSES"
    using table[of "cn_statuses c"] c(5) distinct(1) by (simp add: c(3)[symmetric] filter_columns group_status_def)
  have outcomes: "cn_outcomes c = map (\<lambda>v. (v, length (filter (decided_as k (Some v)) ?seen))) OUTCOMES"
    using table[of "cn_outcomes c"] c(6) distinct(2)
    by (simp add: c(4)[symmetric] filter_columns group_outcome_def decided_as_def[abs_def])
  have undecided: "cn_undecided c = length (filter (decided_as k None) ?seen)"
    using c(7) by (simp add: filter_columns group_outcome_def decided_as_def[abs_def])
  have "columns_ok (re_status row, map_option qd_disposition (disposition_of k (re_id row)))" if "row \<in> set ?seen" for row
    using columns_all_ok[OF ok, of scopes cid] that by (auto simp: list_all_iff counted_columns_def seen_revisions_def)
  note sums = partition_lengths[OF this]
  show ?thesis
    using c(1,2) statuses outcomes undecided sums
    by (intro exI[of _ c]) (simp add: collection_counts_def Let_def REVISION_STATUSES_def OUTCOMES_def)
qed

section \<open>A decision and its event\<close>

lemma record_event_row:
  assumes "record_event x d i event k = Inr (e, k')"
  shows "\<exists>row. k' = k\<lparr>k_events := k_events k @ [row]\<rparr> \<and> er_stream row = ne_stream event \<and> er_type row = ne_type event
    \<and> er_subject row = ne_subject event \<and> er_scope row = ne_scope event \<and> er_data row = json_text x (ne_data event)"
proof -
  have "k' = k\<lparr>k_events := k_events k @ [recorded_row x d i event (k_events k)]\<rparr>"
    using assms by (simp add: record_event_Inr)
  then show ?thesis by (intro exI[of _ "recorded_row x d i event (k_events k)"]) simp
qed

lemma record_revision_in_tables:
  assumes ok: "artifacts_ok k" and r: "record_revision_in x d new k = Inr (r, k')"
  shows "k_events k' = k_events k \<and> k_dispositions k' = k_dispositions k \<and> k_documents k' = k_documents k
    \<and> rv_id new \<in> re_id ` set (k_revisions k')"
proof (cases "find_revision x None (rv_id new) k")
  case (Inl e)
  then show ?thesis using r by (simp add: record_revision_in_def)
next
  case (Inr found)
  show ?thesis
  proof (cases found)
    case None
    then have "insert_revision x d new k = Inr (r, k')" using r Inr by (simp add: record_revision_in_def)
    from insert_revision_Inr[OF ok this] have "k' = k\<lparr>k_revisions := k_revisions k @ [new_revision_row x d new],
        k_artifacts := map (pinned_row (digest_str (rv_canonical new)))
          (map (pinned_row (digest_str (rv_original new))) (k_artifacts k))\<rparr>" by blast
    then show ?thesis by (simp add: new_revision_row_def)
  next
    case (Some recorded)
    then have "k' = k" using r Inr by (auto simp: record_revision_in_def results)
    moreover have "\<exists>row\<in>set (k_revisions k). re_id row = rv_id new"
    proof (rule ccontr)
      assume "\<not> (\<exists>row\<in>set (k_revisions k). re_id row = rv_id new)"
      then have "filter (\<lambda>row. re_id row = rv_id new \<and> joins k (\<lambda>doc. True) row) (k_revisions k) = []"
        by (auto simp: filter_empty_conv)
      then have "find_revision x None (rv_id new) k = Inr None" by (simp add: find_revision_def optional_def)
      then show False using Inr Some by simp
    qed
    ultimately show ?thesis by (simp add: image_iff) metis
  qed
qed

text \<open>What an entered decision leaves.\<close>

definition decision_entered :: "ext \<Rightarrow> draws \<Rightarrow> disposition \<Rightarrow> kernel \<Rightarrow> kernel \<Rightarrow> bool" where
  "decision_entered x d decided k k' \<longleftrightarrow>
     k_dispositions k' = k_dispositions k @ [new_disposition_row x d decided]
     \<and> (case outcome_held (ds_outcome decided) of
          None \<Rightarrow> k_events k' = k_events k
        | Some held \<Rightarrow>
            \<exists>doc row. document_of k' (ds_revision decided) = Some doc \<and> k_events k' = k_events k @ [row]
              \<and> er_stream row = knowledge_stream (do_collection doc) \<and> er_type row = REVISION_HELD
              \<and> er_subject row = ''revision/'' @ ds_revision decided
              \<and> er_scope row = source_path (do_collection doc) (do_source doc)
              \<and> er_data row = json_text x (json_object [(''collection'', JStr (do_collection doc)),
                  (''revision'', JStr (ds_revision decided)), (''disposition'', JStr (held_str held))]))"

lemma record_disposition_in_tables:
  assumes r: "record_disposition_in x d decided k = Inr (r, k')"
  shows "(if r = New then decision_entered x d decided k k' else k' = k)
    \<and> k_revisions k' = k_revisions k \<and> ds_revision decided \<in> qd_revision ` set (k_dispositions k')"
proof -
  let ?row = "new_disposition_row x d decided"
  obtain n k1 where i: "insert_disposition x ?row k = Inr (n, k1)"
    using r by (auto simp: record_disposition_in_def results)
  have id: "qd_revision ?row = ds_revision decided" by (simp add: new_disposition_row_def)
  consider "n = 0" "k1 = k" "ds_revision decided \<in> qd_revision ` set (k_dispositions k)"
    | "n = 1" "k1 = k\<lparr>k_dispositions := k_dispositions k @ [?row]\<rparr>"
    using insert_disposition_Inr[OF i] id by auto
  then show ?thesis
  proof cases
    case 1
    then show ?thesis using r i by (simp add: record_disposition_in_def)
  next
    case 2
    show ?thesis
    proof (cases "outcome_held (ds_outcome decided)")
      case None
      then have "r = New" "k' = k1" using r i 2(1) by (auto simp: record_disposition_in_def)
      then show ?thesis using None 2(2) id by (simp add: decision_entered_def)
    next
      case (Some held)
      then obtain doc e where doc: "document_of k1 (ds_revision decided) = Some doc"
          and e: "record_event x d 0 (revision_held (do_collection doc) (do_source doc) (ds_revision decided) held) k1 = Inr (e, k')"
          and "r = New"
        using r i 2(1) by (auto simp: record_disposition_in_def journal_hold_def results)
      obtain row where k': "k' = k1\<lparr>k_events := k_events k1 @ [row]\<rparr>" "er_stream row = knowledge_stream (do_collection doc)"
          "er_type row = REVISION_HELD" "er_subject row = ''revision/'' @ ds_revision decided"
          "er_scope row = source_path (do_collection doc) (do_source doc)"
          "er_data row = json_text x (json_object [(''collection'', JStr (do_collection doc)),
                  (''revision'', JStr (ds_revision decided)), (''disposition'', JStr (held_str held))])"
        using record_event_row[OF e] by (auto simp: revision_held_def)
      have "document_of k' (ds_revision decided) = Some doc"
        using doc document_of_cong[of k' k1] by (simp add: k'(1))
      then show ?thesis
        using k' \<open>r = New\<close> Some 2(2) id by (auto simp: decision_entered_def)
    qed
  qed
qed

text \<open>
  C11: a revision recorded with its decision is recorded with both or with neither: a refusal changes
  nothing at all, whatever step it comes from, and otherwise the revision is recorded and decided; the
  decision is entered exactly when the revision had none, and the event that it is held back is
  journaled in the same write exactly when the outcome holds it back, on the stream of its
  collection, in the scope of its document's source.
\<close>

theorem revision_and_decision_together:
  assumes parts: "parts_ok x U k" and r: "record_revision_with_disposition x d new decided k = (r, k')"
  shows "case r of
      Inl e \<Rightarrow> k' = k
    | Inr entered \<Rightarrow>
        rv_id new \<in> re_id ` set (k_revisions k') \<and> ds_revision decided \<in> qd_revision ` set (k_dispositions k')
        \<and> (if entered = New then decision_entered x d decided k k'
           else k_dispositions k' = k_dispositions k \<and> k_events k' = k_events k)"
proof (cases r)
  case (Inl e)
  then show ?thesis using r by (simp add: record_revision_with_disposition_def db_write_Inl)
next
  case (Inr entered)
  then obtain r1 k1 where k1: "record_revision_in x d new k = Inr (r1, k1)" "record_disposition_in x d decided k1 = Inr (entered, k')"
    using r by (auto simp: record_revision_with_disposition_def results)
  have "artifacts_ok k" using parts by (simp add: parts_ok_def chunk_sets_ok_def)
  note first = record_revision_in_tables[OF this k1(1)] and second = record_disposition_in_tables[OF k1(2)]
  have "decision_entered x d decided k k'" if "entered = New"
    using that first second by (simp add: decision_entered_def split: option.splits)
  then show ?thesis using Inr first second by auto
qed

section \<open>Groups of near duplicates are recorded whole\<close>

text \<open>The map of a batch: its groups and rows ordered, no group empty.\<close>

definition groups_ok :: "groups \<Rightarrow> bool" where
  "groups_ok groups \<longleftrightarrow> btree_ok groups \<and> (\<forall>(g, rows)\<in>set groups. btree_ok rows \<and> rows \<noteq> [])"

definition f64_same :: "f64 \<Rightarrow> f64 \<Rightarrow> bool" where
  "f64_same v w \<longleftrightarrow> v = w \<or> f64_eq v w"

lemma f64_same_trans: "f64_same u v \<Longrightarrow> f64_same v w \<Longrightarrow> f64_same u w"
  by (auto simp: f64_same_def f64_eq_def)

lemma f64_same_eq: "f64_same v w \<Longrightarrow> \<not> f64_is_nan v \<Longrightarrow> f64_eq v w"
  by (auto simp: f64_same_def f64_eq_def)

lemma group_rows_in: "groups_ok groups \<Longrightarrow> (g, rows) \<in> set groups \<Longrightarrow> group_rows groups g = rows"
  using btree_ok_distinct by (force simp: groups_ok_def group_rows_def)

lemma group_rows_ok: "groups_ok groups \<Longrightarrow> btree_ok (group_rows groups g)"
  by (auto simp: groups_ok_def group_rows_def dest!: map_of_SomeD split: option.split)

definition in_groups :: "groups \<Rightarrow> string \<Rightarrow> string \<Rightarrow> f64 \<Rightarrow> bool" where
  "in_groups groups g r v \<longleftrightarrow> map_of (group_rows groups g) r = Some v"

lemma insert_member_ok:
  assumes ok: "groups_ok groups"
  shows "groups_ok (btree_insert g (btree_insert r v (group_rows groups g)) groups)"
    "in_groups (btree_insert g (btree_insert r v (group_rows groups g)) groups) h s w \<longleftrightarrow>
       (if h = g \<and> s = r then w = v else in_groups groups h s w)"
proof -
  let ?rows = "btree_insert r v (group_rows groups g)"
  have rows: "btree_ok ?rows" "?rows \<noteq> []"
    using btree_insert_ok[OF group_rows_ok[OF ok]] btree_insert_keys[of r v "group_rows groups g"] by auto
  have groups: "btree_ok groups" using ok by (simp add: groups_ok_def)
  show "groups_ok (btree_insert g ?rows groups)"
    using ok rows btree_insert_ok[OF groups] btree_set_insert[OF groups, of g ?rows] by (auto simp: groups_ok_def)
  show "in_groups (btree_insert g ?rows groups) h s w \<longleftrightarrow> (if h = g \<and> s = r then w = v else in_groups groups h s w)"
  proof -
    have "group_rows (btree_insert g ?rows groups) h = (if h = g then ?rows else group_rows groups h)"
      by (simp add: group_rows_def[of "btree_insert g ?rows groups"] group_rows_def[of groups h] map_of_btree_insert[OF groups])
    then show ?thesis using map_of_btree_insert[OF group_rows_ok[OF ok, of g], of r v] by (auto simp: in_groups_def)
  qed
qed

lemma group_members_exact:
  "group_members ms groups = Inr groups' \<Longrightarrow> groups_ok groups \<Longrightarrow>
     groups_ok groups'
     \<and> (\<forall>g r v. in_groups groups' g r v \<longrightarrow> (\<exists>w. in_groups groups g r w) \<or> (\<exists>m\<in>set ms. nu_group m = g \<and> nu_revision m = r))
     \<and> (\<forall>g r v. in_groups groups g r v \<longrightarrow> (\<exists>w. in_groups groups' g r w \<and> f64_same w v))
     \<and> (\<forall>m\<in>set ms. \<exists>w. in_groups groups' (nu_group m) (nu_revision m) w \<and> f64_same w (nu_jaccard m))"
proof (induction ms groups rule: group_members.induct)
  case (1 groups)
  then show ?case by (auto simp: f64_same_def)
next
  case (2 m ms groups)
  let ?rows = "group_rows groups (nu_group m)"
  let ?groups = "btree_insert (nu_group m) (btree_insert (nu_revision m) (nu_jaccard m) ?rows) groups"
  have same: "in_groups groups (nu_group m) (nu_revision m) v \<Longrightarrow> f64_eq v (nu_jaccard m)" for v
    using 2(2) by (auto simp: Let_def in_groups_def split: if_splits option.splits)
  have rest: "group_members ms ?groups = Inr groups'"
    using 2(2) by (auto simp: Let_def in_groups_def split: if_splits option.splits)
  have refused: "\<not> (case map_of ?rows (nu_revision m) of None \<Rightarrow> False | Some v \<Rightarrow> \<not> f64_eq v (nu_jaccard m))"
    using same by (auto simp: in_groups_def split: option.splits)
  note i = insert_member_ok[OF 2(3), of "nu_group m" "nu_revision m" "nu_jaccard m"]
  note ih = 2(1)[OF refl refused rest i(1)]
  have sym: "f64_eq (nu_jaccard m) v" if "f64_eq v (nu_jaccard m)" for v using that by (auto simp: f64_eq_def)
  have kept: "\<exists>w. in_groups groups' g r w \<and> f64_same w v" if v: "in_groups groups g r v" for g r v
  proof -
    have "\<exists>w. in_groups ?groups g r w \<and> f64_same w v"
      using v same sym unfolding i(2) by (auto simp: f64_same_def)
    then show ?thesis using ih f64_same_trans by blast
  qed
  have new: "\<exists>w. in_groups groups' (nu_group m) (nu_revision m) w \<and> f64_same w (nu_jaccard m)"
    using ih unfolding i(2) by auto
  have whence: "(\<exists>w. in_groups groups g r w) \<or> (\<exists>n\<in>set (m # ms). nu_group n = g \<and> nu_revision n = r)"
    if "in_groups groups' g r v" for g r v
  proof -
    have "(\<exists>w. in_groups ?groups g r w) \<or> (\<exists>n\<in>set ms. nu_group n = g \<and> nu_revision n = r)" using ih that by blast
    then show ?thesis unfolding i(2) by (auto split: if_splits)
  qed
  have "\<forall>n\<in>set (m # ms). \<exists>w. in_groups groups' (nu_group n) (nu_revision n) w \<and> f64_same w (nu_jaccard n)"
    using ih new by simp
  with conjunct1[OF ih] show ?case using kept whence by blast
qed

text \<open>What a group holds once it was recorded, and keeps.\<close>

lemma near_row_same:
  assumes "is_jaccard (sqlite_real v)"
  shows "f64_eq (sqlite_real v) v"
  using assms by (auto simp: is_jaccard_def f64_le_def f64_eq_def sqlite_real_def f64_is_nan_def f64_rank_def Rust_Numbers.signed_def split: if_splits)

lemma stored_group: "stored_near_duplicate_rows g k = sort_key fst (map (\<lambda>row. (nd_revision row, nd_jaccard row)) (group_of g k))"
  by (simp add: stored_near_duplicate_rows_def group_of_def)

lemma group_recorded:
  assumes ok: "duplicates_ok k" and rows: "btree_ok rows" and r: "record_near_duplicate_group g rows k = Inr k'"
  shows "same_rows (stored_near_duplicate_rows g k') rows"
proof (cases "same_rows (stored_near_duplicate_rows g k) rows")
  case True
  then show ?thesis using r by (simp add: record_near_duplicate_group_def Let_def)
next
  case False
  then have none: "stored_near_duplicate_rows g k = []" and i: "insert_members g rows k = Inr k'"
    using r by (auto simp: record_near_duplicate_group_def Let_def split: if_splits)
  have empty: "group_of g k = []" using none by (simp add: stored_group sort_nothing)
  note e = insert_members_Inr[OF i ok]
  then have k': "k' = k\<lparr>k_near_dups := k_near_dups k @ map (near_row g) rows\<rparr>" and ok': "duplicates_ok k'" by blast+
  have "group_of g k' = map (near_row g) rows"
    using empty by (simp add: group_of_def k') (induction rows; simp add: near_row_def)
  then have "stored_near_duplicate_rows g k' = sort_key fst (map (\<lambda>(r, v). (r, sqlite_real v)) rows)"
    by (simp add: stored_group near_row_def comp_def case_prod_unfold)
  also have "\<dots> = map (\<lambda>(r, v). (r, sqlite_real v)) rows"
    using rows by (intro sort_key_id_if_sorted) (simp add: btree_ok_def comp_def case_prod_unfold strict_sorted_iff)
  finally have stored: "stored_near_duplicate_rows g k' = map (\<lambda>(r, v). (r, sqlite_real v)) rows" .
  have "is_jaccard (sqlite_real v)" if "(r, v) \<in> set rows" for r v
  proof -
    have "near_row g (r, v) \<in> set (k_near_dups k')" using that by (auto simp: k')
    then have "is_jaccard (nd_jaccard (near_row g (r, v)))" using ok' by (auto simp: duplicates_ok_def list_all_iff)
    then show ?thesis by (simp add: near_row_def)
  qed
  then show ?thesis
    unfolding stored same_rows_def
    by (auto simp: list_all2_map1 case_prod_unfold intro!: list_all2_all_nthI near_row_same) (metis nth_mem prod.collapse)
qed

lemma duplicates_effect_ok: "document_effect x U k k' \<Longrightarrow> duplicates_ok k'"
  by (simp add: document_effect_def documents_ok_def)

lemma record_groups_stored:
  "record_groups gs k = Inr (u, k') \<Longrightarrow> parts_ok x U k \<Longrightarrow> \<forall>(g, rows)\<in>set gs. btree_ok rows \<and> rows \<noteq> [] \<Longrightarrow>
     \<forall>(g, rows)\<in>set gs. same_rows (stored_near_duplicate_rows g k') rows"
proof (induction gs k rule: record_groups.induct)
  case (2 g rows gs k)
  obtain k1 where k1: "record_near_duplicate_group g rows k = Inr k1" "record_groups gs k1 = Inr (u, k')"
    using 2(2) by (auto simp: results)
  have e: "document_effect x U k k1" by (rule group_effect[OF 2(3) k1(1)])
  have "document_effect x U k1 k'" by (rule groups_effect[OF document_effect_ok[OF e] k1(2)])
  then have grow: "documents_grow k1 k'" by (simp add: document_effect_def)
  have "duplicates_ok k" using 2(3) by (simp add: parts_ok_def documents_ok_def)
  then have here: "same_rows (stored_near_duplicate_rows g k1) rows" using 2(4) by (intro group_recorded[OF _ _ k1(1)]) auto
  then have "group_of g k1 \<noteq> []" using 2(4) by (auto simp: same_rows_def stored_group)
  then have "stored_near_duplicate_rows g k' = stored_near_duplicate_rows g k1"
    using grow by (simp add: documents_grow_def stored_group)
  moreover have "\<forall>(g, rows)\<in>set gs. same_rows (stored_near_duplicate_rows g k') rows"
    using 2(1)[OF k1(2) document_effect_ok[OF e]] 2(4) by simp
  ultimately show ?case using here by simp
qed simp

lemma record_groups_again:
  "\<forall>(g, rows)\<in>set gs. same_rows (stored_near_duplicate_rows g k) rows \<Longrightarrow> record_groups gs k = Inr ((), k)"
  by (induction gs) (auto simp: record_near_duplicate_group_def Let_def)

lemma same_rows_map:
  assumes "same_rows stored rows"
  shows "(r, v) \<in> set rows \<Longrightarrow> \<exists>w. (r, w) \<in> set stored \<and> f64_eq w v"
    "(r, w) \<in> set stored \<Longrightarrow> \<exists>v. (r, v) \<in> set rows"
  using assms unfolding same_rows_def by (induction stored rows rule: list_all2_induct) auto

text \<open>
  A group of near duplicates is recorded whole and once: after a batch is recorded, and for as
  long as the tables only grow, each group it names holds the members the batch gives, with their
  numbers, and no other; recording the batch again then writes nothing.
\<close>

theorem near_groups_recorded_whole:
  assumes parts: "parts_ok x U k" and r: "record_near_duplicates members k = (Inr (), k1)"
    and grow: "documents_grow k1 k2"
  shows "record_near_duplicates members k2 = (Inr (), k2)
    \<and> (\<forall>m\<in>set members.
         (\<exists>row\<in>set (group_of (nu_group m) k2). nd_revision row = nu_revision m \<and> f64_eq (nd_jaccard row) (nu_jaccard m))
         \<and> (\<forall>row\<in>set (group_of (nu_group m) k2). \<exists>n\<in>set members. nu_group n = nu_group m \<and> nu_revision n = nd_revision row))"
proof -
  obtain gs where gs: "group_members members [] = Inr gs"
    using r by (cases "group_members members []") (auto simp: record_near_duplicates_def)
  have "groups_ok []" by (simp add: groups_ok_def)
  note exact = group_members_exact[OF gs this]
  then have ok: "groups_ok gs" by blast
  then have rows: "\<forall>(g, rows)\<in>set gs. btree_ok rows \<and> rows \<noteq> []" by (simp add: groups_ok_def)
  have w: "record_groups gs k = Inr ((), k1)" using r gs by (simp add: record_near_duplicates_def db_write_Inr)
  note stored1 = record_groups_stored[OF w parts rows]
  have kept: "stored_near_duplicate_rows g k2 = stored_near_duplicate_rows g k1" if "(g, rows) \<in> set gs" for g rows
  proof -
    have "group_of g k1 \<noteq> []" using that stored1 rows by (force simp: same_rows_def stored_group)
    then show ?thesis using grow by (simp add: documents_grow_def stored_group)
  qed
  then have stored: "\<forall>(g, rows)\<in>set gs. same_rows (stored_near_duplicate_rows g k2) rows" using stored1 by fastforce
  have again: "record_near_duplicates members k2 = (Inr (), k2)"
    using record_groups_again[OF stored] gs by (simp add: record_near_duplicates_def db_write_def)
  have in_stored: "(s, v) \<in> set (stored_near_duplicate_rows g k2) \<longleftrightarrow>
      (\<exists>row\<in>set (group_of g k2). nd_revision row = s \<and> nd_jaccard row = v)" for s v g
    by (auto simp: stored_group)
  have members: "(\<exists>row\<in>set (group_of (nu_group m) k2). nd_revision row = nu_revision m \<and> f64_eq (nd_jaccard row) (nu_jaccard m))
      \<and> (\<forall>row\<in>set (group_of (nu_group m) k2). \<exists>n\<in>set members. nu_group n = nu_group m \<and> nu_revision n = nd_revision row)"
    if m: "m \<in> set members" for m
  proof -
    obtain v where v: "in_groups gs (nu_group m) (nu_revision m) v" "f64_same v (nu_jaccard m)"
      using exact m by blast
    then have mem: "(nu_group m, group_rows gs (nu_group m)) \<in> set gs"
      by (auto simp: in_groups_def group_rows_def split: option.splits intro: map_of_SomeD)
    then have same: "same_rows (stored_near_duplicate_rows (nu_group m) k2) (group_rows gs (nu_group m))" using stored by auto
    have "(nu_revision m, v) \<in> set (group_rows gs (nu_group m))" using v(1) by (simp add: in_groups_def map_of_SomeD)
    then obtain w where w: "(nu_revision m, w) \<in> set (stored_near_duplicate_rows (nu_group m) k2)" "f64_eq w v"
      using same_rows_map(1)[OF same] by blast
    have "f64_eq w (nu_jaccard m)" using w(2) v(2) by (auto simp: f64_same_def f64_eq_def)
    moreover have "\<exists>n\<in>set members. nu_group n = nu_group m \<and> nu_revision n = nd_revision row"
      if row: "row \<in> set (group_of (nu_group m) k2)" for row
    proof -
      have "(nd_revision row, nd_jaccard row) \<in> set (stored_near_duplicate_rows (nu_group m) k2)"
        using row in_stored by blast
      then obtain u where "(nd_revision row, u) \<in> set (group_rows gs (nu_group m))" using same_rows_map(2)[OF same] by blast
      then have "in_groups gs (nu_group m) (nd_revision row) u"
        using btree_ok_distinct[OF group_rows_ok[OF ok]] by (simp add: in_groups_def)
      then show ?thesis using exact by (fastforce simp: in_groups_def group_rows_def)
    qed
    moreover obtain row where "row \<in> set (group_of (nu_group m) k2)" "nd_revision row = nu_revision m" "nd_jaccard row = w"
      using w(1) in_stored by blast
    ultimately show ?thesis by blast
  qed
  with again show ?thesis by blast
qed


section \<open>A sample of decisions and groups\<close>

definition sample_revision :: revision where
  "sample_revision = \<lparr>rv_id = ''rev2'', rv_document = ''doc'', rv_original = Digest sample_hex,
     rv_canonical = Digest sample_hex, rv_status = RevisionValidWithWarnings, rv_captured_at = None, rv_metadata = []\<rparr>"

definition sample_decision :: disposition where
  "sample_decision = \<lparr>ds_revision = ''rev2'', ds_outcome = Quarantined, ds_reasons = [''w''], ds_rules = [''v''],
     ds_decided_by = ''bob''\<rparr>"

definition sample_decided :: kernel where
  "sample_decided = snd (record_revision_with_disposition sample (sample_draws 0) sample_revision sample_decision sample_shelf)"

definition sample_members :: "near_duplicate list" where
  "sample_members = [\<lparr>nu_group = ''g'', nu_revision = ''rev2'', nu_jaccard = F64 False 4602678819172646912\<rparr>,
     \<lparr>nu_group = ''g'', nu_revision = ''rev'', nu_jaccard = F64 True 0\<rparr>]"

definition sample_grouped :: kernel where
  "sample_grouped = snd (record_near_duplicates sample_members sample_decided)"

lemma sample_shelf_documents: "documents_ok sample_shelf"
proof -
  have "digest_parse sample_hex = Inr (Digest sample_hex)" "\<exists>status. revision_status_str status = ''valid''"
    by (code_simp, metis revision_status_str.simps(1))
  then show ?thesis
    by (simp add: documents_ok_defs revision_row_ok_def sample_shelf_def empty_kernel_def source_key_def)
qed

lemma sample_shelf_parts: "parts_ok x U sample_shelf"
  by (simp add: parts_ok_def sample_shelf_ok sample_shelf_documents)
    (simp add: journal_ok_def stream_sequences_def numbered_def sample_shelf_def empty_kernel_def)

lemma sample_decides:
  "record_revision_with_disposition sample (sample_draws 0) sample_revision sample_decision sample_shelf = (Inr New, sample_decided)"
  by code_simp

lemma sample_decided_parts: "parts_ok sample U sample_decided"
  by (rule document_effect_ok[OF both_call_effect[OF sample_shelf_parts sample_decides]])

lemma sample_groups: "record_near_duplicates sample_members sample_decided = (Inr (), sample_grouped)"
  by code_simp

lemma sample_grouped_ok: "duplicates_ok sample_grouped" "documents_ok sample_grouped"
  using document_effect_ok[OF near_duplicates_call_effect[OF sample_decided_parts sample_groups]]
  by (simp_all add: parts_ok_def documents_ok_def)

lemma near_duplicates_batched_witness:
  "near_duplicates_for_revisions (ScopeSet [Scope ''workspace/default'']) [''rev''] sample_grouped
     = Inr [\<lparr>nu_group = ''g'', nu_revision = ''rev'', nu_jaccard = F64 False 0\<rparr>,
            \<lparr>nu_group = ''g'', nu_revision = ''rev2'', nu_jaccard = F64 False 4602678819172646912\<rparr>]"
  unfolding near_duplicates_batched[OF sample_grouped_ok(1)] by code_simp

lemma counts_exact_witness:
  "\<exists>c. collection_counts (ScopeSet [Scope ''workspace/default'']) ''ct'' sample_grouped = Inr c
     \<and> cn_documents c = 1 \<and> cn_undecided c = 1 \<and> sum_list (map snd (cn_statuses c)) = 2"
proof -
  have "length (seen_revisions (ScopeSet [Scope ''workspace/default'']) ''ct'' sample_grouped) = 2"
    "length (filter (decided_as sample_grouped None) (seen_revisions (ScopeSet [Scope ''workspace/default'']) ''ct'' sample_grouped)) = 1"
    "length (filter (\<lambda>doc. do_collection doc = ''ct'' \<and> sees_document (ScopeSet [Scope ''workspace/default'']) doc)
       (k_documents sample_grouped)) = 1"
    by code_simp+
  then show ?thesis
    using counts_exact[OF sample_grouped_ok(2), of "ScopeSet [Scope ''workspace/default'']" "''ct''"] by metis
qed

lemma revision_and_decision_together_witness:
  "''rev2'' \<in> qd_revision ` set (k_dispositions sample_decided)
     \<and> decision_entered sample (sample_draws 0) sample_decision sample_shelf sample_decided"
  using revision_and_decision_together[OF sample_shelf_parts sample_decides] by (simp add: sample_decision_def)

lemma near_groups_recorded_whole_witness:
  "record_near_duplicates sample_members sample_grouped = (Inr (), sample_grouped)
     \<and> (\<exists>row\<in>set (group_of ''g'' sample_grouped). nd_revision row = ''rev2'')"
proof -
  have grow: "documents_grow sample_grouped sample_grouped" by (simp add: documents_grow_refl)
  show ?thesis
    using near_groups_recorded_whole[OF sample_decided_parts sample_groups grow] by (auto simp: sample_members_def)
qed


section \<open>What was recorded reads back\<close>

lemma optional_value: "optional (Inr v) = Inr (Some v)"
  by (simp add: optional_def)

lemma find_only:
  "distinct (map f xs) \<Longrightarrow> y \<in> set xs \<Longrightarrow> List.find (\<lambda>z. f z = f y \<and> Q z) xs = (if Q y then Some y else None)"
proof (induction xs)
  case (Cons z xs)
  then show ?case by (cases "z = y") (auto simp: find_None_iff image_iff)
qed simp

text \<open>A revision whose metadata serde reads back, and its row.\<close>

lemma new_revision_reads:
  assumes law: "lawful x" and plain: "plain_json READABLE_DEPTH (JObj (rv_metadata new))"
    and ok: "revisions_ok k" and mem: "new_revision_row x d new \<in> set (k_revisions k)"
  shows "revision_row x (new_revision_row x d new) = Inr new"
    "revision_at (rv_id new) k = Some (new_revision_row x d new)"
    "find_revision x None (rv_id new) k = Inr (Some new)"
    "revision_read x scopes (rv_id new) k =
       Inr (if \<exists>doc. document_of k (rv_id new) = Some doc \<and> sees_document scopes doc then Some new else None)"
proof -
  let ?row = "new_revision_row x d new"
  have "revision_row_ok ?row" using ok mem by (simp add: revisions_ok_def list_all_iff)
  then have digests: "digest_parse (digest_str (rv_original new)) = Inr (rv_original new)"
      "digest_parse (digest_str (rv_canonical new)) = Inr (rv_canonical new)"
    by (simp_all add: revision_row_ok_def new_revision_row_def)
  show row: "revision_row x ?row = Inr new"
    using digests lawful_readable[OF law plain]
    by (simp add: revision_row_def new_revision_row_def digest_column_def json_column_def status_column_Inr)
  have id: "re_id ?row = rv_id new" by (simp add: new_revision_row_def)
  show at: "revision_at (rv_id new) k = Some ?row"
    using ok mem find_unique[of re_id "k_revisions k" ?row] by (simp add: revisions_ok_def revision_at_def id)
  show "find_revision x None (rv_id new) k = Inr (Some new)"
    using find_revision_exact[OF ok, of x "rv_id new"] at row by (simp add: optional_def)
  have doc: "document_of k (rv_id new) = joined_document k ?row" using document_of_joined[OF ok mem] by (simp add: id)
  have "distinct (map re_id (k_revisions k))" using ok by (simp add: revisions_ok_def)
  then have "List.find (\<lambda>row. re_id row = rv_id new \<and> joins k (sees_document scopes) row) (k_revisions k)
      = (if joins k (sees_document scopes) ?row then Some ?row else None)"
    using find_only[OF _ mem, of re_id "joins k (sees_document scopes)"] by (simp only: id)
  then have "revision_read x scopes (rv_id new) k = Inr (if joins k (sees_document scopes) ?row then Some new else None)"
    by (simp add: revision_read_def find_revision_def find_first row optional_value)
  then show "revision_read x scopes (rv_id new) k =
       Inr (if \<exists>doc. document_of k (rv_id new) = Some doc \<and> sees_document scopes doc then Some new else None)"
    by (simp add: doc joins_def split: option.splits)
qed

lemma record_revision_again:
  assumes found: "find_revision x None (rv_id other) k = Inr (Some new)"
  shows "record_revision x d other k =
    (if new\<lparr>rv_status := rv_status other\<rparr> = other then Inr Unchanged else Inl (RevisionConflict (rv_id other)), k)"
  using found by (simp add: record_revision_def record_revision_in_def record_again_def db_write_def)

text \<open>A decision and its row.\<close>

lemma json_strings_list: "json_strings (JArr (map JStr items)) = Some items"
  by (induction items) auto

lemma plain_strings: "plain_json READABLE_DEPTH (JArr (map JStr items))"
  by (simp add: READABLE_DEPTH_def list_all_iff)

lemma new_disposition_reads:
  assumes law: "lawful x" and ok: "decisions_ok k" and mem: "new_disposition_row x d decided \<in> set (k_dispositions k)"
  shows "disposition_read x scopes (ds_revision decided) k =
    Inr (if \<exists>doc. document_of k (ds_revision decided) = Some doc \<and> sees_document scopes doc then Some decided else None)"
proof -
  let ?row = "new_disposition_row x d decided"
  have row: "disposition_row x ?row = Inr decided"
    using lawful_readable[OF law plain_strings] json_strings_list
    by (simp add: disposition_row_def new_disposition_row_def json_column_def json_list_def outcome_column_Inr)
  have id: "qd_revision ?row = ds_revision decided" by (simp add: new_disposition_row_def)
  let ?sees = "case document_of k (ds_revision decided) of None \<Rightarrow> False | Some doc \<Rightarrow> sees_document scopes doc"
  have "distinct (map qd_revision (k_dispositions k))" using ok by (simp add: decisions_ok_def)
  then have "List.find (\<lambda>row. qd_revision row = ds_revision decided \<and> ?sees) (k_dispositions k)
      = (if ?sees then Some ?row else None)"
    using find_only[OF _ mem, of qd_revision "\<lambda>_. ?sees"] by (simp only: id)
  then have "disposition_read x scopes (ds_revision decided) k = Inr (if ?sees then Some decided else None)"
    by (simp add: disposition_read_def find_first row optional_value)
  then show ?thesis by (simp split: option.splits)
qed

lemma record_disposition_again:
  assumes mem: "row \<in> set (k_dispositions k)" "qd_revision row = ds_revision other"
    and law: "lawful x"
  shows "record_disposition x d other k = (Inr Unchanged, k)"
proof -
  have "list_ex (\<lambda>row. qd_revision row = ds_revision other) (k_dispositions k)" using mem by (auto simp: list_ex_iff)
  moreover have "json_valid x (json_list x items)" for items
    using lawful_readable[OF law plain_strings] by (simp add: json_list_def)
  ultimately show ?thesis
    by (simp add: record_disposition_def record_disposition_in_def insert_disposition_def new_disposition_row_def db_write_def)
qed

section \<open>What refers to what\<close>

lemma decided_revisions:
  assumes "decisions_ok k"
  shows "\<forall>decided\<in>set (k_dispositions k). \<exists>revision\<in>set (k_revisions k). re_id revision = qd_revision decided
    \<and> (\<forall>other\<in>set (k_dispositions k). qd_revision other = re_id revision \<longrightarrow> other = decided)"
proof
  fix decided assume mem: "decided \<in> set (k_dispositions k)"
  have "qd_revision decided \<in> re_id ` set (k_revisions k)" using assms mem by (auto simp: decisions_ok_def)
  then obtain revision where "revision \<in> set (k_revisions k)" "re_id revision = qd_revision decided" by force
  moreover have "other = decided" if "other \<in> set (k_dispositions k)" "qd_revision other = qd_revision decided" for other
    using assms mem that by (auto simp: decisions_ok_def distinct_map dest: inj_onD)
  ultimately show "\<exists>revision\<in>set (k_revisions k). re_id revision = qd_revision decided
    \<and> (\<forall>other\<in>set (k_dispositions k). qd_revision other = re_id revision \<longrightarrow> other = decided)" by auto
qed

lemma revised_documents:
  assumes "revisions_ok k \<and> identities_ok k"
  shows "\<forall>revision\<in>set (k_revisions k). \<exists>doc\<in>set (k_documents k). do_id doc = re_document revision
    \<and> (\<exists>source\<in>set (k_sources k). so_collection source = do_collection doc \<and> so_id source = do_source doc)"
proof
  fix revision assume "revision \<in> set (k_revisions k)"
  then obtain doc where doc: "doc \<in> set (k_documents k)" "do_id doc = re_document revision"
    using assms by (force simp: revisions_ok_def)
  then have "(do_collection doc, do_source doc) \<in> source_key ` set (k_sources k)"
    using assms by (force simp: identities_ok_def)
  then show "\<exists>doc\<in>set (k_documents k). do_id doc = re_document revision
    \<and> (\<exists>source\<in>set (k_sources k). so_collection source = do_collection doc \<and> so_id source = do_source doc)"
    using doc by (intro bexI[of _ doc]) (auto simp: source_key_def)
qed

end
