(* ===== verification/Unit_Graph.thy ===== *)
theory Unit_Graph
  imports Kernel_Store Rust_Numbers "HOL-Library.Product_Lexorder"
begin

text \<open>
  Delivery graphs, \<open>crates/maestro-kernel/src/unit_graph/\<close>: the wire values (\<open>types.rs\<close>,
  \<open>mapping.rs\<close>), and the validator every graph passes before it is recorded or read
  (\<open>validation.rs\<close>): the accounting of the source (\<open>coverage.rs\<close>), the ancestry (\<open>hierarchy.rs\<close>),
  the order of the arrays (\<open>group_parts.rs\<close>) and the retrieval views (\<open>membership.rs\<close>), with the
  context a unit requires of its ancestors. A \<open>u64\<close> is a \<open>nat\<close>, a \<open>usize\<close> holds each.
\<close>

section \<open>Wire values (unit_graph/types.rs, mapping.rs)\<close>

datatype unit_kind = SectionUnit | TableUnit | RowUnit | ProcedureUnit | CodeUnit | ParagraphsUnit | BlockUnit

datatype source_range = SourceRange (sr_start: nat) (sr_end: nat)

instantiation source_range :: linorder
begin

definition less_eq_source_range :: "source_range \<Rightarrow> source_range \<Rightarrow> bool" where
  "r \<le> s \<longleftrightarrow> (sr_start r, sr_end r) \<le> (sr_start s, sr_end s)"

definition less_source_range :: "source_range \<Rightarrow> source_range \<Rightarrow> bool" where
  "r < s \<longleftrightarrow> (sr_start r, sr_end r) < (sr_start s, sr_end s)"

instance
  by standard (auto simp: less_eq_source_range_def less_source_range_def source_range.expand)

end

record mapping_contribution =
  mc_unit :: string
  mc_derived :: "nat \<times> nat"
  mc_mode :: string

record graph_part =
  pt_id :: string
  pt_ranges :: "source_range list"
  pt_mappings :: "mapping_contribution list"

datatype split_marker = Whole | Continuation (sm_ordinal: nat) (sm_total: nat)

record delivery_unit =
  du_id :: string
  du_kind :: unit_kind
  du_parent :: "string option"
  du_parts :: "string list"
  du_split :: split_marker

record exclusion =
  xc_range :: source_range
  xc_reason :: string

record retrieval_membership =
  rm_unit :: string
  rm_parts :: "string list"

datatype rank_policy = CompleteIdeas | V2Unit

record retrieval_view =
  vw_policy :: rank_policy
  vw_id :: string
  vw_chunk :: string
  vw_digest :: digest
  vw_tokens :: nat
  vw_memberships :: "retrieval_membership list"

datatype group_kind = RowGroup | TableGroup | ProcedureGroup | SectionGroup | PageGroup | ParagraphsGroup | CodeGroup

record family_key =
  fk_collection :: string
  fk_namespace :: string
  fk_segment :: string
  fk_title :: string
  fk_headings :: "string list"
  fk_occurrence :: nat

datatype context_kind = HeaderToTable | CaptionToTable | LeadIn

record context_relation =
  cr_kind :: context_kind
  cr_part :: string

record graph_group =
  gr_id :: string
  gr_kind :: group_kind
  gr_parent :: "string option"
  gr_children :: "string list"
  gr_parts :: "string list"
  gr_heading :: "string option"
  gr_context :: "context_relation list"
  gr_family :: family_key

record graph_descriptor =
  gd_schema :: string
  gd_collection :: string
  gd_namespace :: string
  gd_document :: string
  gd_revision :: string
  gd_original :: digest
  gd_profile :: string
  gd_profile_digest :: digest
  gd_preparation :: string
  gd_preparation_digest :: digest
  gd_counter :: string
  gd_mapping :: digest

record delivery_graph =
  dg_descriptor :: graph_descriptor
  dg_parts :: "graph_part list"
  dg_units :: "delivery_unit list"
  dg_exclusions :: "exclusion list"
  dg_views :: "retrieval_view list"
  dg_groups :: "graph_group list"

record mapping_entry =
  me_range :: source_range
  me_mapping :: mapping_contribution

record mapping_ledger =
  ml_schema :: string
  ml_original :: digest
  ml_contributions :: "mapping_entry list"
  ml_exclusions :: "exclusion list"

section \<open>Refusals (unit_graph/error.rs)\<close>

datatype graph_error =
    GraphJson
  | GraphInvalid string
  | GraphNotFound
  | GraphConflict
  | GraphStore store_error

definition require :: "bool \<Rightarrow> string \<Rightarrow> graph_error + unit" where
  "require holds reason = (if holds then Inr () else Inl (GraphInvalid reason))"

lemma require_Inr [results]: "require c reason = Inr u \<longleftrightarrow> c"
  by (simp add: require_def)

text \<open>A loop whose body may refuse.\<close>

fun require_each :: "('a \<Rightarrow> graph_error + unit) \<Rightarrow> 'a list \<Rightarrow> graph_error + unit" where
  "require_each f [] = Inr ()"
| "require_each f (v # vs) = and_then (f v) (\<lambda>_. require_each f vs)"

lemma require_each_Inr [results]: "require_each f vs = Inr u \<longleftrightarrow> (\<forall>v\<in>set vs. f v = Inr ())"
  by (induction vs) (auto simp: results)

text \<open>\<open>slice::windows(2)\<close>, and a map collected from a list, in which a later value of a key stays.\<close>

definition windows_all :: "('a \<Rightarrow> 'a \<Rightarrow> bool) \<Rightarrow> 'a list \<Rightarrow> bool" where
  "windows_all ordered vs = list_all (\<lambda>(v, w). ordered v w) (zip vs (tl vs))"

definition indexed :: "('a \<Rightarrow> 'k) \<Rightarrow> 'a list \<Rightarrow> 'k \<Rightarrow> 'a option" where
  "indexed key vs = map_of (rev (map (\<lambda>v. (key v, v)) vs))"

definition blank :: "string \<Rightarrow> bool" where
  "blank s \<longleftrightarrow> trim s = []"

definition U64_MAX :: nat where
  "U64_MAX = 18446744073709551615"

section \<open>Accounting of the source (unit_graph/coverage.rs)\<close>

definition span :: "source_range \<Rightarrow> string \<Rightarrow> graph_error + unit" where
  "span r source =
     require (sr_start r < sr_end r \<and> sr_end r \<le> length source
         \<and> char_boundary source (sr_start r) \<and> char_boundary source (sr_end r))
       ''invalid original UTF-8 span''"

fun part_ranges :: "string \<Rightarrow> nat \<Rightarrow> (source_range \<times> mapping_contribution) list \<Rightarrow> graph_error + unit" where
  "part_ranges source previous [] = Inr ()"
| "part_ranges source previous ((r, m) # rest) =
     and_then (span r source) (\<lambda>_.
     and_then (require (previous \<le> sr_start r) ''unordered or overlapping part ranges'') (\<lambda>_.
     and_then (require (\<not> blank (mc_unit m) \<and> \<not> blank (mc_mode m)
                 \<and> fst (mc_derived m) < snd (mc_derived m)) ''invalid canonical contribution'') (\<lambda>_.
       part_ranges source (sr_end r) rest)))"

fun parts_from :: "string \<Rightarrow> graph_part list \<Rightarrow> (string \<times> graph_part) list
    \<Rightarrow> graph_error + (string \<times> graph_part) list" where
  "parts_from source [] parts = Inr parts"
| "parts_from source (part # rest) parts =
     and_then (require (\<not> blank (pt_id part) \<and> pt_ranges part \<noteq> []
                 \<and> length (pt_ranges part) = length (pt_mappings part)
                 \<and> map_of parts (pt_id part) = None) ''duplicate or invalid part'') (\<lambda>_.
     and_then (part_ranges source 0 (zip (pt_ranges part) (pt_mappings part))) (\<lambda>_.
       parts_from source rest (btree_insert (pt_id part) part parts)))"

definition part_before :: "graph_part \<Rightarrow> graph_part \<Rightarrow> bool" where
  "part_before p q =
     (case (pt_ranges p, pt_ranges q) of
        (r # _, s # _) \<Rightarrow> (sr_start r, pt_id p) \<le> (sr_start s, pt_id q)
      | _ \<Rightarrow> False)"

definition collect_parts :: "delivery_graph \<Rightarrow> string \<Rightarrow> graph_error + (string \<times> graph_part) list" where
  "collect_parts graph source =
     and_then (parts_from source (dg_parts graph) []) (\<lambda>parts.
     and_then (require (windows_all part_before (dg_parts graph)) ''parts are not in canonical source order'') (\<lambda>_.
       Inr parts))"

text \<open>The parts of the units, each with one owner.\<close>

fun own_parts :: "(string \<times> graph_part) list \<Rightarrow> string list \<Rightarrow> string list \<Rightarrow> graph_error + string list" where
  "own_parts parts [] owners = Inr owners"
| "own_parts parts (p # ps) owners =
     and_then (require (map_of parts p \<noteq> None) ''unit references unknown part'') (\<lambda>_.
     and_then (require (p \<notin> set owners) ''part has multiple primary owners'') (\<lambda>_.
       own_parts parts ps (p # owners)))"

definition graph_headings :: "delivery_graph \<Rightarrow> string list" where
  "graph_headings graph = List.map_filter gr_heading (dg_groups graph)"

definition graph_context_parts :: "delivery_graph \<Rightarrow> string list" where
  "graph_context_parts graph = map cr_part (concat (map gr_context (dg_groups graph)))"

definition primary_owners :: "delivery_graph \<Rightarrow> (string \<times> graph_part) list \<Rightarrow> graph_error + unit" where
  "primary_owners graph parts =
     and_then (own_parts parts (concat (map du_parts (dg_units graph))) []) (\<lambda>owners.
     and_then (require (list_all (\<lambda>heading. map_of parts heading \<noteq> None \<and> heading \<notin> set owners)
                 (graph_headings graph)) ''heading part cannot have a primary unit owner'') (\<lambda>_.
     and_then (require (list_all (\<lambda>part. part \<in> set owners \<or> part \<in> set (graph_headings graph)
                   \<or> part \<in> set (graph_context_parts graph)) (map fst parts))
                 ''part has no unit, heading or context owner'') (\<lambda>_.
     and_then (require_each (\<lambda>grp. require (list_all (\<lambda>id. map_of parts id \<noteq> None) (gr_parts grp))
                 ''group references unknown part'') (dg_groups graph)) (\<lambda>_.
       require_each (\<lambda>view. require_each (\<lambda>membership.
           require (list_all (\<lambda>id. map_of parts id \<noteq> None) (rm_parts membership))
             ''membership references unknown part'') (vw_memberships view)) (dg_views graph)))))"

fun own_ranges :: "(source_range \<times> mapping_contribution) list \<Rightarrow> (source_range \<times> mapping_contribution) list
    \<Rightarrow> graph_error + (source_range \<times> mapping_contribution) list" where
  "own_ranges [] owned = Inr owned"
| "own_ranges ((r, m) # rest) owned =
     and_then (require (map_of owned r = None) ''duplicate primary range'') (\<lambda>_.
       own_ranges rest (btree_insert r m owned))"

definition validate_mappings :: "delivery_graph \<Rightarrow> mapping_ledger \<Rightarrow> graph_error + unit" where
  "validate_mappings graph ledger =
     and_then (own_ranges (concat (map (\<lambda>part. zip (pt_ranges part) (pt_mappings part)) (dg_parts graph))) []) (\<lambda>owned.
     and_then (require (length (ml_contributions ledger) = length owned) ''missing mapping contribution'') (\<lambda>_.
       require_each (\<lambda>(entry, (r, m)).
           require (me_range entry = r \<and> me_mapping entry = m) ''mapping differs from ownership'')
         (zip (ml_contributions ledger) owned)))"

fun exclusion_ranges :: "string \<Rightarrow> nat \<Rightarrow> exclusion list \<Rightarrow> graph_error + unit" where
  "exclusion_ranges source previous [] = Inr ()"
| "exclusion_ranges source previous (exclusion # rest) =
     and_then (span (xc_range exclusion) source) (\<lambda>_.
     and_then (require (\<not> blank (xc_reason exclusion) \<and> previous \<le> sr_start (xc_range exclusion))
                 ''invalid exclusion'') (\<lambda>_.
       exclusion_ranges source (sr_end (xc_range exclusion)) rest))"

fun tile :: "nat \<Rightarrow> source_range list \<Rightarrow> graph_error + nat" where
  "tile at [] = Inr at"
| "tile at (r # rs) =
     and_then (require (sr_start r = at) ''overlap or unaccounted source bytes'') (\<lambda>_.
       tile (sr_end r) rs)"

definition validate_partition ::
  "delivery_graph \<Rightarrow> mapping_ledger \<Rightarrow> string \<Rightarrow> (string \<times> graph_part) list \<Rightarrow> graph_error + unit" where
  "validate_partition graph ledger source parts =
     and_then (require (dg_exclusions graph = ml_exclusions ledger) ''exclusion ledger differs'') (\<lambda>_.
     and_then (exclusion_ranges source 0 (dg_exclusions graph)) (\<lambda>_.
     and_then (tile 0 (sort (concat (map (pt_ranges \<circ> snd) parts) @ map xc_range (dg_exclusions graph)))) (\<lambda>at.
       require (at = length source) ''unaccounted source tail'')))"

definition validate_coverage :: "delivery_graph \<Rightarrow> mapping_ledger \<Rightarrow> string \<Rightarrow> graph_error + unit" where
  "validate_coverage graph ledger source =
     and_then (collect_parts graph source) (\<lambda>parts.
     and_then (primary_owners graph parts) (\<lambda>_.
     and_then (validate_mappings graph ledger) (\<lambda>_.
       validate_partition graph ledger source parts)))"


section \<open>Ancestry and context (unit_graph/hierarchy.rs)\<close>

definition group_at :: "delivery_graph \<Rightarrow> string \<Rightarrow> graph_group option" where
  "group_at graph = indexed gr_id (dg_groups graph)"

definition unit_at :: "delivery_graph \<Rightarrow> string \<Rightarrow> delivery_unit option" where
  "unit_at graph = indexed du_id (dg_units graph)"

definition part_at :: "delivery_graph \<Rightarrow> string \<Rightarrow> graph_part option" where
  "part_at graph = indexed pt_id (dg_parts graph)"

definition part_order :: "delivery_graph \<Rightarrow> string \<Rightarrow> nat option" where
  "part_order graph = map_of (rev (zip (map pt_id (dg_parts graph)) [0..<length (dg_parts graph)]))"

definition unit_order :: "delivery_graph \<Rightarrow> string \<Rightarrow> nat option" where
  "unit_order graph = map_of (rev (zip (map du_id (dg_units graph)) [0..<length (dg_units graph)]))"

definition node_indexes :: "delivery_graph \<Rightarrow> graph_error + unit" where
  "node_indexes graph =
     require (length (remdups (map gr_id (dg_groups graph))) = length (dg_groups graph)
         \<and> length (remdups (map du_id (dg_units graph))) = length (dg_units graph)
         \<and> list_all (\<lambda>name. unit_at graph name = None) (map gr_id (dg_groups graph)))
       ''duplicate graph identity''"

definition group_kind_is :: "delivery_graph \<Rightarrow> string \<Rightarrow> group_kind \<Rightarrow> group_kind list \<Rightarrow> bool" where
  "group_kind_is graph name primary alternatives =
     (case group_at graph name of
        None \<Rightarrow> False
      | Some grp \<Rightarrow> gr_kind grp = primary \<or> gr_kind grp \<in> set alternatives)"

definition parent_valid :: "delivery_graph \<Rightarrow> graph_group \<Rightarrow> bool" where
  "parent_valid graph grp =
     (case (gr_kind grp, gr_parent grp) of
        (RowGroup, Some parent) \<Rightarrow> group_kind_is graph parent TableGroup []
      | (TableGroup, Some parent) \<Rightarrow> group_kind_is graph parent SectionGroup [PageGroup]
      | (SectionGroup, Some parent) \<Rightarrow> group_kind_is graph parent SectionGroup [PageGroup]
      | (CodeGroup, Some parent) \<Rightarrow> group_kind_is graph parent SectionGroup [PageGroup]
      | (ProcedureGroup, Some parent) \<Rightarrow> group_kind_is graph parent SectionGroup [PageGroup]
      | (PageGroup, None) \<Rightarrow> True
      | (ParagraphsGroup, _) \<Rightarrow> True
      | _ \<Rightarrow> False)"

definition validate_family :: "delivery_graph \<Rightarrow> graph_group \<Rightarrow> graph_error + unit" where
  "validate_family graph grp =
     and_then (require (fk_collection (gr_family grp) = gd_collection (dg_descriptor graph)
                 \<and> fk_namespace (gr_family grp) = gd_namespace (dg_descriptor graph)
                 \<and> \<not> blank (fk_segment (gr_family grp)) \<and> \<not> blank (fk_title (gr_family grp)))
                 ''invalid structural family'') (\<lambda>_.
       require (parent_valid graph grp) ''invalid structural parent kind'')"

text \<open>The parent a node names, of a group or else of a unit.\<close>

definition node_parent :: "delivery_graph \<Rightarrow> string \<Rightarrow> string option option" where
  "node_parent graph name =
     (case group_at graph name of
        Some grp \<Rightarrow> Some (gr_parent grp)
      | None \<Rightarrow> map_option du_parent (unit_at graph name))"

fun list_children :: "delivery_graph \<Rightarrow> string \<Rightarrow> string list \<Rightarrow> string list \<Rightarrow> graph_error + string list" where
  "list_children graph name [] children = Inr children"
| "list_children graph name (child # rest) children =
     and_then (require (node_parent graph child = Some (Some name) \<and> child \<notin> set children)
                 ''nonreciprocal or duplicate parent edge'') (\<lambda>_.
       list_children graph name rest (child # children))"

definition validate_children :: "delivery_graph \<Rightarrow> graph_group \<Rightarrow> string list \<Rightarrow> graph_error + string list" where
  "validate_children graph grp children =
     and_then (list_children graph (gr_id grp) (gr_children grp) children) (\<lambda>children.
     and_then (case gr_parent grp of
         Some parent \<Rightarrow>
           require (group_at graph parent \<noteq> None \<and> gr_id grp \<in> set children) ''missing parent edge''
       | None \<Rightarrow>
           if gr_kind grp \<noteq> PageGroup
           then require (gr_kind grp = ProcedureGroup \<or> gr_kind grp = ParagraphsGroup) ''missing structural parent''
           else Inr ()) (\<lambda>_. Inr children))"

text \<open>The order of \<open>Option\<close>: nothing is below every value.\<close>

fun option_less :: "nat option \<Rightarrow> nat option \<Rightarrow> bool" where
  "option_less None (Some n) = True"
| "option_less (Some m) (Some n) = (m < n)"
| "option_less m None = False"

definition validate_context :: "delivery_graph \<Rightarrow> graph_group \<Rightarrow> graph_error + unit" where
  "validate_context graph grp =
     and_then (require (windows_all (\<lambda>a b. option_less (part_order graph (cr_part a)) (part_order graph (cr_part b)))
                 (gr_context grp)) ''context relations are not in source order'') (\<lambda>_.
       require_each (\<lambda>relation.
         and_then (require (cr_part relation \<in> set (gr_parts grp)) ''context must reference a unique direct part'') (\<lambda>_.
           case cr_kind relation of
             LeadIn \<Rightarrow> require (gr_kind grp \<in> set [ProcedureGroup, CodeGroup, SectionGroup])
               ''lead_in requires procedure, code or section group''
           | _ \<Rightarrow> require (gr_kind grp = TableGroup) ''table context requires table group'')) (gr_context grp))"

definition validate_heading :: "graph_group \<Rightarrow> graph_error + unit" where
  "validate_heading grp =
     (case gr_heading grp of
        None \<Rightarrow> Inr ()
      | Some heading \<Rightarrow>
          require ((gr_kind grp = PageGroup \<or> gr_kind grp = SectionGroup)
              \<and> (case gr_parts grp of [] \<Rightarrow> False | first # _ \<Rightarrow> first = heading)) ''invalid group heading'')"

definition validate_group_parts :: "graph_group \<Rightarrow> graph_error + unit" where
  "validate_group_parts grp =
     require (list_all (\<lambda>part. gr_heading grp = Some part \<or> part \<in> set (map cr_part (gr_context grp))) (gr_parts grp))
       ''unsearchable direct group part''"

definition validate_code :: "delivery_graph \<Rightarrow> graph_group \<Rightarrow> graph_error + unit" where
  "validate_code graph grp =
     (if gr_kind grp = CodeGroup
      then require (list_ex (\<lambda>child. case unit_at graph child of None \<Rightarrow> False | Some unit \<Rightarrow> du_kind unit = CodeUnit)
             (gr_children grp)) ''code group requires a code child unit''
      else Inr ())"

fun validate_groups :: "delivery_graph \<Rightarrow> graph_group list \<Rightarrow> string list \<Rightarrow> graph_error + string list" where
  "validate_groups graph [] children = Inr children"
| "validate_groups graph (grp # groups) children =
     and_then (validate_family graph grp) (\<lambda>_.
     and_then (validate_children graph grp children) (\<lambda>children'.
     and_then (validate_context graph grp) (\<lambda>_.
     and_then (validate_heading grp) (\<lambda>_.
     and_then (validate_group_parts grp) (\<lambda>_.
     and_then (validate_code graph grp) (\<lambda>_.
       validate_groups graph groups children'))))))"

definition validate_unit_parent :: "delivery_graph \<Rightarrow> string list \<Rightarrow> delivery_unit \<Rightarrow> graph_error + unit" where
  "validate_unit_parent graph children unit =
     (case du_parent unit of
        Some parent \<Rightarrow>
          and_then (require (group_at graph parent \<noteq> None \<and> du_id unit \<in> set children) ''unit missing from parent'') (\<lambda>_.
            if du_kind unit = CodeUnit
            then require (case group_at graph parent of None \<Rightarrow> False | Some grp \<Rightarrow> gr_kind grp = CodeGroup)
              ''code unit must be a code group's child''
            else Inr ())
      | None \<Rightarrow> require (du_kind unit \<noteq> CodeUnit) ''code unit requires a code group parent'')"

text \<open>The walk up from a group; a cycle ends it. It ends anyway where a group is missing.\<close>

function acyclic_from :: "delivery_graph \<Rightarrow> string list \<Rightarrow> string option \<Rightarrow> graph_error + unit" where
  "acyclic_from graph path None = Inr ()"
| "acyclic_from graph path (Some name) =
     (if name \<in> set path then Inl (GraphInvalid ''ancestry cycle'')
      else acyclic_from graph (name # path) (Option.bind (group_at graph name) gr_parent))"
  by pat_completeness auto

definition validate_acyclic_ids :: "delivery_graph \<Rightarrow> string list" where
  "validate_acyclic_ids graph = sort (remdups (map gr_id (dg_groups graph)))"

lemma indexed_mem: "indexed key vs k = Some v \<Longrightarrow> v \<in> set vs \<and> key v = k"
  by (auto simp: indexed_def dest: map_of_SomeD)

lemma indexed_None: "indexed key vs k = None \<longleftrightarrow> k \<notin> key ` set vs"
  by (auto simp: indexed_def map_of_eq_None_iff image_comp)

text \<open>Each step either leaves the groups, and ends, or takes one of them for the first time.\<close>

termination acyclic_from
proof (relation "measure (\<lambda>(graph, path, cursor). case cursor of None \<Rightarrow> 0
    | Some name \<Rightarrow> Suc (card (gr_id ` set (dg_groups graph) - set path)))", goal_cases)
  case (2 graph path name)
  show ?case
  proof (cases "group_at graph name")
    case (Some grp)
    then have "name \<in> gr_id ` set (dg_groups graph) - set path"
      using 2 indexed_mem unfolding group_at_def by fastforce
    then have "card (gr_id ` set (dg_groups graph) - set (name # path)) < card (gr_id ` set (dg_groups graph) - set path)"
      by (intro psubset_card_mono) auto
    then show ?thesis using Some by (simp split: option.split)
  qed simp
qed simp

definition validate_hierarchy :: "delivery_graph \<Rightarrow> graph_error + unit" where
  "validate_hierarchy graph =
     and_then (node_indexes graph) (\<lambda>_.
     and_then (validate_groups graph (dg_groups graph) []) (\<lambda>children.
     and_then (require_each (validate_unit_parent graph children) (dg_units graph)) (\<lambda>_.
       require_each (\<lambda>name. acyclic_from graph [] (Some name)) (validate_acyclic_ids graph))))"

text \<open>
  The walk up from a unit has no such test: it takes at most as many steps as it is given, and is
  \<open>None\<close> when they do not suffice.
\<close>

fun context_from :: "delivery_graph \<Rightarrow> nat \<Rightarrow> string option \<Rightarrow> string list \<Rightarrow> (graph_error + string list) option" where
  "context_from graph steps None context = Some (Inr context)"
| "context_from graph 0 (Some name) context = None"
| "context_from graph (Suc steps) (Some name) context =
     (case group_at graph name of
        None \<Rightarrow> Some (Inl (GraphInvalid ''missing ancestor group''))
      | Some grp \<Rightarrow> context_from graph steps (gr_parent grp) (context @ map cr_part (gr_context grp)))"

text \<open>The place of a part in the source, and its name.\<close>

definition part_position :: "delivery_graph \<Rightarrow> string \<Rightarrow> nat \<times> string" where
  "part_position graph name =
     (case part_at graph name of
        None \<Rightarrow> U64_MAX
      | Some part \<Rightarrow> (case pt_ranges part of [] \<Rightarrow> U64_MAX | r # _ \<Rightarrow> sr_start r), name)"

definition required_context :: "nat \<Rightarrow> delivery_graph \<Rightarrow> string \<Rightarrow> (graph_error + string list) option" where
  "required_context steps graph name =
     (case List.find (\<lambda>unit. du_id unit = name) (dg_units graph) of
        None \<Rightarrow> Some (Inl GraphNotFound)
      | Some unit \<Rightarrow>
          map_option (map_sum (\<lambda>e. e) (\<lambda>context. sort_key (part_position graph) (sort (remdups context))))
            (context_from graph steps (du_parent unit) []))"

section \<open>Order of the arrays (unit_graph/group_parts.rs)\<close>

definition least_or :: "nat \<Rightarrow> nat list \<Rightarrow> nat" where
  "least_or otherwise ns = (case ns of [] \<Rightarrow> otherwise | n # ms \<Rightarrow> fold min ms n)"

definition first_start :: "delivery_graph \<Rightarrow> string list \<Rightarrow> nat" where
  "first_start graph names = least_or U64_MAX (map (fst \<circ> part_position graph) names)"

text \<open>The recursion into the children, to a depth: \<open>None\<close> when it does not suffice.\<close>

fun group_start :: "nat \<Rightarrow> delivery_graph \<Rightarrow> string \<Rightarrow> nat option" where
  "group_start 0 graph name = None"
| "group_start (Suc depth) graph name =
     (case group_at graph name of
        None \<Rightarrow> Some U64_MAX
      | Some grp \<Rightarrow>
          map_option (\<lambda>starts. least_or U64_MAX (map (fst \<circ> part_position graph) (gr_parts grp) @ starts))
            (collect_options (map (\<lambda>child.
               case unit_at graph child of
                 None \<Rightarrow> group_start depth graph child
               | Some unit \<Rightarrow> Some (first_start graph (du_parts unit))) (gr_children grp))))"

definition validate_order :: "nat \<Rightarrow> delivery_graph \<Rightarrow> (graph_error + unit) option" where
  "validate_order depth graph =
     (case and_then (require_each (\<lambda>names.
               and_then (require (distinct names) ''duplicate part ID within node'') (\<lambda>_.
                 require (windows_all (\<lambda>a b. part_position graph a \<le> part_position graph b) names)
                   ''node parts are not in source order''))
             (map du_parts (dg_units graph) @ map gr_parts (dg_groups graph))) (\<lambda>_.
             require (windows_all (\<le>) (map (\<lambda>unit. (first_start graph (du_parts unit), du_id unit)) (dg_units graph)))
               ''units are not in canonical source order'') of
        Inl e \<Rightarrow> Some (Inl e)
      | Inr _ \<Rightarrow>
          map_option (\<lambda>starts. require (windows_all (\<le>) (zip starts (map gr_id (dg_groups graph))))
              ''groups are not in canonical source order'')
            (collect_options (map (\<lambda>grp. group_start depth graph (gr_id grp)) (dg_groups graph))))"

section \<open>Retrieval views (unit_graph/membership.rs)\<close>

definition validate_unit_shape :: "delivery_unit \<Rightarrow> graph_error + unit" where
  "validate_unit_shape unit =
     and_then (require (\<not> blank (du_id unit) \<and> du_parts unit \<noteq> []) ''unit requires primary parts'') (\<lambda>_.
       case du_split unit of
         Whole \<Rightarrow> Inr ()
       | Continuation i n \<Rightarrow> require (1 < n \<and> i < n) ''invalid continuation'')"

fun position_of :: "'a \<Rightarrow> 'a list \<Rightarrow> nat option" where
  "position_of v [] = None"
| "position_of v (w # ws) = (if w = v then Some 0 else map_option Suc (position_of v ws))"

definition above :: "nat option \<Rightarrow> nat \<Rightarrow> bool" where
  "above latest n = (case latest of None \<Rightarrow> True | Some m \<Rightarrow> m < n)"

fun member_parts :: "string list \<Rightarrow> string list \<Rightarrow> nat option \<Rightarrow> string list \<Rightarrow> graph_error + string list" where
  "member_parts primary [] latest covered = Inr covered"
| "member_parts primary (name # names) latest covered =
     and_then (ok_or (GraphInvalid ''membership part is not primary unit content'') (position_of name primary)) (\<lambda>index.
     and_then (require (above latest index) ''membership parts are not in unit order'') (\<lambda>_.
       member_parts primary names (Some index) (name # covered)))"

fun view_members :: "delivery_graph \<Rightarrow> retrieval_membership list \<Rightarrow> nat option \<Rightarrow> string list \<Rightarrow> graph_error + string list" where
  "view_members graph [] previous covered = Inr covered"
| "view_members graph (membership # rest) previous covered =
     and_then (ok_or (GraphInvalid ''unknown membership unit'') (unit_at graph (rm_unit membership))) (\<lambda>unit.
     and_then (require (rm_parts membership \<noteq> []) ''membership requires primary parts'') (\<lambda>_.
     and_then (member_parts (du_parts unit) (rm_parts membership) None covered) (\<lambda>covered'.
     and_then (ok_or (GraphInvalid ''unknown membership unit'') (unit_order graph (rm_unit membership))) (\<lambda>order.
     and_then (require (above previous order) ''memberships are not in unit order'') (\<lambda>_.
       view_members graph rest (Some order) covered')))))"

definition view_start :: "delivery_graph \<Rightarrow> retrieval_view \<Rightarrow> nat option" where
  "view_start graph view =
     (case vw_memberships view of [] \<Rightarrow> None
      | membership # _ \<Rightarrow> (case rm_parts membership of [] \<Rightarrow> None
      | name # _ \<Rightarrow> Option.bind (part_at graph name) (\<lambda>part. case pt_ranges part of [] \<Rightarrow> None
      | r # _ \<Rightarrow> Some (sr_start r))))"

fun views_from :: "delivery_graph \<Rightarrow> retrieval_view list \<Rightarrow> string list \<Rightarrow> string list \<Rightarrow> string list \<Rightarrow> (nat \<times> string) list
    \<Rightarrow> graph_error + string list \<times> (nat \<times> string) list" where
  "views_from graph [] covered names chunks keys = Inr (covered, keys)"
| "views_from graph (view # views) covered names chunks keys =
     and_then (require (\<not> blank (vw_chunk view) \<and> \<not> blank (vw_id view) \<and> 0 < vw_tokens view
                 \<and> vw_id view \<notin> set names \<and> vw_chunk view \<notin> set chunks)
                 ''invalid or duplicate retrieval view'') (\<lambda>_.
     and_then (view_members graph (vw_memberships view) None covered) (\<lambda>covered'.
     and_then (ok_or (GraphInvalid ''view without primary content'') (view_start graph view)) (\<lambda>start.
       views_from graph views covered' (vw_id view # names) (vw_chunk view # chunks) (keys @ [(start, vw_id view)]))))"

definition validate_views :: "delivery_graph \<Rightarrow> graph_error + string list" where
  "validate_views graph =
     and_then (views_from graph (dg_views graph) [] [] [] []) (\<lambda>(covered, keys).
     and_then (require (windows_all (\<le>) keys) ''views are not in canonical source order'') (\<lambda>_. Inr covered))"

definition validate_searchability :: "delivery_graph \<Rightarrow> string list \<Rightarrow> graph_error + unit" where
  "validate_searchability graph covered =
     require_each (\<lambda>part. require (part \<in> set covered \<or> part \<in> set (graph_context_parts graph)
           \<or> part \<in> set (graph_headings graph)) ''unsearchable primary part'')
       (concat (map du_parts (dg_units graph)))"

definition validate_membership :: "delivery_graph \<Rightarrow> graph_error + unit" where
  "validate_membership graph =
     and_then (require_each validate_unit_shape (dg_units graph)) (\<lambda>_.
     and_then (validate_views graph) (\<lambda>covered.
       validate_searchability graph covered))"

section \<open>The validator and the canonical encoding (unit_graph/validation.rs, serialization.rs)\<close>

text \<open>serde's reading and writing of the two values, from outside the repository.\<close>

record graph_ext =
  gx_read_graph :: "string \<Rightarrow> delivery_graph option"
  gx_write_graph :: "delivery_graph \<Rightarrow> string option"
  gx_read_ledger :: "string \<Rightarrow> mapping_ledger option"
  gx_write_ledger :: "mapping_ledger \<Rightarrow> string option"

definition decode :: "(string \<Rightarrow> 'a option) \<Rightarrow> ('a \<Rightarrow> string option) \<Rightarrow> string \<Rightarrow> graph_error + 'a" where
  "decode read_json write_json bytes =
     and_then (ok_or GraphJson (read_json bytes)) (\<lambda>value'.
     and_then (ok_or GraphJson (write_json value')) (\<lambda>written.
     and_then (require (written = bytes) ''noncanonical JSON'') (\<lambda>_. Inr value')))"

definition graph_from_bytes :: "graph_ext \<Rightarrow> string \<Rightarrow> graph_error + delivery_graph" where
  "graph_from_bytes gx = decode (gx_read_graph gx) (gx_write_graph gx)"

definition graph_to_bytes :: "graph_ext \<Rightarrow> delivery_graph \<Rightarrow> graph_error + string" where
  "graph_to_bytes gx graph = ok_or GraphJson (gx_write_graph gx graph)"

definition ledger_from_bytes :: "graph_ext \<Rightarrow> string \<Rightarrow> graph_error + mapping_ledger" where
  "ledger_from_bytes gx = decode (gx_read_ledger gx) (gx_write_ledger gx)"

definition ledger_to_bytes :: "graph_ext \<Rightarrow> mapping_ledger \<Rightarrow> graph_error + string" where
  "ledger_to_bytes gx ledger = ok_or GraphJson (gx_write_ledger gx ledger)"

definition validate_descriptor ::
  "ext \<Rightarrow> graph_ext \<Rightarrow> bool \<Rightarrow> delivery_graph \<Rightarrow> mapping_ledger \<Rightarrow> string \<Rightarrow> graph_error + unit" where
  "validate_descriptor x gx verify_digests graph ledger source =
     (let descriptor = dg_descriptor graph in
      and_then (require (gd_schema descriptor = ''maestro-unit-graph/1'' \<and> ml_schema ledger = ''maestro-unit-mapping/1'')
                  ''unsupported graph or mapping schema'') (\<lambda>_.
      and_then (require (ml_original ledger = gd_original descriptor) ''source digest metadata mismatch'') (\<lambda>_.
      and_then (if verify_digests
         then if gd_original descriptor = digest_of x source
              then and_then (ledger_to_bytes gx ledger) (\<lambda>bytes.
                     require (gd_mapping descriptor = digest_of x bytes) ''source or mapping digest mismatch'')
              else Inl (GraphInvalid ''source or mapping digest mismatch'')
         else Inr ()) (\<lambda>_.
      and_then (require_each (\<lambda>identity. require (\<not> blank identity) ''empty descriptor identity'')
         [gd_collection descriptor, gd_namespace descriptor, gd_document descriptor, gd_revision descriptor,
          gd_counter descriptor]) (\<lambda>_.
        require (gd_profile descriptor = ''mapped-structural-chunks/4''
            \<and> gd_preparation descriptor = ''canonical-context-parts/v3'') ''unsupported profile or preparation'')))))"

text \<open>\<open>None\<close> when the depth given to the recursion into the groups does not suffice.\<close>

definition validate_inner ::
  "nat \<Rightarrow> ext \<Rightarrow> graph_ext \<Rightarrow> bool \<Rightarrow> delivery_graph \<Rightarrow> mapping_ledger \<Rightarrow> string \<Rightarrow> (graph_error + unit) option" where
  "validate_inner depth x gx verify_digests graph ledger source =
     (case and_then (validate_descriptor x gx verify_digests graph ledger source) (\<lambda>_.
           and_then (validate_coverage graph ledger source) (\<lambda>_. validate_hierarchy graph)) of
        Inl e \<Rightarrow> Some (Inl e)
      | Inr _ \<Rightarrow> map_option (\<lambda>ordered. and_then ordered (\<lambda>_. validate_membership graph)) (validate_order depth graph))"

definition validate_graph ::
  "nat \<Rightarrow> ext \<Rightarrow> graph_ext \<Rightarrow> delivery_graph \<Rightarrow> mapping_ledger \<Rightarrow> string \<Rightarrow> (graph_error + unit) option" where
  "validate_graph depth x gx = validate_inner depth x gx True"

definition validate_recorded ::
  "nat \<Rightarrow> ext \<Rightarrow> graph_ext \<Rightarrow> delivery_graph \<Rightarrow> mapping_ledger \<Rightarrow> string \<Rightarrow> (graph_error + unit) option" where
  "validate_recorded depth x gx = validate_inner depth x gx False"

end
