(* ===== verification/Unit_Graph_Props.thy ===== *)
theory Unit_Graph_Props
  imports Unit_Graph Sample_Ext "HOL-Library.Multiset"
begin

text \<open>
  What a delivery graph the validator accepts is: its ranges and exclusions are the source, cut once;
  its groups and units form a forest whose edges both ends name; and the walks over it that have no
  test for cycles of their own return, because the validator makes that test before them.
\<close>

section \<open>The source is cut once\<close>

lemma span_Inr [results]:
  "span r source = Inr u \<longleftrightarrow> sr_start r < sr_end r \<and> sr_end r \<le> length source
     \<and> char_boundary source (sr_start r) \<and> char_boundary source (sr_end r)"
  by (simp add: span_def results)

definition slice :: "string \<Rightarrow> source_range \<Rightarrow> string" where
  "slice source r = drop (sr_start r) (take (sr_end r) source)"

definition holds_byte :: "nat \<Rightarrow> source_range \<Rightarrow> bool" where
  "holds_byte i r \<longleftrightarrow> sr_start r \<le> i \<and> i < sr_end r"

text \<open>Every range of the parts and of the exclusions.\<close>

definition graph_ranges :: "delivery_graph \<Rightarrow> source_range list" where
  "graph_ranges graph = concat (map pt_ranges (dg_parts graph)) @ map xc_range (dg_exclusions graph)"

lemma tile_Inr:
  "tile a rs = Inr e \<Longrightarrow> \<forall>r\<in>set rs. sr_start r < sr_end r \<Longrightarrow>
     a \<le> e \<and> concat (map (slice source) rs) = drop a (take e source)
     \<and> length (filter (holds_byte i) rs) = (if a \<le> i \<and> i < e then 1 else 0)"
proof (induction a rs rule: tile.induct)
  case (2 a r rs)
  have r: "sr_start r = a" "tile (sr_end r) rs = Inr e" "a < sr_end r"
    using 2(2,3) by (auto simp: results)
  note ih = 2(1)[OF r(2)]
  have rest: "sr_end r \<le> e" "concat (map (slice source) rs) = drop (sr_end r) (take e source)"
      "length (filter (holds_byte i) rs) = (if sr_end r \<le> i \<and> i < e then 1 else 0)"
    using ih 2(3) by auto
  have "drop a (take (sr_end r) source) @ drop (sr_end r) (take e source) = drop a (take e source)"
  proof -
    have t: "take e source = take (sr_end r) source @ drop (sr_end r) (take e source)"
      using rest(1) by (metis append_take_drop_id min.absorb1 take_take)
    show ?thesis
    proof (cases "a \<le> length (take (sr_end r) source)")
      case True
      have "drop a (take e source) = drop a (take (sr_end r) source @ drop (sr_end r) (take e source))"
        using t by simp
      with True show ?thesis by (simp only: drop_append diff_is_0_eq' drop_0)
    next
      case False
      then have "length source \<le> a" using r(3) by (simp add: min_def split: if_splits)
      with r(3) show ?thesis by simp
    qed
  qed
  then have "concat (map (slice source) (r # rs)) = drop a (take e source)"
    using rest(2) r(1) by (simp add: slice_def)
  moreover have "length (filter (holds_byte i) (r # rs)) = (if a \<le> i \<and> i < e then 1 else 0)"
    using rest(3) r(1,3) rest(1) by (auto simp: holds_byte_def)
  ultimately show ?case using r(3) rest(1) by linarith
qed simp

lemma part_ranges_Inr:
  "part_ranges source previous rms = Inr u \<Longrightarrow> \<forall>r\<in>set (map fst rms). span r source = Inr ()"
  by (induction source previous rms rule: part_ranges.induct) (auto simp: results)

lemma exclusion_ranges_Inr:
  "exclusion_ranges source previous xs = Inr u \<Longrightarrow> \<forall>x\<in>set xs. span (xc_range x) source = Inr ()"
  by (induction source previous xs rule: exclusion_ranges.induct) (auto simp: results)

lemma btree_insert_mset:
  "map_of m k = None \<Longrightarrow> mset (btree_insert k v m) = add_mset (k, v) (mset m)"
  by (induction k v m rule: btree_insert.induct) (auto split: if_splits)

lemma parts_from_Inr:
  "parts_from source ps parts = Inr found \<Longrightarrow> btree_ok parts \<Longrightarrow>
     btree_ok found \<and> mset found = mset parts + mset (map (\<lambda>p. (pt_id p, p)) ps)
     \<and> (\<forall>p\<in>set ps. pt_ranges p \<noteq> [] \<and> (\<forall>r\<in>set (pt_ranges p). span r source = Inr ()))"
proof (induction source ps parts rule: parts_from.induct)
  case (2 source p ps parts)
  have p: "pt_ranges p \<noteq> []" "length (pt_ranges p) = length (pt_mappings p)" "map_of parts (pt_id p) = None"
      "\<not> blank (pt_id p)"
      "part_ranges source 0 (zip (pt_ranges p) (pt_mappings p)) = Inr ()"
      "parts_from source ps (btree_insert (pt_id p) p parts) = Inr found"
    using 2(2) by (auto simp: results)
  note ih = 2(1)[OF p(6) btree_insert_ok[OF 2(3)]]
  have "\<forall>r\<in>set (pt_ranges p). span r source = Inr ()" using part_ranges_Inr[OF p(5)] p(2) by simp
  then show ?case using ih p(1) btree_insert_mset[OF p(3), of p] by auto
qed simp

lemma collect_parts_Inr:
  assumes "collect_parts graph source = Inr parts"
  shows "btree_ok parts" "mset parts = mset (map (\<lambda>p. (pt_id p, p)) (dg_parts graph))"
    "distinct (map pt_id (dg_parts graph))"
    "p \<in> set (dg_parts graph) \<Longrightarrow> pt_ranges p \<noteq> []"
    "p \<in> set (dg_parts graph) \<Longrightarrow> r \<in> set (pt_ranges p) \<Longrightarrow> span r source = Inr ()"
    "map_of parts name \<noteq> None \<longleftrightarrow> name \<in> pt_id ` set (dg_parts graph)"
    "fst ` set parts = pt_id ` set (dg_parts graph)"
proof -
  have "parts_from source (dg_parts graph) [] = Inr parts" using assms by (auto simp: collect_parts_def results)
  note f = parts_from_Inr[OF this]
  show ok: "btree_ok parts" and m: "mset parts = mset (map (\<lambda>p. (pt_id p, p)) (dg_parts graph))"
    "p \<in> set (dg_parts graph) \<Longrightarrow> pt_ranges p \<noteq> []"
    "p \<in> set (dg_parts graph) \<Longrightarrow> r \<in> set (pt_ranges p) \<Longrightarrow> span r source = Inr ()"
    using f by auto
  have "mset (map fst parts) = mset (map pt_id (dg_parts graph))"
    using arg_cong[OF m(1), of "image_mset fst"] by (simp add: image_mset.compositionality comp_def)
  then show "distinct (map pt_id (dg_parts graph))"
    using btree_ok_distinct[OF ok] mset_eq_imp_distinct_iff by blast
  show keys: "fst ` set parts = pt_id ` set (dg_parts graph)"
    using arg_cong[OF m(1), of set_mset] by (auto simp: image_image)
  then show "map_of parts name \<noteq> None \<longleftrightarrow> name \<in> pt_id ` set (dg_parts graph)"
    by (simp add: map_of_eq_None_iff)
qed

lemma coverage_tiles:
  assumes "validate_coverage graph ledger source = Inr ()"
  shows "\<forall>r\<in>set (graph_ranges graph). span r source = Inr ()"
    "tile 0 (sort (graph_ranges graph)) = Inr (length source)"
proof -
  obtain parts where c: "collect_parts graph source = Inr parts"
      and p: "validate_partition graph ledger source parts = Inr ()"
    using assms by (auto simp: validate_coverage_def results)
  have "exclusion_ranges source 0 (dg_exclusions graph) = Inr ()" using p by (auto simp: validate_partition_def results)
  then show "\<forall>r\<in>set (graph_ranges graph). span r source = Inr ()"
    using exclusion_ranges_Inr collect_parts_Inr(5)[OF c] by (fastforce simp: graph_ranges_def)
  have flat: "mset (concat xss) = \<Sum>\<^sub># (image_mset mset (mset xss))" for xss :: "source_range list list"
    by (induction xss) auto
  have "mset (concat (map (pt_ranges \<circ> snd) parts)) = mset (concat (map pt_ranges (dg_parts graph)))"
    using arg_cong[OF collect_parts_Inr(2)[OF c], of "\<lambda>m. \<Sum>\<^sub># (image_mset (mset \<circ> pt_ranges \<circ> snd) m)"]
    by (simp add: flat image_mset.compositionality comp_def)
  then have "mset (concat (map (pt_ranges \<circ> snd) parts) @ map xc_range (dg_exclusions graph)) = mset (graph_ranges graph)"
    by (simp add: graph_ranges_def)
  then have "sort (concat (map (pt_ranges \<circ> snd) parts) @ map xc_range (dg_exclusions graph)) = sort (graph_ranges graph)"
    by (intro properties_for_sort) simp_all
  then show "tile 0 (sort (graph_ranges graph)) = Inr (length source)"
    using p by (auto simp: validate_partition_def results)
qed

lemma own_parts_Inr:
  "own_parts parts ids owners = Inr found \<Longrightarrow> distinct owners \<Longrightarrow>
     found = rev ids @ owners \<and> distinct (rev ids @ owners) \<and> (\<forall>name\<in>set ids. map_of parts name \<noteq> None)"
proof (induction parts ids owners rule: own_parts.induct)
  case (2 parts p ps owners)
  have p: "map_of parts p \<noteq> None" "p \<notin> set owners" "own_parts parts ps (p # owners) = Inr found"
    using 2(2) by (auto simp: results)
  note ih = 2(1)[OF p(3)]
  show ?case using ih 2(3) p by auto
qed simp

lemma coverage_owners:
  assumes "validate_coverage graph ledger source = Inr ()"
  shows "distinct (concat (map du_parts (dg_units graph)))"
    "set (concat (map du_parts (dg_units graph))) \<subseteq> pt_id ` set (dg_parts graph)"
    "pt_id ` set (dg_parts graph) \<subseteq> set (concat (map du_parts (dg_units graph))) \<union> set (graph_headings graph)
       \<union> set (graph_context_parts graph)"
    "set (graph_headings graph) \<subseteq> pt_id ` set (dg_parts graph) - set (concat (map du_parts (dg_units graph)))"
    "distinct (map pt_id (dg_parts graph))"
proof -
  obtain parts where c: "collect_parts graph source = Inr parts" and p: "primary_owners graph parts = Inr ()"
    using assms by (auto simp: validate_coverage_def results)
  obtain owners where o': "own_parts parts (concat (map du_parts (dg_units graph))) [] = Inr owners"
    using p by (auto simp: primary_owners_def results)
  have own: "distinct (concat (map du_parts (dg_units graph)))"
      "\<forall>name\<in>set (concat (map du_parts (dg_units graph))). map_of parts name \<noteq> None"
      "set owners = set (concat (map du_parts (dg_units graph)))"
    using own_parts_Inr[OF o' distinct.simps(1)[THEN iffD2, OF TrueI]] by simp_all
  have rest: "list_all (\<lambda>heading. map_of parts heading \<noteq> None \<and> heading \<notin> set owners) (graph_headings graph)"
      "list_all (\<lambda>part. part \<in> set owners \<or> part \<in> set (graph_headings graph) \<or> part \<in> set (graph_context_parts graph))
         (map fst parts)"
    using p o' by (auto simp: primary_owners_def results)
  note known = collect_parts_Inr(6)[OF c]
  note owners = own(3)
  show "distinct (concat (map du_parts (dg_units graph)))" by (rule own(1))
  show "set (concat (map du_parts (dg_units graph))) \<subseteq> pt_id ` set (dg_parts graph)"
    using own(2) known by (simp only: subset_iff) blast
  show "pt_id ` set (dg_parts graph) \<subseteq> set (concat (map du_parts (dg_units graph))) \<union> set (graph_headings graph)
       \<union> set (graph_context_parts graph)"
  proof
    fix name assume "name \<in> pt_id ` set (dg_parts graph)"
    then have "name \<in> set (map fst parts)" using collect_parts_Inr(7)[OF c] by (simp only: set_map)
    from bspec[OF rest(2)[unfolded list_all_iff] this]
    show "name \<in> set (concat (map du_parts (dg_units graph))) \<union> set (graph_headings graph) \<union> set (graph_context_parts graph)"
      by (simp only: owners Un_iff disj_assoc)
  qed
  show "set (graph_headings graph) \<subseteq> pt_id ` set (dg_parts graph) - set (concat (map du_parts (dg_units graph)))"
  proof
    fix name assume "name \<in> set (graph_headings graph)"
    from bspec[OF rest(1)[unfolded list_all_iff] this]
    show "name \<in> pt_id ` set (dg_parts graph) - set (concat (map du_parts (dg_units graph)))"
      by (simp only: owners known Diff_iff simp_thms)
  qed
  show "distinct (map pt_id (dg_parts graph))" by (rule collect_parts_Inr(3)[OF c])
qed


section \<open>The groups and units are a forest\<close>

lemma node_indexes_Inr:
  assumes "node_indexes graph = Inr u"
  shows "distinct (map gr_id (dg_groups graph))" "distinct (map du_id (dg_units graph))"
    "name \<in> gr_id ` set (dg_groups graph) \<Longrightarrow> name \<notin> du_id ` set (dg_units graph)"
proof -
  have len: "length (remdups ns) = length ms \<longleftrightarrow> distinct ns" if "length ns = length ms" for ns :: "string list" and ms :: "'z list"
    using that by (metis card_distinct distinct_card length_remdups_card_conv)
  have "require (length (remdups (map gr_id (dg_groups graph))) = length (dg_groups graph)
         \<and> length (remdups (map du_id (dg_units graph))) = length (dg_units graph)
         \<and> list_all (\<lambda>name. unit_at graph name = None) (map gr_id (dg_groups graph))) ''duplicate graph identity'' = Inr u"
    using assms by (simp only: node_indexes_def)
  then have f: "length (remdups (map gr_id (dg_groups graph))) = length (dg_groups graph)"
      "length (remdups (map du_id (dg_units graph))) = length (dg_units graph)"
      "list_all (\<lambda>name. unit_at graph name = None) (map gr_id (dg_groups graph))"
    by (simp_all only: require_Inr)
  show "distinct (map gr_id (dg_groups graph))" "distinct (map du_id (dg_units graph))"
    using f(1,2) by (simp_all only: len length_map)
  show "name \<in> gr_id ` set (dg_groups graph) \<Longrightarrow> name \<notin> du_id ` set (dg_units graph)"
    using f(3) by (auto simp: list_all_iff unit_at_def indexed_None)
qed

lemma indexed_unique: "distinct (map key vs) \<Longrightarrow> v \<in> set vs \<Longrightarrow> indexed key vs (key v) = Some v"
proof -
  assume d: "distinct (map key vs)" and v: "v \<in> set vs"
  have "distinct (map fst (rev (map (\<lambda>v. (key v, v)) vs)))" using d by (simp add: rev_map comp_def flip: rev_map)
  moreover have "(key v, v) \<in> set (rev (map (\<lambda>v. (key v, v)) vs))" using v by auto
  ultimately show ?thesis unfolding indexed_def by (rule map_of_is_SomeI)
qed

lemma list_children_Inr:
  "list_children graph name cs children = Inr found \<Longrightarrow>
     found = rev cs @ children \<and> (distinct children \<longrightarrow> distinct found)
     \<and> (\<forall>c\<in>set cs. node_parent graph c = Some (Some name))"
proof (induction graph name cs children rule: list_children.induct)
  case (2 graph name c cs children)
  have c: "node_parent graph c = Some (Some name)" "c \<notin> set children"
      "list_children graph name cs (c # children) = Inr found"
    using 2(2) by (auto simp: results)
  show ?case using 2(1)[OF c(3)] c(1,2) by auto
qed simp

lemma validate_groups_Inr:
  "validate_groups graph groups children = Inr found \<Longrightarrow>
     set found = set children \<union> (\<Union>g\<in>set groups. set (gr_children g))
     \<and> (\<forall>g\<in>set groups. validate_family graph g = Inr () \<and> validate_context graph g = Inr ()
          \<and> validate_heading g = Inr () \<and> validate_group_parts g = Inr () \<and> validate_code graph g = Inr ()
          \<and> (\<forall>c\<in>set (gr_children g). node_parent graph c = Some (Some (gr_id g)))
          \<and> (\<forall>p. gr_parent g = Some p \<longrightarrow> group_at graph p \<noteq> None \<and> gr_id g \<in> set found))"
proof (induction graph groups children rule: validate_groups.induct)
  case (2 graph g groups children)
  obtain children' where v: "validate_family graph g = Inr ()" "validate_children graph g children = Inr children'"
      "validate_context graph g = Inr ()" "validate_heading g = Inr ()" "validate_group_parts g = Inr ()"
      "validate_code graph g = Inr ()" "validate_groups graph groups children' = Inr found"
    using 2(2) by (auto simp: results)
  have l: "list_children graph (gr_id g) (gr_children g) children = Inr children'"
      "\<And>p. gr_parent g = Some p \<Longrightarrow> group_at graph p \<noteq> None \<and> gr_id g \<in> set children'"
    using v(2) by (auto simp: validate_children_def results split: option.splits)
  note ih = 2(1)[OF v(7)]
  show ?case using list_children_Inr[OF l(1)] l(2) v ih by auto
qed simp

lemma unit_parent_Inr:
  "validate_unit_parent graph children u = Inr v \<Longrightarrow> du_parent u = Some p \<Longrightarrow>
     group_at graph p \<noteq> None \<and> du_id u \<in> set children"
  by (auto simp: validate_unit_parent_def results)

text \<open>A group or unit names a group as its parent exactly when that group lists it as a child.\<close>

definition forest_ok :: "delivery_graph \<Rightarrow> bool" where
  "forest_ok graph \<longleftrightarrow>
     distinct (map gr_id (dg_groups graph) @ map du_id (dg_units graph))
     \<and> (\<forall>g\<in>set (dg_groups graph). \<forall>name.
          name \<in> set (gr_children g) \<longleftrightarrow> node_parent graph name = Some (Some (gr_id g)))
     \<and> (\<forall>name p. node_parent graph name = Some (Some p) \<longrightarrow> p \<in> gr_id ` set (dg_groups graph))
     \<and> (\<forall>g\<in>set (dg_groups graph). acyclic_from graph [] (Some (gr_id g)) = Inr ())"

lemma hierarchy_forest:
  assumes v: "validate_hierarchy graph = Inr ()"
  shows "forest_ok graph"
proof -
  obtain children where n: "node_indexes graph = Inr ()"
      and g: "validate_groups graph (dg_groups graph) [] = Inr children"
      and u: "\<forall>unit\<in>set (dg_units graph). validate_unit_parent graph children unit = Inr ()"
      and a: "\<forall>name\<in>set (validate_acyclic_ids graph). acyclic_from graph [] (Some name) = Inr ()"
    using v by (auto simp: validate_hierarchy_def results)
  note ids = node_indexes_Inr[OF n]
  have disjoint: "gr_id ` set (dg_groups graph) \<inter> du_id ` set (dg_units graph) = {}" using ids(3) by blast
  then have distinct: "distinct (map gr_id (dg_groups graph) @ map du_id (dg_units graph))" using ids by simp
  note found = validate_groups_Inr[OF g]
  have up: "p \<in> gr_id ` set (dg_groups graph) \<and> name \<in> set children" if np: "node_parent graph name = Some (Some p)" for name p
  proof (cases "group_at graph name")
    case None
    then obtain unit where unit: "unit_at graph name = Some unit" "du_parent unit = Some p"
      using np by (auto simp: node_parent_def)
    then have "unit \<in> set (dg_units graph)" "du_id unit = name" using indexed_mem unfolding unit_at_def by metis+
    then have "group_at graph p \<noteq> None \<and> name \<in> set children" using unit_parent_Inr u unit(2) by metis
    then show ?thesis unfolding group_at_def using indexed_None by metis
  next
    case (Some grp)
    then have "grp \<in> set (dg_groups graph)" "gr_id grp = name" using indexed_mem unfolding group_at_def by metis+
    moreover have "gr_parent grp = Some p" using np Some by (simp add: node_parent_def)
    ultimately have "group_at graph p \<noteq> None \<and> name \<in> set children" using found by metis
    then show ?thesis unfolding group_at_def using indexed_None by metis
  qed
  have listed: "name \<in> set (gr_children g) \<longleftrightarrow> node_parent graph name = Some (Some (gr_id g))"
    if mem: "g \<in> set (dg_groups graph)" for g name
  proof
    assume "name \<in> set (gr_children g)"
    then show "node_parent graph name = Some (Some (gr_id g))" using found mem by blast
  next
    assume np: "node_parent graph name = Some (Some (gr_id g))"
    then have "name \<in> set children" using up by blast
    then obtain h where h: "h \<in> set (dg_groups graph)" "name \<in> set (gr_children h)" using found by auto
    then have "node_parent graph name = Some (Some (gr_id h))" using found by blast
    then have "gr_id h = gr_id g" using np by simp
    then have "h = g" using ids(1) h(1) mem by (auto simp: distinct_map dest: inj_onD)
    then show "name \<in> set (gr_children g)" using h(2) by simp
  qed
  have "\<forall>g\<in>set (dg_groups graph). acyclic_from graph [] (Some (gr_id g)) = Inr ()"
    using a by (simp add: validate_acyclic_ids_def)
  with distinct up listed show ?thesis unfolding forest_ok_def by blast
qed

section \<open>The walks return\<close>

text \<open>A way up from a group: each name is a group's, and the next its parent's.\<close>

fun way_up :: "delivery_graph \<Rightarrow> string list \<Rightarrow> bool" where
  "way_up graph [] = True"
| "way_up graph [name] = (name \<in> gr_id ` set (dg_groups graph))"
| "way_up graph (name # parent # rest) \<longleftrightarrow>
     (\<exists>g. group_at graph name = Some g \<and> gr_parent g = Some parent) \<and> way_up graph (parent # rest)"

lemma way_up_groups: "way_up graph names \<Longrightarrow> set names \<subseteq> gr_id ` set (dg_groups graph)"
proof (induction graph names rule: way_up.induct)
  case (3 graph name parent rest)
  then obtain g where "group_at graph name = Some g" by auto
  then have "name \<in> gr_id ` set (dg_groups graph)" using indexed_mem unfolding group_at_def by fastforce
  with 3 show ?case by simp
qed simp_all

lemma acyclic_way:
  "acyclic_from graph seen (Some name) = Inr () \<Longrightarrow> way_up graph (name # rest) \<Longrightarrow>
     distinct (name # rest) \<and> set (name # rest) \<inter> set seen = {}"
proof (induction rest arbitrary: name seen)
  case Nil
  then show ?case by (simp split: if_splits)
next
  case (Cons parent rest)
  obtain g where g: "group_at graph name = Some g" "gr_parent g = Some parent" and rest: "way_up graph (parent # rest)"
    using Cons.prems(2) by auto
  have "name \<notin> set seen" "acyclic_from graph (name # seen) (Some parent) = Inr ()"
    using Cons.prems(1) g by (simp_all split: if_splits)
  with Cons.IH[OF _ rest, of "name # seen"] show ?case by auto
qed

lemma way_up_bound:
  assumes "forest_ok graph" and "way_up graph names"
  shows "length names \<le> length (dg_groups graph)"
proof (cases names)
  case (Cons name rest)
  have sub: "set names \<subseteq> gr_id ` set (dg_groups graph)" by (rule way_up_groups[OF assms(2)])
  then have "acyclic_from graph [] (Some name) = Inr ()" using assms(1) Cons by (auto simp: forest_ok_def)
  then have "distinct names" using acyclic_way[of graph "[]" name rest] assms(2) Cons by simp
  then have "length names = card (set names)" by (simp add: distinct_card)
  also have "\<dots> \<le> card (gr_id ` set (dg_groups graph))" by (rule card_mono[OF _ sub]) simp
  also have "\<dots> \<le> length (dg_groups graph)" using card_image_le card_length le_trans by (metis List.finite_set)
  finally show ?thesis .
qed simp

text \<open>Down from a group to its children, with the way back up.\<close>

lemma group_start_deep_enough:
  assumes f: "forest_ok graph"
  shows "way_up graph (name # ups) \<or> group_at graph name = None \<Longrightarrow> way_up graph ups \<Longrightarrow>
    length (dg_groups graph) < depth + length ups \<Longrightarrow> \<exists>n. \<forall>more. group_start (depth + more) graph name = Some n"
proof (induction depth arbitrary: name ups)
  case 0
  then show ?case using way_up_bound[OF f] by (metis add_0 leD)
next
  case (Suc depth)
  show ?case
  proof (cases "group_at graph name")
    case None
    then show ?thesis by simp
  next
    case (Some g)
    then have g: "g \<in> set (dg_groups graph)" "gr_id g = name" using indexed_mem unfolding group_at_def by metis+
    have up: "way_up graph (name # ups)" using Suc.prems(1) Some by simp
    have "\<exists>n. \<forall>more. group_start (depth + more) graph c = Some n" if c: "c \<in> set (gr_children g)" "unit_at graph c = None" for c
    proof (rule Suc.IH[OF _ up])
      have "node_parent graph c = Some (Some name)" using f g c(1) by (auto simp: forest_ok_def)
      then show "way_up graph (c # name # ups) \<or> group_at graph c = None"
        using up by (auto simp: node_parent_def split: option.splits)
      show "length (dg_groups graph) < depth + length (name # ups)" using Suc.prems(3) by simp
    qed
    then obtain start where start: "\<And>c more. c \<in> set (gr_children g) \<Longrightarrow> unit_at graph c = None \<Longrightarrow>
        group_start (depth + more) graph c = Some (start c)" by metis
    let ?first = "\<lambda>c. case unit_at graph c of None \<Rightarrow> start c | Some unit \<Rightarrow> first_start graph (du_parts unit)"
    have "map (\<lambda>c. case unit_at graph c of None \<Rightarrow> group_start (depth + more) graph c
        | Some unit \<Rightarrow> Some (first_start graph (du_parts unit))) (gr_children g) = map (\<lambda>c. Some (?first c)) (gr_children g)" for more
      using start by (auto split: option.split)
    then have "collect_options (map (\<lambda>c. case unit_at graph c of None \<Rightarrow> group_start (depth + more) graph c
        | Some unit \<Rightarrow> Some (first_start graph (du_parts unit))) (gr_children g)) = Some (map ?first (gr_children g))" for more
      by (simp only: collect_options_map_Some)
    then show ?thesis using Some by simp
  qed
qed

text \<open>
  C33: the validator returns on every input, though one of its checks recurs into the children of a
  group without a test for cycles: the check before it has refused every cycle, so the recursion is
  never deeper than there are groups, and a deeper one would change nothing.
\<close>

theorem validator_returns:
  "\<exists>r. \<forall>more. validate_inner (Suc (length (dg_groups graph)) + more) x gx verify_digests graph ledger source = Some r"
proof (cases "and_then (validate_descriptor x gx verify_digests graph ledger source) (\<lambda>_.
           and_then (validate_coverage graph ledger source) (\<lambda>_. validate_hierarchy graph))")
  case (Inl e)
  then show ?thesis by (simp add: validate_inner_def)
next
  case (Inr u)
  then have "validate_hierarchy graph = Inr ()" by (auto simp: results)
  then have f: "forest_ok graph" by (rule hierarchy_forest)
  let ?depth = "Suc (length (dg_groups graph))"
  have "\<exists>n. \<forall>more. group_start (?depth + more) graph (gr_id g) = Some n" if "g \<in> set (dg_groups graph)" for g
    using that by (intro group_start_deep_enough[OF f, of _ "[]"]) auto
  then obtain start where start: "\<And>g more. g \<in> set (dg_groups graph) \<Longrightarrow> group_start (?depth + more) graph (gr_id g) = Some (start g)"
    by metis
  have "map (\<lambda>g. group_start (?depth + more) graph (gr_id g)) (dg_groups graph) = map (\<lambda>g. Some (start g)) (dg_groups graph)" for more
    using start by simp
  then have starts: "collect_options (map (\<lambda>g. group_start (?depth + more) graph (gr_id g)) (dg_groups graph))
      = Some (map start (dg_groups graph))" for more
    by (simp only: collect_options_map_Some)
  have "validate_order (?depth + more) graph = validate_order ?depth graph \<and> validate_order ?depth graph \<noteq> None" for more
    using starts[of more] starts[of 0] by (simp add: validate_order_def split: sum.split del: group_start.simps)
  then show ?thesis using Inr by (auto simp: validate_inner_def)
qed


lemma validate_inner_Inr:
  assumes "validate_inner depth x gx verify_digests graph ledger source = Some (Inr ())"
  shows "validate_coverage graph ledger source = Inr ()" "forest_ok graph" "validate_hierarchy graph = Inr ()"
    "validate_membership graph = Inr ()"
  using assms hierarchy_forest by (auto simp: validate_inner_def results split: sum.splits)

section \<open>What an accepted graph is\<close>

text \<open>
  C15: an accepted graph accounts for the source exactly once: every byte is in exactly one range of a
  part or of an exclusion, each range is a nonempty run of whole characters, and the ranges in order
  are the source; each part belongs to one unit at most, and where to none, it is the heading or the
  context of a group.
\<close>

theorem graph_tiles_source:
  assumes "validate_inner depth x gx verify_digests graph ledger source = Some (Inr ())"
  shows "concat (map (slice source) (sort (graph_ranges graph))) = source
    \<and> (\<forall>i<length source. length (filter (holds_byte i) (graph_ranges graph)) = 1)
    \<and> (\<forall>r\<in>set (graph_ranges graph). str_get source (sr_start r) (sr_end r) = Some (slice source r) \<and> slice source r \<noteq> [])
    \<and> distinct (concat (map du_parts (dg_units graph)))
    \<and> (\<forall>part\<in>set (dg_parts graph). pt_id part \<in> set (concat (map du_parts (dg_units graph)))
         \<union> set (graph_headings graph) \<union> set (graph_context_parts graph))"
proof -
  note c = validate_inner_Inr(1)[OF assms]
  note spans = coverage_tiles(1)[OF c]
  then have nonempty: "\<forall>r\<in>set (sort (graph_ranges graph)). sr_start r < sr_end r" by (simp add: results)
  note t = tile_Inr[OF coverage_tiles(2)[OF c] nonempty, where source = source]
  have "length (filter (holds_byte i) (graph_ranges graph)) = length (filter (holds_byte i) (sort (graph_ranges graph)))" for i
    by (metis mset_filter mset_sort size_mset)
  then have "\<forall>i<length source. length (filter (holds_byte i) (graph_ranges graph)) = 1" using t by simp
  moreover have "str_get source (sr_start r) (sr_end r) = Some (slice source r) \<and> slice source r \<noteq> []"
    if "r \<in> set (graph_ranges graph)" for r
    using spans that by (auto simp: results str_get_def slice_def)
  moreover have "\<forall>part\<in>set (dg_parts graph). pt_id part \<in> set (concat (map du_parts (dg_units graph)))
         \<union> set (graph_headings graph) \<union> set (graph_context_parts graph)"
    using coverage_owners(3)[OF c] by blast
  ultimately show ?thesis using t coverage_owners(1)[OF c] by simp
qed

definition parent_of :: "delivery_graph \<Rightarrow> (string \<times> string) set" where
  "parent_of graph = {(name, parent). node_parent graph name = Some (Some parent)}"

lemma parent_of_group:
  assumes f: "forest_ok graph" and p: "(name, parent) \<in> parent_of graph"
  shows "parent \<in> gr_id ` set (dg_groups graph)"
    "name \<in> gr_id ` set (dg_groups graph) \<Longrightarrow> \<exists>g. group_at graph name = Some g \<and> gr_parent g = Some parent"
proof -
  have np: "node_parent graph name = Some (Some parent)" using p by (simp add: parent_of_def)
  show "parent \<in> gr_id ` set (dg_groups graph)" using f np by (auto simp: forest_ok_def)
  assume "name \<in> gr_id ` set (dg_groups graph)"
  then obtain g where "group_at graph name = Some g" unfolding group_at_def using indexed_None by (metis option.exhaust)
  then show "\<exists>g. group_at graph name = Some g \<and> gr_parent g = Some parent" using np by (simp add: node_parent_def)
qed

lemma trancl_way:
  assumes f: "forest_ok graph"
  shows "(a, b) \<in> (parent_of graph)\<^sup>+ \<Longrightarrow> a \<in> gr_id ` set (dg_groups graph) \<Longrightarrow> \<exists>rest. way_up graph (a # rest @ [b])"
proof (induction rule: converse_trancl_induct)
  case (base a)
  then show ?case using parent_of_group[OF f base(1)] by (intro exI[of _ "[]"]) auto
next
  case (step a c)
  note p = parent_of_group[OF f step(1)]
  then obtain rest where "way_up graph (c # rest @ [b])" using step(3) by blast
  then show ?case using p(2) step.prems by (intro exI[of _ "c # rest"]) simp
qed

text \<open>
  C16: the groups and units of an accepted graph are a forest: identities are unique, a node names a
  group as its parent exactly when that group lists it as a child, every parent is a group of the
  graph, no group is its own ancestor, and rows are under tables, while tables, code, procedures and
  sections are under sections or pages.
\<close>

theorem graph_is_forest:
  assumes v: "validate_inner depth x gx verify_digests graph ledger source = Some (Inr ())"
  shows "distinct (map gr_id (dg_groups graph) @ map du_id (dg_units graph))
    \<and> (\<forall>g\<in>set (dg_groups graph). \<forall>name. name \<in> set (gr_children g) \<longleftrightarrow> (name, gr_id g) \<in> parent_of graph)
    \<and> snd ` parent_of graph \<subseteq> gr_id ` set (dg_groups graph)
    \<and> acyclic (parent_of graph)
    \<and> (\<forall>g\<in>set (dg_groups graph). parent_valid graph g)"
proof -
  note f = validate_inner_Inr(2)[OF v]
  have "acyclic (parent_of graph)"
  proof (rule acyclicI, rule allI, rule notI)
    fix name assume cycle: "(name, name) \<in> (parent_of graph)\<^sup>+"
    have group: "name \<in> gr_id ` set (dg_groups graph)"
      using tranclD2[OF cycle] parent_of_group(1)[OF f] by blast
    obtain rest where way: "way_up graph (name # rest @ [name])" using trancl_way[OF f cycle group] by blast
    moreover have "acyclic_from graph [] (Some name) = Inr ()" using f group by (auto simp: forest_ok_def)
    ultimately show False using acyclic_way[of graph "[]" name "rest @ [name]"] by simp
  qed
  moreover have "parent_valid graph g" if "g \<in> set (dg_groups graph)" for g
  proof -
    obtain children where "validate_groups graph (dg_groups graph) [] = Inr children"
      using validate_inner_Inr(3)[OF v] by (auto simp: validate_hierarchy_def results)
    then have "validate_family graph g = Inr ()" using validate_groups_Inr that by blast
    then show ?thesis by (simp add: validate_family_def results)
  qed
  moreover have "snd ` parent_of graph \<subseteq> gr_id ` set (dg_groups graph)" using parent_of_group(1)[OF f] by auto
  ultimately show ?thesis using f by (simp add: forest_ok_def parent_of_def)
qed

section \<open>The context of a unit\<close>

text \<open>The groups on the way up.\<close>

inductive ancestor :: "delivery_graph \<Rightarrow> string option \<Rightarrow> graph_group \<Rightarrow> bool" for graph where
  here: "group_at graph name = Some g \<Longrightarrow> ancestor graph (Some name) g"
| further: "group_at graph name = Some g \<Longrightarrow> ancestor graph (gr_parent g) h \<Longrightarrow> ancestor graph (Some name) h"

inductive_simps ancestor_simps: "ancestor graph None h" "ancestor graph (Some name) h"

definition ancestor_parts :: "delivery_graph \<Rightarrow> string option \<Rightarrow> string set" where
  "ancestor_parts graph cursor = {cr_part r |g r. ancestor graph cursor g \<and> r \<in> set (gr_context g)}"

lemma ancestor_parts_simps:
  "ancestor_parts graph None = {}"
  "group_at graph name = Some g \<Longrightarrow>
     ancestor_parts graph (Some name) = cr_part ` set (gr_context g) \<union> ancestor_parts graph (gr_parent g)"
  by (auto simp: ancestor_parts_def ancestor_simps)

lemma way_up_snoc:
  "way_up graph (ups @ [name]) \<Longrightarrow> group_at graph name = Some g \<Longrightarrow> gr_parent g = Some parent \<Longrightarrow>
     parent \<in> gr_id ` set (dg_groups graph) \<Longrightarrow> way_up graph ((ups @ [name]) @ [parent])"
proof (induction ups)
  case (Cons a ups)
  then show ?case by (cases ups) auto
qed simp

lemma context_from_returns:
  assumes f: "forest_ok graph"
  shows "(\<forall>name. cursor = Some name \<longrightarrow> way_up graph (ups @ [name])) \<Longrightarrow> way_up graph ups \<Longrightarrow>
    length (dg_groups graph) < steps + length ups \<Longrightarrow>
    \<exists>found. (\<forall>more. context_from graph (steps + more) cursor acc = Some (Inr found))
      \<and> set found = set acc \<union> ancestor_parts graph cursor"
proof (induction steps arbitrary: cursor ups acc)
  case 0
  then show ?case using way_up_bound[OF f] by (metis add_0 leD)
next
  case (Suc steps)
  show ?case
  proof (cases cursor)
    case None
    then show ?thesis by (simp add: ancestor_parts_simps)
  next
    case (Some name)
    then have way: "way_up graph (ups @ [name])" using Suc.prems(1) by simp
    then have "name \<in> gr_id ` set (dg_groups graph)" using way_up_groups by fastforce
    then obtain g where g: "group_at graph name = Some g" unfolding group_at_def using indexed_None by (metis option.exhaust)
    have "way_up graph ((ups @ [name]) @ [parent])" if "gr_parent g = Some parent" for parent
    proof -
      have "node_parent graph name = Some (Some parent)" using g that by (simp add: node_parent_def)
      then show ?thesis using way_up_snoc[OF way g that] f by (auto simp: forest_ok_def)
    qed
    moreover have "length (dg_groups graph) < steps + length (ups @ [name])" using Suc.prems(3) by simp
    ultimately obtain found where "\<forall>more. context_from graph (steps + more) (gr_parent g) (acc @ map cr_part (gr_context g)) = Some (Inr found)"
        "set found = set (acc @ map cr_part (gr_context g)) \<union> ancestor_parts graph (gr_parent g)"
      using Suc.IH[OF _ way, of "gr_parent g" "acc @ map cr_part (gr_context g)"] by blast
    then show ?thesis using Some g by (intro exI[of _ found]) (auto simp: ancestor_parts_simps(2)[OF g])
  qed
qed

text \<open>
  C34: the context a unit of an accepted graph requires is found, by a walk that is never longer than
  there are groups: it is the typed context of every group above the unit and of no other, each part
  once, in the order of the source, and a longer walk would find the same.
\<close>

theorem context_exact:
  assumes v: "validate_inner depth x gx verify_digests graph ledger source = Some (Inr ())" and mem: "unit \<in> set (dg_units graph)"
  shows "\<exists>found. (\<forall>more. required_context (Suc (length (dg_groups graph)) + more) graph (du_id unit) = Some (Inr found))
    \<and> set found = {cr_part r |g r. ancestor graph (du_parent unit) g \<and> r \<in> set (gr_context g)}
    \<and> distinct found \<and> sorted (map (part_position graph) found)"
proof -
  note f = validate_inner_Inr(2)[OF v]
  have distinct: "distinct (map du_id (dg_units graph))" using f by (simp add: forest_ok_def)
  then have at: "List.find (\<lambda>u. du_id u = du_id unit) (dg_units graph) = Some unit"
    by (rule find_unique) (rule mem)
  have "unit_at graph (du_id unit) = Some unit" using indexed_unique[OF distinct mem] by (simp add: unit_at_def)
  moreover have "group_at graph (du_id unit) = None"
    unfolding group_at_def indexed_None using f mem by (auto simp: forest_ok_def)
  ultimately have "node_parent graph (du_id unit) = Some (du_parent unit)" by (simp add: node_parent_def)
  then have "parent \<in> gr_id ` set (dg_groups graph)" if "du_parent unit = Some parent" for parent
    using f that by (auto simp: forest_ok_def)
  then obtain found where "\<forall>more. context_from graph (Suc (length (dg_groups graph)) + more) (du_parent unit) [] = Some (Inr found)"
      "set found = ancestor_parts graph (du_parent unit)"
    using context_from_returns[OF f, of "du_parent unit" "[]" "Suc (length (dg_groups graph))" "[]"] by auto
  then show ?thesis
    using at by (intro exI[of _ "sort_key (part_position graph) (sort (remdups found))"])
      (simp add: required_context_def ancestor_parts_def del: context_from.simps)
qed


section \<open>The retrieval views\<close>

lemma position_of_nth: "position_of v ws = Some n \<Longrightarrow> n < length ws \<and> ws ! n = v"
  by (induction ws arbitrary: n) (auto split: if_splits)

definition after :: "nat option \<Rightarrow> nat" where
  "after latest = (case latest of None \<Rightarrow> 0 | Some m \<Rightarrow> Suc m)"

lemma above_after: "above latest n \<longleftrightarrow> after latest \<le> n"
  by (cases latest) (auto simp: above_def after_def)

text \<open>Places that only grow pick a subsequence.\<close>

lemma subseq_place:
  assumes "k \<le> n" and "n < length ws" and "subseq rest (drop (Suc n) ws)"
  shows "subseq (ws ! n # rest) (drop k ws)"
proof -
  have "drop k ws = take (n - k) (drop k ws) @ drop n ws"
    using assms(1) append_take_drop_id[of "n - k" "drop k ws"] by simp
  also have "drop n ws = ws ! n # drop (Suc n) ws" by (rule Cons_nth_drop_Suc[OF assms(2), symmetric])
  finally have "drop k ws = take (n - k) (drop k ws) @ ws ! n # drop (Suc n) ws" .
  moreover have "subseq (ws ! n # rest) (ws ! n # drop (Suc n) ws)" using assms(3) by simp
  ultimately show ?thesis by (metis list_emb_append2)
qed

lemma member_parts_Inr:
  "member_parts primary names latest covered = Inr found \<Longrightarrow>
     subseq names (drop (after latest) primary) \<and> set found = set names \<union> set covered"
proof (induction primary names latest covered rule: member_parts.induct)
  case (2 primary name names latest covered)
  obtain n where n: "position_of name primary = Some n" "after latest \<le> n"
      "member_parts primary names (Some n) (name # covered) = Inr found"
    using 2(2) by (auto simp: results above_after)
  have "subseq names (drop (Suc n) primary)" using 2(1)[OF n(3)] by (simp add: after_def)
  then have "subseq (primary ! n # names) (drop (after latest) primary)"
    using position_of_nth[OF n(1)] n(2) by (intro subseq_place) auto
  then show ?case using position_of_nth[OF n(1)] 2(1)[OF n(3)] by auto
qed simp

lemma unit_order_nth:
  "unit_order graph name = Some n \<Longrightarrow> n < length (dg_units graph) \<and> du_id (dg_units graph ! n) = name"
  by (auto simp: unit_order_def in_set_zip dest!: map_of_SomeD)

definition membership_ok :: "delivery_graph \<Rightarrow> retrieval_membership \<Rightarrow> bool" where
  "membership_ok graph membership \<longleftrightarrow> rm_parts membership \<noteq> []
     \<and> (\<exists>unit\<in>set (dg_units graph). du_id unit = rm_unit membership \<and> subseq (rm_parts membership) (du_parts unit))"

lemma view_members_Inr:
  "view_members graph ms previous covered = Inr found \<Longrightarrow>
     subseq (map rm_unit ms) (drop (after previous) (map du_id (dg_units graph)))
     \<and> (\<forall>m\<in>set ms. membership_ok graph m) \<and> set found = (\<Union>m\<in>set ms. set (rm_parts m)) \<union> set covered"
proof (induction graph ms previous covered rule: view_members.induct)
  case (2 graph m ms previous covered)
  obtain unit covered' n where u: "unit_at graph (rm_unit m) = Some unit" "rm_parts m \<noteq> []"
      "member_parts (du_parts unit) (rm_parts m) None covered = Inr covered'"
      "unit_order graph (rm_unit m) = Some n" "after previous \<le> n"
      "view_members graph ms (Some n) covered' = Inr found"
    using 2(2) by (auto simp: results above_after)
  have "unit \<in> set (dg_units graph)" "du_id unit = rm_unit m" using u(1) indexed_mem unfolding unit_at_def by metis+
  then have ok: "membership_ok graph m" using member_parts_Inr[OF u(3)] u(2) by (auto simp: membership_ok_def after_def)
  note ih = 2(1)[OF u(6)]
  have "subseq (map du_id (dg_units graph) ! n # map rm_unit ms) (drop (after previous) (map du_id (dg_units graph)))"
    using ih unit_order_nth[OF u(4)] u(5) by (intro subseq_place) (auto simp: after_def)
  then show ?case using unit_order_nth[OF u(4)] ih ok member_parts_Inr[OF u(3)] by auto
qed simp

lemma views_from_Inr:
  "views_from graph views covered names chunks keys = Inr (found, keys') \<Longrightarrow> distinct names \<Longrightarrow> distinct chunks \<Longrightarrow>
     distinct (rev (map vw_id views) @ names) \<and> distinct (rev (map vw_chunk views) @ chunks)
     \<and> (\<forall>view\<in>set views. vw_memberships view \<noteq> [] \<and> 0 < vw_tokens view
          \<and> subseq (map rm_unit (vw_memberships view)) (map du_id (dg_units graph))
          \<and> (\<forall>m\<in>set (vw_memberships view). membership_ok graph m))
     \<and> set found = (\<Union>view\<in>set views. \<Union>m\<in>set (vw_memberships view). set (rm_parts m)) \<union> set covered"
proof (induction graph views covered names chunks keys rule: views_from.induct)
  case (2 graph view views covered names chunks keys)
  obtain covered' start where v: "0 < vw_tokens view" "vw_id view \<notin> set names" "vw_chunk view \<notin> set chunks"
      "view_members graph (vw_memberships view) None covered = Inr covered'" "view_start graph view = Some start"
      "views_from graph views covered' (vw_id view # names) (vw_chunk view # chunks) (keys @ [(start, vw_id view)]) = Inr (found, keys')"
    using 2(2) by (auto simp: results)
  have "distinct (vw_id view # names)" "distinct (vw_chunk view # chunks)" using v(2,3) 2(3,4) by simp_all
  note ih = 2(1)[OF v(6) this]
  have "vw_memberships view \<noteq> []" using v(5) by (auto simp: view_start_def)
  then show ?case using ih v(1) view_members_Inr[OF v(4)] by (auto simp: after_def)
qed simp

text \<open>
  Every primary part of an accepted graph can be found: a retrieval view has it, or it is the
  heading or the context of a group; and a view names units of the graph in their order, each once,
  with parts of that unit in its order, and no two views share an identity or a chunk.
\<close>

theorem views_exact:
  assumes v: "validate_inner depth x gx verify_digests graph ledger source = Some (Inr ())"
  shows "(\<forall>unit\<in>set (dg_units graph). \<forall>part\<in>set (du_parts unit).
        (\<exists>view\<in>set (dg_views graph). \<exists>m\<in>set (vw_memberships view). part \<in> set (rm_parts m))
        \<or> part \<in> set (graph_headings graph) \<union> set (graph_context_parts graph))
    \<and> (\<forall>view\<in>set (dg_views graph). vw_memberships view \<noteq> []
        \<and> subseq (map rm_unit (vw_memberships view)) (map du_id (dg_units graph))
        \<and> (\<forall>m\<in>set (vw_memberships view). membership_ok graph m))
    \<and> distinct (map vw_id (dg_views graph)) \<and> distinct (map vw_chunk (dg_views graph))"
proof -
  obtain covered keys where w: "views_from graph (dg_views graph) [] [] [] [] = Inr (covered, keys)"
      and s: "validate_searchability graph covered = Inr ()"
    using validate_inner_Inr(4)[OF v] by (auto simp: validate_membership_def validate_views_def results)
  note f = views_from_Inr[OF w distinct.simps(1)[THEN iffD2, OF TrueI] distinct.simps(1)[THEN iffD2, OF TrueI]]
  have "part \<in> set covered \<or> part \<in> set (graph_headings graph) \<union> set (graph_context_parts graph)"
    if "unit \<in> set (dg_units graph)" "part \<in> set (du_parts unit)" for unit part
    using s that by (auto simp: validate_searchability_def results)
  then show ?thesis using f by (auto simp del: UN_iff)
qed

section \<open>A sample graph\<close>

text \<open>A page with its title, and below it a table with its header and a row.\<close>

definition sample_source :: string where
  "sample_source = ''# T|a|b|1|2|!''"

definition sample_entry :: "nat \<Rightarrow> nat \<Rightarrow> mapping_entry" where
  "sample_entry i j = \<lparr>me_range = SourceRange i j,
     me_mapping = \<lparr>mc_unit = ''u'', mc_derived = (0, 1), mc_mode = ''exact''\<rparr>\<rparr>"

definition sample_part :: "string \<Rightarrow> nat \<Rightarrow> nat \<Rightarrow> graph_part" where
  "sample_part name i j = \<lparr>pt_id = name, pt_ranges = [SourceRange i j], pt_mappings = [me_mapping (sample_entry i j)]\<rparr>"

definition sample_family :: family_key where
  "sample_family = \<lparr>fk_collection = ''ct'', fk_namespace = ''ns'', fk_segment = ''a'', fk_title = ''T'', fk_headings = [],
     fk_occurrence = 0\<rparr>"

definition sample_graph :: delivery_graph where
  "sample_graph =
     \<lparr>dg_descriptor = \<lparr>gd_schema = ''maestro-unit-graph/1'', gd_collection = ''ct'', gd_namespace = ''ns'',
        gd_document = ''doc'', gd_revision = ''rev'', gd_original = Digest [], gd_profile = ''mapped-structural-chunks/4'',
        gd_profile_digest = Digest [], gd_preparation = ''canonical-context-parts/v3'', gd_preparation_digest = Digest [],
        gd_counter = ''c'', gd_mapping = Digest []\<rparr>,
      dg_parts = [sample_part ''h'' 0 3, sample_part ''header'' 3 7, sample_part ''row'' 7 11],
      dg_units = [\<lparr>du_id = ''u1'', du_kind = RowUnit, du_parent = Some ''table'', du_parts = [''row''], du_split = Whole\<rparr>],
      dg_exclusions = [\<lparr>xc_range = SourceRange 11 13, xc_reason = ''syntax''\<rparr>],
      dg_views = [\<lparr>vw_policy = CompleteIdeas, vw_id = ''v1'', vw_chunk = ''c1'', vw_digest = Digest [], vw_tokens = 2,
        vw_memberships = [\<lparr>rm_unit = ''u1'', rm_parts = [''row'']\<rparr>]\<rparr>],
      dg_groups = [
        \<lparr>gr_id = ''page'', gr_kind = PageGroup, gr_parent = None, gr_children = [''table''], gr_parts = [''h''],
         gr_heading = Some ''h'', gr_context = [], gr_family = sample_family\<rparr>,
        \<lparr>gr_id = ''table'', gr_kind = TableGroup, gr_parent = Some ''page'', gr_children = [''u1''], gr_parts = [''header''],
         gr_heading = None, gr_context = [\<lparr>cr_kind = HeaderToTable, cr_part = ''header''\<rparr>], gr_family = sample_family\<rparr>]\<rparr>"

definition sample_ledger :: mapping_ledger where
  "sample_ledger = \<lparr>ml_schema = ''maestro-unit-mapping/1'', ml_original = Digest [],
     ml_contributions = [sample_entry 0 3, sample_entry 3 7, sample_entry 7 11],
     ml_exclusions = [\<lparr>xc_range = SourceRange 11 13, xc_reason = ''syntax''\<rparr>]\<rparr>"

definition sample_gx :: graph_ext where
  "sample_gx = \<lparr>gx_read_graph = (\<lambda>s. if s = ''graph'' then Some sample_graph else None),
     gx_write_graph = (\<lambda>g. if g = sample_graph then Some ''graph'' else None),
     gx_read_ledger = (\<lambda>s. if s = ''ledger'' then Some sample_ledger else None),
     gx_write_ledger = (\<lambda>l. if l = sample_ledger then Some ''ledger'' else None)\<rparr>"

lemma sample_valid: "validate_inner 3 sample sample_gx False sample_graph sample_ledger sample_source = Some (Inr ())"
proof -
  have d: "validate_descriptor sample sample_gx False sample_graph sample_ledger sample_source = Inr ()" by code_simp
  have c: "validate_coverage sample_graph sample_ledger sample_source = Inr ()" by code_simp
  have h: "validate_hierarchy sample_graph = Inr ()" by code_simp
  have m: "validate_membership sample_graph = Inr ()" by code_simp
  have p: "part_position sample_graph ''h'' = (0, ''h'')" "part_position sample_graph ''header'' = (3, ''header'')"
      "part_position sample_graph ''row'' = (7, ''row'')" by code_simp+
  have g: "group_at sample_graph ''page'' = Some (hd (dg_groups sample_graph))"
      "group_at sample_graph ''table'' = Some (last (dg_groups sample_graph))"
      "unit_at sample_graph ''table'' = None" "unit_at sample_graph ''u1'' = Some (hd (dg_units sample_graph))"
      "gr_children (hd (dg_groups sample_graph)) = [''table'']" "gr_parts (hd (dg_groups sample_graph)) = [''h'']"
      "gr_children (last (dg_groups sample_graph)) = [''u1'']" "gr_parts (last (dg_groups sample_graph)) = [''header'']"
      "du_parts (hd (dg_units sample_graph)) = [''row'']" "map gr_id (dg_groups sample_graph) = [''page'', ''table'']"
      "map (\<lambda>unit. (du_parts unit, du_id unit)) (dg_units sample_graph) = [([''row''], ''u1'')]" by code_simp+
  have first: "first_start sample_graph [''row''] = 7" by (simp add: first_start_def least_or_def p)
  have table: "group_start (Suc n) sample_graph ''table'' = Some 3" for n
    using first by (simp add: g p least_or_def)
  have page: "group_start (Suc (Suc n)) sample_graph ''page'' = Some 0" for n
    using table[of n] by (simp add: g p least_or_def)
  have "require_each (\<lambda>names. and_then (require (distinct names) ''duplicate part ID within node'') (\<lambda>_.
            require (windows_all (\<lambda>a b. part_position sample_graph a \<le> part_position sample_graph b) names)
              ''node parts are not in source order''))
        (map du_parts (dg_units sample_graph) @ map gr_parts (dg_groups sample_graph)) = Inr ()" by code_simp
  moreover have "map (group_start 3 sample_graph) (map gr_id (dg_groups sample_graph)) = [Some 0, Some 3]"
    unfolding g(10) using page[of 1] table[of 2] by (simp add: numeral_3_eq_3 numeral_2_eq_2 del: group_start.simps)
  then have "map (\<lambda>g. group_start 3 sample_graph (gr_id g)) (dg_groups sample_graph) = [Some 0, Some 3]"
    by (simp add: comp_def)
  moreover have "windows_all (\<le>) (zip [0 :: nat, 3] (map gr_id (dg_groups sample_graph)))" by code_simp
  moreover have "windows_all (\<le>) (map (\<lambda>unit. (first_start sample_graph (du_parts unit), du_id unit)) (dg_units sample_graph))"
    using arg_cong[OF g(11), of "map (\<lambda>(parts, name). (first_start sample_graph parts, name))"]
    by (simp add: comp_def windows_all_def)
  ultimately have "validate_order 3 sample_graph = Some (Inr ())"
    by (simp add: validate_order_def require_def del: group_start.simps)
  then show ?thesis using d c h m by (simp add: validate_inner_def)
qed

lemma graph_tiles_source_witness:
  "concat (map (slice sample_source) (sort (graph_ranges sample_graph))) = sample_source
     \<and> length (filter (holds_byte 8) (graph_ranges sample_graph)) = 1"
proof -
  have "8 < length sample_source" by code_simp
  then show ?thesis using graph_tiles_source[OF sample_valid] by blast
qed

lemma graph_is_forest_witness:
  "acyclic (parent_of sample_graph) \<and> (''table'', ''page'') \<in> parent_of sample_graph"
proof -
  have "node_parent sample_graph ''table'' = Some (Some ''page'')" by code_simp
  then show ?thesis using graph_is_forest[OF sample_valid] by (simp add: parent_of_def)
qed

lemma context_exact_witness:
  "\<exists>found. (\<forall>more. required_context (3 + more) sample_graph ''u1'' = Some (Inr found)) \<and> distinct found"
proof -
  have u: "hd (dg_units sample_graph) \<in> set (dg_units sample_graph)" "du_id (hd (dg_units sample_graph)) = ''u1''"
      "Suc (length (dg_groups sample_graph)) = 3"
    by code_simp+
  show ?thesis using context_exact[OF sample_valid u(1)] unfolding u(2,3) by blast
qed

lemma views_exact_witness:
  "list_all (\<lambda>view. list_all (membership_ok sample_graph) (vw_memberships view)) (dg_views sample_graph)"
  unfolding list_all_iff using views_exact[OF sample_valid] by blast

end
