(* ===== verification/Near_Duplicates.thy ===== *)
theory Near_Duplicates
  imports Documents "HOL-Library.Word"
begin

unbundle bit_operations_syntax

text \<open>
  Near duplicates, \<open>crates/maestro-knowledge/src/prepare/near.rs\<close>: the shingles of a document and
  their MinHash signature, the pairs whose signatures share a band, their confirmation by the exact
  Jaccard, and the groups the confirmed pairs link. A \<open>u64\<close> that is hashed is a \<open>64 word\<close>; a count
  is a \<open>nat\<close>. A \<open>HashMap\<close> whose order the code never shows is a list of its entries.
\<close>

section \<open>Constants and hashes\<close>

definition SHINGLE :: nat where
  "SHINGLE = 5"

definition HASHES :: nat where
  "HASHES = 128"

definition ROWS :: nat where
  "ROWS = 4"

text \<open>\<open>slice::windows\<close>: every run of \<open>n\<close> neighbours.\<close>

definition windows :: "nat \<Rightarrow> 'a list \<Rightarrow> 'a list list" where
  "windows n xs = map (\<lambda>i. take n (drop i xs)) [0..<Suc (length xs) - n]"

definition fnv :: "string list \<Rightarrow> 64 word" where
  "fnv names =
     fold (\<lambda>byte hash. (hash XOR byte) * 0x00000100000001b3)
       (concat (map (\<lambda>name. map of_char name @ [0xFF]) names)) 0xcbf29ce484222325"

definition mix :: "64 word \<Rightarrow> 64 word" where
  "mix v =
     (let mixed = v + 0x9e3779b97f4a7c15;
          mixed = (mixed XOR drop_bit 30 mixed) * 0xbf58476d1ce4e5b9;
          mixed = (mixed XOR drop_bit 27 mixed) * 0x94d049bb133111eb in
      mixed XOR drop_bit 31 mixed)"

definition shingles_of :: "'a list \<Rightarrow> 'a list list" where
  "shingles_of xs = (if windows SHINGLE xs = [] then [xs] else windows SHINGLE xs)"

definition least_hash :: "64 word list \<Rightarrow> 64 word" where
  "least_hash hashes = (case hashes of [] \<Rightarrow> - 1 | h # hs \<Rightarrow> fold min hs h)"

definition signature :: "string list \<Rightarrow> 64 word list" where
  "signature names =
     (let hashes = map fnv (shingles_of names) in
      map (\<lambda>seed. let seed = mix (of_nat seed) in least_hash (map (\<lambda>hash. mix (hash XOR seed)) hashes))
        [1..<Suc HASHES])"

section \<open>Shingles\<close>

text \<open>A vocabulary: words with their numbers.\<close>

type_synonym vocabulary = "(string \<times> nat) list"

definition word_number :: "string \<Rightarrow> vocabulary \<Rightarrow> nat \<times> vocabulary" where
  "word_number name vocabulary =
     (case map_of vocabulary name of
        Some n \<Rightarrow> (n, vocabulary)
      | None \<Rightarrow> (length vocabulary, (name, length vocabulary) # vocabulary))"

fun numbers :: "string list \<Rightarrow> vocabulary \<Rightarrow> nat list \<times> vocabulary" where
  "numbers [] vocabulary = ([], vocabulary)"
| "numbers (name # names) vocabulary =
     (let (n, vocabulary) = word_number name vocabulary; (ns, vocabulary) = numbers names vocabulary in (n # ns, vocabulary))"

record shingles =
  sh_words :: "nat list"
  sh_signature :: "64 word list option"

definition shingles_from :: "string list \<Rightarrow> vocabulary \<Rightarrow> shingles \<times> vocabulary" where
  "shingles_from names vocabulary =
     (let (ns, vocabulary) = numbers names vocabulary in
      (\<lparr>sh_words = ns, sh_signature = (if names \<noteq> [] then Some (signature names) else None)\<rparr>, vocabulary))"

definition shingle_set :: "shingles \<Rightarrow> nat list list" where
  "shingle_set s =
     (let set = windows SHINGLE (sh_words s);
          set = (if set = [] \<and> sh_words s \<noteq> [] then [sh_words s] else set) in
      remdups_adj (sort set))"

section \<open>Candidates\<close>

type_synonym prepared = "(string \<times> shingles) list"

text \<open>The entries of the buckets in the order they are pushed, and the members of each bucket.\<close>

definition bucket_entries :: "prepared \<Rightarrow> ((nat \<times> 64 word list) \<times> nat) list" where
  "bucket_entries documents =
     concat (map (\<lambda>(index, (_, s)). case sh_signature s of
         None \<Rightarrow> []
       | Some hashes \<Rightarrow> map (\<lambda>key. (key, index)) (enumerate 0 (pieces_of ROWS hashes)))
       (enumerate 0 documents))"

definition buckets :: "prepared \<Rightarrow> nat list list" where
  "buckets documents =
     (let entries = bucket_entries documents in
      map (\<lambda>key. map snd (filter (\<lambda>entry. fst entry = key) entries)) (remdups (map fst entries)))"

fun pairs_of :: "'a list \<Rightarrow> ('a \<times> 'a) list" where
  "pairs_of [] = []"
| "pairs_of (x # xs) = map (Pair x) xs @ pairs_of xs"

definition candidates :: "prepared \<Rightarrow> (nat \<times> nat) list" where
  "candidates documents = sort (remdups (concat (map pairs_of (buckets documents))))"

section \<open>Confirmation\<close>

fun shared_from :: "'a::linorder list \<Rightarrow> 'a list \<Rightarrow> nat \<Rightarrow> nat" where
  "shared_from (x # xs) (y # ys) n =
     (if x < y then shared_from xs (y # ys) n
      else if y < x then shared_from (x # xs) ys n
      else shared_from xs ys (Suc n))"
| "shared_from _ _ n = n"

definition overlap :: "'a::linorder list \<Rightarrow> 'a list \<Rightarrow> nat \<times> nat" where
  "overlap first second =
     (let shared = shared_from first second 0 in (shared, length first + length second - shared))"

text \<open>The quotient of two counts, each below two to the fifty-third and so an \<open>f64\<close> itself.\<close>

definition f64_quotient :: "nat \<Rightarrow> nat \<Rightarrow> f64" where
  "f64_quotient n d =
     (if d = 0 then F64 False (if n = 0 then NAN_BITS else INF_BITS) else F64 False (f64_round (int n) (int d)))"

definition U32_MAX :: nat where
  "U32_MAX = 4294967295"

definition ratio :: "nat \<Rightarrow> nat \<Rightarrow> f64" where
  "ratio shared whole = f64_quotient (min shared U32_MAX) (min whole U32_MAX)"

definition nth_opt :: "'a list \<Rightarrow> nat \<Rightarrow> 'a option" where
  "nth_opt xs i = (if i < length xs then Some (xs ! i) else None)"

definition confirm :: "prepared \<Rightarrow> nat \<times> nat \<Rightarrow> ((string \<times> string) \<times> f64) option" where
  "confirm documents pair =
     (case (nth_opt documents (fst pair), nth_opt documents (snd pair)) of
        (Some (first, s), Some (second, t)) \<Rightarrow>
          (let (shared, whole) = overlap (shingle_set s) (shingle_set t) in
           if whole * 85 \<le> shared * 100 then Some ((first, second), ratio shared whole) else None)
      | _ \<Rightarrow> None)"

definition confirmed :: "prepared \<Rightarrow> ((string \<times> string) \<times> f64) list" where
  "confirmed documents = List.map_filter (confirm documents) (candidates documents)"

section \<open>Groups\<close>

text \<open>\<open>f64::max\<close>.\<close>

definition f64_max :: "f64 \<Rightarrow> f64 \<Rightarrow> f64" where
  "f64_max v w = (if f64_is_nan v then w else if f64_is_nan w then v else if f64_le v w then w else v)"

type_synonym best = "(string \<times> f64) list"
type_synonym links = "(string \<times> string list) list"

definition best_insert :: "string \<Rightarrow> f64 \<Rightarrow> best \<Rightarrow> best" where
  "best_insert member jaccard best =
     btree_insert member (case map_of best member of None \<Rightarrow> f64_max jaccard jaccard | Some kept \<Rightarrow> f64_max kept jaccard) best"

definition links_to :: "links \<Rightarrow> string \<Rightarrow> string list" where
  "links_to links member = (case map_of links member of None \<Rightarrow> [] | Some others \<Rightarrow> others)"

definition link_insert :: "string \<Rightarrow> string \<Rightarrow> links \<Rightarrow> links" where
  "link_insert member other links = btree_insert member (insort_insert other (links_to links member)) links"

fun collect_links :: "((string \<times> string) \<times> f64) list \<Rightarrow> best \<times> links \<Rightarrow> best \<times> links" where
  "collect_links [] found = found"
| "collect_links (((first, second), jaccard) # pairs) (best, links) =
     collect_links pairs
       (best_insert second jaccard (best_insert first jaccard best),
        link_insert second first (link_insert first second links))"

text \<open>The loop over the pending members, the last first; each member not grouped yet is added once.\<close>

definition link_targets :: "links \<Rightarrow> string set" where
  "link_targets links = (\<Union>(_, others)\<in>set links. set others)"

lemma links_to_targets: "set (links_to links member) \<subseteq> link_targets links"
proof (cases "map_of links member")
  case (Some others)
  then have "(member, others) \<in> set links" by (rule map_of_SomeD)
  with Some show ?thesis by (auto simp: links_to_def link_targets_def)
qed (simp add: links_to_def)

function linked_loop :: "links \<Rightarrow> string list \<Rightarrow> string list \<Rightarrow> string list \<Rightarrow> string list \<times> string list" where
  "linked_loop links [] members grouped = (members, grouped)"
| "linked_loop links (member # pending) members grouped =
     (let reached = filter (\<lambda>other. other \<notin> set grouped) (links_to links member) in
      linked_loop links (rev reached @ pending) (fold insort_insert reached members) (fold insort_insert reached grouped))"
  by pat_completeness auto

lemma set_fold_insort: "set (fold insort_insert xs ys) = set xs \<union> set ys"
  by (induction xs arbitrary: ys) (auto simp: set_insort_insert)

termination linked_loop
proof (relation "measures [\<lambda>(links, pending, members, grouped). card (link_targets links - set grouped),
    \<lambda>(links, pending, members, grouped). length pending]", goal_cases)
  case (2 links member pending members grouped reached)
  have finite: "finite (link_targets links)" by (auto simp: link_targets_def)
  show ?case
  proof (cases "reached = []")
    case False
    then have "link_targets links - set (fold insort_insert reached grouped) \<subset> link_targets links - set grouped"
      using 2 links_to_targets[of links member] by (auto simp: set_fold_insort filter_empty_conv)
    then show ?thesis using finite by (simp add: psubset_card_mono)
  qed simp
qed simp

definition linked :: "string \<Rightarrow> links \<Rightarrow> string list \<Rightarrow> string list \<times> string list" where
  "linked start links grouped = linked_loop links [start] [start] grouped"

definition near_group :: "ext \<Rightarrow> string list \<Rightarrow> best \<Rightarrow> near_duplicate list" where
  "near_group x members best =
     (let name = ''near-'' @ digest_str (digest_of x (json_text x (JArr (map JStr members)))) in
      map (\<lambda>revision. \<lparr>nu_group = name, nu_revision = revision,
          nu_jaccard = (case map_of best revision of None \<Rightarrow> F64 False 0 | Some jaccard \<Rightarrow> jaccard)\<rparr>) members)"

fun groups_from :: "ext \<Rightarrow> links \<Rightarrow> best \<Rightarrow> string list \<Rightarrow> string list \<Rightarrow> near_duplicate list list" where
  "groups_from x links best [] grouped = []"
| "groups_from x links best (start # starts) grouped =
     (if start \<in> set grouped then groups_from x links best starts grouped
      else let (members, grouped) = linked start links (insort_insert start grouped) in
        near_group x members best # groups_from x links best starts grouped)"

definition near_groups :: "ext \<Rightarrow> prepared \<Rightarrow> near_duplicate list list" where
  "near_groups x documents =
     (let (best, links) = collect_links (confirmed documents) ([], []) in
      groups_from x links best (map fst links) [])"

end
