(* ===== verification/Near_Duplicate_Props.thy ===== *)
theory Near_Duplicate_Props
  imports Near_Duplicates Sample_Ext
begin

text \<open>
  What the grouping of near duplicates gives: exact counts of shared shingles, the connected
  components of the confirmed pairs, numbers the kernel accepts, and documents of the same words
  always together.
\<close>

section \<open>Shared shingles\<close>

lemma shared_from_exact:
  "sorted_wrt (<) xs \<Longrightarrow> sorted_wrt (<) ys \<Longrightarrow> shared_from xs ys n = n + card (set xs \<inter> set ys)"
proof (induction xs ys n rule: shared_from.induct)
  case (1 x xs y ys n)
  have tails: "sorted_wrt (<) xs" "sorted_wrt (<) ys" "\<forall>z\<in>set xs. x < z" "\<forall>z\<in>set ys. y < z"
    using 1(4,5) by simp_all
  consider "x < y" | "y < x" | "x = y" by fastforce
  then show ?case
  proof cases
    case 1
    then have "set (x # xs) \<inter> set (y # ys) = set xs \<inter> set (y # ys)" using tails by fastforce
    then show ?thesis using "1.IH"(1)[OF 1 tails(1) "1.prems"(2)] 1 by simp
  next
    case 2
    then have "set (x # xs) \<inter> set (y # ys) = set (x # xs) \<inter> set ys" using tails by fastforce
    then show ?thesis using "1.IH"(2)[OF _ 2 "1.prems"(1) tails(2)] 2 by (simp add: less_not_sym)
  next
    case 3
    then have "set (x # xs) \<inter> set (y # ys) = insert x (set xs \<inter> set ys)" by auto
    moreover have "x \<notin> set xs" using tails by blast
    ultimately show ?thesis using "1.IH"(3)[OF _ _ tails(1,2)] 3 by simp
  qed
qed simp_all

lemma distinct_remdups_adj: "sorted (xs :: 'a::linorder list) \<Longrightarrow> sorted_wrt (<) (remdups_adj xs)"
  by (induction xs rule: remdups_adj.induct) (auto simp: order_le_less)

lemma shingle_set_sorted: "sorted_wrt (<) (shingle_set s)"
  by (simp add: shingle_set_def Let_def distinct_remdups_adj)

lemma strict_distinct: "sorted_wrt (<) (xs :: 'a::linorder list) \<Longrightarrow> distinct xs"
  by (simp add: strict_sorted_iff)

text \<open>
  The loop over two sorted sets of shingles counts exactly: how many they share, and how many
  they hold together, each shingle once.
\<close>

theorem overlap_exact:
  "overlap (shingle_set s) (shingle_set t) =
     (card (set (shingle_set s) \<inter> set (shingle_set t)), card (set (shingle_set s) \<union> set (shingle_set t)))"
proof -
  let ?s = "shingle_set s" and ?t = "shingle_set t"
  have d: "distinct ?s" "distinct ?t" by (simp_all add: strict_distinct shingle_set_sorted)
  have "card (set ?s \<union> set ?t) + card (set ?s \<inter> set ?t) = length ?s + length ?t"
    using card_Un_Int[of "set ?s" "set ?t"] d by (simp add: distinct_card)
  moreover have "shared_from ?s ?t 0 = card (set ?s \<inter> set ?t)"
    using shared_from_exact[OF shingle_set_sorted shingle_set_sorted] by simp
  ultimately show ?thesis by (simp add: overlap_def Let_def)
qed

section \<open>Links\<close>

definition link_ok :: "links \<Rightarrow> bool" where
  "link_ok links \<longleftrightarrow> btree_ok links \<and> (\<forall>(a, others)\<in>set links. others \<noteq> [])"

lemma links_to_insert:
  "btree_ok links \<Longrightarrow> links_to (link_insert a b links) c = (if c = a then insort_insert b (links_to links a) else links_to links c)"
  by (simp add: link_insert_def links_to_def map_of_btree_insert)

lemma link_insert_ok: "link_ok links \<Longrightarrow> link_ok (link_insert a b links)"
  by (auto simp: link_ok_def link_insert_def btree_insert_ok btree_set_insert)
    (metis empty_iff insert_not_empty list.set(1) set_insort_insert)

text \<open>Two revisions a confirmed pair names.\<close>

definition paired :: "((string \<times> string) \<times> f64) list \<Rightarrow> string \<Rightarrow> string \<Rightarrow> bool" where
  "paired pairs a b \<longleftrightarrow> (\<exists>j. ((a, b), j) \<in> set pairs \<or> ((b, a), j) \<in> set pairs)"

lemma collect_links_exact:
  "collect_links pairs (best, links) = (best', links') \<Longrightarrow> link_ok links \<Longrightarrow>
     link_ok links' \<and> (\<forall>a b. b \<in> set (links_to links' a) \<longleftrightarrow> b \<in> set (links_to links a) \<or> paired pairs a b)"
proof (induction pairs "(best, links)" arbitrary: best links rule: collect_links.induct)
  case (2 first second jaccard pairs best links)
  let ?links = "link_insert second first (link_insert first second links)"
  have ok: "link_ok (link_insert first second links)" "link_ok ?links" using link_insert_ok 2(3) by blast+
  have "b \<in> set (links_to ?links a) \<longleftrightarrow> b \<in> set (links_to links a) \<or> (a = first \<and> b = second) \<or> (a = second \<and> b = first)" for a b
    using 2(3) ok(1) by (auto simp: links_to_insert link_ok_def set_insort_insert)
  moreover have "paired (((first, second), jaccard) # pairs) a b \<longleftrightarrow>
      paired pairs a b \<or> (a = first \<and> b = second) \<or> (a = second \<and> b = first)" for a b
    by (auto simp: paired_def)
  moreover have "collect_links pairs (best_insert second jaccard (best_insert first jaccard best), ?links) = (best', links')"
    using 2(2) by simp
  ultimately show ?case using 2(1)[OF _ ok(2)] by blast
qed (simp add: paired_def)

lemma f64_max_le:
  "\<not> f64_is_nan v \<Longrightarrow> \<not> f64_is_nan w \<Longrightarrow> \<not> f64_is_nan (f64_max v w) \<and> f64_le v (f64_max v w) \<and> f64_le w (f64_max v w)
     \<and> (f64_max v w = v \<or> f64_max v w = w)"
  by (auto simp: f64_max_def f64_le_def)

text \<open>The numbers of the pairs that name a revision; the best is one of them, and none is above it.\<close>

definition jaccards :: "((string \<times> string) \<times> f64) list \<Rightarrow> string \<Rightarrow> f64 set" where
  "jaccards pairs a = {j. \<exists>b. ((a, b), j) \<in> set pairs \<or> ((b, a), j) \<in> set pairs}"

definition best_ok :: "best \<Rightarrow> (string \<Rightarrow> f64 set) \<Rightarrow> bool" where
  "best_ok best J \<longleftrightarrow> btree_ok best \<and>
     (\<forall>a. case map_of best a of None \<Rightarrow> J a = {} | Some v \<Rightarrow> v \<in> J a \<and> (\<forall>j\<in>J a. f64_le j v))"

lemma best_insert_ok:
  assumes ok: "best_ok best J" and finite: "\<forall>a. \<forall>j\<in>J a. \<not> f64_is_nan j" and j: "\<not> f64_is_nan j"
  shows "best_ok (best_insert a j best) (\<lambda>b. if b = a then insert j (J a) else J b)"
proof -
  have tree: "btree_ok (best_insert a j best)" using ok by (simp add: best_ok_def best_insert_def btree_insert_ok)
  have others: "map_of (best_insert a j best) b = map_of best b" if "b \<noteq> a" for b
    using ok that by (simp add: best_ok_def best_insert_def map_of_btree_insert)
  have same: "f64_le j j" using j by (simp add: f64_le_def)
  have "\<exists>v. map_of (best_insert a j best) a = Some v \<and> v \<in> insert j (J a) \<and> (\<forall>i\<in>insert j (J a). f64_le i v)"
  proof (cases "map_of best a")
    case None
    have "J a = {}" using spec[OF conjunct2[OF ok[unfolded best_ok_def]], of a] None by simp
    moreover have "f64_max j j = j" using j by (auto simp: f64_max_def)
    ultimately show ?thesis using None ok same by (simp add: best_ok_def best_insert_def map_of_btree_insert)
  next
    case (Some v)
    then have v: "v \<in> J a" "\<forall>i\<in>J a. f64_le i v" using spec[OF conjunct2[OF ok[unfolded best_ok_def]], of a] by simp_all
    then have "\<not> f64_is_nan v" using finite by blast
    note m = f64_max_le[OF this j]
    have one: "f64_max v j \<in> insert j (J a)" using m v(1) by (elim conjE disjE) simp_all
    have "f64_le i (f64_max v j)" if i: "i \<in> insert j (J a)" for i
    proof (cases "i = j")
      case True
      then show ?thesis using m by simp
    next
      case False
      then have "f64_le i v" using i v(2) by blast
      moreover have "f64_le v (f64_max v j)" using m by simp
      ultimately show ?thesis by (rule f64_le_trans)
    qed
    then show ?thesis using one Some ok by (simp add: best_ok_def best_insert_def map_of_btree_insert)
  qed
  then obtain v where v: "map_of (best_insert a j best) a = Some v" "v \<in> insert j (J a)" "\<forall>i\<in>insert j (J a). f64_le i v"
    by blast
  have "case map_of (best_insert a j best) b of None \<Rightarrow> (if b = a then insert j (J a) else J b) = {}
      | Some v \<Rightarrow> v \<in> (if b = a then insert j (J a) else J b) \<and> (\<forall>i\<in>(if b = a then insert j (J a) else J b). f64_le i v)" for b
  proof (cases "b = a")
    case True
    then show ?thesis using v by simp
  next
    case False
    then show ?thesis unfolding others[OF False] using spec[OF conjunct2[OF ok[unfolded best_ok_def]], of b] by simp
  qed
  then show ?thesis using tree by (simp add: best_ok_def)
qed

lemma collect_links_best:
  "collect_links pairs (best, links) = (best', links') \<Longrightarrow> best_ok best J \<Longrightarrow> \<forall>a. \<forall>j\<in>J a. \<not> f64_is_nan j \<Longrightarrow>
     \<forall>(p, j)\<in>set pairs. \<not> f64_is_nan j \<Longrightarrow> best_ok best' (\<lambda>a. J a \<union> jaccards pairs a)"
proof (induction pairs "(best, links)" arbitrary: best links J rule: collect_links.induct)
  case (2 first second j pairs best links)
  have j: "\<not> f64_is_nan j" using 2(5) by simp
  define K where "K = (\<lambda>b. if b = first then insert j (J first) else J b)"
  define L where "L = (\<lambda>b. if b = second then insert j (K second) else K b)"
  have one: "best_ok (best_insert first j best) K" unfolding K_def by (rule best_insert_ok[OF 2(3,4) j])
  have K: "\<forall>a. \<forall>i\<in>K a. \<not> f64_is_nan i" using 2(4) j by (simp add: K_def)
  have two: "best_ok (best_insert second j (best_insert first j best)) L"
    unfolding L_def by (rule best_insert_ok[OF one K j])
  have L: "\<forall>a. \<forall>i\<in>L a. \<not> f64_is_nan i" using K j by (simp add: L_def)
  have step: "collect_links pairs (best_insert second j (best_insert first j best),
      link_insert second first (link_insert first second links)) = (best', links')" using 2(2) by simp
  have rest: "\<forall>(p, j)\<in>set pairs. \<not> f64_is_nan j" using 2(5) by simp
  have "best_ok best' (\<lambda>a. L a \<union> jaccards pairs a)" by (rule 2(1)[OF step two L rest])
  moreover have "(\<lambda>a. L a \<union> jaccards pairs a) = (\<lambda>a. J a \<union> jaccards (((first, second), j) # pairs) a)"
    by (auto simp: jaccards_def K_def L_def fun_eq_iff)
  ultimately show ?case by simp
qed (simp add: jaccards_def)

section \<open>The search for a group\<close>

lemma linked_loop_closed:
  "linked_loop links pending members grouped = (members', grouped') \<Longrightarrow> set grouped = old \<union> set members \<Longrightarrow>
     set pending \<subseteq> set members \<Longrightarrow> set members \<subseteq> kin \<Longrightarrow> kin \<inter> old = {} \<Longrightarrow>
     \<forall>a\<in>kin. set (links_to links a) \<subseteq> kin \<Longrightarrow> \<forall>a\<in>set members - set pending. set (links_to links a) \<subseteq> set members \<Longrightarrow>
     set grouped' = old \<union> set members' \<and> set members \<subseteq> set members' \<and> set members' \<subseteq> kin
       \<and> (\<forall>a\<in>set members'. set (links_to links a) \<subseteq> set members')"
proof (induction links pending members grouped rule: linked_loop.induct)
  case (2 links member pending members grouped)
  let ?reached = "filter (\<lambda>other. other \<notin> set grouped) (links_to links member)"
  have member: "member \<in> kin" "set ?reached \<subseteq> kin" using 2 by auto
  have links: "set (links_to links member) \<subseteq> set members \<union> set ?reached"
    using member(1) 2(3,6,7) by auto
  have "\<forall>a\<in>set (fold insort_insert ?reached members) - set (rev ?reached @ pending).
      set (links_to links a) \<subseteq> set (fold insort_insert ?reached members)"
    using 2(8) links by (auto simp: set_fold_insort)
  moreover have "set (fold insort_insert ?reached members) \<subseteq> kin"
    using 2(5) member(2) by (simp add: set_fold_insort)
  moreover have "set (fold insort_insert ?reached grouped) = old \<union> set (fold insort_insert ?reached members)"
    using 2(3) by (auto simp: set_fold_insort)
  moreover have "set (rev ?reached @ pending) \<subseteq> set (fold insort_insert ?reached members)"
    using 2(4) by (auto simp: set_fold_insort)
  moreover have "linked_loop links (rev ?reached @ pending) (fold insort_insert ?reached members)
      (fold insort_insert ?reached grouped) = (members', grouped')" using 2(2) by (simp add: Let_def)
  ultimately have "set grouped' = old \<union> set members' \<and> set (fold insort_insert ?reached members) \<subseteq> set members'
      \<and> set members' \<subseteq> kin \<and> (\<forall>a\<in>set members'. set (links_to links a) \<subseteq> set members')"
    by (intro 2(1)[OF refl]) (use 2(6,7) in simp_all)
  then show ?case by (simp add: set_fold_insort)
qed simp

lemma fold_insort_sorted:
  "sorted_wrt (<) (ys :: 'a::linorder list) \<Longrightarrow> sorted_wrt (<) (fold insort_insert xs ys)"
  by (induction xs arbitrary: ys) (auto simp: strict_sorted_iff sorted_insort_insert distinct_insort_insert)

lemma linked_loop_sorted:
  "linked_loop links pending members grouped = (members', grouped') \<Longrightarrow> sorted_wrt (<) members \<Longrightarrow> sorted_wrt (<) members'"
  by (induction links pending members grouped rule: linked_loop.induct) (auto simp: fold_insort_sorted Let_def)

definition link_rel :: "links \<Rightarrow> (string \<times> string) set" where
  "link_rel links = {(a, b). b \<in> set (links_to links a)}"

lemma linked_exact:
  assumes run: "linked start links grouped = (members, grouped')" and start: "set grouped = insert start old"
    and closed: "\<forall>a\<in>old. set (links_to links a) \<subseteq> old" and sym: "sym (link_rel links)" and new: "start \<notin> old"
  shows "set members = (link_rel links)\<^sup>* `` {start} \<and> sorted_wrt (<) members \<and> set grouped' = old \<union> set members"
proof -
  let ?R = "link_rel links" and ?kin = "(link_rel links)\<^sup>* `` {start}"
  have "b \<in> old" if "(a, b) \<in> ?R\<^sup>*" "a \<in> old" for a b
    using that by (induction rule: rtrancl_induct) (use closed in \<open>auto simp: link_rel_def\<close>)
  moreover have "sym (?R\<^sup>*)" by (rule sym_rtrancl[OF sym])
  ultimately have disjoint: "?kin \<inter> old = {}" using new by (auto dest: symD)
  have closed': "\<forall>a\<in>?kin. set (links_to links a) \<subseteq> ?kin"
    by (auto simp: link_rel_def intro: rtrancl_into_rtrancl)
  have *: "set grouped' = old \<union> set members \<and> set [start] \<subseteq> set members \<and> set members \<subseteq> ?kin
      \<and> (\<forall>a\<in>set members. set (links_to links a) \<subseteq> set members)"
    by (rule linked_loop_closed[OF run[unfolded linked_def] _ _ _ disjoint closed']) (use start in auto)
  have "b \<in> set members" if "(start, b) \<in> ?R\<^sup>*" for b
    using that by (induction rule: rtrancl_induct) (use * in \<open>auto simp: link_rel_def\<close>)
  then have "set members = ?kin" using * by blast
  moreover have "sorted_wrt (<) members" by (rule linked_loop_sorted[OF run[unfolded linked_def]]) simp
  ultimately show ?thesis using * by simp
qed

text \<open>The members of the groups, each group's as a list.\<close>

definition member_lists :: "near_duplicate list list \<Rightarrow> string list list" where
  "member_lists groups = map (map nu_revision) groups"

lemma near_group_members: "map nu_revision (near_group x members best) = members"
  by (simp add: near_group_def Let_def comp_def)

lemma groups_from_exact:
  "sym (link_rel links) \<Longrightarrow> \<forall>a\<in>set grouped. set (links_to links a) \<subseteq> set grouped \<Longrightarrow>
     distinct (concat (member_lists (groups_from x links best starts grouped)))
     \<and> (\<forall>ms\<in>set (member_lists (groups_from x links best starts grouped)).
          (\<exists>a\<in>set starts. set ms = (link_rel links)\<^sup>* `` {a}) \<and> sorted_wrt (<) ms \<and> set ms \<inter> set grouped = {})
     \<and> set starts \<subseteq> set grouped \<union> set (concat (member_lists (groups_from x links best starts grouped)))"
proof (induction starts arbitrary: grouped)
  case (Cons start starts)
  show ?case
  proof (cases "start \<in> set grouped")
    case True
    have "set starts \<subseteq> set grouped \<union> set (concat (member_lists (groups_from x links best starts grouped)))"
      and "distinct (concat (member_lists (groups_from x links best starts grouped)))"
      and "\<forall>ms\<in>set (member_lists (groups_from x links best starts grouped)).
          (\<exists>a\<in>set starts. set ms = (link_rel links)\<^sup>* `` {a}) \<and> sorted_wrt (<) ms \<and> set ms \<inter> set grouped = {}"
      using Cons by blast+
    then show ?thesis using True by auto
  next
    case False
    obtain members grouped' where run: "linked start links (insort_insert start grouped) = (members, grouped')"
      by fastforce
    let ?rest = "groups_from x links best starts grouped'"
    have one: "set members = (link_rel links)\<^sup>* `` {start}" "sorted_wrt (<) members" "set grouped' = set grouped \<union> set members"
      using linked_exact[OF run _ Cons(3,2) False] by (simp_all add: set_insort_insert)
    have closed: "\<forall>a\<in>set grouped'. set (links_to links a) \<subseteq> set grouped'"
    proof
      fix a assume "a \<in> set grouped'"
      then consider "a \<in> set grouped" | "a \<in> (link_rel links)\<^sup>* `` {start}" using one by blast
      then show "set (links_to links a) \<subseteq> set grouped'"
        using Cons(3) one by cases (auto simp: link_rel_def intro: rtrancl_into_rtrancl)
    qed
    note rest = Cons.IH[OF Cons(2) closed]
    have groups: "member_lists (groups_from x links best (start # starts) grouped) = members # member_lists ?rest"
      using False run by (simp add: member_lists_def near_group_members)
    have start: "start \<in> set members" using one(1) by simp
    have "b \<notin> set grouped" if "b \<in> set members" for b
    proof
      assume b: "b \<in> set grouped"
      have "(start, b) \<in> (link_rel links)\<^sup>*" using that one(1) by simp
      then have "(b, start) \<in> (link_rel links)\<^sup>*" using sym_rtrancl[OF Cons(2)] by (meson symD)
      then have "start \<in> set grouped"
        using b by (induction rule: rtrancl_induct) (use Cons(3) in \<open>auto simp: link_rel_def\<close>)
      then show False using False by contradiction
    qed
    then have apart: "set members \<inter> set grouped = {}" by blast
    have "distinct members" using one(2) by (simp add: strict_sorted_iff)
    moreover have "set members \<inter> set (concat (member_lists ?rest)) = {}"
      using rest one(3) by fastforce
    ultimately have "distinct (concat (members # member_lists ?rest))" using rest by simp
    moreover have "(\<exists>a\<in>set (start # starts). set ms = (link_rel links)\<^sup>* `` {a}) \<and> sorted_wrt (<) ms \<and> set ms \<inter> set grouped = {}"
      if "ms \<in> set (members # member_lists ?rest)" for ms
    proof (cases "ms = members")
      case True
      then show ?thesis using one apart by auto
    next
      case False
      then have "ms \<in> set (member_lists ?rest)" using that by simp
      then have "(\<exists>a\<in>set starts. set ms = (link_rel links)\<^sup>* `` {a}) \<and> sorted_wrt (<) ms \<and> set ms \<inter> set grouped' = {}"
        using rest by blast
      then show ?thesis unfolding one(3) by auto
    qed
    moreover have "set (start # starts) \<subseteq> set grouped \<union> set (concat (members # member_lists ?rest))"
      using rest start one(3) by auto
    ultimately show ?thesis unfolding groups by blast
  qed
qed (simp add: member_lists_def)

section \<open>The rounded quotient\<close>

lemma bit_length_bounds:
  "0 < n \<Longrightarrow> 0 < bit_length n \<and> 2 ^ (bit_length n - 1) \<le> n \<and> n < 2 ^ bit_length n"
proof (induction n rule: bit_length.induct)
  case (1 n)
  show ?case
  proof (cases "n = 1")
    case True
    then show ?thesis by (simp add: bit_length.simps)
  next
    case False
    then have half: "0 < n div 2" using 1 by simp
    have "\<not> n \<le> 0" using 1 by simp
    note IH = "1.IH"[OF this half]
    have len: "bit_length n = Suc (bit_length (n div 2))" using 1 by (subst bit_length.simps) simp
    have "2 ^ (bit_length n - 1) = 2 * (2::int) ^ (bit_length (n div 2) - 1)"
      using IH by (simp add: len power_Suc[symmetric])
    moreover have "2 ^ bit_length n = 2 * (2::int) ^ bit_length (n div 2)" by (simp add: len)
    ultimately show ?thesis using IH len by linarith
  qed
qed

lemma round_half_even_le:
  assumes "0 < b" and "a \<le> b * m"
  shows "round_half_even a b \<le> m"
proof (cases "a div b = m")
  case True
  then have "a mod b = 0" using assms
    by (metis add.right_neutral add_le_same_cancel1 mult_div_mod_eq nle_le pos_mod_sign)
  then show ?thesis using True assms by (simp add: round_half_even_def Let_def)
next
  case False
  have "a div b \<le> m" using assms
    by (metis nonzero_mult_div_cancel_left order_less_irrefl zdiv_mono1)
  then show ?thesis using False by (simp add: round_half_even_def Let_def)
qed

lemma power_split: "0 \<le> i \<Longrightarrow> i \<le> j \<Longrightarrow> (2::int) ^ nat j = 2 ^ nat i * 2 ^ nat (j - i)"
  by (simp add: power_add[symmetric] nat_add_distrib[symmetric])

text \<open>A quotient at most one rounds to a number at most one, \<open>4607182418800017408\<close> in bits.\<close>

lemma f64_round_le_one:
  assumes "0 < n" and "n \<le> d"
  shows "f64_round n d \<le> 4607182418800017408"
proof -
  define e where "e = int (bit_length n) - int (bit_length d)"
  define log where "log = (if d * 2 ^ nat e \<le> n * 2 ^ nat (- e) then e else e - 1)"
  define unit where "unit = max (log - 52) (- 1074)"
  have d: "0 < d" using assms by simp
  note bn = bit_length_bounds[OF assms(1)] and bd = bit_length_bounds[OF d]
  have "bit_length n \<le> bit_length d"
  proof (rule ccontr)
    assume "\<not> bit_length n \<le> bit_length d"
    then have "(2::int) ^ bit_length d \<le> 2 ^ (bit_length n - 1)" by (intro power_increasing) auto
    then show False using bn bd assms by linarith
  qed
  then have e: "e \<le> 0" by (simp add: e_def)
  have round: "f64_round n d = min INF_BITS ((unit + 1074) * 2 ^ 52 + round_half_even (n * 2 ^ nat (- unit)) (d * 2 ^ nat unit))"
    using assms by (simp add: f64_round_def last_bit_def Let_def unit_def log_def e_def)
  show ?thesis
  proof (cases "log = 0")
    case True
    then have "e = 0" using e by (auto simp: log_def split: if_splits)
    with True have "d \<le> n" by (auto simp: log_def split: if_splits)
    then have "n = d" using assms by simp
    moreover have "unit = - 52" using True by (simp add: unit_def)
    moreover have "round_half_even (d * 2 ^ 52) d \<le> 2 ^ 52" using d by (intro round_half_even_le) simp_all
    ultimately show ?thesis unfolding round by simp
  next
    case False
    then have log: "log \<le> - 1" using e by (auto simp: log_def split: if_splits)
    then have unit: "unit \<le> - 53" "- unit \<le> 53 - (log + 1)" by (auto simp: unit_def)
    have small: "n * 2 ^ nat (- (log + 1)) \<le> d"
    proof (cases "d * 2 ^ nat e \<le> n * 2 ^ nat (- e)")
      case True
      then have l: "log = e" by (simp add: log_def)
      have "nat (- (log + 1)) = (bit_length d - 1) - bit_length n" using log l e bd by (auto simp: e_def)
      moreover have "bit_length n \<le> bit_length d - 1" using log l by (auto simp: e_def)
      ultimately have "(2::int) ^ bit_length n * 2 ^ nat (- (log + 1)) = 2 ^ (bit_length d - 1)"
        by (simp add: power_add[symmetric])
      moreover have "n * 2 ^ nat (- (log + 1)) \<le> 2 ^ bit_length n * 2 ^ nat (- (log + 1))"
        using bn by (intro mult_right_mono) simp_all
      ultimately show ?thesis using bd by linarith
    next
      case False
      then show ?thesis using e by (simp add: log_def)
    qed
    have "n * 2 ^ nat (- unit) \<le> n * 2 ^ nat (53 - (log + 1))"
      using assms unit by (intro mult_left_mono power_increasing) simp_all
    also have "\<dots> = (n * 2 ^ nat (- (log + 1))) * 2 ^ 53"
      using power_split[of 53 "53 - (log + 1)"] log by (simp add: algebra_simps)
    also have "\<dots> \<le> d * 2 ^ 53" using small by (intro mult_right_mono) simp_all
    finally have "round_half_even (n * 2 ^ nat (- unit)) d \<le> 2 ^ 53" using d by (intro round_half_even_le) simp_all
    moreover have "nat unit = 0" using unit by simp
    moreover have "(unit + 1074) * 2 ^ 52 \<le> 1021 * (2::int) ^ 52" using unit by (intro mult_right_mono) simp_all
    ultimately show ?thesis unfolding round by simp
  qed
qed

lemma ratio_is_jaccard:
  assumes "shared \<le> whole" and "0 < whole"
  shows "is_jaccard (ratio shared whole)"
proof (cases "shared = 0")
  case True
  have d: "min whole U32_MAX \<noteq> 0" using assms by (simp add: U32_MAX_def min_def)
  have "ratio shared whole = F64 False 0" unfolding ratio_def f64_quotient_def if_not_P[OF d]
    using True by (simp add: f64_round_def)
  then show ?thesis
    by (simp add: is_jaccard_def f64_le_def f64_is_nan_def f64_rank_def Rust_Numbers.signed_def INF_BITS_def)
next
  case False
  let ?n = "int (min shared U32_MAX)" and ?d = "int (min whole U32_MAX)"
  have d: "min whole U32_MAX \<noteq> 0" and n: "0 < ?n" "?n \<le> ?d" using assms False by (auto simp: U32_MAX_def)
  have "0 \<le> f64_round ?n ?d" "f64_round ?n ?d \<le> 4607182418800017408"
    using n by (intro f64_round_nonneg f64_round_le_one; linarith)+
  then show ?thesis unfolding ratio_def f64_quotient_def if_not_P[OF d]
    by (simp add: is_jaccard_def f64_le_def f64_is_nan_def f64_rank_def Rust_Numbers.signed_def INF_BITS_def)
qed

section \<open>Candidates and confirmed pairs\<close>

lemma pairs_of_set: "(x, y) \<in> set (pairs_of xs) \<Longrightarrow> x \<in> set xs \<and> y \<in> set xs"
  by (induction xs) auto

lemma pairs_of_two: "x \<in> set xs \<Longrightarrow> y \<in> set xs \<Longrightarrow> x \<noteq> y \<Longrightarrow> (x, y) \<in> set (pairs_of xs) \<or> (y, x) \<in> set (pairs_of xs)"
  by (induction xs) auto

lemma enumerate_ex: "(\<exists>e\<in>set (enumerate 0 xs). fst e = i \<and> P (snd e)) \<longleftrightarrow> i < length xs \<and> P (xs ! i)"
proof
  assume "i < length xs \<and> P (xs ! i)"
  then show "\<exists>e\<in>set (enumerate 0 xs). fst e = i \<and> P (snd e)"
    by (intro bexI[of _ "(i, xs ! i)"]) (simp_all add: in_set_enumerate_eq)
qed (auto simp: in_set_enumerate_eq)

lemma bucket_entry:
  "(key, i) \<in> set (bucket_entries documents) \<longleftrightarrow> i < length documents \<and>
     (\<exists>hashes. sh_signature (snd (documents ! i)) = Some hashes \<and> key \<in> set (enumerate 0 (pieces_of ROWS hashes)))"
proof -
  have "(key, i) \<in> set (bucket_entries documents) \<longleftrightarrow> (\<exists>e\<in>set (enumerate 0 documents). fst e = i \<and>
     (\<exists>hashes. sh_signature (snd (snd e)) = Some hashes \<and> key \<in> set (enumerate 0 (pieces_of ROWS hashes))))"
    unfolding bucket_entries_def set_concat set_map UN_iff bex_simps
    by (rule bex_cong[OF refl]) (auto split: option.splits intro: sym, metis)
  then show ?thesis
    by (simp only: enumerate_ex[where P = "\<lambda>d. \<exists>hashes. sh_signature (snd d) = Some hashes
      \<and> key \<in> set (enumerate 0 (pieces_of ROWS hashes))"])
qed

lemma candidate_iff:
  "p \<in> set (candidates documents) \<longleftrightarrow> (\<exists>members\<in>set (buckets documents). p \<in> set (pairs_of members))"
  by (simp add: candidates_def)

lemma bucket_member:
  "members \<in> set (buckets documents) \<Longrightarrow> i \<in> set members \<Longrightarrow> \<exists>key. (key, i) \<in> set (bucket_entries documents)"
  by (fastforce simp: buckets_def Let_def)

lemma bucket_of:
  "(key, i) \<in> set (bucket_entries documents) \<Longrightarrow>
     \<exists>members\<in>set (buckets documents). \<forall>j. (key, j) \<in> set (bucket_entries documents) \<longrightarrow> j \<in> set members"
  by (force simp: buckets_def Let_def)

lemma candidate_signed:
  assumes "(i, j) \<in> set (candidates documents)"
  shows "i < length documents \<and> sh_signature (snd (documents ! i)) \<noteq> None"
    and "j < length documents \<and> sh_signature (snd (documents ! j)) \<noteq> None"
proof -
  obtain members where members: "members \<in> set (buckets documents)" "(i, j) \<in> set (pairs_of members)"
    using assms by (auto simp: candidate_iff)
  have at: "i \<in> set members" "j \<in> set members" using pairs_of_set[OF members(2)] by simp_all
  show "i < length documents \<and> sh_signature (snd (documents ! i)) \<noteq> None"
    using bucket_member[OF members(1) at(1)] by (auto simp: bucket_entry)
  show "j < length documents \<and> sh_signature (snd (documents ! j)) \<noteq> None"
    using bucket_member[OF members(1) at(2)] by (auto simp: bucket_entry)
qed

text \<open>Two documents with one signature share every band.\<close>

lemma same_signature_candidate:
  assumes "i < length documents" and "j < length documents" and "i \<noteq> j"
    and "sh_signature (snd (documents ! i)) = Some hashes" and "sh_signature (snd (documents ! j)) = Some hashes"
    and "hashes \<noteq> []"
  shows "(i, j) \<in> set (candidates documents) \<or> (j, i) \<in> set (candidates documents)"
proof -
  have "pieces_of ROWS hashes \<noteq> []" using assms by (subst pieces_of.simps) (simp add: ROWS_def)
  then obtain key where key: "key \<in> set (enumerate 0 (pieces_of ROWS hashes))"
    by (metis length_enumerate length_greater_0_conv nth_mem)
  then have "(key, i) \<in> set (bucket_entries documents)" "(key, j) \<in> set (bucket_entries documents)"
    using assms by (auto simp: bucket_entry)
  then obtain members where "members \<in> set (buckets documents)" "i \<in> set members" "j \<in> set members"
    using bucket_of[of key i documents] by blast
  then show ?thesis using pairs_of_two[of i members j] assms(3) by (auto simp: candidate_iff)
qed

text \<open>A document whose words were numbered: one with a signature has words.\<close>

definition shingles_ok :: "prepared \<Rightarrow> bool" where
  "shingles_ok documents \<longleftrightarrow> list_all (\<lambda>(revision, s). sh_signature s \<noteq> None \<longrightarrow> sh_words s \<noteq> []) documents"

lemma shingle_set_set: "sh_words s \<noteq> [] \<Longrightarrow> set (shingle_set s) = set (shingles_of (sh_words s))"
  by (auto simp: shingle_set_def shingles_of_def Let_def)

lemma shingle_set_nonempty:
  assumes "sh_words s \<noteq> []"
  shows "shingle_set s \<noteq> []"
proof -
  have "shingles_of (sh_words s) \<noteq> []" by (simp add: shingles_of_def)
  then show ?thesis using shingle_set_set[OF assms] by (metis set_empty)
qed

definition jaccard_of :: "shingles \<Rightarrow> shingles \<Rightarrow> nat \<times> nat" where
  "jaccard_of s t = (card (set (shingle_set s) \<inter> set (shingle_set t)), card (set (shingle_set s) \<union> set (shingle_set t)))"

lemma overlap_counts: "overlap (shingle_set s) (shingle_set t) = jaccard_of s t"
proof -
  let ?s = "shingle_set s" and ?t = "shingle_set t"
  have d: "distinct ?s" "distinct ?t" by (simp_all add: strict_distinct shingle_set_sorted)
  have "card (set ?s \<union> set ?t) + card (set ?s \<inter> set ?t) = length ?s + length ?t"
    using card_Un_Int[of "set ?s" "set ?t"] d by (simp add: distinct_card)
  moreover have "shared_from ?s ?t 0 = card (set ?s \<inter> set ?t)"
    using shared_from_exact[OF shingle_set_sorted shingle_set_sorted] by simp
  ultimately show ?thesis by (simp add: overlap_def jaccard_of_def Let_def)
qed

lemma confirmed_iff:
  "((a, b), v) \<in> set (confirmed documents) \<longleftrightarrow>
     (\<exists>i j s t. (i, j) \<in> set (candidates documents) \<and> documents ! i = (a, s) \<and> documents ! j = (b, t)
        \<and> snd (jaccard_of s t) * 85 \<le> fst (jaccard_of s t) * 100 \<and> v = ratio (fst (jaccard_of s t)) (snd (jaccard_of s t)))"
proof
  assume "((a, b), v) \<in> set (confirmed documents)"
  then obtain i j where pair: "(i, j) \<in> set (candidates documents)" "confirm documents (i, j) = Some ((a, b), v)"
    by (force simp: confirmed_def List.map_filter_def)
  have "i < length documents" "j < length documents" using candidate_signed[OF pair(1)] by simp_all
  then show "\<exists>i j s t. (i, j) \<in> set (candidates documents) \<and> documents ! i = (a, s) \<and> documents ! j = (b, t)
        \<and> snd (jaccard_of s t) * 85 \<le> fst (jaccard_of s t) * 100 \<and> v = ratio (fst (jaccard_of s t)) (snd (jaccard_of s t))"
    using pair by (cases "documents ! i"; cases "documents ! j")
      (auto simp: confirm_def nth_opt_def overlap_counts case_prod_beta split: if_splits)
next
  assume "\<exists>i j s t. (i, j) \<in> set (candidates documents) \<and> documents ! i = (a, s) \<and> documents ! j = (b, t)
        \<and> snd (jaccard_of s t) * 85 \<le> fst (jaccard_of s t) * 100 \<and> v = ratio (fst (jaccard_of s t)) (snd (jaccard_of s t))"
  then obtain i j s t where pair: "(i, j) \<in> set (candidates documents)" "documents ! i = (a, s)" "documents ! j = (b, t)"
      "snd (jaccard_of s t) * 85 \<le> fst (jaccard_of s t) * 100" "v = ratio (fst (jaccard_of s t)) (snd (jaccard_of s t))" by blast
  have "i < length documents" "j < length documents" using candidate_signed[OF pair(1)] by simp_all
  then have "confirm documents (i, j) = Some ((a, b), v)"
    using pair by (simp add: confirm_def nth_opt_def overlap_counts case_prod_beta)
  then show "((a, b), v) \<in> set (confirmed documents)"
    using pair(1) by (auto simp: confirmed_def List.map_filter_def intro!: image_eqI[of _ _ "(i, j)"])
qed

lemma confirmed_jaccard:
  assumes ok: "shingles_ok documents" and pair: "(p, v) \<in> set (confirmed documents)"
  shows "is_jaccard v"
proof -
  obtain i j s t where c: "(i, j) \<in> set (candidates documents)" "documents ! i = (fst p, s)"
      "v = ratio (fst (jaccard_of s t)) (snd (jaccard_of s t))"
    using pair confirmed_iff[of "fst p" "snd p" v documents] by auto
  have "i < length documents" "sh_signature s \<noteq> None" using candidate_signed(1)[OF c(1)] c(2) by auto
  moreover have "(fst p, s) \<in> set documents" using calculation(1) c(2) by (metis nth_mem)
  ultimately have "shingle_set s \<noteq> []" using ok by (auto simp: shingles_ok_def list_all_iff intro!: shingle_set_nonempty)
  then have "0 < snd (jaccard_of s t)" "fst (jaccard_of s t) \<le> snd (jaccard_of s t)"
    by (auto simp: jaccard_of_def card_gt_0_iff intro!: card_mono)
  then show ?thesis unfolding c(3) by (intro ratio_is_jaccard)
qed

section \<open>The groups\<close>

definition pair_rel :: "prepared \<Rightarrow> (string \<times> string) set" where
  "pair_rel documents = {(a, b). paired (confirmed documents) a b}"

lemma sym_pair_rel: "sym (pair_rel documents)"
  by (auto simp: pair_rel_def paired_def sym_def)

text \<open>What the loop over the confirmed pairs leaves for the groups.\<close>

lemma collected:
  assumes run: "collect_links (confirmed documents) ([], []) = (best, links)"
  shows "link_ok links" and "link_rel links = pair_rel documents" and "fst ` set links = Domain (pair_rel documents)"
    and "shingles_ok documents \<Longrightarrow> best_ok best (jaccards (confirmed documents))"
proof -
  have links: "link_ok links" "b \<in> set (links_to links a) \<longleftrightarrow> paired (confirmed documents) a b" for a b
    using collect_links_exact[OF run] by (simp_all add: link_ok_def links_to_def)
  show "link_ok links" by (rule links(1))
  show rel: "link_rel links = pair_rel documents" by (simp add: link_rel_def pair_rel_def links(2))
  have "a \<in> fst ` set links \<longleftrightarrow> links_to links a \<noteq> []" for a
  proof
    assume "a \<in> fst ` set links"
    then obtain others where "(a, others) \<in> set links" by force
    moreover from this have "others \<noteq> []" using links(1) by (auto simp: link_ok_def)
    ultimately show "links_to links a \<noteq> []"
      using links(1) by (simp add: link_ok_def links_to_def btree_ok_distinct)
  next
    assume "links_to links a \<noteq> []"
    then obtain others where "map_of links a = Some others" by (auto simp: links_to_def split: option.splits)
    then show "a \<in> fst ` set links" by (metis map_of_SomeD fst_conv image_eqI)
  qed
  moreover have "links_to links a \<noteq> [] \<longleftrightarrow> a \<in> Domain (link_rel links)" for a
    by (auto simp: link_rel_def) (meson last_in_set)
  ultimately show "fst ` set links = Domain (pair_rel documents)" unfolding rel by blast
  assume ok: "shingles_ok documents"
  then have "\<forall>(p, j)\<in>set (confirmed documents). \<not> f64_is_nan j"
    using confirmed_jaccard[OF ok] by (auto simp: is_jaccard_def f64_le_def)
  from collect_links_best[OF run _ _ this, of "\<lambda>_. {}"]
  show "best_ok best (jaccards (confirmed documents))" by (simp add: best_ok_def)
qed

lemma near_members:
  assumes "collect_links (confirmed documents) ([], []) = (best, links)"
  shows "distinct (concat (member_lists (near_groups x documents)))"
    and "ms \<in> set (member_lists (near_groups x documents)) \<Longrightarrow>
      sorted_wrt (<) ms \<and> (\<exists>a\<in>Domain (pair_rel documents). set ms = (pair_rel documents)\<^sup>* `` {a})"
    and "Domain (pair_rel documents) \<subseteq> set (concat (member_lists (near_groups x documents)))"
proof -
  note c = collected[OF assms]
  have "sym (link_rel links)" using sym_pair_rel c(2) by simp
  note g = groups_from_exact[OF this, where grouped = "[]" and x = x and best = best and starts = "map fst links"]
  have near: "near_groups x documents = groups_from x links best (map fst links) []" using assms by (simp add: near_groups_def)
  have *: "distinct (concat (member_lists (near_groups x documents)))
     \<and> (\<forall>ms\<in>set (member_lists (near_groups x documents)).
          (\<exists>a\<in>fst ` set links. set ms = (pair_rel documents)\<^sup>* `` {a}) \<and> sorted_wrt (<) ms)
     \<and> fst ` set links \<subseteq> set (concat (member_lists (near_groups x documents)))"
    unfolding near c(2)[symmetric] using g by (simp only: set_map list.set empty_iff ball_simps simp_thms Un_empty_left) blast
  note * = *[unfolded c(3)]
  show "distinct (concat (member_lists (near_groups x documents)))" by (rule conjunct1[OF *])
  show "ms \<in> set (member_lists (near_groups x documents)) \<Longrightarrow>
      sorted_wrt (<) ms \<and> (\<exists>a\<in>Domain (pair_rel documents). set ms = (pair_rel documents)\<^sup>* `` {a})"
    by (drule bspec[OF conjunct1[OF conjunct2[OF *]]]) (simp only: conj_commute)
  show "Domain (pair_rel documents) \<subseteq> set (concat (member_lists (near_groups x documents)))"
    by (rule conjunct2[OF conjunct2[OF *]])
qed

lemma sym_rel_trancl:
  assumes "sym R" and "a \<in> Domain R" and "(a, b) \<in> R\<^sup>*" and "(a, c) \<in> R\<^sup>*"
  shows "(b, c) \<in> R\<^sup>+"
proof -
  obtain d where "(a, d) \<in> R" using assms by blast
  then have "(a, a) \<in> R\<^sup>+" using assms(1) by (meson symD trancl.r_into_trancl trancl_into_trancl)
  moreover have "(b, a) \<in> R\<^sup>*" using sym_rtrancl[OF assms(1)] assms(3) by (meson symD)
  ultimately show ?thesis using assms(4) by (meson rtrancl_trancl_trancl trancl_rtrancl_trancl)
qed

text \<open>Three documents: two of the same shingles, one apart.\<close>

definition sample_prepared :: prepared where
  "sample_prepared =
     [(''a'', \<lparr>sh_words = [0, 1, 2], sh_signature = Some [1, 2, 3, 4]\<rparr>),
      (''b'', \<lparr>sh_words = [3, 4], sh_signature = Some [5, 6, 7, 8]\<rparr>),
      (''c'', \<lparr>sh_words = [0, 1, 2], sh_signature = Some [1, 2, 3, 4]\<rparr>)]"

lemma sample_candidates: "candidates sample_prepared = [(0, 2)]"
  by code_simp

lemma sample_confirmed: "confirmed sample_prepared = [((''a'', ''c''), F64 False 4607182418800017408)]"
proof -
  have "overlap (shingle_set (snd (sample_prepared ! 0))) (shingle_set (snd (sample_prepared ! 2))) = (1, 1)" by code_simp
  moreover have "f64_round 1 1 = 4607182418800017408"
    by (simp add: f64_round_def last_bit_def round_half_even_def bit_length.simps INF_BITS_def)
  ultimately have "confirm sample_prepared (0, 2) = Some ((''a'', ''c''), F64 False 4607182418800017408)"
    by (simp add: confirm_def nth_opt_def sample_prepared_def ratio_def f64_quotient_def U32_MAX_def)
  then show ?thesis by (simp add: confirmed_def List.map_filter_def sample_candidates)
qed

lemma sample_near_members: "member_lists (near_groups sample sample_prepared) = [[''a'', ''c'']]"
  by (simp add: near_groups_def sample_confirmed best_insert_def link_insert_def links_to_def member_lists_def
      near_group_members linked_def insort_insert_key_def Let_def)

text \<open>
  C17: the groups are the connected components of the confirmed pairs: two revisions share a group
  exactly when confirmed pairs link them, however indirectly; no revision is in two groups, or in one
  twice, and each group's members are in order.
\<close>

theorem near_groups_components:
  assumes groups: "member_lists (near_groups x documents) = groups"
  shows "distinct (concat groups) \<and> list_all (sorted_wrt (<)) groups
    \<and> ((a, b) \<in> (pair_rel documents)\<^sup>+ \<longleftrightarrow> (\<exists>ms. ms \<in> set groups \<and> a \<in> set ms \<and> b \<in> set ms))"
proof -
  let ?R = "pair_rel documents"
  obtain best links where run: "collect_links (confirmed documents) ([], []) = (best, links)" by fastforce
  note near = near_members[OF run, where x = x, unfolded groups]
  have "\<exists>ms. ms \<in> set groups \<and> a \<in> set ms \<and> b \<in> set ms" if ab: "(a, b) \<in> ?R\<^sup>+"
  proof -
    have "a \<in> Domain ?R" using ab by (meson Domain.DomainI tranclD)
    then obtain ms where ms: "ms \<in> set groups" "a \<in> set ms" using near(3) by auto
    then obtain s where "set ms = ?R\<^sup>* `` {s}" using near(2) by blast
    then have "b \<in> set ms" using ms(2) ab by (auto intro: rtrancl_trans dest: trancl_into_rtrancl)
    then show ?thesis using ms by blast
  qed
  moreover have "(a, b) \<in> ?R\<^sup>+" if ms: "ms \<in> set groups" "a \<in> set ms" "b \<in> set ms" for ms
  proof -
    obtain s where "s \<in> Domain ?R" "set ms = ?R\<^sup>* `` {s}" using near(2)[OF ms(1)] by blast
    then show ?thesis using sym_rel_trancl[OF sym_pair_rel] ms by blast
  qed
  ultimately show ?thesis using near by (auto simp: list_all_iff)
qed

corollary near_groups_components_witness:
  "(''a'', ''c'') \<in> (pair_rel sample_prepared)\<^sup>+ \<and> (''a'', ''b'') \<notin> (pair_rel sample_prepared)\<^sup>+"
  using near_groups_components[OF sample_near_members, of "''a''" "''c''"]
    near_groups_components[OF sample_near_members, of "''a''" "''b''"] by simp

section \<open>The numbers of the groups\<close>

lemma near_group_jaccard:
  "d \<in> set (near_group x members best) \<Longrightarrow>
     nu_jaccard d = (case map_of best (nu_revision d) of None \<Rightarrow> F64 False 0 | Some v \<Rightarrow> v) \<and> nu_revision d \<in> set members"
  by (auto simp: near_group_def Let_def)

lemma groups_from_jaccard:
  "g \<in> set (groups_from x links best starts grouped) \<Longrightarrow> d \<in> set g \<Longrightarrow>
     nu_jaccard d = (case map_of best (nu_revision d) of None \<Rightarrow> F64 False 0 | Some v \<Rightarrow> v)"
  by (induction x links best starts grouped rule: groups_from.induct)
    (auto simp: near_group_jaccard split: if_splits prod.splits)

lemma group_members_new:
  "distinct (map nu_revision ms) \<Longrightarrow> \<forall>m\<in>set ms. \<forall>g. map_of (group_rows groups g) (nu_revision m) = None \<Longrightarrow> btree_ok groups \<Longrightarrow>
     (\<forall>g. btree_ok (group_rows groups g)) \<Longrightarrow> \<exists>groups'. group_members ms groups = Inr groups'"
proof (induction ms arbitrary: groups)
  case (Cons m ms)
  let ?rows = "group_rows groups (nu_group m)"
  let ?groups = "btree_insert (nu_group m) (btree_insert (nu_revision m) (nu_jaccard m) ?rows) groups"
  have rows: "group_rows ?groups g = (if g = nu_group m then btree_insert (nu_revision m) (nu_jaccard m) ?rows else group_rows groups g)" for g
    using Cons.prems(3) by (simp add: group_rows_def map_of_btree_insert)
  have tree: "btree_ok ?rows" using Cons.prems(4) by blast
  have "\<forall>g. btree_ok (group_rows ?groups g)" using Cons.prems(4) tree by (simp add: rows btree_insert_ok)
  moreover have "map_of (group_rows ?groups g) (nu_revision n) = None" if n: "n \<in> set ms" for n g
  proof -
    have "nu_revision m \<notin> nu_revision ` set ms" using Cons.prems(1) by simp
    then have "nu_revision n \<noteq> nu_revision m" using n by (metis image_eqI)
    moreover have "map_of (group_rows groups g) (nu_revision n) = None" for g using n Cons.prems(2) by simp
    ultimately show ?thesis using tree by (simp add: rows map_of_btree_insert)
  qed
  moreover have "btree_ok ?groups" using Cons.prems(3) by (rule btree_insert_ok)
  moreover have "distinct (map nu_revision ms)" using Cons.prems(1) by simp
  ultimately obtain groups' where "group_members ms ?groups = Inr groups'" using Cons.IH[of ?groups] by blast
  moreover have "map_of ?rows (nu_revision m) = None" using Cons.prems(2) by simp
  ultimately show ?case by (simp add: Let_def)
qed simp

text \<open>
  C35: every member of a group keeps the greatest Jaccard of a confirmed pair that names it, a number
  from zero to one as the kernel's table asks, and the groups together are a batch the kernel reads
  without a conflict.
\<close>

theorem near_jaccards_best:
  assumes ok: "shingles_ok documents"
  shows "list_all (list_all (\<lambda>d. is_jaccard (nu_jaccard d) \<and> nu_jaccard d \<in> jaccards (confirmed documents) (nu_revision d)
      \<and> (\<forall>v\<in>jaccards (confirmed documents) (nu_revision d). f64_le v (nu_jaccard d)))) (near_groups x documents)
    \<and> (\<exists>groups. group_members (concat (near_groups x documents)) [] = Inr groups)"
proof -
  obtain best links where run: "collect_links (confirmed documents) ([], []) = (best, links)" by fastforce
  note near = near_members[OF run, where x = x]
  note best = collected(4)[OF run ok]
  have members: "concat (member_lists (near_groups x documents)) = map nu_revision (concat (near_groups x documents))"
    by (simp add: member_lists_def map_concat)
  have "\<exists>groups. group_members (concat (near_groups x documents)) [] = Inr groups"
    using near(1) unfolding members by (intro group_members_new) (simp_all add: group_rows_def)
  moreover have "is_jaccard (nu_jaccard d) \<and> nu_jaccard d \<in> jaccards (confirmed documents) (nu_revision d)
      \<and> (\<forall>v\<in>jaccards (confirmed documents) (nu_revision d). f64_le v (nu_jaccard d))"
    if g: "g \<in> set (near_groups x documents)" "d \<in> set g" for g d
  proof -
    have origin: "g \<in> set (groups_from x links best (map fst links) [])" using g(1) run by (simp add: near_groups_def)
    have "map nu_revision g \<in> set (member_lists (near_groups x documents))" using g(1) by (auto simp: member_lists_def)
    then obtain s where "s \<in> Domain (pair_rel documents)" "set (map nu_revision g) = (pair_rel documents)\<^sup>* `` {s}"
      using near(2) by blast
    then have "nu_revision d \<in> Domain (pair_rel documents)"
      using g(2) sym_rel_trancl[OF sym_pair_rel, of s documents "nu_revision d" "nu_revision d"]
      by (metis Domain.DomainI Image_singleton_iff image_eqI list.set_map tranclD)
    then obtain v where "v \<in> jaccards (confirmed documents) (nu_revision d)"
      by (auto simp: pair_rel_def paired_def jaccards_def)
    then obtain w where w: "map_of best (nu_revision d) = Some w" "w \<in> jaccards (confirmed documents) (nu_revision d)"
        "\<forall>v\<in>jaccards (confirmed documents) (nu_revision d). f64_le v w"
      using spec[OF conjunct2[OF best[unfolded best_ok_def]], of "nu_revision d"] by (auto split: option.splits)
    moreover have "is_jaccard w" using w(2) confirmed_jaccard[OF ok] by (auto simp: jaccards_def)
    ultimately show ?thesis using groups_from_jaccard[OF origin g(2)] by simp
  qed
  ultimately show ?thesis by (simp add: list_all_iff)
qed

corollary near_jaccards_best_witness:
  "list_all (list_all (\<lambda>d. is_jaccard (nu_jaccard d))) (near_groups sample sample_prepared)"
proof -
  have "shingles_ok sample_prepared" by (simp add: shingles_ok_def sample_prepared_def)
  from near_jaccards_best[OF this, of sample] show ?thesis by (simp add: list_all_iff)
qed

section \<open>Documents of the same words\<close>

lemma number_once:
  "word_number name vocabulary = (n, vocabulary') \<Longrightarrow> map_of vocabulary \<subseteq>\<^sub>m map_of vocabulary' \<and> map_of vocabulary' name = Some n"
  by (auto simp: word_number_def map_le_def split: option.splits) (metis domI domIff option.simps(3))?

lemma number_known: "map_of vocabulary name = Some n \<Longrightarrow> word_number name vocabulary = (n, vocabulary)"
  by (simp add: word_number_def)

lemma numbers_kept: "numbers names vocabulary = (ns, vocabulary') \<Longrightarrow> map_of vocabulary \<subseteq>\<^sub>m map_of vocabulary'"
proof (induction names arbitrary: vocabulary ns vocabulary')
  case (Cons name names)
  then show ?case by (auto simp: Let_def split: prod.splits dest!: number_once intro: map_le_trans)
qed simp

lemma numbers_again:
  "numbers names vocabulary = (ns, vocabulary') \<Longrightarrow> map_of vocabulary' \<subseteq>\<^sub>m map_of later \<Longrightarrow> numbers names later = (ns, later)"
proof (induction names arbitrary: vocabulary ns)
  case (Cons name names)
  obtain n one where n: "word_number name vocabulary = (n, one)" by fastforce
  obtain ms where ms: "numbers names one = (ms, vocabulary')" "ns = n # ms"
    using Cons.prems(1) n by (auto simp: Let_def split: prod.splits)
  have "map_of vocabulary' name = Some n"
    using number_once[OF n] numbers_kept[OF ms(1)] by (auto simp: map_le_def dom_def)
  then have "map_of later name = Some n" using Cons.prems(2) by (auto simp: map_le_def dom_def)
  then show ?case using Cons.IH[OF ms(1) Cons.prems(2)] ms(2) by (simp add: number_known)
qed simp

lemma shingles_again:
  assumes "shingles_from names vocabulary = (s, vocabulary')" and "map_of vocabulary' \<subseteq>\<^sub>m map_of later"
  shows "shingles_from names later = (s, later)"
  using assms numbers_again by (auto simp: shingles_from_def split: prod.splits)

lemma numbers_length: "length (fst (numbers names vocabulary)) = length names"
  by (induction names arbitrary: vocabulary) (auto simp: Let_def split: prod.splits, metis fst_conv)

lemma shingles_from_ok:
  "shingles_from names vocabulary = (s, vocabulary') \<Longrightarrow> sh_signature s \<noteq> None \<Longrightarrow> sh_words s \<noteq> []"
  using numbers_length[of names vocabulary] by (auto simp: shingles_from_def split: prod.splits if_splits)

text \<open>
  C36: two documents of the same words, numbered one after the other in one vocabulary, are always in
  one group: their signatures share every band and the pair is confirmed.
\<close>

theorem same_words_grouped:
  assumes first: "shingles_from names vocabulary = (s, vocabulary')" and words: "names \<noteq> []"
    and later: "map_of vocabulary' \<subseteq>\<^sub>m map_of later" and second: "shingles_from names later = (t, later')"
    and at: "i < length documents" "documents ! i = (a, s)" "j < length documents" "documents ! j = (b, t)" "i \<noteq> j"
  shows "\<exists>g. g \<in> set (near_groups x documents) \<and> {a, b} \<subseteq> nu_revision ` set g"
proof -
  have t: "t = s" using shingles_again[OF first later] second by simp
  have signed: "sh_signature s = Some (signature names)"
    using first words by (auto simp: shingles_from_def split: prod.splits)
  have "signature names \<noteq> []" by (simp add: signature_def HASHES_def Let_def)
  from same_signature_candidate[OF at(1,3,5) _ _ this]
  have pair: "(i, j) \<in> set (candidates documents) \<or> (j, i) \<in> set (candidates documents)"
    using at t signed by simp
  have least: "snd (jaccard_of s s) * 85 \<le> fst (jaccard_of s s) * 100" by (simp add: jaccard_of_def)
  have "\<exists>v. ((a, b), v) \<in> set (confirmed documents) \<or> ((b, a), v) \<in> set (confirmed documents)"
    using pair least at t unfolding confirmed_iff by blast
  then have rel: "(a, b) \<in> pair_rel documents" by (simp add: pair_rel_def paired_def)
  obtain best links where run: "collect_links (confirmed documents) ([], []) = (best, links)" by fastforce
  have "a \<in> set (concat (member_lists (near_groups x documents)))" using near_members(3)[OF run] rel by blast
  then obtain g where g: "g \<in> set (near_groups x documents)" "a \<in> nu_revision ` set g"
    by (auto simp: member_lists_def)
  then have "map nu_revision g \<in> set (member_lists (near_groups x documents))" by (simp add: member_lists_def)
  from near_members(2)[OF run this] obtain c where "nu_revision ` set g = (pair_rel documents)\<^sup>* `` {c}" by auto
  then have "b \<in> nu_revision ` set g" using g(2) rel by (auto intro: rtrancl_into_rtrancl)
  then show ?thesis using g by blast
qed

corollary same_words_grouped_witness:
  "\<exists>s t g. g \<in> set (near_groups sample [(''a'', s), (''b'', t)]) \<and> {''a'', ''b''} \<subseteq> nu_revision ` set g"
proof -
  obtain s vocabulary' where s: "shingles_from [''to'', ''be''] [] = (s, vocabulary')" by fastforce
  obtain t later' where t: "shingles_from [''to'', ''be''] vocabulary' = (t, later')" by fastforce
  have "\<exists>g. g \<in> set (near_groups sample [(''a'', s), (''b'', t)]) \<and> {''a'', ''b''} \<subseteq> nu_revision ` set g"
    by (rule same_words_grouped[OF s _ _ t, where i = 0 and j = 1]) simp_all
  then show ?thesis by blast
qed

end
