(* ===== verification/Canonical_Documents.thy ===== *)
theory Canonical_Documents
  imports Kernel_Store Rust_Numbers
begin

text \<open>
  The canonical document of \<open>crates/maestro-canonicalization/src\<close>: the provenance contract of
  \<open>model.rs\<close>, the typed blocks and inline trees of \<open>content.rs\<close> and the document of
  \<open>document.rs\<close>, as data; and the standard library's views of a text the checks of such a document
  use. A \<open>serde_json::Value\<close> is a \<open>json\<close>; a text is its UTF-8 bytes.
\<close>

section \<open>Provenance (model.rs)\<close>

record source_span =
  sp_start :: nat
  sp_end :: nat

definition span_is_valid :: "source_span \<Rightarrow> string \<Rightarrow> bool" where
  "span_is_valid span markdown \<longleftrightarrow>
     sp_start span \<le> sp_end span \<and> sp_end span \<le> length markdown
     \<and> char_boundary markdown (sp_start span) \<and> char_boundary markdown (sp_end span)"

record source_metadata =
  sm_reference :: "string option"
  sm_title :: "string option"
  sm_language :: "string option"
  sm_extraction :: "json option"
  sm_access_policy :: "json option"
  sm_extra :: "(string \<times> json) list"

record parser_options =
  po_tables :: bool
  po_footnotes :: bool
  po_strikethrough :: bool
  po_tasklists :: bool
  po_heading_attributes :: bool
  po_definition_lists :: bool
  po_math :: bool
  po_gfm :: bool

datatype asset_status = AssetAvailable | AssetMissing | AssetUnchecked | AssetRemote | AssetFragment | AssetOutsideRoot

record asset_reference =
  as_destination :: string
  as_status :: asset_status
  as_span :: source_span

record original_location =
  ol_reference :: "string option"
  ol_page :: "nat option"
  ol_locator :: "json option"

record extractor_block =
  eb_id :: string
  eb_spans :: "source_span list"
  eb_locations :: "original_location list"
  eb_content :: json

datatype validation_status = DocumentValid | DocumentValidWithWarnings | DocumentFailed

datatype severity_level = SeverityWarning | SeverityError

record finding =
  fi_severity :: severity_level
  fi_code :: string
  fi_message :: string
  fi_block :: "string option"
  fi_spans :: "source_span list"

section \<open>Blocks (content.rs)\<close>

datatype block_type =
    HeadingBlock | ParagraphBlock | ListBlock | ListItemBlock | CodeBlock | TableBlock | TableHeadBlock
  | TableRowBlock | TableCellBlock | BlockQuoteBlock | FootnoteDefinitionBlock | ThematicBreakBlock
  | HtmlBlock | MetadataBlock | DefinitionListBlock | DefinitionTermBlock | DefinitionDescriptionBlock
  | ReferenceDefinitionBlock | RawBlock

datatype code_kind = Fenced | Indented

datatype block_attributes =
    HeadingAttributes (ha_level: nat) (ha_id: "string option") (ha_classes: "string list")
      (ha_attributes: "(string \<times> string option) list")
  | ParagraphAttributes
  | ListAttributes (la_start: "nat option")
  | ListItemAttributes
  | CodeAttributes (ca_style: code_kind) (ca_info: "string option") (ca_language: "string option")
  | TableAttributes (ta_alignments: "string list")
  | TableHeadAttributes
  | TableRowAttributes
  | TableCellAttributes
  | BlockQuoteAttributes (bq_alert: "string option")
  | FootnoteDefinitionAttributes (fd_label: string)
  | ThematicBreakAttributes
  | HtmlAttributes
  | MetadataAttributes
  | DefinitionListAttributes
  | DefinitionTermAttributes
  | DefinitionDescriptionAttributes
  | RawAttributes (ra_reason: string)
  | ReferenceDefinitionAttributes (rd_label: string) (rd_destination: string) (rd_title: string)

fun attributes_block_type :: "block_attributes \<Rightarrow> block_type" where
  "attributes_block_type (HeadingAttributes _ _ _ _) = HeadingBlock"
| "attributes_block_type ParagraphAttributes = ParagraphBlock"
| "attributes_block_type (ListAttributes _) = ListBlock"
| "attributes_block_type ListItemAttributes = ListItemBlock"
| "attributes_block_type (CodeAttributes _ _ _) = CodeBlock"
| "attributes_block_type (TableAttributes _) = TableBlock"
| "attributes_block_type TableHeadAttributes = TableHeadBlock"
| "attributes_block_type TableRowAttributes = TableRowBlock"
| "attributes_block_type TableCellAttributes = TableCellBlock"
| "attributes_block_type (BlockQuoteAttributes _) = BlockQuoteBlock"
| "attributes_block_type (FootnoteDefinitionAttributes _) = FootnoteDefinitionBlock"
| "attributes_block_type ThematicBreakAttributes = ThematicBreakBlock"
| "attributes_block_type HtmlAttributes = HtmlBlock"
| "attributes_block_type MetadataAttributes = MetadataBlock"
| "attributes_block_type DefinitionListAttributes = DefinitionListBlock"
| "attributes_block_type DefinitionTermAttributes = DefinitionTermBlock"
| "attributes_block_type DefinitionDescriptionAttributes = DefinitionDescriptionBlock"
| "attributes_block_type (RawAttributes _) = RawBlock"
| "attributes_block_type (ReferenceDefinitionAttributes _ _ _) = ReferenceDefinitionBlock"

datatype inline_kind =
    TextInline string
  | CodeInline string
  | EmphasisInline
  | StrongInline
  | StrikethroughInline
  | SuperscriptInline
  | SubscriptInline
  | LinkInline (li_destination: string) (li_title: string) (li_reference: string) (li_type: string)
  | ImageInline (im_destination: string) (im_title: string) (im_reference: string) (im_type: string)
  | FootnoteReferenceInline string
  | SoftBreakInline
  | HardBreakInline
  | TaskMarkerInline bool
  | HtmlInline string
  | MathInline string bool

datatype inline = Inline (in_content: inline_kind) (in_span: source_span) (in_children: "inline list")

datatype content_node = BlockNode string | InlineNode inline

record block =
  bk_id :: string
  bk_revision :: string
  bk_type :: block_type
  bk_parent :: "string option"
  bk_section :: "string option"
  bk_heading_path :: "string list"
  bk_spans :: "source_span list"
  bk_text :: string
  bk_attributes :: block_attributes
  bk_children :: "content_node list"
  bk_assets :: "asset_reference list"
  bk_extractor_ids :: "string list"

record document_link =
  dl_block :: string
  dl_destination :: string
  dl_title :: string
  dl_label :: string
  dl_image :: bool
  dl_span :: source_span

section \<open>The document (document.rs)\<close>

record markdown_reference =
  mr_path :: string
  mr_hash :: string
  mr_bytes :: nat

record document_section =
  se_id :: string
  se_parent :: "string option"
  se_level :: nat
  se_title :: string
  se_heading_path :: "string list"

datatype source_role = ParsedContent | StructuralSyntax | MetadataOrReference | UnsupportedSource | UnaccountedSource

record source_accounting =
  sa_span :: source_span
  sa_role :: source_role
  sa_block :: "string option"

record canonical_document =
  cd_schema :: string
  cd_id :: string
  cd_revision :: string
  cd_hash :: string
  cd_reference :: "string option"
  cd_metadata :: source_metadata
  cd_input_metadata :: source_metadata
  cd_operational :: "(string \<times> json) list"
  cd_access_policy :: "json option"
  cd_markdown :: markdown_reference
  cd_parser :: string
  cd_options :: parser_options
  cd_assets :: "(string \<times> asset_status) list"
  cd_status :: validation_status
  cd_blocks :: "block list"
  cd_accounting :: "source_accounting list"
  cd_sections :: "document_section list"
  cd_links :: "document_link list"
  cd_extractor_blocks :: "extractor_block list"
  cd_findings :: "finding list"

section \<open>Views of a text\<close>

text \<open>\<open>str::chars\<close>: a character is a byte and the continuation bytes after it.\<close>

definition is_continuation :: "char \<Rightarrow> bool" where
  "is_continuation c \<longleftrightarrow> 128 \<le> (of_char c :: nat) \<and> (of_char c :: nat) < 192"

fun str_chars :: "string \<Rightarrow> string list" where
  "str_chars [] = []"
| "str_chars (c # cs) =
     (case str_chars cs of
        (d # ds) # rest \<Rightarrow> if is_continuation d then (c # d # ds) # rest else [c] # (d # ds) # rest
      | rest \<Rightarrow> [c] # rest)"

text \<open>\<open>split\<close> at the characters a test accepts; \<open>split_whitespace\<close> keeps the pieces that are not empty.\<close>

fun split_by :: "('a \<Rightarrow> bool) \<Rightarrow> 'a list \<Rightarrow> 'a list list" where
  "split_by p [] = [[]]"
| "split_by p (v # vs) =
     (if p v then [] # split_by p vs
      else case split_by p vs of [] \<Rightarrow> [[v]] | piece # pieces \<Rightarrow> (v # piece) # pieces)"

definition split_whitespace :: "string \<Rightarrow> string list list" where
  "split_whitespace text = filter (\<lambda>piece. piece \<noteq> []) (split_by (\<lambda>c. c \<in> set WHITESPACE) (str_chars text))"

text \<open>\<open>str::lines\<close>: a line that ends with a line feed loses it and a carriage return before it.\<close>

definition strip_return :: "string \<Rightarrow> string" where
  "strip_return line = (if line \<noteq> [] \<and> last line = CHR 0x0D then butlast line else line)"

definition str_lines :: "string \<Rightarrow> string list" where
  "str_lines text =
     (let pieces = split_by (\<lambda>c. c = CHR 0x0A) text in
      map strip_return (butlast pieces) @ (if last pieces = [] then [] else [last pieces]))"

text \<open>\<open>match_indices\<close>: where a pattern that is not empty starts, no match inside another.\<close>

fun match_from :: "string \<Rightarrow> nat \<Rightarrow> nat \<Rightarrow> string \<Rightarrow> nat list" where
  "match_from pattern skip i [] = []"
| "match_from pattern (Suc skip) i (c # cs) = match_from pattern skip (Suc i) cs"
| "match_from pattern 0 i (c # cs) =
     (if take (length pattern) (c # cs) = pattern then i # match_from pattern (length pattern - 1) (Suc i) cs
      else match_from pattern 0 (Suc i) cs)"

definition match_indices :: "string \<Rightarrow> string \<Rightarrow> nat list" where
  "match_indices pattern text = match_from pattern 0 0 text"

definition contains_str :: "string \<Rightarrow> string \<Rightarrow> bool" where
  "contains_str pattern text \<longleftrightarrow> match_indices pattern text \<noteq> []"

definition split_once_str :: "string \<Rightarrow> string \<Rightarrow> (string \<times> string) option" where
  "split_once_str pattern text =
     (case match_indices pattern text of
        [] \<Rightarrow> None
      | i # _ \<Rightarrow> Some (take i text, drop (i + length pattern) text))"

fun replace_from :: "string \<Rightarrow> string \<Rightarrow> nat \<Rightarrow> string \<Rightarrow> string" where
  "replace_from pattern new skip [] = []"
| "replace_from pattern new (Suc skip) (c # cs) = replace_from pattern new skip cs"
| "replace_from pattern new 0 (c # cs) =
     (if take (length pattern) (c # cs) = pattern then new @ replace_from pattern new (length pattern - 1) cs
      else c # replace_from pattern new 0 cs)"

definition replace_str :: "string \<Rightarrow> string \<Rightarrow> string \<Rightarrow> string" where
  "replace_str pattern new text = replace_from pattern new 0 text"

definition ends_with :: "string \<Rightarrow> string \<Rightarrow> bool" where
  "ends_with suffix' text \<longleftrightarrow> length suffix' \<le> length text \<and> drop (length text - length suffix') text = suffix'"

end
