(* ===== verification/Quality_Checks.thy ===== *)
theory Quality_Checks
  imports Canonical_Documents Documents
begin

text \<open>
  The automatic checks of the quality gate, \<open>crates/maestro-knowledge/src/quality/checks/\<close>: the
  count of a body (\<open>body.rs\<close>), error and sign-in pages (\<open>page.rs\<close>), garbled text (\<open>text.rs\<close>),
  credentials (\<open>secret.rs\<close>), what the document records beside its body (\<open>record.rs\<close>), and their run
  in order (\<open>rules.rs\<close>). Every count is a \<open>nat\<close>. Unicode's letters, digits and lowercase beyond ASCII
  are a parameter.
\<close>

section \<open>Characters\<close>

record unicode =
  uc_alphanumeric :: "string \<Rightarrow> bool"
  uc_lowercase :: "string \<Rightarrow> string"

definition is_ascii :: "char \<Rightarrow> bool" where
  "is_ascii c \<longleftrightarrow> (of_char c :: nat) < 128"

text \<open>\<open>char::is_alphanumeric\<close> and \<open>str::to_lowercase\<close>.\<close>

definition is_alphanumeric :: "unicode \<Rightarrow> string \<Rightarrow> bool" where
  "is_alphanumeric u c =
     (case c of [b] \<Rightarrow> if is_ascii b then is_ascii_alphanumeric b else uc_alphanumeric u c | _ \<Rightarrow> uc_alphanumeric u c)"

definition to_lowercase :: "unicode \<Rightarrow> string \<Rightarrow> string" where
  "to_lowercase u text = (if list_all is_ascii text then map to_lower text else uc_lowercase u text)"

section \<open>Flags (flag.rs)\<close>

record check_flag =
  fl_rule :: string
  fl_outcome :: outcome
  fl_reason :: string

definition show_count :: "nat \<Rightarrow> string" where
  "show_count n = show_nat (int n)"

definition counted :: "nat \<Rightarrow> string \<Rightarrow> string" where
  "counted n thing = (if n = 1 then ''1 '' @ thing else show_count n @ '' '' @ thing @ ''s'')"

section \<open>The body (body.rs)\<close>

definition NEAR_EMPTY_WORDS :: nat where "NEAR_EMPTY_WORDS = 8"
definition NAVIGATION_PERCENT :: nat where "NAVIGATION_PERCENT = 90"
definition NAVIGATION_LINKS :: nat where "NAVIGATION_LINKS = 10"

record body =
  bd_words :: nat
  bd_link_words :: nat
  bd_links :: nat
  bd_prose :: nat
  bd_entries :: bool

record block_count =
  bc_words :: nat
  bc_link_words :: nat
  bc_links :: nat

definition word_count :: "unicode \<Rightarrow> string \<Rightarrow> nat" where
  "word_count u text = length (filter (list_ex (is_alphanumeric u)) (split_whitespace text))"

fun inline_text :: "inline_kind \<Rightarrow> string option" where
  "inline_text (TextInline text) = Some text"
| "inline_text (CodeInline text) = Some text"
| "inline_text (MathInline text display) = Some text"
| "inline_text _ = None"

definition is_link :: "inline_kind \<Rightarrow> bool" where
  "is_link kind = (case kind of LinkInline _ _ _ _ \<Rightarrow> True | _ \<Rightarrow> False)"

definition is_image :: "inline_kind \<Rightarrow> bool" where
  "is_image kind = (case kind of ImageInline _ _ _ _ \<Rightarrow> True | _ \<Rightarrow> False)"

definition add_text :: "unicode \<Rightarrow> bool \<Rightarrow> inline_kind \<Rightarrow> block_count \<Rightarrow> block_count" where
  "add_text u in_link kind count =
     (case inline_text kind of
        Some text \<Rightarrow>
          (let n = word_count u text in
           count\<lparr>bc_words := bc_words count + n,
             bc_link_words := bc_link_words count + (if in_link then n else 0)\<rparr>)
      | None \<Rightarrow> if is_link kind then count\<lparr>bc_links := bc_links count + 1\<rparr> else count)"

fun add_inline :: "unicode \<Rightarrow> bool \<Rightarrow> inline \<Rightarrow> block_count \<Rightarrow> block_count"
  and add_inlines :: "unicode \<Rightarrow> bool \<Rightarrow> inline list \<Rightarrow> block_count \<Rightarrow> block_count" where
  "add_inline u in_link (Inline kind span children) count =
     (if is_image kind then count
      else add_inlines u (in_link \<or> is_link kind) children (add_text u in_link kind count))"
| "add_inlines u in_link [] count = count"
| "add_inlines u in_link (i # is) count = add_inlines u in_link is (add_inline u in_link i count)"

definition count_block :: "unicode \<Rightarrow> block \<Rightarrow> block_count" where
  "count_block u block =
     fold (\<lambda>node count. case node of InlineNode i \<Rightarrow> add_inline u False i count | BlockNode _ \<Rightarrow> count)
       (bk_children block) \<lparr>bc_words = 0, bc_link_words = 0, bc_links = 0\<rparr>"

definition innermost :: "block \<Rightarrow> bool" where
  "innermost block = list_all (\<lambda>node. case node of InlineNode _ \<Rightarrow> True | BlockNode _ \<Rightarrow> False) (bk_children block)"

definition in_body :: "block \<Rightarrow> bool" where
  "in_body block \<longleftrightarrow>
     innermost block
     \<and> bk_type block \<notin> {HeadingBlock, MetadataBlock, ThematicBreakBlock, ReferenceDefinitionBlock}"

text \<open>The blocks by their id, the last of an id; and the walk to the parents, which may not end.\<close>

definition block_at :: "canonical_document \<Rightarrow> string \<Rightarrow> block option" where
  "block_at doc = map_of (rev (map (\<lambda>block. (bk_id block, block)) (cd_blocks doc)))"

partial_function (option) in_list :: "(string \<Rightarrow> block option) \<Rightarrow> block \<Rightarrow> bool option" where
  [code]: "in_list by_id block =
     (if bk_type block = ListItemBlock then Some True
      else case Option.bind (bk_parent block) by_id of
        None \<Rightarrow> Some False
      | Some parent \<Rightarrow> in_list by_id parent)"

definition add_block :: "unicode \<Rightarrow> (string \<Rightarrow> block option) \<Rightarrow> block \<Rightarrow> body \<Rightarrow> body option" where
  "add_block u by_id block body =
     (let count = count_block u block;
          body = body\<lparr>bd_words := bd_words body + bc_words count,
            bd_link_words := bd_link_words body + bc_link_words count, bd_links := bd_links body + bc_links count\<rparr>;
          own = bc_words count - bc_link_words count in
      Option.bind
        (if bk_type block = CodeBlock \<or> bk_type block = TableCellBlock then Some True else in_list by_id block) (\<lambda>entry.
          Some (if entry then body\<lparr>bd_entries := bd_entries body \<or> 0 < own\<rparr>
                else body\<lparr>bd_prose := bd_prose body + own\<rparr>)))"

fun add_blocks :: "unicode \<Rightarrow> (string \<Rightarrow> block option) \<Rightarrow> block list \<Rightarrow> body \<Rightarrow> body option" where
  "add_blocks u by_id [] body = Some body"
| "add_blocks u by_id (block # blocks) body = Option.bind (add_block u by_id block body) (add_blocks u by_id blocks)"

definition body_of :: "unicode \<Rightarrow> canonical_document \<Rightarrow> body option" where
  "body_of u doc =
     add_blocks u (block_at doc) (filter in_body (cd_blocks doc))
       \<lparr>bd_words = 0, bd_link_words = 0, bd_links = 0, bd_prose = 0, bd_entries = False\<rparr>"

definition near_empty :: "body \<Rightarrow> check_flag option" where
  "near_empty body =
     (if \<not> bd_entries body \<and> bd_prose body < NEAR_EMPTY_WORDS
      then Some \<lparr>fl_rule = ''body.near-empty'', fl_outcome = NeedsReextraction,
        fl_reason = ''its body holds '' @ counted (bd_prose body) ''word''
          @ '' outside link labels, and no code block, list item or table cell holds one: fewer than ''
          @ show_count NEAR_EMPTY_WORDS @ '' is near-empty''\<rparr>
      else None)"

definition navigation_heavy :: "body \<Rightarrow> check_flag option" where
  "navigation_heavy body =
     (let percent = (if bd_words body = 0 then 100 else bd_link_words body * 100 div bd_words body) in
      if NAVIGATION_LINKS \<le> bd_links body \<and> NAVIGATION_PERCENT \<le> percent
      then Some \<lparr>fl_rule = ''body.navigation-heavy'', fl_outcome = NeedsReextraction,
        fl_reason = ''link labels are '' @ show_count percent @ '' % of its body'' @ [CHR 0x27] @ ''s '' @ counted (bd_words body) ''word''
          @ '', over '' @ counted (bd_links body) ''link'' @ '': from '' @ show_count NAVIGATION_PERCENT
          @ '' % over '' @ show_count NAVIGATION_LINKS @ '' links, a page is navigation''\<rparr>
      else None)"

section \<open>Pages that are not the document (page.rs)\<close>

definition APPLICATION_ERRORS :: "string list" where
  "APPLICATION_ERRORS =
     [''something went wrong'', ''something went wrong please try again later'', ''oops something went wrong'',
      ''oops something went wrong please try again later'', ''an error occurred'', ''an error has occurred'',
      ''an unexpected error occurred'', ''an unexpected error has occurred'', ''internal server error'',
      ''500 internal server error'', ''service unavailable'', ''503 service unavailable'', ''bad gateway'',
      ''502 bad gateway'', ''page not found'', ''404 not found'', ''404 page not found'', ''sorry to interrupt'',
      ''css error'']"

definition PROMPTS :: "string list" where
  "PROMPTS =
     [''sign in'', ''sign on'', ''log in'', ''login'', ''access denied'', ''just a moment'', ''attention required'',
      ''authentication required'']"

definition PROMPT_OPENINGS :: "string list" where
  "PROMPT_OPENINGS =
     [''sign in to continue'', ''log in to continue'', ''please sign in'', ''please log in'', ''you must be signed in'',
      ''checking your browser'', ''verify you are human'', ''please enable javascript'', ''enable javascript and cookies'']"

definition PAGE_WORDS :: nat where "PAGE_WORDS = 50"

definition on_top :: "block \<Rightarrow> bool" where
  "on_top block \<longleftrightarrow> bk_parent block = None \<and> bk_type block \<in> {ParagraphBlock, HeadingBlock}"

definition is_prompt :: "string \<Rightarrow> bool" where
  "is_prompt text \<longleftrightarrow>
     text \<in> set PROMPTS
     \<or> list_ex (\<lambda>opening. case strip_prefix opening text of
           None \<Rightarrow> False | Some rest \<Rightarrow> rest = [] \<or> starts_with_char CHR '' '' rest) PROMPT_OPENINGS"

definition normalized :: "unicode \<Rightarrow> string \<Rightarrow> string" where
  "normalized u text =
     join_str '' '' (map concat (filter (\<lambda>word. word \<noteq> [])
       (split_by (\<lambda>c. \<not> is_alphanumeric u c) (str_chars (to_lowercase u text)))))"

definition application_error :: "unicode \<Rightarrow> canonical_document \<Rightarrow> body \<Rightarrow> check_flag option" where
  "application_error u doc body =
     (let errors = length (filter (\<lambda>block. on_top block
            \<and> (bk_type block \<noteq> HeadingBlock \<or> bd_words body < PAGE_WORDS)
            \<and> normalized u (bk_text block) \<in> set APPLICATION_ERRORS) (cd_blocks doc)) in
      if 0 < errors
      then Some \<lparr>fl_rule = ''page.application-error'', fl_outcome = NeedsReextraction,
        fl_reason = ''an application'' @ [CHR 0x27] @ ''s error message stands where content should be, in ''
          @ show_count errors @ '' of its paragraphs and headings''\<rparr>
      else None)"

definition first_block :: "block_type \<Rightarrow> canonical_document \<Rightarrow> block option" where
  "first_block kind doc = List.find (\<lambda>block. bk_type block = kind \<and> bk_parent block = None) (cd_blocks doc)"

definition first_is_prompt :: "unicode \<Rightarrow> block_type \<Rightarrow> canonical_document \<Rightarrow> bool" where
  "first_is_prompt u kind doc =
     (case first_block kind doc of None \<Rightarrow> False | Some block \<Rightarrow> is_prompt (normalized u (bk_text block)))"

definition sign_in :: "unicode \<Rightarrow> canonical_document \<Rightarrow> body \<Rightarrow> check_flag option" where
  "sign_in u doc body =
     (if PAGE_WORDS \<le> bd_words body then None
      else map_option (\<lambda>prompt. \<lparr>fl_rule = ''page.sign-in'', fl_outcome = NeedsReextraction,
          fl_reason = ''its '' @ prompt @ '' is a sign-in or challenge prompt, and its body holds ''
            @ counted (bd_words body) ''word'' @ '': fewer than '' @ show_count PAGE_WORDS
            @ '' is the prompt'' @ [CHR 0x27] @ ''s page, not the document''\<rparr>)
        (if first_is_prompt u HeadingBlock doc then Some ''first heading''
         else if first_is_prompt u ParagraphBlock doc then Some ''first paragraph''
         else None))"

section \<open>The characters of the text (text.rs)\<close>

definition REPLACEMENT :: string where
  "REPLACEMENT = [CHR 0xEF, CHR 0xBF, CHR 0xBD]"

definition GARBLED_ONE_IN :: nat where "GARBLED_ONE_IN = 100"

definition MARKERS :: "string list" where
  "MARKERS = [''DOCLINGCODE'', ''DOCLINGBREAK'']"

definition block_texts :: "canonical_document \<Rightarrow> string list" where
  "block_texts doc = map bk_text (filter (\<lambda>block. innermost block \<and> bk_type block \<noteq> MetadataBlock) (cd_blocks doc))"

definition replacement_characters :: "canonical_document \<Rightarrow> check_flag option" where
  "replacement_characters doc =
     (let characters = concat (map str_chars (block_texts doc));
          replaced = length (filter (\<lambda>c. c = REPLACEMENT) characters);
          found = counted replaced ''replacement character'' @ '' (U+FFFD)'' in
      if replaced = 0 then None
      else Some (if length characters \<le> replaced * GARBLED_ONE_IN
        then \<lparr>fl_rule = ''text.replacement-characters'', fl_outcome = NeedsReextraction,
          fl_reason = found @ '' in '' @ counted (length characters) ''character'' @ '': from 1 in ''
            @ show_count GARBLED_ONE_IN @ '', its text is garbled''\<rparr>
        else \<lparr>fl_rule = ''text.replacement-characters'', fl_outcome = AcceptedWithWarnings,
          fl_reason = found @ '': characters its conversion lost''\<rparr>))"

definition extraction_artifacts :: "canonical_document \<Rightarrow> check_flag option" where
  "extraction_artifacts doc =
     (let markers = sum_list (map (\<lambda>text. sum_list (map (\<lambda>marker. length (match_indices marker text)) MARKERS))
            (block_texts doc)) in
      if 0 < markers
      then Some \<lparr>fl_rule = ''text.extraction-artifacts'', fl_outcome = NeedsReextraction,
        fl_reason = counted markers ''extraction marker''
          @ '' left in its text (DOCLINGCODE or DOCLINGBREAK): code or line breaks its extraction set aside and never restored''\<rparr>
      else None)"

section \<open>Credentials (secret.rs)\<close>

definition PEM_BEGIN :: string where "PEM_BEGIN = ''-----BEGIN ''"
definition PEM_END :: string where "PEM_END = ''-----END ''"
definition DASHES :: string where "DASHES = ''-----''"
definition KEY_CHARACTERS :: nat where "KEY_CHARACTERS = 64"

datatype secret_format = PrivateKey | AwsKey | GitHubToken | GitLabToken | SlackToken

fun format_rank :: "secret_format \<Rightarrow> nat" where
  "format_rank PrivateKey = 0"
| "format_rank AwsKey = 1"
| "format_rank GitHubToken = 2"
| "format_rank GitLabToken = 3"
| "format_rank SlackToken = 4"

lemma format_rank_inj: "format_rank a = format_rank b \<Longrightarrow> a = b"
  by (cases a; cases b) simp_all

text \<open>The derived order of the formats.\<close>

instantiation secret_format :: linorder
begin

definition less_eq_secret_format :: "secret_format \<Rightarrow> secret_format \<Rightarrow> bool" where
  "less_eq_secret_format a b \<longleftrightarrow> format_rank a \<le> format_rank b"

definition less_secret_format :: "secret_format \<Rightarrow> secret_format \<Rightarrow> bool" where
  "less_secret_format a b \<longleftrightarrow> format_rank a < format_rank b"

instance
  by standard (auto simp: less_eq_secret_format_def less_secret_format_def intro: format_rank_inj)

end

fun format_name :: "secret_format \<Rightarrow> string" where
  "format_name PrivateKey = ''PEM private key block''"
| "format_name AwsKey = ''AWS access key ID''"
| "format_name GitHubToken = ''GitHub token''"
| "format_name GitLabToken = ''GitLab token''"
| "format_name SlackToken = ''Slack token''"

definition in_token :: "char \<Rightarrow> bool" where
  "in_token c \<longleftrightarrow> is_ascii_alphanumeric c \<or> c = CHR ''-'' \<or> c = CHR ''_''"

text \<open>Some run of \<open>n\<close> neighbours meets a test.\<close>

definition some_run :: "nat \<Rightarrow> ('a list \<Rightarrow> bool) \<Rightarrow> 'a list \<Rightarrow> bool" where
  "some_run n p xs \<longleftrightarrow> list_ex (\<lambda>i. p (take n (drop i xs))) [0..<Suc (length xs) - n]"

definition follows :: "char \<Rightarrow> char \<Rightarrow> bool" where
  "follows a b \<longleftrightarrow> (of_char b :: nat) = of_char a + 1"

definition placeholder :: "string \<Rightarrow> bool" where
  "placeholder random \<longleftrightarrow>
     contains_str ''example'' (map to_lower random)
     \<or> some_run 4 (\<lambda>run. list_all (\<lambda>byte. byte = hd run) run) random
     \<or> some_run 5 (\<lambda>run. list_all (\<lambda>(a, b). follows a b) (zip run (tl run))) random"

text \<open>What follows the first prefix a word has.\<close>

fun strip_first :: "string list \<Rightarrow> string \<Rightarrow> string option" where
  "strip_first [] word = None"
| "strip_first (p # ps) word = (case strip_prefix p word of Some rest \<Rightarrow> Some rest | None \<Rightarrow> strip_first ps word)"

definition is_some_and :: "('a \<Rightarrow> bool) \<Rightarrow> 'a option \<Rightarrow> bool" where
  "is_some_and p v = (case v of None \<Rightarrow> False | Some w \<Rightarrow> p w)"

definition aws_token :: "string \<Rightarrow> bool" where
  "aws_token word =
     is_some_and (\<lambda>random. length random = 16
         \<and> list_all (\<lambda>c. is_ascii_uppercase c \<or> c \<in> {CHR ''2'', CHR ''3'', CHR ''4'', CHR ''5'', CHR ''6'', CHR ''7''}) random
         \<and> \<not> placeholder random)
       (strip_first [''AKIA'', ''ASIA''] word)"

definition github_token :: "string \<Rightarrow> bool" where
  "github_token word \<longleftrightarrow>
     is_some_and (\<lambda>random. length random = 36 \<and> list_all is_ascii_alphanumeric random \<and> \<not> placeholder random)
       (strip_first [''ghp_'', ''gho_'', ''ghu_'', ''ghs_'', ''ghr_''] word)
     \<or> is_some_and (\<lambda>random. length random = 82
           \<and> list_all (\<lambda>(i, c). if i = 22 then c = CHR ''_'' else is_ascii_alphanumeric c) (enumerate 0 random)
           \<and> \<not> placeholder random)
         (strip_prefix ''github_pat_'' word)"

definition gitlab_token :: "string \<Rightarrow> bool" where
  "gitlab_token word =
     is_some_and (\<lambda>random. 20 \<le> length random \<and> \<not> placeholder random)
       (strip_first [''glpat-'', ''gldt-'', ''glrt-''] word)"

definition slack_number :: "string \<Rightarrow> bool" where
  "slack_number part \<longleftrightarrow> 10 \<le> length part \<and> list_all is_ascii_digit part"

definition slack_token :: "string \<Rightarrow> bool" where
  "slack_token word =
     is_some_and (\<lambda>random. case split_once CHR ''-'' random of
           None \<Rightarrow> False
         | Some (first, rest) \<Rightarrow> (case split_once CHR ''-'' rest of
             None \<Rightarrow> False
           | Some (second, secret) \<Rightarrow>
               slack_number first \<and> slack_number second
               \<and> 16 \<le> length (filter is_ascii_alphanumeric secret) \<and> \<not> placeholder random))
       (strip_first [''xoxa-'', ''xoxb-'', ''xoxe-'', ''xoxo-'', ''xoxp-'', ''xoxr-'', ''xoxs-''] word)"

definition token_format :: "string \<Rightarrow> secret_format option" where
  "token_format word =
     (if aws_token word then Some AwsKey
      else if github_token word then Some GitHubToken
      else if gitlab_token word then Some GitLabToken
      else if slack_token word then Some SlackToken
      else None)"

definition base64_char :: "char \<Rightarrow> bool" where
  "base64_char c \<longleftrightarrow> is_ascii_alphanumeric c \<or> c \<in> {CHR ''+'', CHR ''/'', CHR ''=''}"

fun key_lines :: "string list \<Rightarrow> nat \<Rightarrow> bool" where
  "key_lines [] characters = (KEY_CHARACTERS \<le> characters)"
| "key_lines (line # lines) characters =
     (if list_all base64_char line then key_lines lines (characters + length line) else False)"

definition key_body :: "string \<Rightarrow> bool" where
  "key_body body =
     (let body = replace_str [CHR 0x5C, CHR ''r''] [] (replace_str [CHR 0x5C, CHR ''n''] [CHR 0x0A] body) in
      key_lines (filter (\<lambda>line. line \<noteq> [] \<and> CHR '':'' \<notin> set line) (map trim (str_lines body))) 0)"

definition private_key :: "string \<Rightarrow> bool" where
  "private_key block =
     (case split_once_str DASHES block of
        None \<Rightarrow> False
      | Some (label, rest) \<Rightarrow> (case split_once_str PEM_END rest of
          None \<Rightarrow> False
        | Some (body, _) \<Rightarrow>
            list_all (\<lambda>c. is_ascii_uppercase c \<or> is_ascii_digit c \<or> c = CHR '' '') label
            \<and> (ends_with ''PRIVATE KEY'' label \<or> ends_with ''PRIVATE KEY BLOCK'' label) \<and> key_body body))"

definition line_of :: "string \<Rightarrow> nat \<Rightarrow> nat" where
  "line_of markdown offset = length (filter (\<lambda>c. c = CHR 0x0A) (take offset markdown)) + 1"

definition private_keys :: "string \<Rightarrow> nat list" where
  "private_keys markdown =
     map (line_of markdown) (filter (\<lambda>start. private_key (drop (start + length PEM_BEGIN) markdown))
       (match_indices PEM_BEGIN markdown))"

definition line_tokens :: "string \<Rightarrow> secret_format list" where
  "line_tokens line = List.map_filter token_format (split_by (\<lambda>c. \<not> in_token c) line)"

text \<open>What is found, each format with a line once, in order.\<close>

definition found_secrets :: "string \<Rightarrow> (secret_format \<times> nat) list" where
  "found_secrets markdown =
     sort (remdups (map (Pair PrivateKey) (private_keys markdown)
       @ concat (map (\<lambda>(i, line). map (\<lambda>format. (format, i + 1)) (line_tokens line)) (enumerate 0 (str_lines markdown)))))"

definition named_format :: "(secret_format \<times> nat) list \<Rightarrow> secret_format \<Rightarrow> string" where
  "named_format found format =
     (let lines = map (show_count \<circ> snd) (filter (\<lambda>(f, _). f = format) found) in
      format_name format @ '' ('' @ (if length lines = 1 then ''line'' else ''lines'') @ '' '' @ join_str '', '' lines @ '')'')"

definition suspected_secret :: "string \<Rightarrow> check_flag option" where
  "suspected_secret markdown =
     (let found = found_secrets markdown in
      if found = [] then None
      else Some \<lparr>fl_rule = ''text.suspected-secret'', fl_outcome = Quarantined,
        fl_reason = counted (length found) ''suspected secret'' @ '', quarantined until someone reviews the document: ''
          @ join_str ''; '' (map (named_format found) (remdups_adj (map fst found)))\<rparr>)"

section \<open>What the document records beside its body (record.rs)\<close>

definition error_named :: "(string \<times> string) \<times> nat \<Rightarrow> string" where
  "error_named entry =
     (case entry of ((code, message), n) \<Rightarrow>
        if n = 1 then code @ '': '' @ message
        else code @ '': '' @ message @ '' ('' @ show_count n @ '' times)'')"

definition count_key :: "'k::linorder \<Rightarrow> ('k \<times> nat) list \<Rightarrow> ('k \<times> nat) list" where
  "count_key key counts = btree_insert key ((case map_of counts key of None \<Rightarrow> 0 | Some n \<Rightarrow> n) + 1) counts"

definition canonicalization_failed :: "canonical_document \<Rightarrow> check_flag option" where
  "canonicalization_failed doc =
     (if cd_status doc \<noteq> DocumentFailed then None
      else Some \<lparr>fl_rule = ''canonicalization.failed'', fl_outcome = NeedsReextraction,
        fl_reason = ''canonicalization failed: '' @ join_str ''; '' (map error_named
          (fold (\<lambda>found. count_key (fi_code found, fi_message found))
             (filter (\<lambda>found. fi_severity found = SeverityError) (cd_findings doc)) []))\<rparr>)"

definition is_blank :: "string option \<Rightarrow> bool" where
  "is_blank text = (case text of None \<Rightarrow> True | Some text \<Rightarrow> trim text = [])"

definition metadata_missing :: "canonical_document \<Rightarrow> check_flag option" where
  "metadata_missing doc =
     (let missing = (if is_blank (cd_reference doc) then [''source reference''] else [])
            @ (if is_blank (sm_title (cd_metadata doc)) then [''title''] else []) in
      if missing = [] then None
      else Some \<lparr>fl_rule = ''metadata.missing'', fl_outcome = Quarantined,
        fl_reason = ''it has no '' @ join_str '' and no '' missing
          @ '': its provenance is unresolved until someone reviews it''\<rparr>)"

definition assets_missing :: "canonical_document \<Rightarrow> check_flag option" where
  "assets_missing doc =
     (let missing = length (filter (\<lambda>asset. as_status asset \<in> {AssetMissing, AssetOutsideRoot})
            (concat (map bk_assets (cd_blocks doc)))) in
      if 0 < missing
      then Some \<lparr>fl_rule = ''assets.missing'', fl_outcome = AcceptedWithWarnings,
        fl_reason = counted missing ''asset'' @ '' it refers to: missing, or outside the root it may be read from''\<rparr>
      else None)"

definition incomplete_row :: "canonical_document \<Rightarrow> block \<Rightarrow> string option" where
  "incomplete_row doc block =
     (case bk_parent block of
        None \<Rightarrow> None
      | Some row \<Rightarrow>
          (let filled = bk_type block = TableCellBlock \<and> list_all (\<lambda>span. sp_start span = sp_end span) (bk_spans block);
               surplus = bk_type block = RawBlock
                 \<and> is_some_and (\<lambda>row. bk_type row \<in> {TableRowBlock, TableHeadBlock}) (block_at doc row) in
           if filled \<or> surplus then Some row else None))"

definition table_incomplete :: "canonical_document \<Rightarrow> check_flag option" where
  "table_incomplete doc =
     (let rows = remdups (List.map_filter (incomplete_row doc) (cd_blocks doc)) in
      if rows = [] then None
      else Some \<lparr>fl_rule = ''table.incomplete'', fl_outcome = AcceptedWithWarnings,
        fl_reason = counted (length rows) ''table row'' @ '': fewer or more cells than its table'' @ [CHR 0x27] @ ''s header''\<rparr>)"

section \<open>The run of the checks (rules.rs)\<close>

definition run_checks :: "unicode \<Rightarrow> canonical_document \<Rightarrow> string \<Rightarrow> check_flag list option" where
  "run_checks u doc markdown =
     Option.bind (body_of u doc) (\<lambda>body.
       Some (List.map_filter (\<lambda>flag. flag)
         [canonicalization_failed doc, near_empty body, navigation_heavy body, replacement_characters doc,
          extraction_artifacts doc, suspected_secret markdown, table_incomplete doc, application_error u doc body,
          sign_in u doc body, metadata_missing doc, assets_missing doc]))"

end
