(* ===== verification/Quality_Gate.thy ===== *)
theory Quality_Gate
  imports Quality_Checks
begin

text \<open>
  The quality gate of a collection, \<open>crates/maestro-knowledge/src/quality/\<close>: the outcomes
  (\<open>outcome.rs\<close>), the ledger and its rules (\<open>ledger.rs\<close>), one decision (\<open>decide.rs\<close>), the report
  (\<open>report.rs\<close>), the gate and the revisions it lets through (\<open>gate.rs\<close>). The JSON of a ledger line
  and of a canonical document is read by serde's derives, parameters of the model; other processes may
  call the kernel between the gate's reads and its writes.
\<close>

section \<open>Outcomes (outcome.rs)\<close>

definition GATE_OUTCOMES :: "outcome list" where
  "GATE_OUTCOMES = [Accepted, AcceptedWithWarnings, NeedsReextraction, Quarantined, Excluded]"

fun outcome_name :: "outcome \<Rightarrow> string" where
  "outcome_name Accepted = ''accepted''"
| "outcome_name AcceptedWithWarnings = ''accepted_with_warnings''"
| "outcome_name NeedsReextraction = ''needs_reextraction''"
| "outcome_name Quarantined = ''quarantined''"
| "outcome_name Excluded = ''excluded''"

definition holds :: "outcome \<Rightarrow> bool" where
  "holds outcome \<longleftrightarrow> outcome \<noteq> Accepted \<and> outcome \<noteq> AcceptedWithWarnings"

section \<open>The ledger (ledger.rs)\<close>

record rule_match =
  ma_source_ref :: "string option"
  ma_sha256 :: "digest option"
  ma_title :: "string option"
  ma_source_kind :: "string option"
  ma_set :: "string option"
  ma_version :: "string option"
  ma_lang :: "string option"
  ma_captured_at :: "string option"
  ma_product :: "string option"
  ma_component :: "string option"
  ma_platform :: "string option"

record ledger_rule =
  ru_id :: string
  ru_matches :: rule_match
  ru_disposition :: outcome
  ru_reason :: string
  ru_decided_by :: string
  ru_reversal :: string

type_synonym ledger = "ledger_rule list"

definition rule_id :: "ledger_rule \<Rightarrow> string" where
  "rule_id rule = ''ledger.'' @ ru_id rule"

definition match_fields :: "rule_match \<Rightarrow> (string \<times> string) list" where
  "match_fields m =
     List.map_filter (\<lambda>(name, text). map_option (Pair name) text)
       [(''source_ref'', ma_source_ref m), (''sha256'', map_option digest_str (ma_sha256 m)),
        (''title'', ma_title m), (''source_kind'', ma_source_kind m), (''set'', ma_set m),
        (''version'', ma_version m), (''lang'', ma_lang m), (''captured_at'', ma_captured_at m),
        (''product'', ma_product m), (''component'', ma_component m), (''platform'', ma_platform m)]"

record candidate =
  ca_revision :: revision
  ca_source_ref :: string

definition metadata_text :: "revision \<Rightarrow> string \<Rightarrow> string option" where
  "metadata_text revision name = Option.bind (map_of (rv_metadata revision) name) json_string"

definition candidate_field :: "candidate \<Rightarrow> string \<Rightarrow> string option" where
  "candidate_field c name =
     (if name = ''source_ref'' then Some (ca_source_ref c)
      else if name = ''sha256'' then Some (digest_str (rv_original (ca_revision c)))
      else metadata_text (ca_revision c) name)"

definition rule_matches :: "candidate \<Rightarrow> ledger_rule \<Rightarrow> bool" where
  "rule_matches c rule = list_all (\<lambda>(name, text). candidate_field c name = Some text) (match_fields (ru_matches rule))"

definition first_match :: "ledger \<Rightarrow> candidate \<Rightarrow> ledger_rule option" where
  "first_match ledger c = List.find (rule_matches c) ledger"

datatype ledger_error =
    LedgerIo string
  | LedgerJson nat string
  | EmptyMatch nat
  | DuplicateRule nat string

text \<open>\<open>split_terminator('\n')\<close>; \<open>read\<close> is the derive that reads one line.\<close>

definition terminated_lines :: "string \<Rightarrow> string list" where
  "terminated_lines text =
     (let pieces = split_on CHR 0x0A text in if last pieces = [] then butlast pieces else pieces)"

fun read_rules :: "(string \<Rightarrow> string + ledger_rule) \<Rightarrow> nat \<Rightarrow> string list \<Rightarrow> ledger \<Rightarrow> ledger_error + ledger" where
  "read_rules read line [] rules = Inr rules"
| "read_rules read line (text # texts) rules =
     (case read text of
        Inl e \<Rightarrow> Inl (LedgerJson line e)
      | Inr rule \<Rightarrow>
          if match_fields (ru_matches rule) = [] then Inl (EmptyMatch line)
          else if list_ex (\<lambda>earlier. ru_id earlier = ru_id rule) rules then Inl (DuplicateRule line (ru_id rule))
          else read_rules read (Suc line) texts (rules @ [rule]))"

definition ledger_from_str :: "(string \<Rightarrow> string + ledger_rule) \<Rightarrow> string \<Rightarrow> ledger_error + ledger" where
  "ledger_from_str read text = read_rules read 1 (terminated_lines text) []"

datatype file_text = FileText string | FileNotFound | FileUnreadable

definition ledger_load :: "(string \<Rightarrow> string + ledger_rule) \<Rightarrow> string \<Rightarrow> file_text \<Rightarrow> ledger_error + ledger" where
  "ledger_load read path found =
     (case found of
        FileText text \<Rightarrow> ledger_from_str read text
      | FileNotFound \<Rightarrow> Inr []
      | FileUnreadable \<Rightarrow> Inl (LedgerIo path))"

section \<open>One decision (decide.rs)\<close>

definition GATE :: string where "GATE = ''quality-gate/1''"

definition severity :: "outcome \<Rightarrow> nat" where
  "severity outcome =
     (case List.find (\<lambda>(i, named). named = outcome) (enumerate 0 GATE_OUTCOMES) of None \<Rightarrow> 0 | Some (i, _) \<Rightarrow> i)"

text \<open>What the flags of the checks decide, with what a rule set aside says.\<close>

definition decide_flags :: "string \<Rightarrow> check_flag list \<Rightarrow> string option \<Rightarrow> disposition" where
  "decide_flags rid flags set_aside =
     (let flags = sort_key (\<lambda>flag. - int (severity (fl_outcome flag))) flags in
      \<lparr>ds_revision = rid, ds_outcome = (case flags of [] \<Rightarrow> Accepted | flag # _ \<Rightarrow> fl_outcome flag),
       ds_reasons = map fl_reason flags @ (case set_aside of None \<Rightarrow> [] | Some reason \<Rightarrow> [reason]),
       ds_rules = map fl_rule flags, ds_decided_by = GATE\<rparr>)"

definition decide ::
  "(canonical_document \<Rightarrow> string \<Rightarrow> check_flag list) \<Rightarrow> ledger \<Rightarrow> candidate \<Rightarrow> canonical_document \<Rightarrow> string \<Rightarrow> disposition" where
  "decide checks ledger c doc markdown =
     (let rid = rv_id (ca_revision c) in
      case first_match ledger c of
        None \<Rightarrow> decide_flags rid (checks doc markdown) None
      | Some rule \<Rightarrow>
          if holds (ru_disposition rule) \<or> cd_status doc \<noteq> DocumentFailed
          then \<lparr>ds_revision = rid, ds_outcome = ru_disposition rule, ds_reasons = [ru_reason rule],
                ds_rules = [rule_id rule], ds_decided_by = ru_decided_by rule\<rparr>
          else decide_flags rid (checks doc markdown)
            (Some (''the ledger rule '' @ rule_id rule @ '' accepts it, but a failed canonical document is never indexed'')))"

section \<open>The report (report.rs)\<close>

record outcome_counts =
  oc_accepted :: nat
  oc_accepted_with_warnings :: nat
  oc_needs_reextraction :: nat
  oc_quarantined :: nat
  oc_excluded :: nat

fun count_outcome :: "outcome \<Rightarrow> outcome_counts \<Rightarrow> outcome_counts" where
  "count_outcome Accepted n = n\<lparr>oc_accepted := oc_accepted n + 1\<rparr>"
| "count_outcome AcceptedWithWarnings n = n\<lparr>oc_accepted_with_warnings := oc_accepted_with_warnings n + 1\<rparr>"
| "count_outcome NeedsReextraction n = n\<lparr>oc_needs_reextraction := oc_needs_reextraction n + 1\<rparr>"
| "count_outcome Quarantined n = n\<lparr>oc_quarantined := oc_quarantined n + 1\<rparr>"
| "count_outcome Excluded n = n\<lparr>oc_excluded := oc_excluded n + 1\<rparr>"

record held =
  he_revision :: string
  he_document :: string
  he_source_ref :: string
  he_source_kind :: "string option"
  he_set :: "string option"
  he_outcome :: outcome
  he_rules :: "string list"
  he_reasons :: "string list"
  he_decided_by :: string

record report =
  rp_collection :: string
  rp_revisions :: nat
  rp_decided :: nat
  rp_kept :: nat
  rp_outcomes :: outcome_counts
  rp_rules :: "(string \<times> nat) list"
  rp_ignored :: "(string \<times> nat) list"
  rp_held :: "held list"

definition report_new :: "string \<Rightarrow> report" where
  "report_new collection =
     \<lparr>rp_collection = collection, rp_revisions = 0, rp_decided = 0, rp_kept = 0,
      rp_outcomes = \<lparr>oc_accepted = 0, oc_accepted_with_warnings = 0, oc_needs_reextraction = 0, oc_quarantined = 0,
        oc_excluded = 0\<rparr>,
      rp_rules = [], rp_ignored = [], rp_held = []\<rparr>"

definition report_ignore :: "string \<Rightarrow> report \<Rightarrow> report" where
  "report_ignore rule report = report\<lparr>rp_ignored := count_key rule (rp_ignored report)\<rparr>"

definition held_of :: "revision \<Rightarrow> string \<Rightarrow> disposition \<Rightarrow> held" where
  "held_of revision source_ref decided =
     \<lparr>he_revision = ds_revision decided, he_document = rv_document revision, he_source_ref = source_ref,
      he_source_kind = metadata_text revision ''source_kind'', he_set = metadata_text revision ''set'',
      he_outcome = ds_outcome decided, he_rules = ds_rules decided, he_reasons = ds_reasons decided,
      he_decided_by = ds_decided_by decided\<rparr>"

definition report_count :: "revision \<Rightarrow> string \<Rightarrow> disposition \<Rightarrow> bool \<Rightarrow> report \<Rightarrow> report" where
  "report_count revision source_ref decision decided report =
     (let report = report\<lparr>rp_revisions := rp_revisions report + 1\<rparr>;
          report = (if decided then report\<lparr>rp_decided := rp_decided report + 1\<rparr>
            else report\<lparr>rp_kept := rp_kept report + 1\<rparr>);
          report = report\<lparr>rp_outcomes := count_outcome (ds_outcome decision) (rp_outcomes report),
            rp_rules := fold count_key (ds_rules decision) (rp_rules report)\<rparr> in
      if holds (ds_outcome decision)
      then report\<lparr>rp_held := rp_held report @ [held_of revision source_ref decision]\<rparr>
      else report)"

section \<open>The gate (gate.rs)\<close>

datatype gate_error =
    UnknownCollection string
  | GateRecords document_error
  | GateArtifacts store_error
  | GateCanonical string

text \<open>
  What the gate is given beside the database: the checks, the derive that reads a canonical document,
  \<open>from_utf8_lossy\<close>, the times its writes draw, and what other processes do to the database before its
  reads of a revision and before its write. What they do between two of those reads,
  or before a kept disposition is read again, has no field of its own: the rows read are never changed,
  and rows added since count as added before the write.
\<close>

record gate_run =
  gr_checks :: "canonical_document \<Rightarrow> string \<Rightarrow> check_flag list"
  gr_read :: "string \<Rightarrow> canonical_document option"
  gr_lossy :: "string \<Rightarrow> string"
  gr_draws :: "nat \<Rightarrow> draws"
  gr_before_read :: "nat \<Rightarrow> disk \<Rightarrow> disk"
  gr_before_write :: "nat \<Rightarrow> disk \<Rightarrow> disk"

definition gate_record ::
  "ext \<Rightarrow> gate_run \<Rightarrow> nat \<Rightarrow> scope_set \<Rightarrow> ledger \<Rightarrow> candidate \<Rightarrow> disk \<Rightarrow> (gate_error + disposition \<times> bool) \<times> disk" where
  "gate_record x g i scopes ledger c disk =
     (let revision = ca_revision c in
      case and_then (map_err GateArtifacts (get x (rv_canonical revision) disk)) (\<lambda>bytes.
           and_then (ok_or (GateCanonical (rv_id revision)) (gr_read g bytes)) (\<lambda>doc.
           and_then (map_err GateArtifacts (get x (rv_original revision) disk)) (\<lambda>original.
             Inr (decide (gr_checks g) ledger c doc (gr_lossy g original))))) of
        Inl e \<Rightarrow> (Inl e, disk)
      | Inr decision \<Rightarrow>
          (let disk = gr_before_write g i disk in
           case record_disposition x (gr_draws g i) decision (dk_kernel disk) of
             (Inl e, k) \<Rightarrow> (Inl (GateRecords e), disk\<lparr>dk_kernel := k\<rparr>)
           | (Inr New, k) \<Rightarrow> (Inr (decision, True), disk\<lparr>dk_kernel := k\<rparr>)
           | (Inr Unchanged, k) \<Rightarrow>
               (map_err GateRecords (and_then (disposition_read x scopes (rv_id revision) k) (\<lambda>kept.
                  Inr (case kept of None \<Rightarrow> decision | Some kept \<Rightarrow> kept, False))), disk\<lparr>dk_kernel := k\<rparr>)))"

text \<open>A rule a kept decision outranks.\<close>

definition outranked :: "ledger \<Rightarrow> candidate \<Rightarrow> disposition \<Rightarrow> ledger_rule option" where
  "outranked ledger c decision =
     (case first_match ledger c of
        None \<Rightarrow> None
      | Some rule \<Rightarrow>
          if ru_disposition rule \<noteq> ds_outcome decision
            \<and> (holds (ru_disposition rule) \<or> rv_status (ca_revision c) \<noteq> RevisionFailed)
          then Some rule else None)"

definition gate_one ::
  "ext \<Rightarrow> gate_run \<Rightarrow> nat \<Rightarrow> scope_set \<Rightarrow> ledger \<Rightarrow> revision \<Rightarrow> report \<Rightarrow> disk \<Rightarrow> (gate_error + report) \<times> disk" where
  "gate_one x g i scopes ledger revision report disk =
     (case and_then (map_err GateRecords (document_read scopes (rv_document revision) (dk_kernel disk))) (\<lambda>doc.
           and_then (map_err GateRecords (disposition_read x scopes (rv_id revision) (dk_kernel disk))) (\<lambda>kept.
             Inr (case doc of None \<Rightarrow> [] | Some doc \<Rightarrow> kd_source_ref doc, kept))) of
        Inl e \<Rightarrow> (Inl e, disk)
      | Inr (source_ref, kept) \<Rightarrow>
          (let c = \<lparr>ca_revision = revision, ca_source_ref = source_ref\<rparr> in
           case (case kept of
                   Some decision \<Rightarrow> (Inr (decision, False), disk)
                 | None \<Rightarrow> gate_record x g i scopes ledger c disk) of
             (Inl e, disk) \<Rightarrow> (Inl e, disk)
           | (Inr (decision, decided), disk) \<Rightarrow>
               (let report = (if decided then report else case outranked ledger c decision of
                      None \<Rightarrow> report | Some rule \<Rightarrow> report_ignore (rule_id rule) report) in
                (Inr (report_count revision source_ref decision decided report), disk))))"

fun gate_revisions ::
  "ext \<Rightarrow> gate_run \<Rightarrow> nat \<Rightarrow> scope_set \<Rightarrow> ledger \<Rightarrow> revision list \<Rightarrow> report \<Rightarrow> disk \<Rightarrow> (gate_error + report) \<times> disk" where
  "gate_revisions x g i scopes ledger [] report disk = (Inr report, disk)"
| "gate_revisions x g i scopes ledger (revision # revisions) report disk =
     (case gate_one x g i scopes ledger revision report (gr_before_read g i disk) of
        (Inl e, disk) \<Rightarrow> (Inl e, disk)
      | (Inr report, disk) \<Rightarrow> gate_revisions x g (Suc i) scopes ledger revisions report disk)"

definition gate ::
  "ext \<Rightarrow> gate_run \<Rightarrow> scope_set \<Rightarrow> string \<Rightarrow> ledger \<Rightarrow> disk \<Rightarrow> (gate_error + report) \<times> disk" where
  "gate x g scopes collection ledger disk =
     (case map_err GateRecords (collection_read x scopes collection (dk_kernel disk)) of
        Inl e \<Rightarrow> (Inl e, disk)
      | Inr None \<Rightarrow> (Inl (UnknownCollection collection), disk)
      | Inr (Some _) \<Rightarrow>
          (case map_err GateRecords (revisions_read x scopes collection (dk_kernel disk)) of
             Inl e \<Rightarrow> (Inl e, disk)
           | Inr revisions \<Rightarrow> gate_revisions x g 0 scopes ledger revisions (report_new collection) disk))"

section \<open>What the gate lets through\<close>

text \<open>The latest revision of each document, in record order.\<close>

definition latest_revisions :: "revision list \<Rightarrow> string \<Rightarrow> string option" where
  "latest_revisions revisions = map_of (rev (map (\<lambda>revision. (rv_document revision, rv_id revision)) revisions))"

fun eligible_from ::
  "ext \<Rightarrow> scope_set \<Rightarrow> kernel \<Rightarrow> (string \<Rightarrow> string option) \<Rightarrow> revision list \<Rightarrow> document_error + revision list" where
  "eligible_from x scopes k latest [] = Inr []"
| "eligible_from x scopes k latest (revision # revisions) =
     (if latest (rv_document revision) \<noteq> Some (rv_id revision) \<or> rv_status revision = RevisionFailed
      then eligible_from x scopes k latest revisions
      else and_then (disposition_read x scopes (rv_id revision) k) (\<lambda>decision.
        and_then (eligible_from x scopes k latest revisions) (\<lambda>rest.
          Inr (if is_some_and (\<lambda>decision. \<not> holds (ds_outcome decision)) decision then revision # rest else rest))))"

definition eligible :: "ext \<Rightarrow> scope_set \<Rightarrow> string \<Rightarrow> kernel \<Rightarrow> document_error + revision list" where
  "eligible x scopes collection k =
     and_then (revisions_read x scopes collection k) (\<lambda>revisions.
       eligible_from x scopes k (latest_revisions revisions) revisions)"

end
