(* ===== verification/Quality_Props.thy ===== *)
theory Quality_Props
  imports Quality_Decisions Kernel_Runs Document_Props
begin

text \<open>
  What a run of the quality gate does to a collection, whatever other processes do meanwhile: every
  revision it read ends decided, each is counted once, what was decided stays; a second run decides
  nothing; and what the gate lets through.
\<close>

section \<open>Decisions that stay\<close>

definition sees_revision :: "kernel \<Rightarrow> scope_set \<Rightarrow> string \<Rightarrow> bool" where
  "sees_revision k scopes rid = (case document_of k rid of None \<Rightarrow> False | Some doc \<Rightarrow> sees_document scopes doc)"

lemma sees_revision_grows: "documents_grow k k' \<Longrightarrow> sees_revision k scopes rid \<Longrightarrow> sees_revision k' scopes rid"
  using document_of_grows[of k k' rid] by (auto simp: sees_revision_def split: option.splits)

lemma disposition_read_find:
  "disposition_read x scopes rid k =
     (case List.find (\<lambda>row. qd_revision row = rid \<and> sees_revision k scopes rid) (k_dispositions k) of
        None \<Rightarrow> Inr None
      | Some row \<Rightarrow> map_err document_sqlite (optional (disposition_row x row)))"
  by (simp add: disposition_read_def sees_revision_def find_first split: option.splits)

lemma disposition_row_found [simp]: "disposition_row x row \<noteq> Inl QueryReturnedNoRows"
  by (auto simp: disposition_row_def outcome_column_def json_column_def ok_or_def and_then_def split: option.splits)

lemma optional_disposition:
  "optional (disposition_row x row) = Inr v \<longleftrightarrow> (\<exists>d. v = Some d \<and> disposition_row x row = Inr d)"
  by (auto simp: optional_def split: sum.splits sqlite_error.splits)

lemma find_nothing [simp]: "List.find (\<lambda>_. False) vs = None"
  by (induction vs) simp_all

lemma disposition_read_some:
  "disposition_read x scopes rid k = Inr (Some d) \<longleftrightarrow>
     sees_revision k scopes rid \<and> (\<exists>row. List.find (\<lambda>row. qd_revision row = rid) (k_dispositions k) = Some row
       \<and> disposition_row x row = Inr d)"
  by (cases "sees_revision k scopes rid")
    (auto simp: disposition_read_find optional_disposition results split: option.splits)

lemma disposition_read_none:
  assumes "disposition_read x scopes rid k = Inr None" and "sees_revision k scopes rid"
  shows "rid \<notin> qd_revision ` set (k_dispositions k)"
  using assms by (auto simp: disposition_read_find optional_disposition results find_None_iff split: option.splits)

lemma disposition_row_fields:
  "disposition_row x row = Inr d \<Longrightarrow> ds_revision d = qd_revision row \<and> outcome_str (ds_outcome d) = qd_disposition row"
  by (auto simp: disposition_row_def results)

lemma disposition_read_grows:
  assumes "documents_grow k k'" and "disposition_read x scopes rid k = Inr (Some d)"
  shows "disposition_read x scopes rid k' = Inr (Some d)"
  using assms documents_growD(3)[OF assms(1)] sees_revision_grows[OF assms(1)]
  unfolding disposition_read_some by (blast intro: find_prefix)

section \<open>One revision\<close>

text \<open>What other processes do: calls of the kernel.\<close>

definition calls_only :: "ext \<Rightarrow> (nat \<Rightarrow> disk \<Rightarrow> disk) \<Rightarrow> bool" where
  "calls_only x others \<longleftrightarrow> (\<forall>i disk. (kernel_step x UNIV)\<^sup>*\<^sup>* (dk_kernel disk) (dk_kernel (others i disk)))"

lemma gate_record_run:
  assumes "calls_only x (gr_before_write g)" and "gate_record x g i scopes ledger c disk = (r, disk')"
  shows "(kernel_step x UNIV)\<^sup>*\<^sup>* (dk_kernel disk) (dk_kernel disk')"
proof -
  let ?k = "dk_kernel (gr_before_write g i disk)"
  have run: "(kernel_step x UNIV)\<^sup>*\<^sup>* (dk_kernel disk) ?k" using assms(1) by (simp add: calls_only_def)
  have "dk_kernel disk' = dk_kernel disk \<or> (\<exists>r decision. record_disposition x (gr_draws g i) decision ?k = (r, dk_kernel disk'))"
    using assms(2) by (auto simp: gate_record_def Let_def split: sum.splits prod.splits recorded.splits)
  then show ?thesis using run kernel_step.decides by (metis rtranclp.rtrancl_into_rtrancl rtranclp.rtrancl_refl)
qed

lemma gate_record_reads:
  assumes law: "lawful x" and ok: "kernel_ok x UNIV (dk_kernel disk)" and others: "calls_only x (gr_before_write g)"
    and sees: "sees_revision (dk_kernel disk) scopes (rv_id (ca_revision c))"
    and r: "gate_record x g i scopes ledger c disk = (Inr (decision, decided), disk')"
  shows "disposition_read x scopes (rv_id (ca_revision c)) (dk_kernel disk') = Inr (Some decision)"
proof -
  let ?disk = "gr_before_write g i disk" and ?rid = "rv_id (ca_revision c)" and ?k' = "dk_kernel disk'"
  obtain given where given: "ds_revision given = ?rid"
      "record_disposition x (gr_draws g i) given (dk_kernel ?disk) = (Inr New, ?k') \<and> decision = given
       \<or> record_disposition x (gr_draws g i) given (dk_kernel ?disk) = (Inr Unchanged, ?k')
         \<and> (\<exists>kept. disposition_read x scopes ?rid ?k' = Inr kept \<and> decision = (case kept of None \<Rightarrow> given | Some kept \<Rightarrow> kept))"
  proof -
    obtain bytes doc original where m: "and_then (map_err GateArtifacts (get x (rv_canonical (ca_revision c)) disk)) (\<lambda>bytes.
           and_then (ok_or (GateCanonical ?rid) (gr_read g bytes)) (\<lambda>doc.
           and_then (map_err GateArtifacts (get x (rv_original (ca_revision c)) disk)) (\<lambda>original.
             Inr (decide (gr_checks g) ledger c doc (gr_lossy g original)))))
         = Inr (decide (gr_checks g) ledger c doc (gr_lossy g original))"
      using r by (auto simp: gate_record_def Let_def results split: sum.splits)
    have "ds_revision (decide (gr_checks g) ledger c doc (gr_lossy g original)) = ?rid"
      by (simp add: decide_def decide_flags_def Let_def split: option.splits)
    then show thesis
      using r m that[of "decide (gr_checks g) ledger c doc (gr_lossy g original)"]
      by (auto simp: gate_record_def Let_def results split: sum.splits prod.splits recorded.splits)
  qed
  have ok1: "kernel_ok x UNIV (dk_kernel ?disk)" "documents_grow (dk_kernel disk) (dk_kernel ?disk)"
    using kernel_run[OF law ok] others by (auto simp: calls_only_def kernel_grows_def)
  have step: "kernel_step x UNIV (dk_kernel ?disk) ?k'" using given(2) kernel_step.decides by metis
  then have ok2: "kernel_ok x UNIV ?k'" "documents_grow (dk_kernel ?disk) ?k'"
    using kernel_run[OF law ok1(1) r_into_rtranclp] by (auto simp: kernel_grows_def)
  have sees': "sees_revision ?k' scopes ?rid"
    by (rule sees_revision_grows[OF ok2(2) sees_revision_grows[OF ok1(2) sees]])
  from given(2) show ?thesis
  proof (elim disjE conjE exE)
    assume new: "record_disposition x (gr_draws g i) given (dk_kernel ?disk) = (Inr New, ?k')" and d: "decision = given"
    then have "record_disposition_in x (gr_draws g i) given (dk_kernel ?disk) = Inr (New, ?k')"
      by (simp add: record_disposition_def db_write_Inr)
    from record_disposition_in_tables[OF this]
    have "new_disposition_row x (gr_draws g i) given \<in> set (k_dispositions ?k')" by (simp add: decision_entered_def)
    from new_disposition_reads[OF law _ this, of scopes] ok2(1) sees'
    show ?thesis using given(1) d by (auto simp: kernel_ok_def documents_ok_def sees_revision_def split: option.splits)
  next
    fix kept
    assume old: "record_disposition x (gr_draws g i) given (dk_kernel ?disk) = (Inr Unchanged, ?k')"
      and read: "disposition_read x scopes ?rid ?k' = Inr kept"
      and d: "decision = (case kept of None \<Rightarrow> given | Some kept \<Rightarrow> kept)"
    have "record_disposition_in x (gr_draws g i) given (dk_kernel ?disk) = Inr (Unchanged, ?k')"
      using old by (simp add: record_disposition_def db_write_Inr)
    from conjunct2[OF conjunct2[OF record_disposition_in_tables[OF this]]]
    have "?rid \<in> qd_revision ` set (k_dispositions ?k')" unfolding given(1) .
    then have "kept \<noteq> None" using disposition_read_none[OF _ sees'] read by metis
    then show ?thesis using read d by auto
  qed
qed

lemma gate_one_run:
  assumes "calls_only x (gr_before_write g)" and "gate_one x g i scopes ledger revision report disk = (r, disk')"
  shows "(kernel_step x UNIV)\<^sup>*\<^sup>* (dk_kernel disk) (dk_kernel disk')"
proof -
  have "disk' = disk \<or> (\<exists>c r. gate_record x g i scopes ledger c disk = (r, disk'))"
    using assms(2) by (auto simp: gate_one_def Let_def split: sum.splits prod.splits option.splits)
  then show ?thesis using gate_record_run[OF assms(1)] by (metis rtranclp.rtrancl_refl)
qed

lemma gate_one_reads:
  assumes law: "lawful x" and ok: "kernel_ok x UNIV (dk_kernel disk)" and others: "calls_only x (gr_before_write g)"
    and sees: "sees_revision (dk_kernel disk) scopes (rv_id revision)"
    and r: "gate_one x g i scopes ledger revision report disk = (Inr report', disk')"
  shows "\<exists>decision decided source_ref report1. disposition_read x scopes (rv_id revision) (dk_kernel disk') = Inr (Some decision)
    \<and> (report1 = report \<or> (\<exists>rule. report1 = report_ignore rule report))
    \<and> report' = report_count revision source_ref decision decided report1
    \<and> (decided \<longrightarrow> disposition_read x scopes (rv_id revision) (dk_kernel disk) = Inr None)"
proof -
  obtain source_ref kept where reads: "and_then (map_err GateRecords (document_read scopes (rv_document revision) (dk_kernel disk))) (\<lambda>doc.
        and_then (map_err GateRecords (disposition_read x scopes (rv_id revision) (dk_kernel disk))) (\<lambda>kept.
          Inr (case doc of None \<Rightarrow> [] | Some doc \<Rightarrow> kd_source_ref doc, kept))) = Inr (source_ref, kept)"
    using r by (auto simp: gate_one_def split: sum.splits)
  then have kept: "disposition_read x scopes (rv_id revision) (dk_kernel disk) = Inr kept" by (auto simp: results)
  let ?c = "\<lparr>ca_revision = revision, ca_source_ref = source_ref\<rparr>"
  obtain decision decided where one: "(case kept of Some decision \<Rightarrow> (Inr (decision, False), disk)
      | None \<Rightarrow> gate_record x g i scopes ledger ?c disk) = (Inr (decision, decided), disk')"
    and report: "report' = report_count revision source_ref decision decided (if decided then report
      else case outranked ledger ?c decision of None \<Rightarrow> report | Some rule \<Rightarrow> report_ignore (rule_id rule) report)"
    using r unfolding gate_one_def reads by (auto simp: Let_def split: sum.splits prod.splits)
  have "disposition_read x scopes (rv_id revision) (dk_kernel disk') = Inr (Some decision) \<and> (decided \<longrightarrow> kept = None)"
  proof (cases kept)
    case None
    then show ?thesis using gate_record_reads[OF law ok others, of scopes ?c i ledger] sees one by simp
  next
    case (Some d)
    then show ?thesis using one kept by simp
  qed
  then show ?thesis using report kept by (auto split: option.splits)
qed

lemma gate_revisions_run:
  assumes "calls_only x (gr_before_read g)" and "calls_only x (gr_before_write g)"
  shows "gate_revisions x g i scopes ledger revisions report disk = (r, disk') \<Longrightarrow>
    (kernel_step x UNIV)\<^sup>*\<^sup>* (dk_kernel disk) (dk_kernel disk')"
proof (induction revisions arbitrary: i report disk)
  case (Cons revision revisions)
  let ?disk = "gr_before_read g i disk"
  obtain r1 disk1 where one: "gate_one x g i scopes ledger revision report ?disk = (r1, disk1)" by fastforce
  have "(kernel_step x UNIV)\<^sup>*\<^sup>* (dk_kernel disk) (dk_kernel ?disk)" using assms(1) by (simp add: calls_only_def)
  moreover have "(kernel_step x UNIV)\<^sup>*\<^sup>* (dk_kernel ?disk) (dk_kernel disk1)" by (rule gate_one_run[OF assms(2) one])
  ultimately have run: "(kernel_step x UNIV)\<^sup>*\<^sup>* (dk_kernel disk) (dk_kernel disk1)" by (rule rtranclp_trans)
  show ?case
  proof (cases r1)
    case (Inl e)
    then show ?thesis using Cons.prems one run by simp
  next
    case (Inr report1)
    then have "gate_revisions x g (Suc i) scopes ledger revisions report1 disk1 = (r, disk')" using Cons.prems one by simp
    from rtranclp_trans[OF run Cons.IH[OF this]] show ?thesis .
  qed
qed simp

definition outcomes_counted :: "outcome_counts \<Rightarrow> nat" where
  "outcomes_counted n = oc_accepted n + oc_accepted_with_warnings n + oc_needs_reextraction n + oc_quarantined n + oc_excluded n"

text \<open>A report counts so many revisions, with these held back.\<close>

definition report_counts :: "report \<Rightarrow> nat \<Rightarrow> string list \<Rightarrow> bool" where
  "report_counts report n held \<longleftrightarrow>
     rp_revisions report = n \<and> rp_decided report + rp_kept report = n \<and> outcomes_counted (rp_outcomes report) = n
     \<and> map he_revision (rp_held report) = held"

lemma outcomes_counted_one: "outcomes_counted (count_outcome outcome n) = Suc (outcomes_counted n)"
  by (cases outcome) (simp_all add: outcomes_counted_def)

lemma report_counts_one:
  "report_counts report n held \<Longrightarrow> report_counts (report_count revision source_ref decision decided report) (Suc n)
     (held @ (if holds (ds_outcome decision) then [ds_revision decision] else []))"
  by (auto simp: report_counts_def report_count_def Let_def outcomes_counted_one held_of_def)

lemma report_counts_ignore: "report_counts (report_ignore rule report) n held = report_counts report n held"
  by (simp add: report_counts_def report_ignore_def)

definition held_back :: "ext \<Rightarrow> kernel \<Rightarrow> scope_set \<Rightarrow> revision \<Rightarrow> bool" where
  "held_back x k scopes revision =
     (case disposition_read x scopes (rv_id revision) k of Inr (Some d) \<Rightarrow> holds (ds_outcome d) | _ \<Rightarrow> False)"

lemma gate_revisions_reads:
  assumes law: "lawful x" and others: "calls_only x (gr_before_read g)" "calls_only x (gr_before_write g)"
  shows "gate_revisions x g i scopes ledger revisions report disk = (Inr report', disk') \<Longrightarrow> kernel_ok x UNIV (dk_kernel disk) \<Longrightarrow>
    \<forall>revision\<in>set revisions. sees_revision (dk_kernel disk) scopes (rv_id revision) \<Longrightarrow> report_counts report n held \<Longrightarrow>
    (\<forall>revision\<in>set revisions. \<exists>d. disposition_read x scopes (rv_id revision) (dk_kernel disk') = Inr (Some d))
    \<and> report_counts report' (n + length revisions) (held @ map rv_id (filter (held_back x (dk_kernel disk') scopes) revisions))"
proof (induction revisions arbitrary: i report disk n held)
  case (Cons revision revisions)
  let ?disk = "gr_before_read g i disk" and ?rid = "rv_id revision" and ?k' = "dk_kernel disk'"
  obtain report1 disk1 where one: "gate_one x g i scopes ledger revision report ?disk = (Inr report1, disk1)"
    and rest: "gate_revisions x g (Suc i) scopes ledger revisions report1 disk1 = (Inr report', disk')"
    using Cons.prems(1) by (auto split: prod.splits sum.splits)
  have run0: "(kernel_step x UNIV)\<^sup>*\<^sup>* (dk_kernel disk) (dk_kernel ?disk)" using others(1) by (simp add: calls_only_def)
  have ok0: "kernel_ok x UNIV (dk_kernel ?disk)" "documents_grow (dk_kernel disk) (dk_kernel ?disk)"
    using kernel_run[OF law Cons.prems(2) run0] by (simp_all add: kernel_grows_def)
  have ok1: "kernel_ok x UNIV (dk_kernel disk1)" "documents_grow (dk_kernel ?disk) (dk_kernel disk1)"
    using kernel_run[OF law ok0(1) gate_one_run[OF others(2) one]] by (simp_all add: kernel_grows_def)
  have grow: "documents_grow (dk_kernel disk) (dk_kernel disk1)" by (rule documents_grow_trans[OF ok0(2) ok1(2)])
  have grow': "documents_grow (dk_kernel disk1) ?k'"
    using kernel_run[OF law ok1(1) gate_revisions_run[OF others rest]] by (simp add: kernel_grows_def)
  have "sees_revision (dk_kernel ?disk) scopes ?rid" using sees_revision_grows[OF ok0(2)] Cons.prems(3) by simp
  from gate_one_reads[OF law ok0(1) others(2) this one] obtain decision decided source_ref report2 where
    d: "disposition_read x scopes ?rid (dk_kernel disk1) = Inr (Some decision)"
    and report2: "report2 = report \<or> (\<exists>rule. report2 = report_ignore rule report)"
    and report1: "report1 = report_count revision source_ref decision decided report2" by blast
  have d': "disposition_read x scopes ?rid ?k' = Inr (Some decision)" by (rule disposition_read_grows[OF grow' d])
  have "ds_revision decision = ?rid"
    using d disposition_row_fields by (auto simp: disposition_read_some find_Some_iff)
  moreover have "report_counts report2 n held" using report2 Cons.prems(4) by (auto simp: report_counts_ignore)
  ultimately have counts: "report_counts report1 (Suc n) (held @ (if holds (ds_outcome decision) then [?rid] else []))"
    unfolding report1 by (metis report_counts_one)
  have "\<forall>r\<in>set revisions. sees_revision (dk_kernel disk1) scopes (rv_id r)"
    using Cons.prems(3) sees_revision_grows[OF grow] by simp
  from Cons.IH[OF rest ok1(1) this counts] d' show ?case
    by (cases "holds (ds_outcome decision)") (simp_all add: held_back_def)
qed simp

section \<open>The whole gate\<close>

lemma disposition_read_decided:
  "disposition_read x scopes rid k = Inr (Some d) \<Longrightarrow> rid \<in> qd_revision ` set (k_dispositions k)"
  by (auto simp: disposition_read_some find_Some_iff)

lemma revisions_read_sees:
  assumes ok: "kernel_ok x UNIV k" and r: "revisions_read x scopes collection k = Inr revisions" and mem: "revision \<in> set revisions"
  shows "sees_revision k scopes (rv_id revision)"
proof -
  have "collect_results (map (revision_row x)
      (filter (joins k (\<lambda>doc. do_collection doc = collection \<and> sees_document scopes doc)) (k_revisions k))) = Inr revisions"
    using r by (auto simp: revisions_read_def of_collection_def results)
  from collect_results_mem[OF this mem] obtain row where row: "row \<in> set (k_revisions k)" "revision_row x row = Inr revision"
      "joins k (\<lambda>doc. do_collection doc = collection \<and> sees_document scopes doc) row" by auto
  have "rv_id revision = re_id row" using row(2) by (auto simp: revision_row_def results)
  then show ?thesis using row(1,3) document_of_joined[of k row] ok
    by (auto simp: sees_revision_def joins_def kernel_ok_def documents_ok_def split: option.splits)
qed

lemma gate_run:
  assumes "calls_only x (gr_before_read g)" and "calls_only x (gr_before_write g)"
    and "gate x g scopes collection ledger disk = (r, disk')"
  shows "(kernel_step x UNIV)\<^sup>*\<^sup>* (dk_kernel disk) (dk_kernel disk')"
  using assms(3) gate_revisions_run[OF assms(1,2)] by (auto simp: gate_def split: sum.splits option.splits)

text \<open>
  C12: a run of the gate decides every revision of the collection its caller reads, whatever other
  processes do meanwhile: where it ends without an error each of them has a disposition, the report
  counts each exactly once, as decided or kept and by its outcome, and lists exactly those held back,
  in record order; and however it ends, it was a run of the kernel's own calls, so nothing recorded or
  decided before is lost.
\<close>

theorem gate_decides_all:
  assumes law: "lawful x" and ok: "kernel_ok x UNIV (dk_kernel disk)"
    and others: "calls_only x (gr_before_read g)" "calls_only x (gr_before_write g)"
    and r: "gate x g scopes collection ledger disk = (r, disk')"
  shows "(kernel_step x UNIV)\<^sup>*\<^sup>* (dk_kernel disk) (dk_kernel disk')
    \<and> (\<forall>report. r = Inr report \<longrightarrow> (\<exists>revisions. revisions_read x scopes collection (dk_kernel disk) = Inr revisions
        \<and> (\<forall>revision\<in>set revisions. rv_id revision \<in> qd_revision ` set (k_dispositions (dk_kernel disk')))
        \<and> rp_revisions report = length revisions \<and> rp_decided report + rp_kept report = length revisions
        \<and> outcomes_counted (rp_outcomes report) = length revisions
        \<and> map he_revision (rp_held report) = map rv_id (filter (held_back x (dk_kernel disk') scopes) revisions)))"
proof -
  have none: "report_counts (report_new collection) 0 []" by (simp add: report_counts_def report_new_def outcomes_counted_def)
  have run: "(kernel_step x UNIV)\<^sup>*\<^sup>* (dk_kernel disk) (dk_kernel disk')"
    by (rule gate_run[OF others r])
  moreover have "\<exists>revisions. revisions_read x scopes collection (dk_kernel disk) = Inr revisions
        \<and> (\<forall>revision\<in>set revisions. rv_id revision \<in> qd_revision ` set (k_dispositions (dk_kernel disk')))
        \<and> rp_revisions report = length revisions \<and> rp_decided report + rp_kept report = length revisions
        \<and> outcomes_counted (rp_outcomes report) = length revisions
        \<and> map he_revision (rp_held report) = map rv_id (filter (held_back x (dk_kernel disk') scopes) revisions)"
    if report: "r = Inr report" for report
  proof -
    obtain revisions where read: "revisions_read x scopes collection (dk_kernel disk) = Inr revisions"
      and loop: "gate_revisions x g 0 scopes ledger revisions (report_new collection) disk = (Inr report, disk')"
      using r report unfolding gate_def
      by (cases "map_err GateRecords (collection_read x scopes collection (dk_kernel disk))";
          cases "map_err GateRecords (revisions_read x scopes collection (dk_kernel disk))")
        (auto simp: results split: option.splits)
    have "\<forall>revision\<in>set revisions. sees_revision (dk_kernel disk) scopes (rv_id revision)"
      using revisions_read_sees[OF ok read] by blast
    note all = gate_revisions_reads[OF law others loop ok this none]
    have "rv_id revision \<in> qd_revision ` set (k_dispositions (dk_kernel disk'))" if mem: "revision \<in> set revisions" for revision
      using all mem disposition_read_decided by metis
    then show ?thesis using read all by (auto simp: report_counts_def)
  qed
  ultimately show ?thesis by blast
qed

section \<open>A second run\<close>

lemma document_read_found: "\<exists>doc. document_read scopes did k = Inr doc"
  by (simp add: document_read_def find_document_def query_optional)

lemma gate_one_again:
  assumes "disposition_read x scopes (rv_id revision) (dk_kernel disk) = Inr (Some d)"
  shows "\<exists>report'. gate_one x g i scopes ledger revision report disk = (Inr report', disk)
    \<and> rp_decided report' = rp_decided report \<and> rp_kept report' = Suc (rp_kept report)"
proof -
  obtain doc where "document_read scopes (rv_document revision) (dk_kernel disk) = Inr doc"
    using document_read_found by blast
  then show ?thesis using assms
    by (simp add: gate_one_def Let_def report_count_def report_ignore_def split: option.splits)
qed

lemma gate_revisions_again:
  assumes "gr_before_read g = (\<lambda>i disk. disk)"
  shows "list_all (\<lambda>revision. \<exists>d. disposition_read x scopes (rv_id revision) (dk_kernel disk) = Inr (Some d)) revisions \<Longrightarrow>
    \<exists>report'. gate_revisions x g i scopes ledger revisions report disk = (Inr report', disk)
      \<and> rp_decided report' = rp_decided report \<and> rp_kept report' = rp_kept report + length revisions"
proof (induction revisions arbitrary: i report)
  case (Cons revision revisions)
  then obtain d where d: "disposition_read x scopes (rv_id revision) (dk_kernel disk) = Inr (Some d)" by auto
  obtain report1 where one: "gate_one x g i scopes ledger revision report disk = (Inr report1, disk)"
      "rp_decided report1 = rp_decided report" "rp_kept report1 = Suc (rp_kept report)"
    using gate_one_again[OF d] by blast
  obtain report' where "gate_revisions x g (Suc i) scopes ledger revisions report1 disk = (Inr report', disk)"
      "rp_decided report' = rp_decided report1" "rp_kept report' = rp_kept report1 + length revisions"
    using Cons by auto
  then show ?case using one assms by simp
qed simp

text \<open>
  C39: what the gate decided it keeps: once a run ended, a second run over the same revisions, with
  whatever ledger and whatever checks, decides nothing, changes nothing, and counts every revision as
  kept.
\<close>

theorem gate_again:
  assumes law: "lawful x" and ok: "kernel_ok x UNIV (dk_kernel disk)"
    and others: "calls_only x (gr_before_read g)" "calls_only x (gr_before_write g)"
    and r: "gate x g scopes collection ledger disk = (Inr report, disk')"
    and same: "collection_read x scopes collection (dk_kernel disk') = collection_read x scopes collection (dk_kernel disk)"
      "revisions_read x scopes collection (dk_kernel disk') = revisions_read x scopes collection (dk_kernel disk)"
    and alone: "gr_before_read g' = (\<lambda>i disk. disk)"
  shows "\<exists>report'. gate x g' scopes collection ledger' disk' = (Inr report', disk')
    \<and> rp_decided report' = 0 \<and> rp_kept report' = rp_revisions report"
proof -
  have none: "report_counts (report_new collection) 0 []" by (simp add: report_counts_def report_new_def outcomes_counted_def)
  obtain c revisions where read: "collection_read x scopes collection (dk_kernel disk) = Inr (Some c)"
      "revisions_read x scopes collection (dk_kernel disk) = Inr revisions"
    and loop: "gate_revisions x g 0 scopes ledger revisions (report_new collection) disk = (Inr report, disk')"
    using r unfolding gate_def
    by (cases "map_err GateRecords (collection_read x scopes collection (dk_kernel disk))";
        cases "map_err GateRecords (revisions_read x scopes collection (dk_kernel disk))")
      (auto simp: results split: option.splits)
  have "\<forall>revision\<in>set revisions. sees_revision (dk_kernel disk) scopes (rv_id revision)"
    using revisions_read_sees[OF ok read(2)] by blast
  note all = gate_revisions_reads[OF law others loop ok this none]
  then have "list_all (\<lambda>revision. \<exists>d. disposition_read x scopes (rv_id revision) (dk_kernel disk') = Inr (Some d)) revisions"
    by (simp add: list_all_iff)
  from gate_revisions_again[OF alone this, of 0 ledger' "report_new collection"] obtain report' where
    "gate_revisions x g' 0 scopes ledger' revisions (report_new collection) disk' = (Inr report', disk')"
    "rp_decided report' = 0" "rp_kept report' = length revisions" by (auto simp: report_new_def)
  moreover have "rp_revisions report = length revisions" using all by (simp add: report_counts_def)
  ultimately show ?thesis using read same by (simp add: gate_def)
qed

section \<open>What the gate lets through\<close>

definition let_through :: "ext \<Rightarrow> scope_set \<Rightarrow> kernel \<Rightarrow> revision \<Rightarrow> bool" where
  "let_through x scopes k revision \<longleftrightarrow>
     rv_status revision \<noteq> RevisionFailed
     \<and> (\<exists>d. disposition_read x scopes (rv_id revision) k = Inr (Some d) \<and> ds_outcome d \<in> {Accepted, AcceptedWithWarnings})"

lemma eligible_from_exact:
  "eligible_from x scopes k latest revisions = Inr found \<Longrightarrow>
     found = filter (\<lambda>r. latest (rv_document r) = Some (rv_id r) \<and> let_through x scopes k r) revisions"
proof (induction revisions arbitrary: found)
  case (Cons r revisions)
  show ?case
  proof (cases "latest (rv_document r) \<noteq> Some (rv_id r) \<or> rv_status r = RevisionFailed")
    case True
    then show ?thesis using Cons by (auto simp: let_through_def)
  next
    case False
    then obtain d rest where d: "disposition_read x scopes (rv_id r) k = Inr d"
        "eligible_from x scopes k latest revisions = Inr rest"
        "found = (if is_some_and (\<lambda>decision. \<not> holds (ds_outcome decision)) d then r # rest else rest)"
      using Cons.prems by (auto simp: results split: if_splits)
    have "is_some_and (\<lambda>decision. \<not> holds (ds_outcome decision)) d \<longleftrightarrow> let_through x scopes k r"
      using False d(1) by (auto simp: is_some_and_def let_through_def holds_def split: option.splits)
    then show ?thesis using d False Cons.IH[OF d(2)] by simp
  qed
qed simp

lemma map_of_rev_last:
  "map_of (rev (map (\<lambda>r. (f r, g r)) rs)) v = (if filter (\<lambda>r. f r = v) rs = [] then None else Some (g (last (filter (\<lambda>r. f r = v) rs))))"
  by (induction rs rule: rev_induct) (auto simp: map_add_def)

lemma revisions_read_distinct:
  assumes ok: "kernel_ok x UNIV k" and r: "revisions_read x scopes collection k = Inr revisions"
  shows "distinct (map rv_id revisions)"
proof -
  let ?rows = "filter (joins k (\<lambda>doc. do_collection doc = collection \<and> sees_document scopes doc)) (k_revisions k)"
  have "collect_results (map (revision_row x) ?rows) = Inr revisions"
    using r by (auto simp: revisions_read_def of_collection_def results)
  then have rows: "map (revision_row x) ?rows = map Inr revisions" by (simp add: collect_results_Inr)
  have "rv_id v = re_id row" if "revision_row x row = Inr v" for v row using that by (auto simp: revision_row_def results)
  then have "map rv_id revisions = map re_id ?rows" using rows
    by (metis (no_types, lifting) length_map map_equality_iff nth_map)
  moreover have "distinct (map re_id (k_revisions k))" using ok by (simp add: kernel_ok_def documents_ok_def revisions_ok_def)
  ultimately show ?thesis by (simp add: distinct_map_filter)
qed

text \<open>
  C40: what may be indexed of a collection is exactly, in record order: of each document the revision
  recorded last among those the caller reads, and that one only where it is not failed and was decided
  accepted, with or without warnings; an older revision never stands in, and no document has two.
\<close>

theorem eligible_exact:
  assumes ok: "kernel_ok x UNIV k" and read: "revisions_read x scopes collection k = Inr revisions"
    and r: "eligible x scopes collection k = Inr found"
  shows "found = filter (\<lambda>r. r = last (filter (\<lambda>s. rv_document s = rv_document r) revisions) \<and> let_through x scopes k r) revisions
    \<and> distinct (map rv_document found)"
proof -
  have distinct: "distinct (map rv_id revisions)" by (rule revisions_read_distinct[OF ok read])
  have latest: "latest_revisions revisions (rv_document r) = Some (rv_id r)
      \<longleftrightarrow> r = last (filter (\<lambda>s. rv_document s = rv_document r) revisions)" if r: "r \<in> set revisions" for r
  proof -
    let ?same = "filter (\<lambda>s. rv_document s = rv_document r) revisions"
    have some: "?same \<noteq> []" using r by (auto simp: filter_empty_conv)
    then have "last ?same \<in> set revisions" using last_in_set[OF some] by simp
    then have "rv_id (last ?same) = rv_id r \<longleftrightarrow> r = last ?same" using distinct r by (auto simp: distinct_map dest: inj_onD)
    then show ?thesis using some by (simp add: latest_revisions_def map_of_rev_last)
  qed
  have "eligible_from x scopes k (latest_revisions revisions) revisions = Inr found" using r read by (simp add: eligible_def)
  from eligible_from_exact[OF this] have found: "found =
      filter (\<lambda>r. r = last (filter (\<lambda>s. rv_document s = rv_document r) revisions) \<and> let_through x scopes k r) revisions"
    using latest by (auto intro: filter_cong)
  moreover have "distinct revisions" using distinct by (simp add: distinct_map)
  then have "distinct (map rv_document found)" unfolding found distinct_map inj_on_def by auto
  ultimately show ?thesis by blast
qed

section \<open>Ledgers\<close>

lemma read_rules_exact:
  "distinct (map ru_id rules) \<Longrightarrow>
   read_rules read line texts rules = Inr ledger \<longleftrightarrow>
     (\<exists>more. ledger = rules @ more \<and> map read texts = map Inr more
        \<and> list_all (\<lambda>rule. match_fields (ru_matches rule) \<noteq> []) more \<and> distinct (map ru_id (rules @ more)))"
proof (induction texts arbitrary: line rules)
  case (Cons t texts)
  show ?case
  proof (cases "read t")
    case (Inl e)
    then show ?thesis by (auto simp: Cons_eq_map_conv)
  next
    case (Inr rule)
    let ?known = "list_ex (\<lambda>earlier. ru_id earlier = ru_id rule) rules"
    have more: "map read (t # texts) = map Inr more \<longleftrightarrow> (\<exists>rest. more = rule # rest \<and> map read texts = map Inr rest)" for more
      using Inr by (auto simp: Cons_eq_map_conv)
    show ?thesis
    proof (cases "match_fields (ru_matches rule) = [] \<or> ?known")
      case True
      then show ?thesis using Inr Cons.prems unfolding more by (auto simp: list_ex_iff)
    next
      case False
      then have "distinct (map ru_id (rules @ [rule]))" using Cons.prems by (auto simp: list_ex_iff)
      from Cons.IH[OF this, of "Suc line"] show ?thesis using False Inr unfolding more by auto
    qed
  qed
qed auto

text \<open>
  The text of a ledger is accepted exactly when each of its lines reads as a rule that matches at
  least one field and no two rules share an identifier; the ledger then holds these rules in the order
  of their lines, of which the first that matches a revision decides it.
\<close>

theorem ledger_exact:
  "ledger_from_str read text = Inr ledger \<longleftrightarrow>
     map read (terminated_lines text) = map Inr ledger
     \<and> list_all (\<lambda>rule. match_fields (ru_matches rule) \<noteq> []) ledger \<and> distinct (map ru_id ledger)"
  using read_rules_exact[of "[]" read 1 "terminated_lines text" ledger] by (simp add: ledger_from_str_def)

section \<open>A sample run\<close>

lemma kernel_ok_shelf: "kernel_ok x U sample_shelf"
  by (simp add: kernel_ok_def sample_shelf_ok sample_shelf_documents)
    (simp add: generations_ok_def one_published_def published_rows_def journal_ok_def cursors_ok_def grants_ok_def
      jobs_ok_def job_rows_ok_def stream_sequences_def numbered_def sample_shelf_def empty_kernel_def)

definition sample_gate :: gate_run where
  "sample_gate = \<lparr>gr_checks = (\<lambda>_ _. []), gr_read = (\<lambda>_. Some (sample_document DocumentValid)), gr_lossy = (\<lambda>bytes. bytes),
     gr_draws = sample_draws, gr_before_read = (\<lambda>_ disk. disk), gr_before_write = (\<lambda>_ disk. disk)\<rparr>"

definition sample_gate_disk :: disk where
  "sample_gate_disk = \<lparr>dk_kernel = sample_shelf,
     dk_files = (\<lambda>path. if path = artifact_path (Digest sample_hex) then Some (RegularFile []) else None)\<rparr>"

abbreviation sample_scopes :: scope_set where
  "sample_scopes \<equiv> ScopeSet [Scope ''workspace/default'']"

definition sample_gated :: disk where
  "sample_gated = snd (gate sample sample_gate sample_scopes ''ct'' [sample_rule] sample_gate_disk)"

definition sample_shelved :: revision where
  "sample_shelved = \<lparr>rv_id = ''rev'', rv_document = ''doc'', rv_original = Digest sample_hex, rv_canonical = Digest sample_hex,
     rv_status = RevisionValid, rv_captured_at = None, rv_metadata = []\<rparr>"

definition sample_report :: report where
  "sample_report = report_count sample_shelved ''a.md'' \<lparr>ds_revision = ''rev'', ds_outcome = Accepted, ds_reasons = [''reviewed''],
     ds_rules = [''ledger.keep''], ds_decided_by = ''ann''\<rparr> True (report_new ''ct'')"

lemma sample_gates:
  "gate sample sample_gate sample_scopes ''ct'' [sample_rule] sample_gate_disk = (Inr sample_report, sample_gated)"
proof -
  have "fst (gate sample sample_gate sample_scopes ''ct'' [sample_rule] sample_gate_disk) = Inr sample_report" by code_simp
  then show ?thesis by (simp add: sample_gated_def prod_eq_iff)
qed

lemma sample_gated_reads:
  "revisions_read sample sample_scopes ''ct'' sample_shelf = Inr [sample_shelved]"
  "revisions_read sample sample_scopes ''ct'' (dk_kernel sample_gated) = Inr [sample_shelved]"
  "collection_read sample sample_scopes ''ct'' (dk_kernel sample_gated) = collection_read sample sample_scopes ''ct'' sample_shelf"
  "eligible sample sample_scopes ''ct'' (dk_kernel sample_gated) = Inr [sample_shelved]"
  by code_simp+

lemma sample_alone: "calls_only sample (gr_before_read sample_gate)" "calls_only sample (gr_before_write sample_gate)"
  "gr_before_read sample_gate = (\<lambda>i disk. disk)"
  by (simp_all add: calls_only_def sample_gate_def)

lemma sample_gate_kernel: "dk_kernel sample_gate_disk = sample_shelf"
  by (simp add: sample_gate_disk_def)

lemma sample_gate_ok: "kernel_ok sample UNIV (dk_kernel sample_gate_disk)"
  unfolding sample_gate_kernel by (rule kernel_ok_shelf)

corollary gate_decides_all_witness:
  "''rev'' \<in> qd_revision ` set (k_dispositions (dk_kernel sample_gated)) \<and> rp_revisions sample_report = 1"
proof -
  have "rv_id sample_shelved = ''rev''" by (simp add: sample_shelved_def)
  then show ?thesis
    using gate_decides_all[OF lawful_sample sample_gate_ok sample_alone(1,2) sample_gates]
    by (simp add: sample_gate_kernel sample_gated_reads(1))
qed

corollary gate_again_witness:
  "\<exists>report'. gate sample sample_gate sample_scopes ''ct'' [] sample_gated = (Inr report', sample_gated) \<and> rp_decided report' = 0"
  using gate_again[OF lawful_sample sample_gate_ok sample_alone(1,2) sample_gates _ _ sample_alone(3), of "[]"]
  unfolding sample_gate_kernel sample_gated_reads by blast

corollary eligible_exact_witness:
  "let_through sample sample_scopes (dk_kernel sample_gated) sample_shelved"
proof -
  have "kernel_ok sample UNIV (dk_kernel sample_gated)"
    using kernel_run[OF lawful_sample sample_gate_ok gate_run[OF sample_alone(1,2) sample_gates]] by simp
  from conjunct1[OF eligible_exact[OF this sample_gated_reads(2,4)]] show ?thesis by (simp split: if_splits)
qed

end
