(* ===== verification/Settings_Values.thy ===== *)
theory Settings_Values
  imports Rust_Numbers
begin

text \<open>
  The values of settings (crates/maestro-settings): the kinds of descriptor.rs, the language tags
  of language.rs and the reading and writing of value.rs. The record \<open>settings_ext\<close> holds what the
  code takes from outside: how \<open>Display\<close> and \<open>Debug\<close> write an \<open>f64\<close>, how \<open>Debug\<close> quotes a text,
  and the \<open>toml\<close> crate's parser, with the byte range of every key and value.
\<close>

section \<open>What the code takes from outside\<close>

type_synonym range = "nat \<times> nat"

datatype de_value =
    DeString string
  | DeInteger string int
  | DeFloat string
  | DeBoolean bool
  | DeDatetime string
  | DeArray "(range \<times> de_value) list"
  | DeTable "((range \<times> string) \<times> range \<times> de_value) list"

type_synonym de_table = "((range \<times> string) \<times> range \<times> de_value) list"

record settings_ext =
  sx_display :: "f64 \<Rightarrow> string"
  sx_debug :: "f64 \<Rightarrow> string"
  sx_quote :: "string \<Rightarrow> string"
  sx_toml :: "string \<Rightarrow> string + de_table"

section \<open>Kinds (descriptor.rs)\<close>

datatype setting_class = Free | Bounded | Additive | Locked

fun class_name :: "setting_class \<Rightarrow> string" where
  "class_name Free = ''free''"
| "class_name Bounded = ''bounded''"
| "class_name Additive = ''additive''"
| "class_name Locked = ''locked''"

record reserved_value =
  rv_value :: string
  rv_reason :: string

datatype setting_kind =
    KFlag
  | KInteger (k_min: int) (k_max: int) (k_off: bool)
  | KNumber (k_least: f64) (k_most: f64) (k_none: bool)
  | KChoice (k_values: "string list") (k_reserved: "reserved_value list")
  | KChoiceList (k_items: "string list")
  | KLanguage
  | KName

record setting_descriptor =
  sd_key :: string
  sd_kind :: setting_kind
  sd_default :: string
  sd_description :: string
  sd_class :: setting_class

section \<open>Language tags (language.rs)\<close>

definition is_alphabetic :: "string \<Rightarrow> nat \<Rightarrow> nat \<Rightarrow> bool" where
  "is_alphabetic subtag least most \<longleftrightarrow>
     least \<le> length subtag \<and> length subtag \<le> most \<and> list_all is_ascii_alphabetic subtag"

definition is_region :: "string \<Rightarrow> bool" where
  "is_region subtag \<longleftrightarrow> is_alphabetic subtag 2 2 \<or> length subtag = 3 \<and> list_all is_ascii_digit subtag"

definition title_case :: "string \<Rightarrow> string" where
  "title_case script = (case map to_lower script of [] \<Rightarrow> [] | c # cs \<Rightarrow> to_upper c # cs)"

text \<open>An optional subtag: taken off the rest when it is of its form.\<close>

definition take_subtag :: "(string \<Rightarrow> bool) \<Rightarrow> (string \<Rightarrow> string) \<Rightarrow> string \<times> string list \<Rightarrow> string \<times> string list" where
  "take_subtag is_form canonical_case parsed =
     (case parsed of (canonical, subtags) \<Rightarrow>
        case subtags of
          subtag # rest \<Rightarrow>
            if is_form subtag then (canonical @ ''-'' @ canonical_case subtag, rest) else (canonical, subtags)
        | [] \<Rightarrow> (canonical, subtags))"

definition canonical_language :: "string \<Rightarrow> string + string" where
  "canonical_language text =
     (if list_ex (\<lambda>c. CHR 0x80 \<le> c) text then Inl ''a language tag is ASCII''
      else
        let subtags = split_on (CHR ''-'') text; language = hd subtags in
        if \<not> is_alphabetic language 2 3
        then Inl (if length language = 1 then ''private-use and irregular legacy tags are not supported''
                  else ''a language tag starts with a 2 or 3 letter language'')
        else
          case take_subtag is_region (map to_upper)
                 (take_subtag (\<lambda>s. is_alphabetic s 4 4) title_case (map to_lower language, tl subtags)) of
            (canonical, rest) \<Rightarrow>
              case rest of
                [] \<Rightarrow> Inr canonical
              | subtag # _ \<Rightarrow>
                  if subtag = [] then Inl ''a language tag has an empty subtag''
                  else Inl (''only a language, a script and a region are supported: ''
                            @ ''variants, extensions and private use are not''))"

section \<open>Values (value.rs)\<close>

definition OFF :: string where
  "OFF = ''off''"

definition AUTO :: string where
  "AUTO = ''auto''"

datatype setting_value =
    VFlag bool
  | VInteger int
  | VNumber f64
  | VText string
  | VList "string list"
  | VOff

text \<open>The derived equality: two numbers are compared as numbers.\<close>

fun value_eq :: "setting_value \<Rightarrow> setting_value \<Rightarrow> bool" where
  "value_eq (VNumber v) (VNumber w) = f64_eq v w"
| "value_eq v w = (v = w)"

definition show_bool :: "bool \<Rightarrow> string" where
  "show_bool b = (if b then ''true'' else ''false'')"

definition hex_digit_upper :: "nat \<Rightarrow> char" where
  "hex_digit_upper d = (if d < 10 then char_of (48 + d) else char_of (55 + d))"

text \<open>A control character as \<open>\u\<close> and four digits: all are below 256.\<close>

definition unicode_escape :: "char \<Rightarrow> string" where
  "unicode_escape c =
     CHR 0x5C # ''u00'' @ [hex_digit_upper (of_char c div 16), hex_digit_upper (of_char c mod 16)]"

text \<open>The control characters from U+0080 to U+009F are two bytes, the first of which is C2.\<close>

fun basic_chars :: "string \<Rightarrow> string" where
  "basic_chars [] = []"
| "basic_chars (c # cs) =
     (if c = CHR 0x22 then [CHR 0x5C, CHR 0x22] @ basic_chars cs
      else if c = CHR 0x5C then [CHR 0x5C, CHR 0x5C] @ basic_chars cs
      else if c = CHR 0x09 then [CHR 0x5C, CHR ''t''] @ basic_chars cs
      else if c = CHR 0x0A then [CHR 0x5C, CHR ''n''] @ basic_chars cs
      else if c < CHR 0x20 \<or> c = CHR 0x7F then unicode_escape c @ basic_chars cs
      else if c = CHR 0xC2 then
        (case cs of
           d # ds \<Rightarrow>
             if CHR 0x80 \<le> d \<and> d < CHR 0xA0 then unicode_escape d @ basic_chars ds
             else c # basic_chars cs
         | [] \<Rightarrow> [c])
      else c # basic_chars cs)"

definition basic_string :: "string \<Rightarrow> string" where
  "basic_string text = CHR 0x22 # basic_chars text @ [CHR 0x22]"

fun to_toml :: "settings_ext \<Rightarrow> setting_value \<Rightarrow> string" where
  "to_toml x (VFlag b) = show_bool b"
| "to_toml x (VInteger i) = show_int i"
| "to_toml x (VNumber v) = sx_debug x v"
| "to_toml x (VText text) = basic_string text"
| "to_toml x (VList items) = ''['' @ join_str '', '' (map basic_string items) @ '']''"
| "to_toml x VOff = basic_string OFF"

fun display_value :: "settings_ext \<Rightarrow> setting_value \<Rightarrow> string" where
  "display_value x (VFlag b) = show_bool b"
| "display_value x (VInteger i) = show_int i"
| "display_value x (VNumber v) = sx_display x v"
| "display_value x (VText text) = text"
| "display_value x (VList items) = join_with (CHR '','') items"
| "display_value x VOff = OFF"

datatype value_error = ValueError (error_text: string)

definition or_off :: "bool \<Rightarrow> string" where
  "or_off off = (if off then '', or '' @ [CHR 0x22] @ ''off'' @ [CHR 0x22] else [])"

fun expectation :: "settings_ext \<Rightarrow> setting_kind \<Rightarrow> string" where
  "expectation x KFlag = ''true or false''"
| "expectation x (KInteger least most off) =
     ''a whole number from '' @ show_int least @ '' to '' @ show_int most @ or_off off"
| "expectation x (KNumber least most off) =
     ''a number from '' @ sx_display x least @ '' to '' @ sx_display x most @ or_off off"
| "expectation x (KChoice values reserved) = ''one of '' @ join_str '', '' values"
| "expectation x (KChoiceList values) = ''some of '' @ join_str '', '' values @ '', each at most once''"
| "expectation x KLanguage = AUTO @ '' or a language tag such as en, fr or es-419''"
| "expectation x KName =
     ''a router entry: 1 to 64 ASCII letters, digits, '' @ [CHR 0x27] @ ''.'' @ [CHR 0x27] @ '', ''
     @ [CHR 0x27] @ ''_'' @ [CHR 0x27] @ '' and '' @ [CHR 0x27] @ ''-'' @ [CHR 0x27] @ '', never ''
     @ [CHR 0x27] @ ''.'' @ [CHR 0x27] @ '' or '' @ [CHR 0x27] @ ''..'' @ [CHR 0x27] @ '' alone''"

definition refusal :: "settings_ext \<Rightarrow> setting_kind \<Rightarrow> value_error" where
  "refusal x k = ValueError (''expected '' @ expectation x k)"

fun kind_integer :: "setting_kind \<Rightarrow> int \<Rightarrow> setting_value option" where
  "kind_integer (KInteger least most off) i = (if least \<le> i \<and> i \<le> most then Some (VInteger i) else None)"
| "kind_integer k i = None"

fun kind_number :: "setting_kind \<Rightarrow> f64 \<Rightarrow> setting_value option" where
  "kind_number (KNumber least most off) v =
     (if f64_is_finite v \<and> f64_le least v \<and> f64_le v most then Some (VNumber v) else None)"
| "kind_number k v = None"

definition whole_number :: "setting_kind \<Rightarrow> int \<Rightarrow> setting_value option" where
  "whole_number k i = kind_number k (f64_of_int i)"

text \<open>The items accepted so far and those left.\<close>

fun list_items :: "string list \<Rightarrow> string list \<Rightarrow> string list \<Rightarrow> string list option" where
  "list_items values accepted [] = Some accepted"
| "list_items values accepted (item # items) =
     (if item \<notin> set values \<or> item \<in> set accepted then None
      else list_items values (accepted @ [item]) items)"

definition value_list :: "string list \<Rightarrow> string list \<Rightarrow> setting_value option" where
  "value_list values items = map_option VList (list_items values [] items)"

definition value_language :: "string \<Rightarrow> value_error + setting_value" where
  "value_language text =
     (if text = AUTO then Inr (VText AUTO)
      else map_err (\<lambda>reason. ValueError (''expected '' @ AUTO @ '' or a language tag: '' @ reason))
             (and_then (canonical_language text) (\<lambda>tag. Inr (VText tag))))"

definition is_name :: "string \<Rightarrow> bool" where
  "is_name text \<longleftrightarrow>
     1 \<le> length text \<and> length text \<le> 64 \<and> text \<noteq> ''.'' \<and> text \<noteq> ''..''
     \<and> list_all (\<lambda>c. is_ascii_alphanumeric c \<or> c = CHR ''.'' \<or> c = CHR ''_'' \<or> c = CHR ''-'') text"

definition parse_bool :: "string \<Rightarrow> bool option" where
  "parse_bool s = (if s = ''true'' then Some True else if s = ''false'' then Some False else None)"

fun takes_off :: "setting_kind \<Rightarrow> bool" where
  "takes_off (KInteger least most off) = off"
| "takes_off (KNumber least most off) = off"
| "takes_off k = False"

definition comma_items :: "string \<Rightarrow> string list" where
  "comma_items text = (if text = [] then [] else map trim (split_on (CHR '','') text))"

text \<open>\<open>SettingKind::parse_text\<close>.\<close>

definition parse_text :: "settings_ext \<Rightarrow> setting_kind \<Rightarrow> string \<Rightarrow> value_error + setting_value" where
  "parse_text x k text =
     (if takes_off k \<and> text = OFF then Inr VOff
      else case k of
        KFlag \<Rightarrow> ok_or (refusal x k) (map_option VFlag (parse_bool text))
      | KInteger least most off \<Rightarrow> ok_or (refusal x k) (Option.bind (parse_i64 10 text) (kind_integer k))
      | KNumber least most off \<Rightarrow> ok_or (refusal x k) (Option.bind (parse_f64 text) (kind_number k))
      | KChoice values reserved \<Rightarrow>
          (case List.find (\<lambda>r. rv_value r = text) reserved of
             Some r \<Rightarrow> Inl (ValueError (rv_reason r))
           | None \<Rightarrow> ok_or (refusal x k) (if text \<in> set values then Some (VText text) else None))
      | KChoiceList values \<Rightarrow> ok_or (refusal x k) (value_list values (comma_items text))
      | KLanguage \<Rightarrow> value_language text
      | KName \<Rightarrow> ok_or (refusal x k) (if is_name text then Some (VText text) else None))"

fun de_text :: "de_value \<Rightarrow> string option" where
  "de_text (DeString text) = Some text"
| "de_text v = None"

text \<open>\<open>SettingKind::parse_toml\<close>.\<close>

definition parse_toml :: "settings_ext \<Rightarrow> setting_kind \<Rightarrow> de_value \<Rightarrow> value_error + setting_value" where
  "parse_toml x k v =
     (case (k, v) of
        (KFlag, DeBoolean b) \<Rightarrow> Inr (VFlag b)
      | (KInteger least most off, DeInteger text radix) \<Rightarrow>
          ok_or (refusal x k) (Option.bind (parse_i64 radix text) (kind_integer k))
      | (KNumber least most off, DeInteger text radix) \<Rightarrow>
          ok_or (refusal x k) (Option.bind (parse_i64 radix text) (whole_number k))
      | (KNumber least most off, DeFloat text) \<Rightarrow>
          ok_or (refusal x k) (Option.bind (parse_f64 text) (kind_number k))
      | (KChoiceList values, DeArray items) \<Rightarrow>
          ok_or (refusal x k) (Option.bind (collect_options (map (de_text \<circ> snd) items)) (value_list values))
      | (KInteger least most off, DeString text) \<Rightarrow>
          if off \<and> text = OFF then Inr VOff else Inl (refusal x k)
      | (KNumber least most off, DeString text) \<Rightarrow>
          if off \<and> text = OFF then Inr VOff else Inl (refusal x k)
      | (KChoice values reserved, DeString text) \<Rightarrow> parse_text x k text
      | (KLanguage, DeString text) \<Rightarrow> parse_text x k text
      | (KName, DeString text) \<Rightarrow> parse_text x k text
      | _ \<Rightarrow> Inl (refusal x k))"

end
