(* ===== verification/Setting_Types.thy ===== *)
theory Setting_Types
  imports Settings_Values
begin

text \<open>
  What the values of a kind are, and that reading gives nothing else: every value accepted on the
  command line or from a file is of its kind, a number never wraps or leaves its range, a language
  tag is in its canonical case, and what \<open>Display\<close> writes reads back as the same value.
\<close>

section \<open>Letter case\<close>

lemma char_range:
  "is_ascii_lowercase c \<longleftrightarrow> 97 \<le> (of_char c :: int) \<and> (of_char c :: int) \<le> 122"
  "is_ascii_uppercase c \<longleftrightarrow> 65 \<le> (of_char c :: int) \<and> (of_char c :: int) \<le> 90"
  "is_ascii_digit c \<longleftrightarrow> 48 \<le> (of_char c :: int) \<and> (of_char c :: int) \<le> 57"
proof -
  have le: "a \<le> c \<longleftrightarrow> (of_char a :: int) \<le> of_char c" for a c :: char
  proof -
    have "(of_char a :: int) = int (of_char a)" "(of_char c :: int) = int (of_char c)"
      by (simp_all only: of_nat_of_char)
    then show ?thesis by (simp only: less_eq_char_def of_nat_le_iff)
  qed
  show "is_ascii_lowercase c \<longleftrightarrow> 97 \<le> (of_char c :: int) \<and> (of_char c :: int) \<le> 122"
    "is_ascii_uppercase c \<longleftrightarrow> 65 \<le> (of_char c :: int) \<and> (of_char c :: int) \<le> 90"
    "is_ascii_digit c \<longleftrightarrow> 48 \<le> (of_char c :: int) \<and> (of_char c :: int) \<le> 57"
    by (simp_all add: is_ascii_lowercase_def is_ascii_uppercase_def is_ascii_digit_def le)
qed

lemma case_letters [simp]:
  "is_ascii_alphabetic (to_lower c) = is_ascii_alphabetic c"
  "is_ascii_alphabetic (to_upper c) = is_ascii_alphabetic c"
  "is_ascii_digit (to_upper c) = is_ascii_digit c"
  "to_lower (to_lower c) = to_lower c"
  "to_upper (to_upper c) = to_upper c"
  "to_lower (to_upper c) = to_lower c"
  "to_upper (to_lower c) = to_upper c"
  by (auto simp: is_ascii_alphabetic_def to_lower_def to_upper_def char_range)

lemma letters_are_ascii:
  "is_ascii_alphanumeric c \<Longrightarrow> c < CHR 0x80 \<and> c \<noteq> CHR ''-'' \<and> c \<noteq> CHR '',''"
  "\<not> is_ascii_alphanumeric (CHR ''-'')"
  by (auto simp: is_ascii_alphanumeric_def is_ascii_alphabetic_def is_ascii_lowercase_def is_ascii_uppercase_def
      is_ascii_digit_def intro: order.strict_trans1)

section \<open>Language tags\<close>

text \<open>The subtags of a tag, the script and the region each at most one.\<close>

definition tag_parts :: "string \<Rightarrow> string list \<Rightarrow> string list \<Rightarrow> bool" where
  "tag_parts language script region \<longleftrightarrow>
     is_alphabetic language 2 3
     \<and> length script \<le> 1 \<and> list_all (\<lambda>s. is_alphabetic s 4 4) script
     \<and> length region \<le> 1 \<and> list_all is_region region"

definition canonical_form :: "string \<Rightarrow> string list \<Rightarrow> string list \<Rightarrow> string" where
  "canonical_form language script region =
     join_with (CHR ''-'') (map to_lower language # map title_case script @ map (map to_upper) region)"

lemma parts_short: "length xs \<le> 1 \<longleftrightarrow> xs = [] \<or> (\<exists>x. xs = [x])"
  by (cases xs) auto

lemma script_not_region: "is_alphabetic s 4 4 \<Longrightarrow> \<not> is_region s"
  by (auto simp: is_alphabetic_def is_region_def)

lemma canonical_parts:
  assumes "canonical_language text = Inr c"
  shows "\<exists>language script region. tag_parts language script region \<and> c = canonical_form language script region"
proof -
  obtain language subtags where s: "split_on (CHR ''-'') text = language # subtags"
    by (cases "split_on (CHR ''-'') text") auto
  have l: "is_alphabetic language 2 3" and r: "take_subtag is_region (map to_upper)
      (take_subtag (\<lambda>s. is_alphabetic s 4 4) title_case (map to_lower language, subtags)) = (c, [])"
    using assms s by (auto simp: canonical_language_def Let_def split: if_splits prod.splits list.splits)
  show ?thesis
  proof (cases subtags)
    case Nil
    then show ?thesis using l r
      by (intro exI[of _ language] exI[of _ "[]"]) (auto simp: take_subtag_def tag_parts_def canonical_form_def)
  next
    case (Cons a rest)
    show ?thesis
    proof (cases "is_alphabetic a 4 4")
      case True
      then have "rest = [] \<or> (\<exists>b. rest = [b] \<and> is_region b)"
        using r Cons by (cases rest) (auto simp: take_subtag_def split: if_splits)
      then show ?thesis using l r Cons True
        by (intro exI[of _ language] exI[of _ "[a]"] exI[of _ rest])
          (auto simp: take_subtag_def tag_parts_def canonical_form_def)
    next
      case False
      then have "is_region a" "rest = []" using r Cons by (auto simp: take_subtag_def split: if_splits)
      then show ?thesis using l r Cons False
        by (intro exI[of _ language] exI[of _ "[]"] exI[of _ "[a]"])
          (auto simp: take_subtag_def tag_parts_def canonical_form_def)
    qed
  qed
qed

lemma subtag_chars:
  assumes "tag_parts language script region" and "part \<in> set (language # script @ region)" and "ch \<in> set part"
  shows "is_ascii_alphanumeric ch"
  using assms
  by (auto simp: tag_parts_def is_alphabetic_def is_region_def is_ascii_alphanumeric_def list_all_iff)

lemma canonical_of_parts:
  assumes parts: "tag_parts language script region"
  shows "canonical_language (join_with (CHR ''-'') (language # script @ region))
    = Inr (canonical_form language script region)"
proof -
  let ?text = "join_with (CHR ''-'') (language # script @ region)"
  have chars: "\<forall>part\<in>set (language # script @ region). \<forall>ch\<in>set part. is_ascii_alphanumeric ch"
    using subtag_chars[OF parts] by blast
  then have split: "split_on (CHR ''-'') ?text = language # script @ region"
    by (intro split_on_join) (use letters_are_ascii in blast)+
  have joined: "set (join_with c xs) \<subseteq> insert c (\<Union>(set ` set xs))" for c xs
    by (induction c xs rule: join_with.induct) auto
  have "CHR ''-'' < CHR 0x80" by code_simp
  then have "\<forall>ch\<in>set ?text. ch < CHR 0x80"
    using joined[of "CHR ''-''" "language # script @ region"] chars letters_are_ascii(1) by blast
  then have ascii: "\<not> list_ex (\<lambda>c. CHR 0x80 \<le> c) ?text" by (auto simp: list_ex_iff)
  have "script = [] \<or> (\<exists>s. script = [s])" "region = [] \<or> (\<exists>r. region = [r])"
    using parts unfolding tag_parts_def parts_short by blast+
  then have "take_subtag is_region (map to_upper)
      (take_subtag (\<lambda>s. is_alphabetic s 4 4) title_case (map to_lower language, script @ region))
      = (canonical_form language script region, [])"
    using parts
    by (elim disjE exE) (auto simp: take_subtag_def tag_parts_def canonical_form_def is_region_def is_alphabetic_def)
  then show ?thesis
    unfolding canonical_language_def Let_def split using ascii parts by (simp add: tag_parts_def)
qed

lemma title_case_facts:
  "length (title_case s) = length s"
  "list_all is_ascii_alphabetic (title_case s) = list_all is_ascii_alphabetic s"
  "title_case (title_case s) = title_case s"
  by (cases s; simp add: title_case_def list_all_iff)+

lemma canonical_form_parts:
  assumes "tag_parts language script region"
  shows "tag_parts (map to_lower language) (map title_case script) (map (map to_upper) region)"
  using assms
  by (auto simp: tag_parts_def is_alphabetic_def is_region_def list_all_iff title_case_facts(1)
      title_case_facts(2)[unfolded list_all_iff])

text \<open>A canonical tag is its own canonical form.\<close>

lemma canonical_language_idem:
  assumes "canonical_language text = Inr c"
  shows "canonical_language c = Inr c"
proof -
  obtain language script region where parts: "tag_parts language script region"
    and c: "c = canonical_form language script region" using canonical_parts[OF assms] by blast
  have "canonical_form (map to_lower language) (map title_case script) (map (map to_upper) region) = c"
    by (simp add: c canonical_form_def title_case_facts(3) comp_def)
  then show ?thesis
    using canonical_of_parts[OF canonical_form_parts[OF parts]] by (simp add: c canonical_form_def)
qed

section \<open>The values of a kind\<close>

fun value_of_kind :: "setting_kind \<Rightarrow> setting_value \<Rightarrow> bool" where
  "value_of_kind KFlag v = (\<exists>b. v = VFlag b)"
| "value_of_kind (KInteger least most off) v =
     ((\<exists>i. v = VInteger i \<and> least \<le> i \<and> i \<le> most \<and> I64_MIN \<le> i \<and> i \<le> I64_MAX) \<or> off \<and> v = VOff)"
| "value_of_kind (KNumber least most off) v =
     ((\<exists>n. v = VNumber n \<and> f64_is_finite n \<and> 0 \<le> f_bits n \<and> f64_le least n \<and> f64_le n most) \<or> off \<and> v = VOff)"
| "value_of_kind (KChoice values reserved) v =
     (\<exists>t\<in>set values. v = VText t \<and> t \<notin> rv_value ` set reserved)"
| "value_of_kind (KChoiceList values) v = (\<exists>items. v = VList items \<and> distinct items \<and> set items \<subseteq> set values)"
| "value_of_kind KLanguage v = (v = VText AUTO \<or> (\<exists>tag. v = VText tag \<and> canonical_language tag = Inr tag))"
| "value_of_kind KName v = (\<exists>t. v = VText t \<and> is_name t)"

lemma list_items_exact:
  "list_items choices accepted items =
     (if set items \<subseteq> set choices \<and> distinct items \<and> set items \<inter> set accepted = {} then Some (accepted @ items)
      else None)"
  by (induction choices accepted items rule: list_items.induct) auto

lemma value_list_exact:
  "value_list choices items = (if set items \<subseteq> set choices \<and> distinct items then Some (VList items) else None)"
  by (simp add: value_list_def list_items_exact)

lemma kind_integer_Some:
  "kind_integer k i = Some v \<longleftrightarrow>
     (\<exists>least most off. k = KInteger least most off \<and> least \<le> i \<and> i \<le> most \<and> v = VInteger i)"
  by (cases k) auto

lemma kind_number_Some:
  "kind_number k n = Some v \<longleftrightarrow>
     (\<exists>least most off. k = KNumber least most off \<and> f64_is_finite n \<and> f64_le least n \<and> f64_le n most \<and> v = VNumber n)"
  by (cases k) auto

text \<open>The bits of a number read are never negative.\<close>

lemma read_digits_nonneg: "0 \<le> radix \<Longrightarrow> 0 \<le> n \<Longrightarrow> read_digits radix n s = Some m \<Longrightarrow> 0 \<le> m"
proof (induction s arbitrary: n)
  case (Cons c cs)
  from Cons.prems obtain d where d: "to_digit radix c = Some d" "read_digits radix (n * radix + d) cs = Some m"
    by (auto split: option.splits)
  have "0 \<le> d" using d(1) by (auto simp: to_digit_def Let_def char_range split: if_splits)
  with Cons.IH[OF _ _ d(2)] Cons.prems show ?case by simp
qed simp

lemma f64_of_decimal_nonneg: "0 \<le> m \<Longrightarrow> 0 \<le> f64_of_decimal m e"
  by (simp add: f64_of_decimal_def f64_round_nonneg)

lemma parse_number_nonneg: "parse_number s = Some n \<Longrightarrow> 0 \<le> n"
  unfolding parse_number_def Let_def
  using read_digits_nonneg[of 10 0] f64_of_decimal_nonneg
  by (auto simp: bind_eq_Some_conv split: if_splits)

lemma parse_f64_nonneg: "parse_f64 s = Some n \<Longrightarrow> 0 \<le> f_bits n"
  using parse_number_nonneg
  by (auto simp: parse_f64_def Let_def INF_BITS_def NAN_BITS_def split: prod.splits if_splits)

lemma f64_of_int_nonneg: "0 \<le> f_bits (f64_of_int i)"
  by (simp add: f64_of_int_def f64_round_nonneg)

lemma value_language_ok: "value_language text = Inr v \<Longrightarrow> value_of_kind KLanguage v"
  by (auto simp: value_language_def results split: if_splits dest: canonical_language_idem)

lemma parse_text_kind: "parse_text x k text = Inr v \<Longrightarrow> value_of_kind k v"
proof (cases k)
  case KLanguage
  assume "parse_text x k text = Inr v"
  with KLanguage show ?thesis using value_language_ok by (simp add: parse_text_def)
qed (auto simp: parse_text_def results bind_eq_Some_conv value_list_exact find_None_iff
      dest: parse_i64_bounds parse_f64_nonneg split: if_splits option.splits)

lemma parse_toml_kind: "parse_toml x k w = Inr v \<Longrightarrow> value_of_kind k v"
proof -
  assume read: "parse_toml x k w = Inr v"
  show ?thesis
  proof (cases "\<exists>text. parse_text x k text = Inr v")
    case True
    then show ?thesis using parse_text_kind by blast
  next
    case False
    with read show ?thesis
      by (cases k; cases w) (auto simp: parse_toml_def results bind_eq_Some_conv whole_number_def value_list_exact
          f64_of_int_nonneg dest: parse_i64_bounds parse_f64_nonneg split: if_splits)
  qed
qed

section \<open>Written and read back\<close>

text \<open>
  What reading needs of a kind to take back what \<open>Display\<close> wrote: a list's values are not empty,
  hold no comma and no space around them.
\<close>

definition comma_safe :: "setting_kind \<Rightarrow> bool" where
  "comma_safe k \<longleftrightarrow> (\<forall>t\<in>set (case k of KChoiceList choices \<Rightarrow> choices | _ \<Rightarrow> []). t \<noteq> [] \<and> CHR '','' \<notin> set t \<and> trim t = t)"

lemma join_with_Nil: "join_with c xs = [] \<longleftrightarrow> xs = [] \<or> xs = [[]]"
  by (induction c xs rule: join_with.induct) auto

lemma comma_items_join:
  assumes "\<forall>t\<in>set items. t \<noteq> [] \<and> CHR '','' \<notin> set t \<and> trim t = t"
  shows "comma_items (join_with (CHR '','') items) = items"
proof (cases "items = []")
  case False
  then have "split_on (CHR '','') (join_with (CHR '','') items) = items"
    using assms by (intro split_on_join) auto
  moreover have "join_with (CHR '','') items \<noteq> []" using False assms by (auto simp: join_with_Nil)
  ultimately show ?thesis using assms by (simp add: comma_items_def map_idI)
qed (simp add: comma_items_def)

lemma off_is_no_number: "parse_i64 10 OFF = None" "parse_f64 OFF = None"
  by code_simp+

lemma parse_display:
  assumes kind: "value_of_kind k v" and safe: "comma_safe k"
    and reads: "\<And>n. v = VNumber n \<Longrightarrow> parse_f64 (sx_display x n) = Some n"
  shows "parse_text x k (display_value x v) = Inr v"
proof (cases "v = VOff")
  case True
  with kind show ?thesis by (cases k) (auto simp: parse_text_def)
next
  case False
  have not_off: "sx_display x n \<noteq> OFF" if "v = VNumber n" for n
    using reads[OF that] off_is_no_number(2) by force
  have int_not_off: "show_int i \<noteq> OFF" if "I64_MIN \<le> i" "i \<le> I64_MAX" for i
    using parse_show_int[OF that] off_is_no_number(1) by force
  show ?thesis
  proof (cases k)
    case (KChoiceList choices)
    then obtain items where v: "v = VList items" "distinct items" "set items \<subseteq> set choices" using kind by auto
    then have "comma_items (join_with (CHR '','') items) = items"
      using safe KChoiceList by (intro comma_items_join) (auto simp: comma_safe_def)
    then show ?thesis using KChoiceList v by (simp add: parse_text_def value_list_exact)
  next
    case (KChoice choices reserved)
    then obtain t where t: "v = VText t" "t \<in> set choices" "t \<notin> rv_value ` set reserved" using kind by auto
    then have "List.find (\<lambda>r. rv_value r = t) reserved = None" by (auto simp: find_None_iff)
    then show ?thesis using t KChoice by (simp add: parse_text_def)
  next
    case KLanguage
    then show ?thesis using kind by (auto simp: parse_text_def value_language_def)
  next
    case (KInteger least most off)
    then obtain i where i: "v = VInteger i" "least \<le> i" "i \<le> most" "I64_MIN \<le> i" "i \<le> I64_MAX"
      using kind False by auto
    then show ?thesis using KInteger int_not_off by (simp add: parse_text_def parse_show_int)
  next
    case (KNumber least most off)
    then obtain n where n: "v = VNumber n" "f64_is_finite n" "0 \<le> f_bits n" "f64_le least n" "f64_le n most"
      using kind False by auto
    then show ?thesis using KNumber not_off reads by (simp add: parse_text_def)
  qed (use kind in \<open>auto simp: parse_text_def parse_bool_def show_bool_def split: if_splits\<close>)
qed

end
