(* ===== verification/Settings_Layers.thy ===== *)
theory Settings_Layers
  imports Settings_Values
begin

text \<open>
  The registry of settings, the preferences files and their resolution (crates/maestro-settings:
  registry.rs, layer.rs, resolve.rs). A \<open>BTreeMap\<close> of values is its entries in the order of their
  keys; a path of a file is its text.
\<close>

section \<open>The registry (registry.rs)\<close>

definition SCHEMA_KEY :: string where
  "SCHEMA_KEY = ''schema''"

datatype registry = Registry (r_entries: "(setting_descriptor \<times> setting_value) list")

record registry_error =
  re_key :: string
  re_reason :: string

definition key_byte :: "char \<Rightarrow> bool" where
  "key_byte c \<longleftrightarrow> is_ascii_lowercase c \<or> is_ascii_digit c \<or> c = CHR ''_''"

definition is_key :: "string \<Rightarrow> bool" where
  "is_key key \<longleftrightarrow>
     key \<noteq> SCHEMA_KEY
     \<and> list_all (\<lambda>segment.
          (case segment of [] \<Rightarrow> False | first # _ \<Rightarrow> is_ascii_lowercase first) \<and> list_all key_byte segment)
        (split_on (CHR ''.'') key)"

definition check_values :: "string list \<Rightarrow> string + unit" where
  "check_values texts =
     (if texts \<noteq> []
         \<and> list_all (\<lambda>i. texts ! i \<noteq> [] \<and> CHR '','' \<notin> set (texts ! i) \<and> texts ! i \<notin> set (take i texts))
             [0..<length texts]
      then Inr () else Inl ''its values are empty, repeated, or hold a comma'')"

definition check_descriptor :: "setting_descriptor \<Rightarrow> string + unit" where
  "check_descriptor d =
     (if \<not> is_key (sd_key d)
      then Inl (''a key is dotted lower-case segments of letters, digits and '' @ [CHR 0x27] @ ''_'' @ [CHR 0x27]
                @ '', each starting with a letter, and never `schema`'')
      else if sd_class d = Bounded \<or> sd_class d = Additive
      then Inl (''the '' @ class_name (sd_class d)
                @ '' class is resolved by S3'' @ [CHR 0x27] @ ''s restrictive resolution, not yet available'')
      else
        let range_ok = (\<lambda>sound. if sound then Inr () else Inl ''its range is empty or not finite'') in
        case sd_kind d of
          KInteger least most off \<Rightarrow> range_ok (least \<le> most)
        | KNumber least most off \<Rightarrow> range_ok (f64_is_finite least \<and> f64_is_finite most \<and> f64_le least most)
        | KChoice choices reserved \<Rightarrow>
            and_then (check_values choices) (\<lambda>_. check_values (choices @ map rv_value reserved))
        | KChoiceList choices \<Rightarrow> check_values choices
        | _ \<Rightarrow> Inr ())"

definition under_table :: "string \<Rightarrow> string \<Rightarrow> bool" where
  "under_table table key \<longleftrightarrow>
     table \<noteq> [] \<and> (case strip_prefix table key of None \<Rightarrow> False | Some rest \<Rightarrow> starts_with_char (CHR ''.'') rest)"

definition nested :: "string \<Rightarrow> string \<Rightarrow> (string \<times> string) option" where
  "nested first second =
     (if under_table first second then Some (first, second)
      else if under_table second first then Some (second, first)
      else None)"

definition check_pair :: "settings_ext \<Rightarrow> setting_descriptor \<Rightarrow> setting_descriptor \<Rightarrow> registry_error + unit" where
  "check_pair x earlier d =
     (if sd_key earlier = sd_key d then Inl \<lparr>re_key = sd_key d, re_reason = ''declared twice''\<rparr>
      else case nested (sd_key earlier) (sd_key d) of
        Some (table, key) \<Rightarrow>
          Inl \<lparr>re_key = table, re_reason = ''a key cannot also be the table of '' @ sx_quote x key\<rparr>
      | None \<Rightarrow> Inr ())"

fun check_pairs ::
  "settings_ext \<Rightarrow> (setting_descriptor \<times> setting_value) list \<Rightarrow> setting_descriptor \<Rightarrow> registry_error + unit"
where
  "check_pairs x [] d = Inr ()"
| "check_pairs x ((other, _) # entries) d = and_then (check_pair x other d) (\<lambda>_. check_pairs x entries d)"

text \<open>One descriptor after another, over the entries so far.\<close>

fun register ::
  "settings_ext \<Rightarrow> (setting_descriptor \<times> setting_value) list \<Rightarrow> setting_descriptor list
     \<Rightarrow> registry_error + (setting_descriptor \<times> setting_value) list"
where
  "register x entries [] = Inr entries"
| "register x entries (d # ds) =
     (let refuse = (\<lambda>reason. \<lparr>re_key = sd_key d, re_reason = reason\<rparr>) in
      and_then (map_err refuse (check_descriptor d)) (\<lambda>_.
      and_then (check_pairs x entries d) (\<lambda>_.
      and_then
        (map_err (\<lambda>e. refuse (''its default '' @ sx_quote x (sd_default d) @ '' is refused: '' @ error_text e))
          (parse_text x (sd_kind d) (sd_default d)))
        (\<lambda>default. register x (entries @ [(d, default)]) ds))))"

definition registry_new :: "settings_ext \<Rightarrow> setting_descriptor list \<Rightarrow> registry_error + registry" where
  "registry_new x ds = and_then (register x [] ds) (\<lambda>entries. Inr (Registry entries))"

definition descriptors :: "registry \<Rightarrow> setting_descriptor list" where
  "descriptors registry = map fst (r_entries registry)"

definition registry_get :: "registry \<Rightarrow> string \<Rightarrow> setting_descriptor option" where
  "registry_get registry key =
     map_option fst (List.find (\<lambda>entry. sd_key (fst entry) = key) (r_entries registry))"

definition default_of :: "registry \<Rightarrow> string \<Rightarrow> setting_value option" where
  "default_of registry key =
     map_option snd (List.find (\<lambda>entry. sd_key (fst entry) = key) (r_entries registry))"

definition is_table :: "registry \<Rightarrow> string \<Rightarrow> bool" where
  "is_table registry path \<longleftrightarrow> list_ex (\<lambda>(d, _). nested path (sd_key d) \<noteq> None) (r_entries registry)"

section \<open>Preferences files (layer.rs)\<close>

definition SCHEMA :: string where
  "SCHEMA = ''maestro-preferences/1''"

definition LOCKED_REASON :: string where
  "LOCKED_REASON = ''the setting is locked: no file or flag may change it''"

definition MAX_FILE_BYTES :: int where
  "MAX_FILE_BYTES = 65536"

type_synonym settings = "(string \<times> setting_value) list"

datatype layer = Layer (l_settings: settings)

datatype layer_error =
    TooLarge nat
  | LayerNotToml string
  | NoSchema
  | UnknownKey string
  | LayerLocked string
  | SetTwice string
  | LayerRefused (refused_key: string) (refused_reason: string) (refused_found: string)

definition source_text :: "string \<Rightarrow> range \<Rightarrow> string" where
  "source_text text span = (case str_get text (fst span) (snd span) of None \<Rightarrow> [] | Some found \<Rightarrow> found)"

text \<open>\<open>Reader::read\<close>, and the loop over a table's entries.\<close>

fun read_entry ::
    "settings_ext \<Rightarrow> registry \<Rightarrow> string \<Rightarrow> string \<Rightarrow> range \<Rightarrow> de_value \<Rightarrow> settings \<Rightarrow> layer_error + settings"
  and read_table ::
    "settings_ext \<Rightarrow> registry \<Rightarrow> string \<Rightarrow> string \<Rightarrow> de_table \<Rightarrow> settings \<Rightarrow> layer_error + settings"
where
  "read_entry x registry text path span v entries =
     (let refuse = (\<lambda>reason. LayerRefused path reason (source_text text span)) in
      case registry_get registry path of
        Some d \<Rightarrow>
          if sd_class d = Locked then Inl (LayerLocked path)
          else
            and_then (map_err (\<lambda>e. refuse (error_text e)) (parse_toml x (sd_kind d) v)) (\<lambda>read.
              if path \<in> fst ` set entries then Inl (SetTwice path)
              else Inr (btree_insert path read entries))
      | None \<Rightarrow>
          if \<not> is_table registry path then Inl (UnknownKey path)
          else
            (case v of
               DeTable table \<Rightarrow> read_table x registry text path table entries
             | _ \<Rightarrow> Inl (refuse ''expected a table'')))"
| "read_table x registry text path [] entries = Inr entries"
| "read_table x registry text path (((key_span, key), (span, v)) # rest) entries =
     and_then (read_entry x registry text (path @ ''.'' @ key) span v entries) (\<lambda>entries'.
       read_table x registry text path rest entries')"

text \<open>The loop over the file's own entries, the schema left out.\<close>

fun read_root :: "settings_ext \<Rightarrow> registry \<Rightarrow> string \<Rightarrow> de_table \<Rightarrow> settings \<Rightarrow> layer_error + settings" where
  "read_root x registry text [] entries = Inr entries"
| "read_root x registry text (((key_span, key), (span, v)) # rest) entries =
     (if key = SCHEMA_KEY then read_root x registry text rest entries
      else and_then (read_entry x registry text key span v entries) (\<lambda>entries'.
        read_root x registry text rest entries'))"

definition layer_parse :: "settings_ext \<Rightarrow> registry \<Rightarrow> string \<Rightarrow> layer_error + layer" where
  "layer_parse x registry text =
     (if int (length text) > MAX_FILE_BYTES then Inl (TooLarge (length text))
      else
        and_then (map_err LayerNotToml (sx_toml x text)) (\<lambda>root.
        and_then (ok_or NoSchema (map_option snd (List.find (\<lambda>((_, key), _). key = SCHEMA_KEY) root)))
          (\<lambda>(span, schema).
            if de_text schema \<noteq> Some SCHEMA
            then Inl (LayerRefused SCHEMA_KEY (''expected '' @ sx_quote x SCHEMA) (source_text text span))
            else and_then (read_root x registry text root []) (\<lambda>entries. Inr (Layer entries)))))"

definition layer_get :: "layer \<Rightarrow> string \<Rightarrow> setting_value option" where
  "layer_get layer key = map_of (l_settings layer) key"

definition layer_is_empty :: "layer \<Rightarrow> bool" where
  "layer_is_empty layer \<longleftrightarrow> l_settings layer = []"

definition layer_with :: "layer \<Rightarrow> string \<Rightarrow> setting_value option \<Rightarrow> layer" where
  "layer_with layer key v =
     Layer (case v of Some v \<Rightarrow> btree_insert key v (l_settings layer) | None \<Rightarrow> btree_remove key (l_settings layer))"

text \<open>The derived equality of layers.\<close>

definition layer_eq :: "layer \<Rightarrow> layer \<Rightarrow> bool" where
  "layer_eq l m \<longleftrightarrow>
     list_all2 (\<lambda>(j, v) (k, w). j = k \<and> value_eq v w) (l_settings l) (l_settings m)"

section \<open>Resolution (resolve.rs)\<close>

datatype layer_name = UserLayer | ProjectLayer

fun layer_name_str :: "layer_name \<Rightarrow> string" where
  "layer_name_str UserLayer = ''user''"
| "layer_name_str ProjectLayer = ''project''"

datatype source = SourceDefault | SourceFile layer_name string | SourceFlag

record layers =
  ly_user :: "(string \<times> layer) option"
  ly_project :: "(string \<times> layer) option"

record flag =
  fl_key :: string
  fl_value :: setting_value

datatype settings_error =
    SettingsFile string layer_error
  | SettingsIo string string
  | SettingsFlag string string

fun parse_flags_from :: "settings_ext \<Rightarrow> registry \<Rightarrow> flag list \<Rightarrow> string list \<Rightarrow> settings_error + flag list" where
  "parse_flags_from x registry flags [] = Inr flags"
| "parse_flags_from x registry flags (text # texts) =
     (let refuse = SettingsFlag text in
      and_then (ok_or (refuse ''expected KEY=VALUE'') (split_once (CHR ''='') text)) (\<lambda>(key, v).
      and_then (ok_or (refuse (''unknown key '' @ sx_quote x key)) (registry_get registry key)) (\<lambda>d.
      if sd_class d = Locked then Inl (refuse LOCKED_REASON)
      else
        and_then (map_err (\<lambda>e. refuse (error_text e)) (parse_text x (sd_kind d) v)) (\<lambda>read.
          if list_ex (\<lambda>flag. fl_key flag = key) flags then Inl (refuse (key @ '' is set twice''))
          else parse_flags_from x registry (flags @ [\<lparr>fl_key = key, fl_value = read\<rparr>]) texts))))"

definition parse_flags :: "settings_ext \<Rightarrow> registry \<Rightarrow> string list \<Rightarrow> settings_error + flag list" where
  "parse_flags x registry texts = parse_flags_from x registry [] texts"

record resolved_setting =
  rs_descriptor :: setting_descriptor
  rs_value :: setting_value
  rs_source :: source
  rs_overridden :: "(source \<times> setting_value) list"

text \<open>What a file sets for a key, with where it is from.\<close>

definition file_values :: "string \<Rightarrow> layer_name \<times> (string \<times> layer) option \<Rightarrow> (source \<times> setting_value) list" where
  "file_values key file =
     (case file of
        (_, None) \<Rightarrow> []
      | (name, Some (path, layer)) \<Rightarrow>
          (case layer_get layer key of None \<Rightarrow> [] | Some v \<Rightarrow> [(SourceFile name path, v)]))"

definition found_values :: "layers \<Rightarrow> flag list \<Rightarrow> string \<Rightarrow> (source \<times> setting_value) list" where
  "found_values layers flags key =
     map (\<lambda>flag. (SourceFlag, fl_value flag)) (filter (\<lambda>flag. fl_key flag = key) flags)
     @ concat (map (file_values key) [(ProjectLayer, ly_project layers), (UserLayer, ly_user layers)])"

definition resolve_setting :: "registry \<Rightarrow> layers \<Rightarrow> flag list \<Rightarrow> setting_descriptor \<Rightarrow> resolved_setting" where
  "resolve_setting registry layers flags d =
     (let found = found_values layers flags (sd_key d);
          default = (case default_of registry (sd_key d) of None \<Rightarrow> VOff | Some v \<Rightarrow> v);
          (source, v) = (case found of [] \<Rightarrow> (SourceDefault, default) | first # _ \<Rightarrow> first) in
      \<lparr>rs_descriptor = d, rs_value = v, rs_source = source, rs_overridden = tl found\<rparr>)"

definition resolve :: "registry \<Rightarrow> layers \<Rightarrow> flag list \<Rightarrow> resolved_setting list" where
  "resolve registry layers flags = map (resolve_setting registry layers flags) (descriptors registry)"

definition resolved_get :: "resolved_setting list \<Rightarrow> string \<Rightarrow> resolved_setting option" where
  "resolved_get resolved key = List.find (\<lambda>s. sd_key (rs_descriptor s) = key) resolved"

definition resolved_value :: "resolved_setting list \<Rightarrow> string \<Rightarrow> setting_value option" where
  "resolved_value resolved key = map_option rs_value (resolved_get resolved key)"

definition resolved_flag :: "resolved_setting list \<Rightarrow> string \<Rightarrow> bool option" where
  "resolved_flag resolved key = (case resolved_value resolved key of Some (VFlag b) \<Rightarrow> Some b | _ \<Rightarrow> None)"

definition resolved_integer :: "resolved_setting list \<Rightarrow> string \<Rightarrow> int option" where
  "resolved_integer resolved key = (case resolved_value resolved key of Some (VInteger i) \<Rightarrow> Some i | _ \<Rightarrow> None)"

definition resolved_number :: "resolved_setting list \<Rightarrow> string \<Rightarrow> f64 option" where
  "resolved_number resolved key = (case resolved_value resolved key of Some (VNumber n) \<Rightarrow> Some n | _ \<Rightarrow> None)"

definition resolved_text :: "resolved_setting list \<Rightarrow> string \<Rightarrow> string option" where
  "resolved_text resolved key = (case resolved_value resolved key of Some (VText t) \<Rightarrow> Some t | _ \<Rightarrow> None)"

definition resolved_list :: "resolved_setting list \<Rightarrow> string \<Rightarrow> string list option" where
  "resolved_list resolved key = (case resolved_value resolved key of Some (VList items) \<Rightarrow> Some items | _ \<Rightarrow> None)"

definition resolved_is_off :: "resolved_setting list \<Rightarrow> string \<Rightarrow> bool" where
  "resolved_is_off resolved key \<longleftrightarrow> resolved_value resolved key = Some VOff"

end
