(* ===== verification/Settings_Edit.thy ===== *)
theory Settings_Edit
  imports Settings_Layers
begin

text \<open>
  Edits of a preferences file's text (crates/maestro-settings: edit/document.rs, edit/change.rs).
  Every offset is a byte of the text; \<open>str::get\<close> refuses a range that is not of whole characters.
\<close>

section \<open>Where a file writes what (edit/document.rs)\<close>

record doc_entry =
  de_path :: string
  de_key :: range
  de_value_span :: range

datatype form = FormHeader | FormDotted | FormInline

record doc_table =
  dt_path :: string
  dt_form :: form
  dt_span :: range

record document =
  dc_entries :: "doc_entry list"
  dc_tables :: "doc_table list"

definition table_form :: "range \<Rightarrow> range \<Rightarrow> string \<Rightarrow> form" where
  "table_form span key_span text =
     (if span = key_span then FormDotted
      else if (case str_get text (fst span) (snd span) of
                 None \<Rightarrow> False | Some found \<Rightarrow> starts_with_char (CHR ''{'') found)
      then FormInline else FormHeader)"

definition join_path :: "string \<Rightarrow> string \<Rightarrow> string" where
  "join_path path key = (if path = [] then key else path @ ''.'' @ key)"

fun walk_entry :: "string \<Rightarrow> string \<Rightarrow> range \<times> string \<Rightarrow> range \<times> de_value \<Rightarrow> document \<Rightarrow> document"
  and walk :: "string \<Rightarrow> string \<Rightarrow> de_table \<Rightarrow> document \<Rightarrow> document"
where
  "walk_entry text path (key_span, key) (span, v) document =
     (let path' = join_path path key in
      case v of
        DeTable inner \<Rightarrow>
          walk text path' inner
            (document\<lparr>dc_tables := dc_tables document
               @ [\<lparr>dt_path = path', dt_form = table_form span key_span text, dt_span = span\<rparr>]\<rparr>)
      | _ \<Rightarrow>
          document\<lparr>dc_entries := dc_entries document
            @ [\<lparr>de_path = path', de_key = key_span, de_value_span = span\<rparr>]\<rparr>)"
| "walk text path [] document = document"
| "walk text path ((key, v) # rest) document = walk text path rest (walk_entry text path key v document)"

definition document_of_table :: "de_table \<Rightarrow> string \<Rightarrow> document" where
  "document_of_table root text = walk text [] root \<lparr>dc_entries = [], dc_tables = []\<rparr>"

definition doc_entry_at :: "document \<Rightarrow> string \<Rightarrow> doc_entry option" where
  "doc_entry_at document path = List.find (\<lambda>entry. de_path entry = path) (dc_entries document)"

definition doc_table_at :: "document \<Rightarrow> string \<Rightarrow> doc_table option" where
  "doc_table_at document path = List.find (\<lambda>table. dt_path table = path) (dc_tables document)"

definition header_starts :: "document \<Rightarrow> nat list" where
  "header_starts document =
     map (fst \<circ> dt_span) (filter (\<lambda>table. dt_form table = FormHeader) (dc_tables document))"

definition min_or :: "nat \<Rightarrow> nat list \<Rightarrow> nat" where
  "min_or n ns = (case ns of [] \<Rightarrow> n | m # ms \<Rightarrow> fold min ms m)"

definition first_header :: "document \<Rightarrow> string \<Rightarrow> nat" where
  "first_header document text = min_or (length text) (header_starts document)"

definition next_header :: "document \<Rightarrow> nat \<Rightarrow> string \<Rightarrow> nat" where
  "next_header document offset text =
     min_or (length text) (filter (\<lambda>start. offset \<le> start) (header_starts document))"

section \<open>The text (edit/change.rs)\<close>

datatype edit_error = EditInvalid layer_error | EditUnsafe string

definition get_or_empty :: "string option \<Rightarrow> string" where
  "get_or_empty s = (case s of None \<Rightarrow> [] | Some s \<Rightarrow> s)"

definition splice :: "string \<Rightarrow> nat \<Rightarrow> nat \<Rightarrow> string \<Rightarrow> string" where
  "splice text from to replacement =
     get_or_empty (str_get text 0 from) @ replacement @ get_or_empty (str_get text to (length text))"

text \<open>The position of the first newline of a text, and of its last.\<close>

fun find_newline :: "string \<Rightarrow> nat option" where
  "find_newline [] = None"
| "find_newline (c # cs) = (if c = CHR 0x0A then Some 0 else map_option Suc (find_newline cs))"

fun rfind_newline :: "string \<Rightarrow> nat option" where
  "rfind_newline [] = None"
| "rfind_newline (c # cs) =
     (case rfind_newline cs of
        Some i \<Rightarrow> Some (Suc i)
      | None \<Rightarrow> if c = CHR 0x0A then Some 0 else None)"

definition line_ending :: "string \<Rightarrow> string" where
  "line_ending text =
     (if sublist [CHR 0x0D, CHR 0x0A] text then [CHR 0x0D, CHR 0x0A] else [CHR 0x0A])"

definition line_start :: "string \<Rightarrow> nat \<Rightarrow> nat" where
  "line_start text offset =
     (case Option.bind (str_get text 0 offset) rfind_newline of None \<Rightarrow> 0 | Some newline \<Rightarrow> newline + 1)"

definition line_end :: "string \<Rightarrow> nat \<Rightarrow> nat" where
  "line_end text offset =
     (case Option.bind (str_get text offset (length text)) find_newline of
        None \<Rightarrow> length text | Some newline \<Rightarrow> offset + newline + 1)"

definition ends_with_newline :: "string \<Rightarrow> bool" where
  "ends_with_newline text \<longleftrightarrow> text \<noteq> [] \<and> last text = CHR 0x0A"

definition insert_line :: "string \<Rightarrow> nat \<Rightarrow> string \<Rightarrow> string" where
  "insert_line text offset line =
     (if length text \<le> offset \<and> text \<noteq> [] \<and> \<not> ends_with_newline text
      then text @ line_ending text @ line
      else splice text offset offset (line @ line_ending text))"

definition append_table :: "settings_ext \<Rightarrow> string \<Rightarrow> string \<Rightarrow> string \<Rightarrow> setting_value \<Rightarrow> string" where
  "append_table x text table key v =
     text @ (if text = [] \<or> ends_with_newline text then [] else line_ending text) @ line_ending text
     @ ''['' @ table @ '']'' @ line_ending text @ key @ '' = '' @ to_toml x v @ line_ending text"

text \<open>\<open>Iterator::max_by_key\<close> gives the last of the greatest.\<close>

fun last_max :: "('a \<Rightarrow> nat) \<Rightarrow> 'a list \<Rightarrow> 'a option" where
  "last_max f [] = None"
| "last_max f (a # as) =
     (case last_max f as of None \<Rightarrow> Some a | Some b \<Rightarrow> if f b < f a then Some a else Some b)"

definition child_of :: "string \<Rightarrow> string \<Rightarrow> bool" where
  "child_of table path \<longleftrightarrow>
     (case Option.bind (strip_prefix table path) (strip_prefix ''.'') of
        None \<Rightarrow> False | Some rest \<Rightarrow> CHR ''.'' \<notin> set rest)"

definition last_child :: "document \<Rightarrow> string \<Rightarrow> doc_entry option" where
  "last_child document table =
     last_max (snd \<circ> de_value_span) (filter (\<lambda>entry. child_of table (de_path entry)) (dc_entries document))"

definition last_line_end :: "string \<Rightarrow> document \<Rightarrow> nat \<Rightarrow> nat \<Rightarrow> nat" where
  "last_line_end text document from to =
     (case map (\<lambda>entry. line_end text (snd (de_value_span entry)))
             (filter (\<lambda>entry. from \<le> fst (de_key entry) \<and> fst (de_key entry) < to) (dc_entries document)) of
        [] \<Rightarrow> from
      | n # ns \<Rightarrow> fold max ns n)"

text \<open>The table of the longest proper prefix of the key's segments.\<close>

definition closest_table :: "document \<Rightarrow> string list \<Rightarrow> doc_table option" where
  "closest_table document segments =
     (case List.find (\<lambda>n. doc_table_at document (join_with (CHR ''.'') (take n segments)) \<noteq> None)
             (rev [1..<length segments]) of
        None \<Rightarrow> None
      | Some n \<Rightarrow> doc_table_at document (join_with (CHR ''.'') (take n segments)))"

definition add_line :: "settings_ext \<Rightarrow> string \<Rightarrow> document \<Rightarrow> string \<Rightarrow> setting_value \<Rightarrow> string option" where
  "add_line x text document key v =
     (let segments = split_on (CHR ''.'') key in
      case closest_table document segments of
        None \<Rightarrow>
          if butlast segments = []
          then Some (insert_line text (last_line_end text document 0 (first_header document text))
                       (key @ '' = '' @ to_toml x v))
          else Some (append_table x text (join_with (CHR ''.'') (butlast segments)) (last segments) v)
      | Some table \<Rightarrow>
          Option.bind (str_get key (length (dt_path table) + 1) (length key)) (\<lambda>rest.
            let line = rest @ '' = '' @ to_toml x v in
            case dt_form table of
              FormHeader \<Rightarrow>
                let start = line_end text (snd (dt_span table));
                    after = last_line_end text document start (next_header document start text) in
                Some (insert_line text (max after start) line)
            | FormDotted \<Rightarrow>
                Option.bind (last_child document (dt_path table)) (\<lambda>sibling.
                Option.bind (str_get text (line_start text (fst (de_key sibling))) (fst (de_key sibling)))
                  (\<lambda>indent. Some (insert_line text (line_end text (snd (de_value_span sibling))) (indent @ line))))
            | FormInline \<Rightarrow> None))"

definition verify :: "settings_ext \<Rightarrow> registry \<Rightarrow> string \<Rightarrow> layer \<Rightarrow> string \<Rightarrow> edit_error + unit" where
  "verify x registry edited expected key =
     (case layer_parse x registry edited of
        Inr layer \<Rightarrow> if layer_eq layer expected then Inr () else Inl (EditUnsafe key)
      | Inl _ \<Rightarrow> Inl (EditUnsafe key))"

definition set_in_document ::
  "settings_ext \<Rightarrow> registry \<Rightarrow> string option \<Rightarrow> string \<Rightarrow> setting_value \<Rightarrow> edit_error + string" where
  "set_in_document x registry source key v =
     (let text = (case source of Some text \<Rightarrow> text | None \<Rightarrow> SCHEMA_KEY @ '' = '' @ sx_quote x SCHEMA @ [CHR 0x0A]) in
      and_then (map_err EditInvalid (layer_parse x registry text)) (\<lambda>before.
      and_then (map_err (\<lambda>_. EditUnsafe key) (sx_toml x text)) (\<lambda>root.
        let document = document_of_table root text in
        and_then
          (case doc_entry_at document key of
             Some entry \<Rightarrow>
               Inr (splice text (fst (de_value_span entry)) (snd (de_value_span entry)) (to_toml x v))
           | None \<Rightarrow> ok_or (EditUnsafe key) (add_line x text document key v)) (\<lambda>edited.
        and_then (verify x registry edited (layer_with before key (Some v)) key) (\<lambda>_.
        Inr edited)))))"

definition unset_in_document ::
  "settings_ext \<Rightarrow> registry \<Rightarrow> string \<Rightarrow> string \<Rightarrow> edit_error + string option" where
  "unset_in_document x registry text key =
     and_then (map_err EditInvalid (layer_parse x registry text)) (\<lambda>before.
     if layer_get before key = None then Inr None
     else
       and_then (map_err (\<lambda>_. EditUnsafe key) (sx_toml x text)) (\<lambda>root.
       and_then (ok_or (EditUnsafe key) (doc_entry_at (document_of_table root text) key)) (\<lambda>entry.
         let edited = splice text (line_start text (fst (de_key entry)))
                        (line_end text (snd (de_value_span entry))) [] in
         and_then (verify x registry edited (layer_with before key None) key) (\<lambda>_. Inr (Some edited)))))"

end
