(* ===== verification/Settings_Safety.thy ===== *)
theory Settings_Safety
  imports Setting_Types Settings_Edit
begin

text \<open>
  What settings are safe to rely on: a registry is sound, a preferences file gives exactly what its
  entries say or is refused, every layer's values are of their settings' kinds, resolution takes the
  first layer that sets a key, and an edit changes its key and nothing else.
\<close>

section \<open>Sound registries\<close>

definition registry_ok :: "settings_ext \<Rightarrow> registry \<Rightarrow> bool" where
  "registry_ok x registry \<longleftrightarrow>
     distinct (map (sd_key \<circ> fst) (r_entries registry))
     \<and> list_all (\<lambda>(d, v). check_descriptor d = Inr () \<and> parse_text x (sd_kind d) (sd_default d) = Inr v)
         (r_entries registry)
     \<and> (\<forall>d\<in>set (descriptors registry). \<forall>e\<in>set (descriptors registry). nested (sd_key d) (sd_key e) = None)"

lemma nested_sym: "nested a b = None \<longleftrightarrow> nested b a = None"
  by (auto simp: nested_def split: if_splits)

lemma check_pairs_Inr:
  "check_pairs x entries d = Inr () \<longleftrightarrow>
     (\<forall>e\<in>set entries. sd_key (fst e) \<noteq> sd_key d \<and> nested (sd_key (fst e)) (sd_key d) = None)"
  by (induction x entries d rule: check_pairs.induct)
    (auto simp: check_pair_def and_then_Inr split: option.splits)

lemma nested_self: "nested a a = None"
  by (auto simp: nested_def under_table_def strip_prefix_def starts_with_char_def)

lemma register_Inr:
  "register x entries ds = Inr entries' \<Longrightarrow> registry_ok x (Registry entries) \<Longrightarrow>
     registry_ok x (Registry entries') \<and> map fst entries' = map fst entries @ ds"
proof (induction ds arbitrary: entries)
  case (Cons d ds)
  obtain v where d: "check_descriptor d = Inr ()" "check_pairs x entries d = Inr ()"
      "parse_text x (sd_kind d) (sd_default d) = Inr v"
    and rest: "register x (entries @ [(d, v)]) ds = Inr entries'"
    using Cons.prems(1) by (auto simp: Let_def results)
  have "registry_ok x (Registry (entries @ [(d, v)]))"
    using Cons.prems(2) d
    by (auto simp: registry_ok_def descriptors_def check_pairs_Inr nested_self nested_sym[of "sd_key d"])
  from Cons.IH[OF rest this] show ?case by simp
qed simp

lemma registry_new_ok:
  assumes "registry_new x ds = Inr registry"
  shows "registry_ok x registry \<and> descriptors registry = ds"
proof -
  obtain entries where e: "register x [] ds = Inr entries" "registry = Registry entries"
    using assms by (auto simp: registry_new_def and_then_Inr)
  have "registry_ok x (Registry [])" by (simp add: registry_ok_def descriptors_def)
  from register_Inr[OF e(1) this] show ?thesis by (simp add: e(2) descriptors_def)
qed

lemma registry_get_iff:
  assumes "registry_ok x registry"
  shows "registry_get registry key = Some d \<longleftrightarrow> d \<in> set (descriptors registry) \<and> sd_key d = key"
proof
  assume "registry_get registry key = Some d"
  then show "d \<in> set (descriptors registry) \<and> sd_key d = key"
    by (force simp: registry_get_def descriptors_def dest!: find_mem)
next
  assume d: "d \<in> set (descriptors registry) \<and> sd_key d = key"
  then obtain v where v: "(d, v) \<in> set (r_entries registry)" by (auto simp: descriptors_def)
  have "distinct (map (sd_key \<circ> fst) (r_entries registry))" using assms by (simp add: registry_ok_def)
  from find_unique[OF this v] d
  show "registry_get registry key = Some d" by (simp add: registry_get_def comp_def)
qed

lemma default_of_kind:
  assumes "registry_ok x registry" and "d \<in> set (descriptors registry)"
  shows "\<exists>v. default_of registry (sd_key d) = Some v \<and> parse_text x (sd_kind d) (sd_default d) = Inr v"
proof -
  obtain v where v: "(d, v) \<in> set (r_entries registry)" using assms(2) by (auto simp: descriptors_def)
  have "distinct (map (sd_key \<circ> fst) (r_entries registry))" using assms(1) by (simp add: registry_ok_def)
  from find_unique[OF this v] have "default_of registry (sd_key d) = Some v"
    by (simp add: default_of_def comp_def)
  with assms(1) v show ?thesis by (auto simp: registry_ok_def list_all_iff)
qed

section \<open>What a file says\<close>

text \<open>
  The entries of a file as a reader sees them: a path that is a table of the registry is read
  through, anything else is a setting's value, or an entry no setting accepts.
\<close>

fun leaves :: "registry \<Rightarrow> string \<Rightarrow> de_value \<Rightarrow> (string \<times> de_value) list"
  and table_leaves :: "registry \<Rightarrow> string \<Rightarrow> de_table \<Rightarrow> (string \<times> de_value) list"
where
  "leaves registry path v =
     (if registry_get registry path = None \<and> is_table registry path
      then (case v of DeTable table \<Rightarrow> table_leaves registry path table | _ \<Rightarrow> [(path, v)])
      else [(path, v)])"
| "table_leaves registry path [] = []"
| "table_leaves registry path (((ks, key), (s, v)) # rest) =
     leaves registry (path @ ''.'' @ key) v @ table_leaves registry path rest"

definition accepts :: "settings_ext \<Rightarrow> registry \<Rightarrow> string \<times> de_value \<Rightarrow> string \<times> setting_value \<Rightarrow> bool" where
  "accepts x registry leaf entry \<longleftrightarrow>
     fst entry = fst leaf
     \<and> (\<exists>d. registry_get registry (fst leaf) = Some d \<and> sd_class d \<noteq> Locked
          \<and> parse_toml x (sd_kind d) (snd leaf) = Inr (snd entry))"

definition insert_all :: "settings \<Rightarrow> settings \<Rightarrow> settings" where
  "insert_all read entries = fold (\<lambda>(k, v). btree_insert k v) read entries"

definition reads_as ::
  "settings_ext \<Rightarrow> registry \<Rightarrow> (string \<times> de_value) list \<Rightarrow> settings \<Rightarrow> settings \<Rightarrow> bool" where
  "reads_as x registry found entries entries' \<longleftrightarrow>
     (\<exists>read. list_all2 (accepts x registry) found read \<and> distinct (map fst read)
        \<and> fst ` set read \<inter> fst ` set entries = {} \<and> entries' = insert_all read entries)"

lemma insert_all_keys: "fst ` set (insert_all read entries) = fst ` set read \<union> fst ` set entries"
proof (induction read arbitrary: entries)
  case (Cons e read)
  have "insert_all (e # read) entries = insert_all read (btree_insert (fst e) (snd e) entries)"
    by (simp add: insert_all_def split_beta)
  then show ?case using Cons.IH by (simp add: btree_insert_keys)
qed (simp add: insert_all_def)

lemma insert_all_append: "insert_all (r @ s) entries = insert_all s (insert_all r entries)"
  by (simp add: insert_all_def)

lemma reads_as_Nil [simp]: "reads_as x registry [] entries entries' \<longleftrightarrow> entries' = entries"
  by (auto simp: reads_as_def insert_all_def)

lemma reads_as_append:
  "reads_as x registry (f @ g) entries entries'' \<longleftrightarrow>
     (\<exists>entries'. reads_as x registry f entries entries' \<and> reads_as x registry g entries' entries'')"
proof
  assume "reads_as x registry (f @ g) entries entries''"
  then obtain read where read: "list_all2 (accepts x registry) (f @ g) read" "distinct (map fst read)"
      "fst ` set read \<inter> fst ` set entries = {}" "entries'' = insert_all read entries"
    by (auto simp: reads_as_def)
  obtain r s where rs: "read = r @ s" "list_all2 (accepts x registry) f r" "list_all2 (accepts x registry) g s"
    using read(1) by (auto simp: list_all2_append1)
  have "reads_as x registry f entries (insert_all r entries)"
    using read rs by (auto simp: reads_as_def)
  moreover have "reads_as x registry g (insert_all r entries) entries''"
    unfolding reads_as_def using read rs
    by (intro exI[of _ s]) (auto simp: insert_all_append insert_all_keys)
  ultimately show "\<exists>entries'. reads_as x registry f entries entries' \<and> reads_as x registry g entries' entries''"
    by blast
next
  assume "\<exists>entries'. reads_as x registry f entries entries' \<and> reads_as x registry g entries' entries''"
  then obtain r s where "list_all2 (accepts x registry) f r" "distinct (map fst r)"
      "fst ` set r \<inter> fst ` set entries = {}" "list_all2 (accepts x registry) g s" "distinct (map fst s)"
      "fst ` set s \<inter> fst ` set (insert_all r entries) = {}" "entries'' = insert_all s (insert_all r entries)"
    by (auto simp: reads_as_def)
  then show "reads_as x registry (f @ g) entries entries''"
    unfolding reads_as_def
    by (intro exI[of _ "r @ s"]) (auto simp: insert_all_append insert_all_keys intro: list_all2_appendI)
qed

lemma reads_as_one:
  "reads_as x registry [(path, v)] entries entries' \<longleftrightarrow>
     (\<exists>d read. registry_get registry path = Some d \<and> sd_class d \<noteq> Locked \<and> parse_toml x (sd_kind d) v = Inr read
        \<and> path \<notin> fst ` set entries \<and> entries' = btree_insert path read entries)"
proof
  assume "reads_as x registry [(path, v)] entries entries'"
  then show "\<exists>d read. registry_get registry path = Some d \<and> sd_class d \<noteq> Locked \<and> parse_toml x (sd_kind d) v = Inr read
        \<and> path \<notin> fst ` set entries \<and> entries' = btree_insert path read entries"
    by (auto simp: reads_as_def list_all2_Cons1 accepts_def insert_all_def)
next
  assume "\<exists>d read. registry_get registry path = Some d \<and> sd_class d \<noteq> Locked \<and> parse_toml x (sd_kind d) v = Inr read
        \<and> path \<notin> fst ` set entries \<and> entries' = btree_insert path read entries"
  then obtain d read where "registry_get registry path = Some d" "sd_class d \<noteq> Locked"
      "parse_toml x (sd_kind d) v = Inr read" "path \<notin> fst ` set entries" "entries' = btree_insert path read entries"
    by blast
  then show "reads_as x registry [(path, v)] entries entries'"
    unfolding reads_as_def by (intro exI[of _ "[(path, read)]"]) (auto simp: accepts_def insert_all_def)
qed

lemma read_entry_exact:
  "read_entry x registry src path span v entries = Inr entries' \<longleftrightarrow>
     reads_as x registry (leaves registry path v) entries entries'"
  "read_table x registry src path table entries = Inr entries' \<longleftrightarrow>
     reads_as x registry (table_leaves registry path table) entries entries'"
proof (induction x registry src path span v entries and x registry src path table entries
    arbitrary: entries' and entries' rule: read_entry_read_table.induct)
  case (1 x registry src path span v entries)
  show ?case
  proof (cases "registry_get registry path")
    case (Some d)
    then show ?thesis by (auto simp: Let_def reads_as_one and_then_Inr map_err_Inr)
  next
    case None
    then show ?thesis using 1
      by (cases v) (auto simp: Let_def reads_as_one)
  qed
next
  case (3 x registry src path ks key span v rest entries)
  then show ?case by (auto simp: and_then_Inr reads_as_append simp del: read_entry.simps leaves.simps)
qed auto

lemma read_root_exact:
  "read_root x registry src root entries = Inr entries' \<longleftrightarrow>
     reads_as x registry
       (concat (map (\<lambda>((ks, key), (s, v)). leaves registry key v) (filter (\<lambda>((ks, key), _). key \<noteq> SCHEMA_KEY) root)))
       entries entries'"
proof (induction x registry src root entries arbitrary: entries' rule: read_root.induct)
  case (2 x registry src ks key span v rest entries)
  then show ?case
    by (cases "key = SCHEMA_KEY")
      (auto simp: and_then_Inr reads_as_append read_entry_exact(1) simp del: read_entry.simps leaves.simps)
qed auto

text \<open>A file's settings: the entries of its document, the schema left out.\<close>

definition file_leaves :: "registry \<Rightarrow> de_table \<Rightarrow> (string \<times> de_value) list" where
  "file_leaves registry root =
     concat (map (\<lambda>((ks, key), (s, v)). leaves registry key v) (filter (\<lambda>((ks, key), _). key \<noteq> SCHEMA_KEY) root))"

definition names_schema :: "de_table \<Rightarrow> bool" where
  "names_schema root \<longleftrightarrow>
     (\<exists>span schema. map_option snd (List.find (\<lambda>((_, key), _). key = SCHEMA_KEY) root) = Some (span, schema)
        \<and> de_text schema = Some SCHEMA)"

lemma layer_parse_Inr:
  "layer_parse x registry src = Inr layer \<longleftrightarrow>
     int (length src) \<le> MAX_FILE_BYTES
     \<and> (\<exists>root. sx_toml x src = Inr root \<and> names_schema root
          \<and> reads_as x registry (file_leaves registry root) [] (l_settings layer))"
proof -
  have "(\<exists>entries. read_root x registry src root [] = Inr entries \<and> layer = Layer entries)
      \<longleftrightarrow> reads_as x registry (file_leaves registry root) [] (l_settings layer)" for root
    by (cases layer) (auto simp: read_root_exact file_leaves_def)
  then show ?thesis
    by (auto simp: layer_parse_def results names_schema_def split: if_splits prod.splits) blast+
qed

lemma insert_all_ok: "btree_ok entries \<Longrightarrow> btree_ok (insert_all read entries)"
  by (induction read arbitrary: entries) (auto simp: insert_all_def btree_insert_ok)

lemma insert_all_set:
  "btree_ok entries \<Longrightarrow> distinct (map fst read) \<Longrightarrow> fst ` set read \<inter> fst ` set entries = {} \<Longrightarrow>
     set (insert_all read entries) = set read \<union> set entries"
proof (induction read arbitrary: entries)
  case (Cons e read)
  obtain k v where e: "e = (k, v)" by (cases e)
  have entries: "set (btree_insert k v entries) = insert (k, v) (set entries)"
    using Cons.prems e by (auto simp: btree_set_insert)
  have "set (insert_all read (btree_insert k v entries)) = set read \<union> set (btree_insert k v entries)"
    using Cons.prems e by (intro Cons.IH btree_insert_ok) (auto simp: btree_insert_keys)
  then show ?case by (auto simp: entries e insert_all_def)
qed (simp add: insert_all_def)

text \<open>What the layer of a file holds, entry by entry.\<close>

lemma layer_entries:
  assumes "layer_parse x registry src = Inr layer" and "sx_toml x src = Inr root"
  shows "btree_ok (l_settings layer)"
    and "(key, v) \<in> set (l_settings layer) \<longleftrightarrow>
      (\<exists>w d. (key, w) \<in> set (file_leaves registry root) \<and> registry_get registry key = Some d
         \<and> sd_class d \<noteq> Locked \<and> parse_toml x (sd_kind d) w = Inr v)"
    and "distinct (map fst (file_leaves registry root))"
proof -
  obtain read where read: "list_all2 (accepts x registry) (file_leaves registry root) read" "distinct (map fst read)"
      "l_settings layer = insert_all read []"
    using assms by (auto simp: layer_parse_Inr reads_as_def)
  show "btree_ok (l_settings layer)" by (simp add: read(3) insert_all_ok)
  have same: "map fst read = map fst (file_leaves registry root)"
    using read(1) by (induction rule: list_all2_induct) (auto simp: accepts_def)
  then show "distinct (map fst (file_leaves registry root))" using read(2) by simp
  have set: "set (l_settings layer) = set read" using read by (simp add: insert_all_set)
  show "(key, v) \<in> set (l_settings layer) \<longleftrightarrow>
      (\<exists>w d. (key, w) \<in> set (file_leaves registry root) \<and> registry_get registry key = Some d
         \<and> sd_class d \<noteq> Locked \<and> parse_toml x (sd_kind d) w = Inr v)" (is "_ \<longleftrightarrow> ?leaf")
  proof
    assume "(key, v) \<in> set (l_settings layer)"
    then obtain leaf where "leaf \<in> set (file_leaves registry root)" "accepts x registry leaf (key, v)"
      using read(1) unfolding set by (metis in_set_conv_nth list_all2_conv_all_nth)
    then show ?leaf unfolding accepts_def by (intro exI[of _ "snd leaf"]) auto
  next
    assume ?leaf
    then obtain w d where w: "(key, w) \<in> set (file_leaves registry root)" "registry_get registry key = Some d"
        "parse_toml x (sd_kind d) w = Inr v" by blast
    then obtain e where "e \<in> set read" "accepts x registry (key, w) e"
      using read(1) by (metis in_set_conv_nth list_all2_conv_all_nth)
    then have "e = (key, v)" using w by (cases e) (auto simp: accepts_def)
    with \<open>e \<in> set read\<close> show "(key, v) \<in> set (l_settings layer)" by (simp add: set)
  qed
qed

section \<open>Layers of settings of their kinds\<close>

definition layer_ok :: "registry \<Rightarrow> layer \<Rightarrow> bool" where
  "layer_ok registry layer \<longleftrightarrow>
     btree_ok (l_settings layer)
     \<and> (\<forall>(key, v)\<in>set (l_settings layer). \<exists>d. registry_get registry key = Some d \<and> sd_class d \<noteq> Locked
          \<and> value_of_kind (sd_kind d) v)"

definition layers_ok :: "registry \<Rightarrow> layers \<Rightarrow> bool" where
  "layers_ok registry layers \<longleftrightarrow>
     (\<forall>path layer. ly_user layers = Some (path, layer) \<or> ly_project layers = Some (path, layer) \<longrightarrow>
        layer_ok registry layer)"

definition flags_ok :: "registry \<Rightarrow> flag list \<Rightarrow> bool" where
  "flags_ok registry flags \<longleftrightarrow>
     distinct (map fl_key flags)
     \<and> (\<forall>flag\<in>set flags. \<exists>d. registry_get registry (fl_key flag) = Some d \<and> sd_class d \<noteq> Locked
          \<and> value_of_kind (sd_kind d) (fl_value flag))"

lemma layer_parse_ok: "layer_parse x registry src = Inr layer \<Longrightarrow> layer_ok registry layer"
  using layer_entries[of x registry src layer]
  by (auto simp: layer_ok_def layer_parse_Inr dest!: parse_toml_kind)

lemma parse_flags_ok:
  "parse_flags_from x registry flags texts = Inr flags' \<Longrightarrow> flags_ok registry flags \<Longrightarrow> flags_ok registry flags'"
proof (induction texts arbitrary: flags)
  case (Cons t texts)
  obtain key v d read where step: "split_once (CHR ''='') t = Some (key, v)" "registry_get registry key = Some d"
      "sd_class d \<noteq> Locked" "parse_text x (sd_kind d) v = Inr read" "\<not> list_ex (\<lambda>flag. fl_key flag = key) flags"
    and rest: "parse_flags_from x registry (flags @ [\<lparr>fl_key = key, fl_value = read\<rparr>]) texts = Inr flags'"
    using Cons.prems(1) by (auto simp: Let_def results split: prod.splits if_splits)
  have "flags_ok registry (flags @ [\<lparr>fl_key = key, fl_value = read\<rparr>])"
    using Cons.prems(2) step parse_text_kind[OF step(4)] by (auto simp: flags_ok_def list_ex_iff image_iff)
  from Cons.IH[OF rest this] show ?case .
qed simp

lemma layer_get_ok:
  assumes "layer_ok registry layer" and "layer_get layer key = Some v"
  shows "\<exists>d. registry_get registry key = Some d \<and> sd_class d \<noteq> Locked \<and> value_of_kind (sd_kind d) v"
  using assms map_of_SomeD by (fastforce simp: layer_ok_def layer_get_def)

lemma file_values_mem:
  "(source, v) \<in> set (file_values key (name, file)) \<longleftrightarrow>
     (\<exists>path layer. file = Some (path, layer) \<and> layer_get layer key = Some v \<and> source = SourceFile name path)"
  by (auto simp: file_values_def split: option.splits)

lemma found_values_ok:
  assumes "layers_ok registry layers" and "flags_ok registry flags" and "(source, v) \<in> set (found_values layers flags key)"
  shows "\<exists>d. registry_get registry key = Some d \<and> sd_class d \<noteq> Locked \<and> value_of_kind (sd_kind d) v"
proof -
  have "(\<exists>flag\<in>set flags. fl_key flag = key \<and> fl_value flag = v)
      \<or> (\<exists>path layer. (ly_project layers = Some (path, layer) \<or> ly_user layers = Some (path, layer))
           \<and> layer_get layer key = Some v)"
    using assms(3) by (auto simp: found_values_def file_values_mem)
  then show ?thesis
    using assms(1,2) layer_get_ok by (fastforce simp: flags_ok_def layers_ok_def)
qed

lemma reads_as_possible:
  "(\<exists>entries. reads_as x registry found [] entries) \<longleftrightarrow>
     distinct (map fst found)
     \<and> (\<forall>leaf\<in>set found. \<exists>d v. registry_get registry (fst leaf) = Some d
          \<and> sd_class d \<noteq> Locked \<and> parse_toml x (sd_kind d) (snd leaf) = Inr v)"
proof
  assume "\<exists>entries. reads_as x registry found [] entries"
  then obtain read where read: "list_all2 (accepts x registry) found read" "distinct (map fst read)"
    by (auto simp: reads_as_def)
  have "map fst read = map fst found"
    using read(1) by (induction rule: list_all2_induct) (auto simp: accepts_def)
  moreover have "\<exists>d v. registry_get registry (fst leaf) = Some d
          \<and> sd_class d \<noteq> Locked \<and> parse_toml x (sd_kind d) (snd leaf) = Inr v" if "leaf \<in> set found" for leaf
    using that read(1) by (metis accepts_def in_set_conv_nth list_all2_conv_all_nth)
  ultimately show "distinct (map fst found)
     \<and> (\<forall>leaf\<in>set found. \<exists>d v. registry_get registry (fst leaf) = Some d
          \<and> sd_class d \<noteq> Locked \<and> parse_toml x (sd_kind d) (snd leaf) = Inr v)"
    using read(2) by simp
next
  assume all: "distinct (map fst found)
     \<and> (\<forall>leaf\<in>set found. \<exists>d v. registry_get registry (fst leaf) = Some d
          \<and> sd_class d \<noteq> Locked \<and> parse_toml x (sd_kind d) (snd leaf) = Inr v)"
  then have "\<forall>leaf\<in>set found. \<exists>entry. accepts x registry leaf entry" by (fastforce simp: accepts_def)
  then obtain f where f: "\<forall>leaf\<in>set found. accepts x registry leaf (f leaf)" by metis
  then have "list_all2 (accepts x registry) found (map f found)" by (simp add: list_all2_conv_all_nth)
  moreover have "map fst (map f found) = map fst found" using f by (auto simp: accepts_def)
  ultimately have "reads_as x registry found [] (insert_all (map f found) [])"
    unfolding reads_as_def using all by (intro exI[of _ "map f found"]) (simp del: map_map)
  then show "\<exists>entries. reads_as x registry found [] entries" by blast
qed

lemma layer_entry_unlocked:
  assumes "layer_parse x registry src = Inr layer" and "sx_toml x src = Inr root"
    and "(key, w) \<in> set (file_leaves registry root)" and "registry_get registry key = Some d"
  shows "sd_class d \<noteq> Locked"
proof -
  have "\<exists>entries. reads_as x registry (file_leaves registry root) [] entries"
    using assms(1,2) by (auto simp: layer_parse_Inr)
  then show ?thesis using assms(3,4) unfolding reads_as_possible by fastforce
qed

lemma filter_unique:
  "distinct (map f xs) \<Longrightarrow> filter (\<lambda>v. f v = k) xs = (case List.find (\<lambda>v. f v = k) xs of None \<Rightarrow> [] | Some v \<Rightarrow> [v])"
proof (induction xs)
  case (Cons v xs)
  have none: "f v = k \<Longrightarrow> filter (\<lambda>v. f v = k) xs = []"
    using Cons.prems by (auto simp: filter_empty_conv image_iff)
  show ?case
    by (cases "f v = k") (use none Cons in simp_all)
qed simp

lemma find_map: "List.find P (map f xs) = map_option f (List.find (P \<circ> f) xs)"
  by (induction xs) auto

end
