(* ===== verification/Edit_Safety.thy ===== *)
theory Edit_Safety
  imports Settings_Safety
begin

text \<open>
  What an edit of a preferences file keeps: every offset the edit computes is the start of a line or
  the end of the text, so that no byte of the file outside the edited value or line is touched, and
  what is added is the entry of the edited key.
\<close>

section \<open>UTF-8\<close>

definition continuation :: "char \<Rightarrow> bool" where
  "continuation c \<longleftrightarrow> CHR 0x80 \<le> c \<and> c < CHR 0xC0"

definition more_bytes :: "char \<Rightarrow> nat option" where
  "more_bytes c =
     (if c < CHR 0x80 then Some 0 else if c < CHR 0xC2 then None else if c < CHR 0xE0 then Some 1
      else if c < CHR 0xF0 then Some 2 else if c < CHR 0xF5 then Some 3 else None)"

text \<open>The shape of UTF-8: every character is a lead byte and as many continuations as it says.\<close>

function utf8 :: "string \<Rightarrow> bool" where
  "utf8 [] = True"
| "utf8 (c # cs) =
     (case more_bytes c of
        None \<Rightarrow> False
      | Some n \<Rightarrow> n \<le> length cs \<and> list_all continuation (take n cs) \<and> utf8 (drop n cs))"
  by pat_completeness auto

termination utf8
  by (relation "measure length") auto

lemma lead_not_continuation: "more_bytes c \<noteq> None \<Longrightarrow> \<not> continuation c"
proof -
  have order: "CHR 0xC0 < CHR 0xC2" by code_simp
  show "more_bytes c \<noteq> None \<Longrightarrow> \<not> continuation c"
    using order.strict_trans[OF _ order] by (auto simp: more_bytes_def continuation_def split: if_splits)
qed

lemma continuation_not_ascii: "continuation c \<Longrightarrow> \<not> c < CHR 0x80"
  by (auto simp: continuation_def)

lemma utf8_head: "utf8 (c # cs) \<Longrightarrow> \<not> continuation c"
  using lead_not_continuation by (auto split: option.splits)

lemma after_ascii:
  "utf8 s \<Longrightarrow> Suc i < length s \<Longrightarrow> s ! i < CHR 0x80 \<Longrightarrow> \<not> continuation (s ! Suc i)"
proof (induction s arbitrary: i rule: utf8.induct)
  case (2 c cs)
  then obtain n where n: "more_bytes c = Some n" "n \<le> length cs" "list_all continuation (take n cs)" "utf8 (drop n cs)"
    by (auto split: option.splits)
  show ?case
  proof (cases "n \<le> i")
    case True
    show ?thesis
    proof (cases "i = n")
      case at: True
      then have "drop n cs = cs ! n # drop (Suc n) cs" using "2.prems"(2) by (simp add: Cons_nth_drop_Suc)
      then show ?thesis using utf8_head n(4) at by simp
    next
      case False
      then have i: "i = Suc (n + (i - Suc n))" using True by simp
      have "\<not> continuation (drop n cs ! Suc (i - Suc n))"
      proof (rule "2.IH"[OF n(1) n(4)])
        show "Suc (i - Suc n) < length (drop n cs)" using "2.prems"(2) i by simp
        show "drop n cs ! (i - Suc n) < CHR 0x80" using "2.prems"(2,3) i n(2) by (metis add_Suc_right nth_Cons_Suc nth_drop)
      qed
      then show ?thesis using i n(2) by (metis add_Suc_right nth_Cons_Suc nth_drop)
    qed
  next
    case False
    show ?thesis
    proof (cases i)
      case 0
      have "\<not> c < CHR 0x80" using n(1) False by (auto simp: more_bytes_def)
      then show ?thesis using "2.prems"(3) 0 by simp
    next
      case (Suc j)
      then have "j < length (take n cs)" "take n cs ! j = cs ! j" using n(2) False by auto
      then have "continuation (cs ! j)" using n(3) by (metis list_all_length)
      then show ?thesis using "2.prems"(3) Suc continuation_not_ascii by auto
    qed
  qed
qed simp

section \<open>The offsets of an edit\<close>

definition edge :: "string \<Rightarrow> nat \<Rightarrow> bool" where
  "edge s i \<longleftrightarrow> i \<le> length s \<and> char_boundary s i"

lemma edge_ends [simp]: "edge s 0" "edge s (length s)"
  by (simp_all add: edge_def char_boundary_def)

lemma edge_after_newline: "utf8 s \<Longrightarrow> i < length s \<Longrightarrow> s ! i = CHR 0x0A \<Longrightarrow> edge s (Suc i)"
proof -
  assume s: "utf8 s" "i < length s" "s ! i = CHR 0x0A"
  have "CHR 0x0A < CHR 0x80" by code_simp
  then show "edge s (Suc i)"
    using after_ascii[OF s(1), of i] s by (auto simp: edge_def char_boundary_def continuation_def)
qed

lemma str_get_Some: "str_get s a b = Some t \<longleftrightarrow> a \<le> b \<and> edge s a \<and> edge s b \<and> t = drop a (take b s)"
  by (auto simp: str_get_def edge_def)

text \<open>A place between two lines: the start of the text, its end, or just after a newline.\<close>

definition between_lines :: "string \<Rightarrow> nat \<Rightarrow> bool" where
  "between_lines s i \<longleftrightarrow> edge s i \<and> (i = 0 \<or> i = length s \<or> s ! (i - 1) = CHR 0x0A)"

lemma between_lines_edge: "between_lines s i \<Longrightarrow> edge s i"
  by (simp add: between_lines_def)

lemma between_lines_ends [simp]: "between_lines s 0" "between_lines s (length s)"
  by (simp_all add: between_lines_def)

lemma find_newline_Some: "find_newline s = Some i \<Longrightarrow> i < length s \<and> s ! i = CHR 0x0A"
  by (induction s arbitrary: i) (auto split: if_splits)

lemma rfind_newline_Some: "rfind_newline s = Some i \<Longrightarrow> i < length s \<and> s ! i = CHR 0x0A"
  by (induction s arbitrary: i) (auto split: if_splits option.splits)

lemma line_end_between: "utf8 s \<Longrightarrow> between_lines s (line_end s i)"
proof -
  assume s: "utf8 s"
  show "between_lines s (line_end s i)"
  proof (cases "Option.bind (str_get s i (length s)) find_newline")
    case (Some n)
    then have "i \<le> length s" "find_newline (drop i s) = Some n" by (auto simp: bind_eq_Some_conv str_get_Some)
    moreover note find_newline_Some[OF this(2)]
    ultimately have "i \<le> length s" "n < length (drop i s)" "drop i s ! n = CHR 0x0A" by auto
    then show ?thesis using edge_after_newline[OF s, of "i + n"] Some by (simp add: line_end_def between_lines_def)
  qed (simp add: line_end_def)
qed

lemmas line_end_edge = line_end_between[THEN between_lines_edge]

lemma line_end_later: "i \<le> length s \<Longrightarrow> i \<le> line_end s i"
  by (auto simp: line_end_def split: option.splits)

lemma line_start_edge: "utf8 s \<Longrightarrow> edge s (line_start s i) \<and> line_start s i \<le> i"
proof -
  assume s: "utf8 s"
  show "edge s (line_start s i) \<and> line_start s i \<le> i"
  proof (cases "Option.bind (str_get s 0 i) rfind_newline")
    case (Some n)
    then have "i \<le> length s" "rfind_newline (take i s) = Some n"
      by (auto simp: bind_eq_Some_conv str_get_Some edge_def)
    moreover note rfind_newline_Some[OF this(2)]
    ultimately have "i \<le> length s" "n < length (take i s)" "take i s ! n = CHR 0x0A" by auto
    then show ?thesis using edge_after_newline[OF s, of n] Some by (simp add: line_start_def)
  qed (simp add: line_start_def)
qed

lemma fold_max_mem: "fold max ns n \<in> insert n (set (ns :: nat list))"
  by (induction ns arbitrary: n) (auto simp: max_def)

lemma last_line_end_between: "utf8 s \<Longrightarrow> between_lines s a \<Longrightarrow> between_lines s (last_line_end s document a b)"
proof -
  assume s: "utf8 s" "between_lines s a"
  let ?ends = "map (\<lambda>entry. line_end s (snd (de_value_span entry)))
      (filter (\<lambda>entry. a \<le> fst (de_key entry) \<and> fst (de_key entry) < b) (dc_entries document))"
  have all: "\<forall>n\<in>set ?ends. between_lines s n" using line_end_between[OF s(1)] by auto
  show "between_lines s (last_line_end s document a b)"
  proof (cases ?ends)
    case (Cons n ns)
    then have "between_lines s (fold max ns n)" using all fold_max_mem[of ns n] unfolding Cons by auto
    then show ?thesis using Cons by (simp add: last_line_end_def)
  qed (simp add: last_line_end_def s)
qed

text \<open>What stands before a place on its own line.\<close>

lemma rfind_newline_rest:
  "CHR 0x0A \<notin> set (drop (case rfind_newline s of None \<Rightarrow> 0 | Some i \<Rightarrow> Suc i) s)"
  by (induction s) (auto split: option.splits)

definition begins_line :: "string \<Rightarrow> string \<Rightarrow> bool" where
  "begins_line s indent \<longleftrightarrow>
     CHR 0x0A \<notin> set indent \<and> (\<exists>a b. s = a @ indent @ b \<and> (a = [] \<or> ends_with_newline a))"

lemma begins_line_Nil [simp]: "begins_line s []"
  unfolding begins_line_def by (intro conjI exI[of _ "[]"] exI[of _ s]) simp_all

lemma ends_with_newline_take:
  "i \<le> length s \<Longrightarrow> 0 < i \<Longrightarrow> ends_with_newline (take i s) \<longleftrightarrow> s ! (i - 1) = CHR 0x0A"
  by (cases "take i s = []") (auto simp: ends_with_newline_def last_conv_nth min_def)

lemma line_prefix:
  assumes "str_get s (line_start s i) i = Some indent"
  shows "begins_line s indent"
proof -
  have i: "line_start s i \<le> i" "edge s i" "indent = drop (line_start s i) (take i s)"
    using assms by (simp_all add: str_get_Some)
  have start: "line_start s i = (case rfind_newline (take i s) of None \<Rightarrow> 0 | Some n \<Rightarrow> Suc n)"
    using i(2) by (simp add: line_start_def str_get_def edge_def char_boundary_def del: One_nat_def split: option.split)
  have "s = take (line_start s i) s @ indent @ drop i s"
    using i(1,3) by (metis append.assoc append_take_drop_id min.absorb1 take_take)
  moreover have "CHR 0x0A \<notin> set indent" using rfind_newline_rest[of "take i s"] unfolding i(3) start .
  moreover have "take (line_start s i) s = [] \<or> ends_with_newline (take (line_start s i) s)"
  proof (cases "rfind_newline (take i s)")
    case (Some n)
    with rfind_newline_Some[OF this] i(2) show ?thesis
      by (auto simp: start ends_with_newline_take edge_def)
  qed (simp add: start)
  ultimately show ?thesis unfolding begins_line_def by blast
qed

section \<open>What an edit keeps\<close>

lemma splice_pieces:
  assumes "a \<le> b" "edge s a" "edge s b"
  shows "\<exists>u w. s = u @ source_text s (a, b) @ w \<and> splice s a b added = u @ added @ w \<and> length u = a"
proof -
  have "source_text s (a, b) = drop a (take b s)" using assms by (simp add: source_text_def str_get_def edge_def)
  moreover have "splice s a b added = take a s @ added @ drop b s"
    using assms by (simp add: splice_def get_or_empty_def str_get_def edge_def char_boundary_def)
  moreover have "s = take a s @ drop a (take b s) @ drop b s"
    using assms(1) by (metis append_take_drop_id append.assoc min.absorb1 take_take)
  ultimately show ?thesis
    using assms(1,3) by (intro exI[of _ "take a s"] exI[of _ "drop b s"]) (simp add: edge_def)
qed

text \<open>
  What an edit adds between \<open>u\<close> and \<open>w\<close>, two parts of the file between lines: one line, the key's
  name and value after the indentation of a line of the file; or, at the end of the file, an empty
  line and a table of its own with that one line.
\<close>

definition adds_line :: "string \<Rightarrow> string \<Rightarrow> string \<Rightarrow> string \<Rightarrow> bool" where
  "adds_line u added w line \<longleftrightarrow>
     (if w = [] \<and> u \<noteq> [] \<and> \<not> ends_with_newline u then added = line_ending u @ line
      else (u = [] \<or> ends_with_newline u) \<and> added = line @ line_ending (u @ w))"

definition adds_entry :: "settings_ext \<Rightarrow> string \<Rightarrow> setting_value \<Rightarrow> string \<Rightarrow> string \<Rightarrow> string \<Rightarrow> bool" where
  "adds_entry x key v u added w \<longleftrightarrow>
     (\<exists>indent path name. begins_line (u @ w) indent \<and> (key = name \<or> key = path @ ''.'' @ name)
        \<and> adds_line u added w (indent @ name @ '' = '' @ to_toml x v))
     \<or> (\<exists>table name. key = table @ ''.'' @ name \<and> w = []
        \<and> added = (if u = [] \<or> ends_with_newline u then [] else line_ending u) @ line_ending u
            @ ''['' @ table @ '']'' @ line_ending u @ name @ '' = '' @ to_toml x v @ line_ending u)"

lemma insert_line_adds:
  assumes "between_lines s a"
  shows "\<exists>u added w. s = u @ w \<and> insert_line s a line = u @ added @ w \<and> adds_line u added w line"
proof (cases "length s \<le> a \<and> s \<noteq> [] \<and> \<not> ends_with_newline s")
  case True
  then show ?thesis
    by (intro exI[of _ s] exI[of _ "line_ending s @ line"] exI[of _ "[]"]) (simp add: insert_line_def adds_line_def)
next
  case False
  have a: "a \<le> length s" "edge s a" "a = 0 \<or> a = length s \<or> s ! (a - 1) = CHR 0x0A"
    using assms by (simp_all add: between_lines_def edge_def)
  have "insert_line s a line = take a s @ (line @ line_ending s) @ drop a s"
    using False a(2) unfolding insert_line_def if_not_P[OF False]
    by (simp add: splice_def get_or_empty_def str_get_def edge_def char_boundary_def)
  moreover have "take a s = [] \<or> ends_with_newline (take a s)"
    using a(1,3) False ends_with_newline_take[of a s] by (cases "a = length s") auto
  ultimately show ?thesis
    using a(1) False by (intro exI[of _ "take a s"] exI[of _ "line @ line_ending s"] exI[of _ "drop a s"])
      (auto simp: adds_line_def)
qed

lemma closest_table_path:
  assumes "closest_table document (split_on (CHR ''.'') key) = Some table"
    and "str_get key (length (dt_path table) + 1) (length key) = Some rest"
  shows "key = dt_path table @ ''.'' @ rest"
proof -
  let ?segments = "split_on (CHR ''.'') key"
  obtain n where n: "List.find (\<lambda>n. doc_table_at document (join_with (CHR ''.'') (take n ?segments)) \<noteq> None)
        (rev [1..<length ?segments]) = Some n"
      and table: "doc_table_at document (join_with (CHR ''.'') (take n ?segments)) = Some table"
    using assms(1) by (auto simp: closest_table_def split: option.splits)
  have "take n ?segments \<noteq> []" "drop n ?segments \<noteq> []" using find_mem[OF n] by auto
  then have "key = join_with (CHR ''.'') (take n ?segments) @ CHR ''.'' # join_with (CHR ''.'') (drop n ?segments)"
    using join_with_append join_split_on by (metis append_take_drop_id)
  then obtain d where key: "key = dt_path table @ CHR ''.'' # d"
    using table by (auto simp: doc_table_at_def dest: find_mem)
  have "rest = drop (length (dt_path table) + 1) key" using assms(2) by (simp add: str_get_Some)
  then show ?thesis by (simp add: key)
qed

lemma add_line_adds:
  assumes s: "utf8 s" and added: "add_line x s document key v = Some new"
  shows "\<exists>u added w. s = u @ w \<and> new = u @ added @ w \<and> adds_entry x key v u added w"
proof -
  have line: "\<exists>u added w. s = u @ w \<and> insert_line s a (indent @ name @ '' = '' @ to_toml x v) = u @ added @ w
      \<and> adds_entry x key v u added w"
    if "between_lines s a" "begins_line s indent" "key = name \<or> key = path @ ''.'' @ name" for a indent path name
    using insert_line_adds[OF that(1), of "indent @ name @ '' = '' @ to_toml x v"] that(2,3) unfolding adds_entry_def by blast
  let ?segments = "split_on (CHR ''.'') key"
  show ?thesis
  proof (cases "closest_table document ?segments")
    case None
    show ?thesis
    proof (cases "butlast ?segments = []")
      case True
      then show ?thesis
        using added None line[OF last_line_end_between[OF s between_lines_ends(1)] begins_line_Nil, of key]
        by (auto simp: add_line_def)
    next
      case False
      then have "?segments = butlast ?segments @ [last ?segments]" by (metis append_butlast_last_id butlast.simps(1))
      then have "key = join_with (CHR ''.'') (butlast ?segments @ [last ?segments])" using join_split_on by metis
      also have "\<dots> = join_with (CHR ''.'') (butlast ?segments) @ ''.'' @ last ?segments"
        using join_with_append[OF False, of "[last ?segments]"] by simp
      finally have key: "key = join_with (CHR ''.'') (butlast ?segments) @ ''.'' @ last ?segments" .
      have "new = append_table x s (join_with (CHR ''.'') (butlast ?segments)) (last ?segments) v"
        using added None False by (simp add: add_line_def Let_def)
      then obtain added where "new = s @ added @ []" "added = (if s = [] \<or> ends_with_newline s then [] else line_ending s)
          @ line_ending s @ ''['' @ join_with (CHR ''.'') (butlast ?segments) @ '']'' @ line_ending s @ last ?segments
          @ '' = '' @ to_toml x v @ line_ending s"
        by (simp add: append_table_def)
      moreover from key this(2) have "adds_entry x key v s added []" unfolding adds_entry_def by blast
      ultimately show ?thesis by (intro exI[of _ s] exI[of _ added] exI[of _ "[]"]) simp
    qed
  next
    case (Some table)
    then obtain rest where rest: "str_get key (length (dt_path table) + 1) (length key) = Some rest"
      using added by (auto simp: add_line_def bind_eq_Some_conv)
    note key = disjI2[OF closest_table_path[OF Some rest]]
    let ?start = "line_end s (snd (dt_span table))"
    have "between_lines s (max (last_line_end s document ?start b) ?start)" for b
      using line_end_between[OF s] last_line_end_between[OF s line_end_between[OF s]] by (simp add: max_def)
    from line[OF this begins_line_Nil key] line[OF line_end_between[OF s] line_prefix key] show ?thesis
      using added Some rest by (cases "dt_form table") (auto simp: add_line_def Let_def bind_eq_Some_conv)
  qed
qed

text \<open>A value is written on one line: a text's control characters are escaped.\<close>

lemma unicode_escape_line: "CHR 0x0A \<notin> set (unicode_escape c)"
proof -
  have "list_all (\<lambda>d. hex_digit_upper d \<noteq> CHR 0x0A) [0..<16]" by code_simp
  then have "hex_digit_upper d \<noteq> CHR 0x0A" if "d < 16" for d using that by (simp add: list_all_iff)
  moreover have "of_char c div (16 :: nat) < 16" "of_char c mod (16 :: nat) < 16" by (cases c, simp_all add: of_char_def)
  ultimately have "hex_digit_upper (of_char c div 16) \<noteq> CHR 0x0A" "hex_digit_upper (of_char c mod 16) \<noteq> CHR 0x0A"
    by blast+
  then show ?thesis by (auto simp: unicode_escape_def)
qed

lemma basic_chars_line: "CHR 0x0A \<notin> set (basic_chars s)"
  by (induction s rule: basic_chars.induct) (auto simp: unicode_escape_line split: list.splits)

lemma digit_line: "0 \<le> d \<Longrightarrow> d < 10 \<Longrightarrow> char_of (48 + d :: int) \<noteq> CHR 0x0A"
proof
  assume d: "0 \<le> d" "d < 10" and "char_of (48 + d) = CHR 0x0A"
  then have "of_char (char_of (48 + d) :: char) = (10 :: int)" by simp
  then show False using d by (simp add: of_char_of)
qed

lemma show_nat_line: "0 \<le> n \<Longrightarrow> CHR 0x0A \<notin> set (show_nat n)"
proof (induction n rule: show_nat.induct)
  case (1 n)
  then show ?case
    using digit_line[THEN not_sym, of n] digit_line[THEN not_sym, of "n mod 10"]
    by (cases "n < 10") (simp_all add: show_nat.simps[of n])
qed

lemma join_str_line: "CHR 0x0A \<notin> set sep \<Longrightarrow> \<forall>s\<in>set ss. CHR 0x0A \<notin> set s \<Longrightarrow> CHR 0x0A \<notin> set (join_str sep ss)"
  by (induction sep ss rule: join_str.induct) auto

lemma to_toml_line: "\<forall>number. CHR 0x0A \<notin> set (sx_debug x number) \<Longrightarrow> CHR 0x0A \<notin> set (to_toml x v)"
  using join_str_line[of "'', ''"]
  by (cases v) (simp_all add: show_bool_def show_int_def show_nat_line basic_string_def basic_chars_line)

text \<open>
  The byte ranges the parser gives: a value's is of whole characters of the text, and its key starts
  before it ends.
\<close>

definition lawful_spans :: "settings_ext \<Rightarrow> bool" where
  "lawful_spans x \<longleftrightarrow>
     (\<forall>text root. sx_toml x text = Inr root \<longrightarrow>
        (\<forall>entry\<in>set (dc_entries (document_of_table root text)).
           str_get text (fst (de_value_span entry)) (snd (de_value_span entry)) \<noteq> None
           \<and> fst (de_key entry) \<le> snd (de_value_span entry)))"

lemma lawful_entry:
  assumes "lawful_spans x" and "sx_toml x s = Inr root" and "doc_entry_at (document_of_table root s) key = Some entry"
  shows "fst (de_value_span entry) \<le> snd (de_value_span entry)" and "edge s (fst (de_value_span entry))"
    and "edge s (snd (de_value_span entry))" and "fst (de_key entry) \<le> snd (de_value_span entry)"
proof -
  have "entry \<in> set (dc_entries (document_of_table root s))"
    using assms(3) by (auto simp: doc_entry_at_def dest: find_mem)
  then obtain t where "str_get s (fst (de_value_span entry)) (snd (de_value_span entry)) = Some t"
    and "fst (de_key entry) \<le> snd (de_value_span entry)"
    using assms(1,2) by (fastforce simp: lawful_spans_def)
  then show "fst (de_value_span entry) \<le> snd (de_value_span entry)" "edge s (fst (de_value_span entry))"
    "edge s (snd (de_value_span entry))" "fst (de_key entry) \<le> snd (de_value_span entry)"
    by (simp_all add: str_get_Some)
qed

section \<open>Equal layers\<close>

lemma layer_eq_get:
  assumes "layer_eq l m"
  shows "rel_option value_eq (layer_get l key) (layer_get m key)"
proof -
  have "list_all2 (\<lambda>(j, v) (k, w). j = k \<and> value_eq v w) xs ys \<Longrightarrow>
      rel_option value_eq (map_of xs key) (map_of ys key)" for xs ys
    by (induction rule: list_all2_induct) auto
  then show ?thesis using assms by (simp add: layer_eq_def layer_get_def)
qed

lemma layer_get_with:
  "btree_ok (l_settings layer) \<Longrightarrow>
     layer_get (layer_with layer key v) k = (if k = key then v else layer_get layer k)"
  by (cases v) (simp_all add: layer_get_def layer_with_def map_of_btree_insert map_of_btree_remove)

lemma verify_Inr:
  "verify x registry edited expected key = Inr () \<longleftrightarrow>
     (\<exists>layer. layer_parse x registry edited = Inr layer \<and> layer_eq layer expected)"
  by (auto simp: verify_def split: sum.splits)

end
