(* ===== verification/Settings_Props.thy ===== *)
theory Settings_Props
  imports Edit_Safety
begin

text \<open>
  The properties of the settings, and the sample registry and preferences file their witnesses
  evaluate on.
\<close>

section \<open>A sample registry and a sample file\<close>

definition SIX_TENTHS :: f64 where
  "SIX_TENTHS = F64 False 4603579539098121011"

definition sample_descriptor :: "string \<Rightarrow> setting_kind \<Rightarrow> string \<Rightarrow> setting_descriptor" where
  "sample_descriptor key kind fallback =
     \<lparr>sd_key = key, sd_kind = kind, sd_default = fallback, sd_description = ''d'', sd_class = Free\<rparr>"

definition sample_descriptors :: "setting_descriptor list" where
  "sample_descriptors =
     [sample_descriptor ''search.k'' (KInteger 1 50 False) ''10'',
      sample_descriptor ''search.prior'' (KNumber (F64 False 0) (F64 False 4607182418800017408) True) ''0.6'',
      sample_descriptor ''classes'' (KChoiceList [''a'', ''b'']) ''a,b'']"

text \<open>A preferences file with a comment, a table and a digit, and its document.\<close>

definition sample_prefs :: "char \<Rightarrow> string" where
  "sample_prefs digit =
     ''schema = '' @ [CHR 0x22] @ ''maestro-preferences/1'' @ [CHR 0x22, CHR 0x0A] @ ''# mine'' @ [CHR 0x0A]
     @ ''[search]'' @ [CHR 0x0A] @ ''k = '' @ [digit] @ '' # few'' @ [CHR 0x0A]"

definition sample_root :: "char \<Rightarrow> de_table" where
  "sample_root digit =
     [(((0, 6), ''schema''), (9, 32), DeString SCHEMA),
      (((41, 47), ''search''), (40, 48), DeTable [(((49, 50), ''k''), (53, 54), DeInteger [digit] 10)])]"

definition sample_settings :: settings_ext where
  "sample_settings =
     \<lparr>sx_display = (\<lambda>v. if v = SIX_TENTHS then ''0.6'' else ''1''),
      sx_debug = (\<lambda>v. if v = SIX_TENTHS then ''0.6'' else ''1.0''),
      sx_quote = (\<lambda>s. CHR 0x22 # s @ [CHR 0x22]),
      sx_toml = (\<lambda>text. case List.find (\<lambda>c. sample_prefs c = text) ''0123456789'' of
        None \<Rightarrow> Inl ''not a sample'' | Some c \<Rightarrow> Inr (sample_root c))\<rparr>"

definition sample_registry :: registry where
  "sample_registry = Registry (zip sample_descriptors [VInteger 10, VNumber SIX_TENTHS, VList [''a'', ''b'']])"

lemma sample_registered: "registry_new sample_settings sample_descriptors = Inr sample_registry"
  by code_simp

lemma sample_registry_ok: "registry_ok sample_settings sample_registry" "descriptors sample_registry = sample_descriptors"
  using registry_new_ok[OF sample_registered] by simp_all

lemma sample_spans: "lawful_spans sample_settings"
proof -
  have all: "\<forall>c\<in>set ''0123456789''. \<forall>entry\<in>set (dc_entries (document_of_table (sample_root c) (sample_prefs c))).
      str_get (sample_prefs c) (fst (de_value_span entry)) (snd (de_value_span entry)) \<noteq> None
      \<and> fst (de_key entry) \<le> snd (de_value_span entry)"
    by code_simp
  show ?thesis
    unfolding lawful_spans_def
  proof (intro allI impI)
    fix src root assume "sx_toml sample_settings src = Inr root"
    then obtain c where c: "List.find (\<lambda>c. sample_prefs c = src) ''0123456789'' = Some c" "root = sample_root c"
      by (auto simp: sample_settings_def split: option.splits)
    from find_mem[OF c(1)] show "\<forall>entry\<in>set (dc_entries (document_of_table root src)).
        str_get src (fst (de_value_span entry)) (snd (de_value_span entry)) \<noteq> None
        \<and> fst (de_key entry) \<le> snd (de_value_span entry)"
      using all unfolding c(2) by blast
  qed
qed

lemma sample_utf8: "utf8 (sample_prefs (CHR ''3''))"
  by code_simp

lemma sample_layer: "layer_parse sample_settings sample_registry (sample_prefs (CHR ''3'')) = Inr (Layer [(''search.k'', VInteger 3)])"
  by code_simp

lemma sample_nine: "layer_parse sample_settings sample_registry (sample_prefs (CHR ''9'')) = Inr (Layer [(''search.k'', VInteger 9)])"
  by code_simp

lemma sample_document:
  "sx_toml sample_settings (sample_prefs (CHR ''3'')) = Inr (sample_root (CHR ''3''))"
  "doc_entry_at (document_of_table (sample_root (CHR ''3'')) (sample_prefs (CHR ''3''))) ''search.k''
     = Some \<lparr>de_path = ''search.k'', de_key = (49, 50), de_value_span = (53, 54)\<rparr>"
  "splice (sample_prefs (CHR ''3'')) 53 54 (show_int 9) = sample_prefs (CHR ''9'')"
  by code_simp+

section \<open>Properties\<close>

text \<open>
  C30: reading is typed: whatever the command line or a file gives, a value accepted for a setting is
  of its kind, a number within its bounds, a choice among its values and not reserved, a list's items
  each once, a language tag in canonical case.
\<close>

theorem read_values_typed:
  "(parse_text x k input = Inr v \<longrightarrow> value_of_kind k v) \<and> (parse_toml x k tree = Inr w \<longrightarrow> value_of_kind k w)"
  using parse_text_kind parse_toml_kind by blast

lemma read_values_typed_witness:
  "value_of_kind KLanguage (VText ''zh-Hant-TW'')"
proof -
  have "parse_text sample_settings KLanguage ''ZH-hANT-tw'' = Inr (VText ''zh-Hant-TW'')" by code_simp
  then show ?thesis
    using read_values_typed[of sample_settings KLanguage "''ZH-hANT-tw''" "VText ''zh-Hant-TW''"] by blast
qed

text \<open>
  C31: what \<open>Display\<close> writes of a setting's value, the command line reads back as the same value, a
  list's values being without commas or spaces around them.
\<close>

theorem display_parses_back:
  assumes "value_of_kind k v" and "comma_safe k"
    and "\<And>n. v = VNumber n \<Longrightarrow> parse_f64 (sx_display x n) = Some n"
  shows "parse_text x k (display_value x v) = Inr v"
  using assms by (rule parse_display)

lemma display_parses_back_witness:
  "parse_text sample_settings (KNumber (F64 False 0) (F64 False 4607182418800017408) True)
     (display_value sample_settings (VNumber SIX_TENTHS)) = Inr (VNumber SIX_TENTHS)"
proof -
  have kind: "value_of_kind (KNumber (F64 False 0) (F64 False 4607182418800017408) True) (VNumber SIX_TENTHS)"
    by (simp add: SIX_TENTHS_def f64_is_finite_def f64_le_def f64_is_nan_def f64_rank_def signed_def INF_BITS_def)
  have "parse_f64 (sx_display sample_settings SIX_TENTHS) = Some SIX_TENTHS" by code_simp
  then show ?thesis
    by (intro display_parses_back[OF kind]) (auto simp: comma_safe_def)
qed

text \<open>
  C32: a whole number never wraps: the digits of any number, however large, are accepted exactly when
  it is within the setting's bounds and those of 64 bits, and give that number; otherwise the refusal
  says what is expected.
\<close>

theorem whole_numbers_never_wrap:
  "parse_text x (KInteger least most off) (show_int i) =
     (if least \<le> i \<and> i \<le> most \<and> - (2 ^ 63) \<le> i \<and> i < 2 ^ 63 then Inr (VInteger i)
      else Inl (ValueError (''expected '' @ expectation x (KInteger least most off))))"
proof -
  have "read_digits 10 0 OFF = None" "\<not> starts_with_char (CHR ''-'') OFF" by code_simp+
  then have "show_int i \<noteq> OFF" by (rule show_int_reads)
  then show ?thesis
    by (simp add: parse_text_def parse_show_any refusal_def I64_MIN_def I64_MAX_def)
qed

text \<open>
  C27: a preferences file gives exactly what its entries say: it is accepted when it is small enough,
  is TOML, names the schema, and each entry below the tables of the registry is a setting that is not
  locked, set once, to a value its kind reads; the layer then holds those settings with those values
  and nothing else.
\<close>

theorem layer_exact:
  "((\<exists>layer. layer_parse x registry input = Inr layer) \<longleftrightarrow>
     int (length input) \<le> MAX_FILE_BYTES
     \<and> (\<exists>root. sx_toml x input = Inr root \<and> names_schema root
          \<and> distinct (map fst (file_leaves registry root))
          \<and> (\<forall>leaf\<in>set (file_leaves registry root). \<exists>d v. registry_get registry (fst leaf) = Some d
               \<and> sd_class d \<noteq> Locked \<and> parse_toml x (sd_kind d) (snd leaf) = Inr v)))
   \<and> (layer_parse x registry input = Inr layer \<longrightarrow>
       (\<exists>root. sx_toml x input = Inr root
          \<and> (\<forall>key v. layer_get layer key = Some v \<longleftrightarrow>
               (\<exists>w d. (key, w) \<in> set (file_leaves registry root) \<and> registry_get registry key = Some d
                  \<and> parse_toml x (sd_kind d) w = Inr v))))"
  (is "(?accepted \<longleftrightarrow> ?valid) \<and> (_ \<longrightarrow> ?content)")
proof (intro conjI impI)
  have "(\<exists>entries. reads_as x registry leaves [] entries) \<longleftrightarrow> distinct (map fst leaves)
      \<and> (\<forall>leaf\<in>set leaves. \<exists>d v. registry_get registry (fst leaf) = Some d
               \<and> sd_class d \<noteq> Locked \<and> parse_toml x (sd_kind d) (snd leaf) = Inr v)" for leaves
    by (rule reads_as_possible)
  then show "?accepted \<longleftrightarrow> ?valid"
    unfolding layer_parse_Inr by (metis layer.sel)
next
  assume parsed: "layer_parse x registry input = Inr layer"
  then obtain root where root: "sx_toml x input = Inr root" by (auto simp: layer_parse_Inr)
  note entries = layer_entries[OF parsed root]
  have "layer_get layer key = Some v \<longleftrightarrow> (key, v) \<in> set (l_settings layer)" for key v
    by (simp add: layer_get_def map_of_eq_Some_iff btree_ok_distinct entries(1))
  then show ?content
    using root entries(2) layer_entry_unlocked[OF parsed root] by blast
qed

lemma layer_exact_witness:
  "layer_get (Layer [(''search.k'', VInteger 3)]) ''search.k'' = Some (VInteger 3)
   \<and> (''search.k'', DeInteger ''3'' 10) \<in> set (file_leaves sample_registry (sample_root (CHR ''3'')))"
proof -
  have root: "sx_toml sample_settings (sample_prefs (CHR ''3'')) = Inr (sample_root (CHR ''3''))" by code_simp
  have leaf: "file_leaves sample_registry (sample_root (CHR ''3'')) = [(''search.k'', DeInteger ''3'' 10)]" by code_simp
  have kind: "map_option (\<lambda>d. parse_toml sample_settings (sd_kind d) (DeInteger ''3'' 10)) (registry_get sample_registry ''search.k'')
      = Some (Inr (VInteger 3))" by code_simp
  then obtain d where "registry_get sample_registry ''search.k'' = Some d"
      "parse_toml sample_settings (sd_kind d) (DeInteger ''3'' 10) = Inr (VInteger 3)" by blast
  then show ?thesis
    using layer_exact[of sample_settings sample_registry "sample_prefs (CHR ''3'')"
        "Layer [(''search.k'', VInteger 3)]"] sample_layer root leaf by auto
qed

text \<open>
  C29: each setting takes the value of the first layer that sets it, in the order flag, project file,
  user file, default, and keeps what it overrode in that order; its value is of its kind, whatever
  layer it is from.
\<close>

theorem resolve_first_layer:
  assumes ok: "registry_ok x registry" and layers: "layers_ok registry layers" and flags: "flags_ok registry flags"
    and d: "d \<in> set (descriptors registry)"
  shows "\<exists>s. resolved_get (resolve registry layers flags) (sd_key d) = Some s \<and> rs_descriptor s = d
    \<and> value_of_kind (sd_kind d) (rs_value s)
    \<and> (rs_source s, rs_value s) # rs_overridden s =
        (case List.find (\<lambda>flag. fl_key flag = sd_key d) flags of None \<Rightarrow> [] | Some flag \<Rightarrow> [(SourceFlag, fl_value flag)])
        @ (case ly_project layers of None \<Rightarrow> []
           | Some (path, layer) \<Rightarrow> (case layer_get layer (sd_key d) of None \<Rightarrow> []
              | Some v \<Rightarrow> [(SourceFile ProjectLayer path, v)]))
        @ (case ly_user layers of None \<Rightarrow> []
           | Some (path, layer) \<Rightarrow> (case layer_get layer (sd_key d) of None \<Rightarrow> []
              | Some v \<Rightarrow> [(SourceFile UserLayer path, v)]))
        @ (if found_values layers flags (sd_key d) = [] then [(SourceDefault, the (default_of registry (sd_key d)))] else [])"
proof -
  have keys: "distinct (map sd_key (descriptors registry))"
    using ok by (simp add: registry_ok_def descriptors_def comp_def)
  obtain fallback where fallback: "default_of registry (sd_key d) = Some fallback"
      "parse_text x (sd_kind d) (sd_default d) = Inr fallback"
    using default_of_kind[OF ok d] by blast
  let ?s = "resolve_setting registry layers flags d" and ?found = "found_values layers flags (sd_key d)"
  have "resolved_get (resolve registry layers flags) (sd_key d) = Some ?s"
    unfolding resolved_get_def resolve_def find_map
    using find_unique[OF keys d] by (simp add: resolve_setting_def comp_def Let_def split_beta)
  moreover have "rs_descriptor ?s = d" by (simp add: resolve_setting_def Let_def split_beta)
  moreover have "value_of_kind (sd_kind d) (rs_value ?s)"
  proof (cases ?found)
    case Nil
    then show ?thesis using fallback parse_text_kind by (simp add: resolve_setting_def)
  next
    case (Cons first rest)
    then have "(fst first, snd first) \<in> set ?found" by simp
    from found_values_ok[OF layers flags this] obtain e where "registry_get registry (sd_key d) = Some e"
        "value_of_kind (sd_kind e) (snd first)" by blast
    moreover have "registry_get registry (sd_key d) = Some d" using registry_get_iff[OF ok] d by simp
    ultimately show ?thesis using Cons by (simp add: resolve_setting_def Let_def split_beta)
  qed
  moreover have "(rs_source ?s, rs_value ?s) # rs_overridden ?s = (if ?found = [] then [(SourceDefault, fallback)] else ?found)"
    by (cases ?found) (simp_all add: resolve_setting_def fallback(1) Let_def split_beta)
  moreover have "filter (\<lambda>flag. fl_key flag = sd_key d) flags =
      (case List.find (\<lambda>flag. fl_key flag = sd_key d) flags of None \<Rightarrow> [] | Some flag \<Rightarrow> [flag])"
    using flags filter_unique[of fl_key flags "sd_key d"] by (simp add: flags_ok_def)
  ultimately show ?thesis
    by (intro exI[of _ ?s]) (auto simp: found_values_def file_values_def fallback(1) split: option.splits)
qed

lemma resolve_first_layer_witness:
  "\<exists>s. resolved_get (resolve sample_registry
        \<lparr>ly_user = Some (''u'', Layer [(''search.k'', VInteger 3)]), ly_project = None\<rparr>
        [\<lparr>fl_key = ''search.k'', fl_value = VInteger 7\<rparr>]) ''search.k'' = Some s
     \<and> rs_value s = VInteger 7 \<and> rs_overridden s = [(SourceFile UserLayer ''u'', VInteger 3)]"
proof -
  let ?d = "sample_descriptor ''search.k'' (KInteger 1 50 False) ''10''"
  have d: "?d \<in> set (descriptors sample_registry)" by (simp add: sample_registry_ok(2) sample_descriptors_def)
  have layer: "layer_ok sample_registry (Layer [(''search.k'', VInteger 3)])"
    by (rule layer_parse_ok[OF sample_layer])
  have get: "registry_get sample_registry ''search.k'' = Some ?d"
    using registry_get_iff[OF sample_registry_ok(1)] d by (simp add: sample_descriptor_def)
  have "flags_ok sample_registry [\<lparr>fl_key = ''search.k'', fl_value = VInteger 7\<rparr>]"
    using get by (simp add: flags_ok_def sample_descriptor_def I64_MIN_def I64_MAX_def)
  from resolve_first_layer[OF sample_registry_ok(1) _ this d,
      of "\<lparr>ly_user = Some (''u'', Layer [(''search.k'', VInteger 3)]), ly_project = None\<rparr>"] layer
  show ?thesis
    by (auto simp: layers_ok_def sample_descriptor_def layer_get_def found_values_def)
qed

text \<open>
  C28: \<open>config set\<close> changes one setting and nothing else: the edited file is a valid preferences file
  that sets the key to the value given and every other key to what the file set before. Of the text,
  where the file writes the key, exactly the bytes of its value are replaced (with a comment inside an
  array that is replaced going with it); otherwise nothing is removed, and what is added between two
  lines is one line of the key's name and the value, indented like a line of the file, or at the end
  of the file an empty line, the header of a new table and that line. Every other byte stays, and the
  value is written without a newline.
\<close>

theorem set_changes_one_key:
  assumes "lawful_spans x" and "utf8 input" and number: "\<forall>number. CHR 0x0A \<notin> set (sx_debug x number)"
    and edit: "set_in_document x registry (Some input) key v = Inr edited"
  shows "\<exists>before after root u removed added w.
    layer_parse x registry input = Inr before \<and> layer_parse x registry edited = Inr after
    \<and> (\<exists>w. layer_get after key = Some w \<and> value_eq w v)
    \<and> (\<forall>other. other \<noteq> key \<longrightarrow> rel_option value_eq (layer_get after other) (layer_get before other))
    \<and> input = u @ removed @ w \<and> edited = u @ added @ w \<and> sx_toml x input = Inr root
    \<and> (case doc_entry_at (document_of_table root input) key of
         Some entry \<Rightarrow> length u = fst (de_value_span entry) \<and> removed = source_text input (de_value_span entry)
           \<and> added = to_toml x v
       | None \<Rightarrow> removed = [] \<and> adds_entry x key v u added w)
    \<and> CHR 0x0A \<notin> set (to_toml x v)"
proof -
  obtain before root after where before: "layer_parse x registry input = Inr before" and root: "sx_toml x input = Inr root"
    and change: "(case doc_entry_at (document_of_table root input) key of
        Some entry \<Rightarrow> Inr (splice input (fst (de_value_span entry)) (snd (de_value_span entry)) (to_toml x v))
      | None \<Rightarrow> ok_or (EditUnsafe key) (add_line x input (document_of_table root input) key v)) = Inr edited"
    and after: "layer_parse x registry edited = Inr after" "layer_eq after (layer_with before key (Some v))"
    using edit by (auto simp: set_in_document_def Let_def results verify_Inr)
  have btree: "btree_ok (l_settings before)" using layer_parse_ok[OF before] by (simp add: layer_ok_def)
  have get: "rel_option value_eq (layer_get after other) (if other = key then Some v else layer_get before other)" for other
    using layer_eq_get[OF after(2), of other] by (simp add: layer_get_with[OF btree])
  have "\<exists>u removed added w. input = u @ removed @ w \<and> edited = u @ added @ w
    \<and> (case doc_entry_at (document_of_table root input) key of
         Some entry \<Rightarrow> length u = fst (de_value_span entry) \<and> removed = source_text input (de_value_span entry)
           \<and> added = to_toml x v
       | None \<Rightarrow> removed = [] \<and> adds_entry x key v u added w)"
  proof (cases "doc_entry_at (document_of_table root input) key")
    case None
    then have "add_line x input (document_of_table root input) key v = Some edited" using change by (simp add: results)
    from add_line_adds[OF assms(2) this] None show ?thesis by auto
  next
    case (Some entry)
    from splice_pieces[OF lawful_entry(1-3)[OF assms(1) root Some], of "to_toml x v"] change Some show ?thesis by auto
  qed
  moreover have "\<exists>w. layer_get after key = Some w \<and> value_eq w v" using get[of key] by (auto simp: option_rel_Some2)
  moreover have "other \<noteq> key \<Longrightarrow> rel_option value_eq (layer_get after other) (layer_get before other)" for other
    using get[of other] by simp
  ultimately show ?thesis using before after(1) root to_toml_line[OF number] by blast
qed

lemma sample_numbers_line: "\<forall>number. CHR 0x0A \<notin> set (sx_debug sample_settings number)"
  by (simp add: sample_settings_def)

lemma set_changes_one_key_witness:
  "\<exists>after. layer_parse sample_settings sample_registry (sample_prefs (CHR ''9'')) = Inr after
     \<and> (\<exists>w. layer_get after ''search.k'' = Some w \<and> value_eq w (VInteger 9))"
proof -
  have "set_in_document sample_settings sample_registry (Some (sample_prefs (CHR ''3''))) ''search.k'' (VInteger 9)
      = Inr (sample_prefs (CHR ''9''))"
    by (simp add: set_in_document_def Let_def sample_layer sample_document(1) sample_document(2) sample_document(3)
        verify_Inr[THEN iffD2] sample_nine layer_with_def layer_eq_def)
  from set_changes_one_key[OF sample_spans sample_utf8 sample_numbers_line this] show ?thesis by blast
qed

text \<open>
  \<open>config unset\<close> takes one setting away and nothing else: it says when the file does not set the
  key; otherwise the edited file is valid, sets every other key as before and the key no more, and is
  the text without one run of whole lines, the lines of that entry.
\<close>

theorem unset_removes_one_key:
  assumes "lawful_spans x" and "utf8 input" and edit: "unset_in_document x registry input key = Inr result"
  shows "\<exists>before. layer_parse x registry input = Inr before
    \<and> (case result of
         None \<Rightarrow> layer_get before key = None
       | Some edited \<Rightarrow>
           layer_get before key \<noteq> None
           \<and> (\<exists>after. layer_parse x registry edited = Inr after \<and> layer_get after key = None
                \<and> (\<forall>other. other \<noteq> key \<longrightarrow> rel_option value_eq (layer_get after other) (layer_get before other)))
           \<and> (\<exists>root entry. sx_toml x input = Inr root \<and> doc_entry_at (document_of_table root input) key = Some entry
                \<and> edited = take (line_start input (fst (de_key entry))) input
                    @ drop (line_end input (snd (de_value_span entry))) input))"
proof (cases result)
  case None
  then show ?thesis using edit by (auto simp: unset_in_document_def Let_def results split: if_splits)
next
  case (Some edited)
  obtain before root entry after where before: "layer_parse x registry input = Inr before" "layer_get before key \<noteq> None"
    and root: "sx_toml x input = Inr root" and entry: "doc_entry_at (document_of_table root input) key = Some entry"
    and edited: "edited = splice input (line_start input (fst (de_key entry))) (line_end input (snd (de_value_span entry))) []"
    and after: "layer_parse x registry edited = Inr after" "layer_eq after (layer_with before key None)"
    using edit unfolding Some by (auto simp: unset_in_document_def Let_def results verify_Inr split: if_splits)
  have btree: "btree_ok (l_settings before)" using layer_parse_ok[OF before(1)] by (simp add: layer_ok_def)
  have get: "rel_option value_eq (layer_get after other) (if other = key then None else layer_get before other)" for other
    using layer_eq_get[OF after(2), of other] by (simp add: layer_get_with[OF btree])
  note span = lawful_entry[OF assms(1) root entry]
  have start: "edge input (line_start input (fst (de_key entry)))" "line_start input (fst (de_key entry)) \<le> fst (de_key entry)"
    using line_start_edge[OF assms(2)] by blast+
  have stop: "edge input (line_end input (snd (de_value_span entry)))"
    "snd (de_value_span entry) \<le> line_end input (snd (de_value_span entry))"
    using line_end_edge[OF assms(2)] line_end_later span(3) by (auto simp: edge_def)
  have "line_start input (fst (de_key entry)) \<le> line_end input (snd (de_value_span entry))"
    using start(2) stop(2) span(4) by linarith
  then have cut: "edited = take (line_start input (fst (de_key entry))) input
      @ drop (line_end input (snd (de_value_span entry))) input"
    using start(1) stop(1) unfolding edited
    by (simp add: splice_def get_or_empty_def str_get_def edge_def char_boundary_def)
  have "layer_get after key = None" using get[of key] by simp
  moreover have "other \<noteq> key \<Longrightarrow> rel_option value_eq (layer_get after other) (layer_get before other)" for other
    using get[of other] by simp
  ultimately show ?thesis
    using before root entry cut after(1) unfolding Some by (intro exI[of _ before]) auto
qed

lemma unset_removes_one_key_witness:
  "unset_in_document sample_settings sample_registry (sample_prefs (CHR ''3'')) ''classes'' = Inr None
   \<and> layer_get (Layer [(''search.k'', VInteger 3)]) ''classes'' = None"
proof -
  have "unset_in_document sample_settings sample_registry (sample_prefs (CHR ''3'')) ''classes'' = Inr None" by code_simp
  with unset_removes_one_key[OF sample_spans sample_utf8 this] sample_layer show ?thesis by simp
qed

end
