(* ===== verification/Settings_Builtin.thy ===== *)
theory Settings_Builtin
  imports Settings_Safety
begin

text \<open>
  The settings the program ships (crates/maestro-settings/src/builtin.rs), in the order of the source:
  the constructors of descriptors and the list itself, cut into six for its length.
\<close>

definition F_ZERO :: f64 where
  "F_ZERO = F64 False 0"

definition F_ONE :: f64 where
  "F_ONE = F64 False 4607182418800017408"

definition F_HUNDRED :: f64 where
  "F_HUNDRED = F64 False 4636737291354636288"

definition F_MINUS_HUNDRED :: f64 where
  "F_MINUS_HUNDRED = F64 True 4636737291354636288"

lemma literals:
  "parse_f64 ''0.0'' = Some F_ZERO" "parse_f64 ''1.0'' = Some F_ONE"
  "parse_f64 ''100.0'' = Some F_HUNDRED" "parse_f64 ''-100.0'' = Some F_MINUS_HUNDRED"
  by code_simp+

definition free :: "string \<Rightarrow> setting_kind \<Rightarrow> string \<Rightarrow> string \<Rightarrow> setting_descriptor" where
  "free key kind fallback description =
     \<lparr>sd_key = key, sd_kind = kind, sd_default = fallback, sd_description = description, sd_class = Free\<rparr>"

definition integer :: "int \<Rightarrow> int \<Rightarrow> setting_kind" where
  "integer least most = KInteger least most False"

definition optional_integer :: "int \<Rightarrow> int \<Rightarrow> setting_kind" where
  "optional_integer least most = KInteger least most True"

definition number :: "f64 \<Rightarrow> f64 \<Rightarrow> bool \<Rightarrow> setting_kind" where
  "number least most off = KNumber least most off"

definition choice :: "string list \<Rightarrow> setting_kind" where
  "choice choices = KChoice choices []"

definition WEIGHT :: setting_kind where
  "WEIGHT = number F_ZERO F_HUNDRED False"

definition BUILT_IN_TALK :: "setting_descriptor list" where
  "BUILT_IN_TALK =
    [free ''language'' KLanguage ''auto''
       (''The conversation language: auto answers in the question'' @ [CHR 0x27] @ ''s language; a tag such '' @
        ''as fr or es-419 answers in that one. Code and documentation stay in English.''),
     free ''tone'' (choice [''brief'', ''normal'', ''detailed'']) ''normal''
       (''How much an answer explains: brief, normal, or detailed (shown as Very '' @
        ''detailed). Prose only; code and documents are unchanged.'')]"

definition BUILT_IN_SEARCH :: "setting_descriptor list" where
  "BUILT_IN_SEARCH =
    [free ''search.k'' (integer 1 50) ''10''
       (''The most passages a search returns when --k (the MCP k) is not given.''),
     free ''search.evidence_bytes'' (integer 1 24000) ''12000''
       (''A search'' @ [CHR 0x27] @ ''s evidence budget, in UTF-8 bytes, when --evidence-bytes is not '' @
        ''given.''),
     free ''search.deadline_ms'' (integer 1 30000) ''30000''
       (''A search'' @ [CHR 0x27] @ ''s deadline in milliseconds when --deadline-ms is not given.''),
     free ''search.routes.dense'' KFlag ''true''
       (''Whether the dense (embedding) route runs, in searches and asks.''),
     free ''search.routes.lexical'' KFlag ''true''
       (''Whether the lexical route runs, in searches and asks.''),
     free ''search.routes.identifier'' KFlag ''true''
       (''Whether the exact-identifier route runs, in searches and asks.''),
     free ''search.routes.structured'' KFlag ''true''
       (''Whether the structured route may run for global questions, in searches and '' @
        ''asks.''),
     free ''search.routes.limit'' (integer 1 120) ''100''
       (''The maximum dense, lexical and intent candidates; identifier retrieval also '' @
        ''uses its identifier limit.''),
     free ''search.routes.identifier_limit'' (integer 1 120) ''20''
       (''The maximum identifier candidates, additionally bounded by '' @
        ''search.routes.limit.''),
     free ''search.identifier.noise_guard'' KFlag ''false''
       (''Whether the identifier route drops identifiers too common to rank, and fusion '' @
        ''takes no hits from an unavailable route, in searches and asks.''),
     free ''search.rrf_k'' (integer 1 1000) ''60''
       (''The reciprocal rank fusion constant K.'')]"

definition BUILT_IN_FUSION :: "setting_descriptor list" where
  "BUILT_IN_FUSION =
    [free ''search.weights.dense'' WEIGHT ''1.0''
       (''The dense route'' @ [CHR 0x27] @ ''s weight in fusion.''),
     free ''search.weights.lexical'' WEIGHT ''1.0''
       (''The lexical route'' @ [CHR 0x27] @ ''s weight in fusion.''),
     free ''search.weights.identifier'' WEIGHT ''1.0''
       (''The exact-identifier route'' @ [CHR 0x27] @ ''s weight in fusion.''),
     free ''search.weights.structured'' WEIGHT ''1.0''
       (''The structured route'' @ [CHR 0x27] @ ''s weight in fusion.''),
     free ''search.rerank.enabled'' KFlag ''true''
       (''Whether the reranker reorders the fused candidates.''),
     free ''search.fusion_pool'' (integer 1 120) ''120''
       (''The maximum candidates retained by fusion; rerank depth cannot exceed this '' @
        ''value.''),
     free ''search.rerank.depth'' (integer 1 120) ''30''
       (''How many fused candidates the reranker reads.''),
     free ''search.rerank.blend'' (number F_ZERO F_ONE True) ''off''
       (''The fused position'' @ [CHR 0x27] @ ''s weight in a fusion with the rerank order; off keeps the '' @
        ''rerank order.'')]"

definition BUILT_IN_RERANK :: "setting_descriptor list" where
  "BUILT_IN_RERANK =
    [free ''search.rerank.demotion_cap'' (optional_integer 0 120) ''off''
       (''The most positions reranking may drop a fused top-10 candidate; off sets no '' @
        ''cap.''),
     free ''search.rerank.context'' (choice [''chunk'', ''bounded_section'']) ''chunk''
       (''What the reranker reads: the indexed chunk, or its whole section when that '' @
        ''fits search.rerank.context_max_bytes.''),
     free ''search.rerank.context_max_bytes'' (integer 1 1500) ''1500''
       (''The most bytes of section context the reranker reads under bounded_section.''),
     free ''search.section_prior.weight'' (number F_ZERO F_ONE True) ''off''
       (''How much of their fusion score the sections of search.section_prior.classes '' @
        ''lose, unless the question names them; off leaves the order as it is.''),
     free ''search.section_prior.classes'' (KChoiceList [''changelog'', ''release_notes'', ''conversion''])
       ''changelog,release_notes,conversion''
       (''The section classes search.section_prior.weight applies to.''),
     free ''search.stage_window_ms'' (optional_integer 1 30000) ''off''
       (''A fixed route window in milliseconds, for experiments; off derives it from the '' @
        ''deadline.''),
     free ''search.intent.expansion'' (choice [''off'', ''hyde'']) ''off''
       (''Whether a search adds a guarded hypothetical passage, written by the '' @
        ''collection'' @ [CHR 0x27] @ ''s answerer, as extra retrieval routes: off, or hyde.''),
     free ''search.intent.min_top_rerank'' (number F_MINUS_HUNDRED F_HUNDRED True) ''off''
       (''Under hyde, expand only when the best rerank score is below this one; off '' @
        ''expands every search.'')]"

definition BUILT_IN_INTENT :: "setting_descriptor list" where
  "BUILT_IN_INTENT =
    [free ''search.intent.deadline_ms'' (integer 1 5000) ''4000''
       (''The most milliseconds the intent expansion may take, within the search '' @
        ''deadline.''),
     free ''search.intent.weight'' WEIGHT ''1.0''
       (''Each intent route'' @ [CHR 0x27] @ ''s weight in fusion.''),
     free ''search.intent.rerank_additions'' (integer 0 120) ''10''
       (''The most candidates the intent routes may add beyond rerank depth; the '' @
        ''combined candidates can exceed search.fusion_pool.''),
     free ''search.source_prior.weight'' (number F_ZERO F_ONE True) ''0.6''
       (''How much of their fusion score documents of search.source_prior.classes lose, '' @
        ''so official pages rank first; off leaves the order as it is.''),
     free ''search.source_prior.classes'' (KChoiceList [''official_docs'', ''official_kb'', ''official_code'', ''community'', ''third_party'', ''internal_code''])
       ''official_code,community,third_party,internal_code''
       (''The source classes search.source_prior.weight applies to.''),
     free ''evidence.expansion'' (choice [''full_section'', ''relevant_blocks'', ''parent_chain'']) ''parent_chain''
       (''How evidence grows around a match: its full section first, or its matched '' @
        ''blocks first, or complete parent-chain ranges first.''),
     free ''evidence.parent_chain_order'' (choice [''off'', ''minimum_complete_first'', ''largest_fitting_parent'']) ''minimum_complete_first''
       (''Admission order for parent_chain expansion only; minimum_complete_first '' @
        ''reserves the smallest complete unit first.''),
     free ''evidence.counter'' (choice [''utf8'', ''utf8_answer_bound'']) ''utf8''
       (''What the evidence budget counts: every passage byte, or only the bytes the '' @
        ''answerer reads.''),
     free ''ask.model'' KName ''ask-gemma4-e4b-nonthinking''
       (''The answerer'' @ [CHR 0x27] @ ''s router entry when --model (the MCP model) is not given.'')]"

definition BUILT_IN_ASK :: "setting_descriptor list" where
  "BUILT_IN_ASK =
    [free ''ask.prompt'' (choice [''v1'', ''v2'', ''procedure_first'']) ''v2''
       (''The answer prompt'' @ [CHR 0x27] @ ''s version.''),
     free ''ask.k'' (integer 1 50) ''5''
       (''The most passages an answer reads when --k is not given.''),
     free ''ask.evidence_bytes'' (integer 1 24000) ''6000''
       (''An answer'' @ [CHR 0x27] @ ''s evidence budget, in UTF-8 bytes, when --evidence-bytes is not '' @
        ''given.''),
     free ''ask.search_deadline_ms'' (integer 1 30000) ''30000''
       (''An answer'' @ [CHR 0x27] @ ''s search deadline in milliseconds when --search-deadline-ms is not '' @
        ''given.''),
     free ''ask.output_tokens'' (optional_integer 1 2048) ''off''
       (''The most tokens each answerer reply generates when --output-tokens is not '' @
        ''given; off takes the answerer card'' @ [CHR 0x27] @ ''s output limit, or 1024 when it declares '' @
        ''none.''),
     free ''ask.min_rerank_score'' (number F_MINUS_HUNDRED F_HUNDRED True) ''off''
       (''The least top reranker score an answer is given passages from; off answers '' @
        ''whatever the score. Search results are never filtered by it.''),
     free ''models.compute'' (KChoice [''off'', ''gpu''] [\<lparr>rv_value = ''cpu'', rv_reason = ''cpu mode comes after M1''\<rparr>]) ''gpu''
       (''Where models run: gpu, the machine'' @ [CHR 0x27] @ ''s GPU backend (CUDA or Metal), or off for '' @
        ''code only: search keeps its keyword, exact-name and structured routes without '' @
        ''reranking, and ask refuses. cpu comes after M1.''),
     free ''chunking.profile'' (choice [''mapped-structural-chunks/2'', ''mapped-structural-chunks/3'']) ''mapped-structural-chunks/3''
       (''Default for new collections; published profiles persist unless --chunk-profile '' @
        ''overrides.'')]"

definition BUILT_IN :: "setting_descriptor list" where
  "BUILT_IN =
     BUILT_IN_TALK @ BUILT_IN_SEARCH @ BUILT_IN_FUSION @ BUILT_IN_RERANK @ BUILT_IN_INTENT @ BUILT_IN_ASK"

definition built_in :: "settings_ext \<Rightarrow> registry_error + registry" where
  "built_in x = registry_new x BUILT_IN"

section \<open>The shipped registry is sound\<close>

lemma built_in_descriptors: "list_all (\<lambda>d. check_descriptor d = Inr ()) BUILT_IN"
  by code_simp

lemma built_in_defaults: "list_all (\<lambda>d. \<not> isl (parse_text x (sd_kind d) (sd_default d))) BUILT_IN"
  by code_simp

lemma built_in_keys: "sorted_wrt (\<lambda>a b. a \<noteq> b \<and> nested a b = None) (map sd_key BUILT_IN)"
  by code_simp

lemma register_succeeds:
  "list_all (\<lambda>d. check_descriptor d = Inr () \<and> \<not> isl (parse_text x (sd_kind d) (sd_default d))) ds \<Longrightarrow>
     sorted_wrt (\<lambda>a b. a \<noteq> b \<and> nested a b = None) (map (sd_key \<circ> fst) entries @ map sd_key ds) \<Longrightarrow>
     \<exists>entries'. register x entries ds = Inr entries'"
proof (induction ds arbitrary: entries)
  case (Cons d ds)
  obtain v where v: "parse_text x (sd_kind d) (sd_default d) = Inr v" "check_descriptor d = Inr ()"
    using Cons.prems(1) by (cases "parse_text x (sd_kind d) (sd_default d)") auto
  have "check_pairs x entries d = Inr ()"
    using Cons.prems(2) by (auto simp: check_pairs_Inr sorted_wrt_append)
  moreover have "\<exists>entries'. register x (entries @ [(d, v)]) ds = Inr entries'"
    using Cons.prems by (intro Cons.IH) (auto simp: sorted_wrt_append)
  ultimately show ?case using v by (simp add: Let_def and_then_def map_err_def)
qed simp

lemma registry_new_succeeds:
  assumes "list_all (\<lambda>d. check_descriptor d = Inr () \<and> \<not> isl (parse_text x (sd_kind d) (sd_default d))) ds"
    and "sorted_wrt (\<lambda>a b. a \<noteq> b \<and> nested a b = None) (map sd_key ds)"
  shows "\<exists>registry. registry_new x ds = Inr registry"
  using register_succeeds[of x ds "[]"] assms by (auto simp: registry_new_def and_then_def)

text \<open>
  The settings the program ships form a registry: every shipped descriptor passes the registry's
  checks, no key is declared twice or is the table of another, every default is accepted by its own
  kind, and the registry holds the whole list in its order, each default a value of its setting's kind.
\<close>

theorem built_in_registers:
  "\<exists>registry. built_in x = Inr registry \<and> descriptors registry = BUILT_IN \<and> registry_ok x registry
     \<and> list_all (\<lambda>(d, v). value_of_kind (sd_kind d) v) (r_entries registry)"
proof -
  obtain registry where r: "registry_new x BUILT_IN = Inr registry"
    using registry_new_succeeds[of x BUILT_IN] built_in_descriptors built_in_defaults built_in_keys
    by (auto simp: list_all_iff)
  have ok: "registry_ok x registry" "descriptors registry = BUILT_IN"
    using registry_new_ok[OF r] by simp_all
  have "list_all (\<lambda>(d, v). value_of_kind (sd_kind d) v) (r_entries registry)"
    using ok(1) by (auto simp: registry_ok_def list_all_iff dest: parse_text_kind)
  then show ?thesis using r ok by (auto simp: built_in_def)
qed

end
