(* ===== verification/Spec2Isabelle.thy ===== *)
theory Spec2Isabelle
  imports Kernel_Runs Job_Completion Document_Props Unit_Graph_Props Near_Duplicate_Props Quality_Props Settings_Props Settings_Builtin
begin

text \<open>
  A verification library of maestro-core, a Rust workspace whose kernel (crates/maestro-kernel)
  keeps a journal, grants, documents, jobs, artifacts, chunk sets and generations in one SQLite database,
  whose documents pass a quality gate and a search for near duplicates before they are used
  (crates/maestro-knowledge, over the documents of crates/maestro-canonicalization), and whose settings
  (crates/maestro-settings) are read from layered files and flags. Each definition is
  translated from the function, type or table it is named after, guards and early returns in the
  order of the source; every raise and refusal is a value of an error type.

  \<^bold>\<open>The model.\<close> A call of the kernel takes the tables (the record \<open>kernel\<close>, a list of rows a
  table, in the order of insertion) and returns its result, an error or a value (\<open>'e + 'a\<close>), with the
  tables it leaves. \<open>db_write\<close> is \<open>Database::write\<close>, an immediate transaction: it commits, or leaves
  the tables as they were. Statements of SQL are functions on the rows, and the triggers and checks of
  migrations/*.sql are the conditions under which an insert or an update is refused. Strings are their
  UTF-8 bytes. An \<open>i64\<close> is an \<open>int\<close>, refused beyond \<open>I64_MAX\<close> where the code converts or SQLite's STRICT
  tables check; \<open>usize\<close> and \<open>u64\<close> counts are \<open>nat\<close>; an \<open>f64\<close> is its sign and its 63 other bits.

  \<^bold>\<open>What comes from outside.\<close> The record \<open>ext\<close> holds the crates ulid, serde_json and sha2 and
  SQLite's json_valid and strftime, the record \<open>settings_ext\<close> the toml crate's parser and the standard
  library's writing of numbers and quoted text; \<open>draws\<close> holds the identifiers and times one call draws.
  The predicates \<open>lawful\<close> and \<open>lawful_spans\<close> state what their documentation promises (an identifier's
  text reads back, times are written in order, a digest has 32 bytes; a parsed value's byte range is of
  whole characters); \<open>Sample_Ext\<close> and \<open>Settings_Props\<close> give concrete instances that satisfy them,
  which the witnesses evaluate on. The record \<open>unicode\<close> holds the tables of Unicode that the standard
  library's \<open>char\<close> methods read. What serde derives is given too: the reading and writing of unit
  graphs (\<open>graph_ext\<close>), the reading of canonical documents (a field of \<open>gate_run\<close>) and of ledger lines.
  While the quality gate runs over many documents, other processes write: what they do to the tables is
  a field of \<open>gate_run\<close>, of which \<open>calls_only\<close> asks that it is a run of the kernel's own calls.

  \<^bold>\<open>The theories.\<close>
  \<open>Prelude\<close>: results, strings, tables of rows, and the locales the parts instantiate: \<open>named_enum\<close>
  (states with names), \<open>lifecycle\<close> (states that only go forward), \<open>step_system\<close> (a step relation with
  an invariant and what every step preserves).
  \<open>Scopes\<close>: scope/path.rs, scope/set.rs: the access tree, its parser, the sets of readable scopes.
  \<open>Kernel_Store\<close>: the tables, store/database.rs, store/error.rs, artifact/digest.rs.
  \<open>Journal\<close>: journal/*.rs: events, cursors, envelopes; the events of a stream are numbered without a
  gap, a reader gets exactly what it may see, a cursor only moves forward.
  \<open>Grants\<close>: scope/grant.rs, config.rs, right.rs, known.rs: grants, revocations, config.toml.
  \<open>Jobs\<close>, \<open>Job_Rows\<close>, \<open>Job_Safety\<close>, \<open>Job_Completion\<close>: job/*.rs: the operations; the invariant of the
  rows and how they evolve; the properties of leases, retries and outcomes; that no job is stuck.
  \<open>Generations\<close>, \<open>Publishing\<close>: generation/*.rs and their events.
  \<open>Artifacts\<close>, \<open>Artifact_Safety\<close>: artifact/store.rs, store/artifacts.rs: content-addressed files and
  their rows; each call also cut into the steps between which other processes run, and runs of them.
  \<open>Chunk_Sets\<close>, \<open>Chunk_Safety\<close>: chunk_set/*.rs.
  \<open>Documents\<close>, \<open>Document_Safety\<close>, \<open>Document_Props\<close>: document/*.rs: collections, sources, documents,
  revisions, quality dispositions, occurrences, groups of near duplicates and counts.
  \<open>Kernel_Runs\<close>: one step relation over every writing call of the parts above, its invariant
  \<open>kernel_ok\<close> and what no run undoes, \<open>kernel_grows\<close>. \<open>Database::unpin\<close> takes a pin whoever took it: the
  relation is over the set \<open>U\<close> of digests its callers give up pins of, and what is said of pins is said
  of the others. Only tests call it: for the program itself \<open>U\<close> is empty.
  \<open>Unit_Graph\<close>, \<open>Unit_Graph_Props\<close>: unit_graph/*.rs: the graph of a revision's units, its validator
  and its views; a graph it accepts tiles its source, its parents form a forest, and the context of
  a unit is its ancestors and its group.
  \<open>Near_Duplicates\<close>, \<open>Near_Duplicate_Props\<close>: prepare/near.rs of the knowledge crate: shingles,
  signatures, bands, confirmed pairs and their groups; the groups are the connected components of
  the confirmed pairs.
  \<open>Canonical_Documents\<close>, \<open>Quality_Checks\<close>, \<open>Quality_Gate\<close>, \<open>Quality_Decisions\<close>, \<open>Quality_Props\<close>: the
  canonical document, the checks and ledger of the quality gate, a decision on one document and the
  run over a collection; each document gets the most severe decision of its findings, one with a
  suspected secret or a failed conversion is never accepted, and a run leaves no revision undecided.
  \<open>Rust_Numbers\<close>: the standard library's reading and printing of integers, \<open>f64\<close>, trims and ordered maps.
  \<open>Settings_Values\<close>, \<open>Setting_Types\<close>: value.rs, language.rs, descriptor.rs of the settings.
  \<open>Settings_Layers\<close>, \<open>Settings_Edit\<close>: registry.rs, layer.rs, resolve.rs, edit/*.rs.
  \<open>Settings_Safety\<close>, \<open>Edit_Safety\<close>, \<open>Settings_Props\<close>: what a layer holds of its file, what an
  edit replaces of its text, and the properties of reading, resolving and editing settings.
  \<open>Settings_Builtin\<close>: builtin.rs, the settings the program ships, and that they form a registry.

  \<^bold>\<open>Bounds.\<close> Loops over rows and characters are structural recursions, the others have termination
  proofs. Two walks of a unit graph whose recursion the source does not bound, \<open>group_start\<close> into the
  children of a group and \<open>context_from\<close> up to its root, take a number of steps, one more than there are
  groups: \<open>validator_returns\<close> and \<open>context_exact\<close> prove it enough, and a greater one to give the same.
  The walk of the quality checks from a block to the list it lies in, \<open>in_list\<close>, is a
  \<open>partial_function (option)\<close>: it does not end where the parents form a cycle, and \<open>checks_return\<close> proves
  that it ends where each block stands after its parent. A journal refuses an event whose number would
  exceed \<open>I64_MAX\<close>.

  \<^bold>\<open>Not modelled.\<close> Failures of the disk other than a directory in the way, locking and migrations of
  the database (I/O); texts that only \<open>Display\<close> writes; serde's derives; the recording of a unit graph
  in the database and its scoped reader (and the trigger by which a recorded graph closes its
  revision's chunks); the words of a document that its shingles are taken of; the
  canonicalizer (a third-party Markdown parser and what follows it); the model gateway's network port,
  the search index (a network service) and the ranking, answers and evaluations over it; the command
  line and the MCP server (glue and I/O around the calls modelled here). PROJECT.json lists every part
  with its status.
\<close>

section \<open>A run of the sample kernel\<close>

text \<open>A job is submitted, taken, and taken over once its lease expired.\<close>

definition sample_retaken :: kernel where
  "sample_retaken = snd (take_job sample (sample_draws 2) 0 ''bob'' 4999999 1 sample_taken)"

text \<open>The tables after the first take, as the calls leave them.\<close>

lemma sample_taken_tables: "sample_taken =
   \<lparr>k_events =
    [\<lparr>er_id = [], er_stream = ''job/'', er_sequence = 1,
        er_type = ''maestro.job.created.v1'', er_subject = ''job/'',
        er_scope = ''workspace/default'', er_time = ''now'',
        er_data = ''{:i:n:p:u:t:s.p:1.}''\<rparr>,
     \<lparr>er_id = ''UUUUUUUUUU'', er_stream = ''job/'', er_sequence = 2,
        er_type = ''maestro.job.taken.v1'', er_subject = ''job/'',
        er_scope = ''workspace/default'', er_time = ''now'',
        er_data =
          
          ''{:l:e:a:s:e.{:e:x:p:i:r:e:s.s:0:0:0:0:-:0:0:-:0:0:T:0:0:::0:0:::0:0:.:0:0:3:Z.:h:e:a:r:t:b:e:a:t.s:0:0:0:0:-:0:0:-:0:0:T:0:0:::0:0:::0:0:.:0:0:2:Z.:h:o:l:d:e:r.s:a:n:n.:n:u:m:b:e:r.p:1.}}''\<rparr>],
    k_cursors = [], k_grants = [], k_collections = [], k_sources = [],
    k_documents = [], k_revisions = [], k_chunk_sets = [], k_chunks = [],
    k_generations = [], k_generation_seq = 0,
    k_jobs =
      [\<lparr>jr_id = [], jr_kind = ''k'',
          jr_key =
            ''000000000000000000000000000000000000000000000000000000000000002e'',
          jr_attempt = 1, jr_scope = ''workspace/default'',
          jr_resource = Some ''r'', jr_state = ''running'', jr_number = 1,
          jr_holder = Some ''ann'',
          jr_heartbeat = Some ''0000-00-00T00:00:00.002Z'',
          jr_expires = Some ''0000-00-00T00:00:00.003Z'',
          jr_outcome = None\<rparr>],
    k_artifacts = [], k_dispositions = [], k_occurrences = [], k_near_dups = []\<rparr>"
  by code_simp

lemma sample_retake:
  "take_job sample (sample_draws 2) 0 ''bob'' 4999999 1 sample_taken
     = (Inr \<lparr>le_job = 0, le_holder = ''bob'', le_number = 2, le_heartbeat = the (sample_clock 4),
         le_expires = the (sample_clock 5)\<rparr>, sample_retaken)"
  unfolding sample_retaken_def sample_taken_tables by code_simp

lemma sample_steps:
  "kernel_step sample U empty_kernel sample_submitted" "kernel_step sample U sample_submitted sample_taken"
  "kernel_step sample U sample_taken sample_retaken"
  by (rule kernel_step.submits[OF sample_submit] kernel_step.takes[OF sample_take] kernel_step.takes[OF sample_retake])+

lemma kernel_ok_empty: "kernel_ok x U empty_kernel"
  by (simp add: kernel_ok_def journal_ok_empty cursors_ok_empty grants_ok_empty jobs_ok_empty)
    (simp add: documents_ok_defs generations_ok_def chunk_sets_ok_def sets_ok_def chunks_ok_def artifacts_ok_def
      references_pinned_def references_def one_published_def published_rows_def empty_kernel_def)

lemma sample_run_ok: "kernel_ok sample U sample_submitted" "kernel_ok sample U sample_taken"
  using kernel_run[OF lawful_sample kernel_ok_empty] sample_steps
  by (meson rtranclp.rtrancl_into_rtrancl rtranclp.rtrancl_refl)+

section \<open>Runs of the kernel\<close>

text \<open>
  C1: whatever calls of whatever parts interleave from an empty database on, the parts stay
  consistent: the events of a stream are numbered from one without a gap, no cursor stands past the
  end of its stream, no two jobs of one key are live and no two unfinished jobs hold one resource,
  a collection has at most one published generation, every decision is of a recorded revision, which
  has no other, every revision is of a document of a declared source, and the content of every
  revision, of every chunk and the manifest of every chunk set are recorded artifacts with a pin,
  except the artifacts of \<open>U\<close>, those of which a caller of the run gave up a pin by \<open>Database::unpin\<close>. It is
  public and does not ask whether the pin was its caller's, but only tests call it: a run of the
  program itself is one with \<open>U\<close> empty, where every such artifact has its pin.
\<close>

theorem kernel_consistent:
  assumes law: "lawful x" and run: "(kernel_step x U)\<^sup>*\<^sup>* empty_kernel k"
  shows "(\<forall>stream. stream_sequences stream (k_events k) = [1..int (length (stream_sequences stream (k_events k)))])
    \<and> (\<forall>cursor\<in>set (k_cursors k). 1 \<le> cr_position cursor
         \<and> cr_position cursor \<le> int (length (stream_sequences (cr_stream cursor) (k_events k))))
    \<and> (\<forall>row\<in>set (k_jobs k). \<forall>other\<in>set (k_jobs k). jr_id row \<noteq> jr_id other \<longrightarrow>
         \<not> (job_live row \<and> job_live other \<and> jr_key row = jr_key other)
         \<and> \<not> (job_unfinished row \<and> job_unfinished other \<and> jr_resource row \<noteq> None
              \<and> jr_resource row = jr_resource other))
    \<and> (\<forall>a\<in>set (k_generations k). \<forall>b\<in>set (k_generations k). ge_state a = ''published'' \<longrightarrow>
         ge_state b = ''published'' \<longrightarrow> ge_collection a = ge_collection b \<longrightarrow> a = b)
    \<and> (\<forall>decided\<in>set (k_dispositions k). \<exists>revision\<in>set (k_revisions k). re_id revision = qd_revision decided
         \<and> (\<forall>other\<in>set (k_dispositions k). qd_revision other = re_id revision \<longrightarrow> other = decided))
    \<and> (\<forall>revision\<in>set (k_revisions k). \<exists>doc\<in>set (k_documents k). do_id doc = re_document revision
         \<and> (\<exists>source\<in>set (k_sources k). so_collection source = do_collection doc \<and> so_id source = do_source doc))
    \<and> (\<forall>hex. hex \<notin> U \<longrightarrow> (\<exists>chunk\<in>set (k_chunks k). ch_digest chunk = hex)
           \<or> (\<exists>revision\<in>set (k_revisions k). re_original revision = hex \<or> re_canonical revision = hex)
           \<or> (\<exists>row\<in>set (k_chunk_sets k). cs_manifest row = Some hex) \<longrightarrow>
         (\<exists>artifact\<in>set (k_artifacts k). ar_digest artifact = hex \<and> 1 \<le> ar_pins artifact))"
proof -
  have ok: "kernel_ok x U k" using kernel_run[OF law kernel_ok_empty run] by simp
  then have parts: "journal_ok x k" "cursors_ok k" "jobs_ok x k" "generations_ok k" "chunk_sets_ok U k"
      "documents_ok k"
    by (simp_all add: kernel_ok_def)
  have "\<not> job_clash row other" if "row \<in> set (k_jobs k)" "other \<in> set (k_jobs k)" "jr_id row \<noteq> jr_id other" for row other
    using parts(3) that by (simp add: jobs_ok_def job_rows_ok_def)
  then have jobs: "\<forall>row\<in>set (k_jobs k). \<forall>other\<in>set (k_jobs k). jr_id row \<noteq> jr_id other \<longrightarrow>
      \<not> (job_live row \<and> job_live other \<and> jr_key row = jr_key other)
      \<and> \<not> (job_unfinished row \<and> job_unfinished other \<and> jr_resource row \<noteq> None
           \<and> jr_resource row = jr_resource other)"
    by (metis job_clash_def)
  have "one_published (k_generations k)" using parts(4) by (simp add: generations_ok_def)
  then have published: "\<forall>a\<in>set (k_generations k). \<forall>b\<in>set (k_generations k). ge_state a = ''published'' \<longrightarrow>
      ge_state b = ''published'' \<longrightarrow> ge_collection a = ge_collection b \<longrightarrow> a = b"
    using generations_distinct[OF parts(4)] by (auto simp: one_published_iff distinct_map inj_on_def)
  have decided: "\<forall>decided\<in>set (k_dispositions k). \<exists>revision\<in>set (k_revisions k). re_id revision = qd_revision decided
      \<and> (\<forall>other\<in>set (k_dispositions k). qd_revision other = re_id revision \<longrightarrow> other = decided)"
    using decided_revisions parts(6) by (simp add: documents_ok_def)
  have revised: "\<forall>revision\<in>set (k_revisions k). \<exists>doc\<in>set (k_documents k). do_id doc = re_document revision
      \<and> (\<exists>source\<in>set (k_sources k). so_collection source = do_collection doc \<and> so_id source = do_source doc)"
    using revised_documents parts(6) by (simp add: documents_ok_def)
  let ?named = "\<lambda>hex. (\<exists>chunk\<in>set (k_chunks k). ch_digest chunk = hex)
      \<or> (\<exists>revision\<in>set (k_revisions k). re_original revision = hex \<or> re_canonical revision = hex)
      \<or> (\<exists>row\<in>set (k_chunk_sets k). cs_manifest row = Some hex)"
  have "0 < references k hex" if "?named hex" for hex
    using that by (auto simp: references_def filter_empty_conv)
  then have pinned: "\<forall>hex. hex \<notin> U \<longrightarrow> ?named hex \<longrightarrow>
      (\<exists>artifact\<in>set (k_artifacts k). ar_digest artifact = hex \<and> 1 \<le> ar_pins artifact)"
    using referenced_pin[OF parts(5)] by blast
  show ?thesis
    using parts(1,2) jobs published decided revised pinned
    by (simp add: journal_ok_def numbered_def cursors_ok_def list_all_iff stream_length_def)
qed

lemma kernel_consistent_witness:
  "k_jobs sample_taken \<noteq> [] \<and> stream_sequences (job_stream sample 0) (k_events sample_taken) = [1, 2]"
proof -
  have run: "(kernel_step sample {})\<^sup>*\<^sup>* empty_kernel sample_taken"
    using sample_steps by (meson rtranclp.rtrancl_into_rtrancl rtranclp.rtrancl_refl)
  have "length (stream_sequences (job_stream sample 0) (k_events sample_taken)) = 2" "k_jobs sample_taken \<noteq> []"
    "[1..int 2] = [1, 2]"
    unfolding sample_taken_tables by code_simp+
  then show ?thesis using kernel_consistent[OF lawful_sample run] by metis
qed

text \<open>
  C7: nothing a reader could read is ever lost or changed: after any run of the kernel, a read of a
  stream with the same position, type and scopes returns what it returned before, in the same order,
  and then only events that were recorded since.
\<close>

theorem readers_lose_nothing:
  assumes law: "lawful x" and ok: "kernel_ok x U k" and run: "(kernel_step x U)\<^sup>*\<^sup>* k k'"
  shows "\<exists>before since. events_read x scopes f k = Inr before \<and> events_read x scopes f k' = Inr (before @ since)
    \<and> (\<forall>old\<in>set before. \<forall>new\<in>set since. ev_sequence old < ev_sequence new)"
proof -
  have "kernel_ok x U k'" "journal_grows k k'" using kernel_run[OF law ok run] by (simp_all add: kernel_grows_def)
  then obtain rows where j: "journal_ok x k" "journal_ok x k'" and rows: "k_events k' = k_events k @ rows"
    using ok by (auto simp: kernel_ok_def journal_grows_def prefix_def)
  let ?read = "\<lambda>rows. map (the_event x) (filter (selects_event f scopes) rows)"
  have r: "events_read x scopes f k = Inr (?read (k_events k))"
      "events_read x scopes f k' = Inr (?read (k_events k) @ ?read rows)"
    using events_read_ok[OF j(1)] events_read_ok[OF j(2)] by (simp_all add: rows)
  have "sorted_wrt (<) (map ev_sequence (?read (k_events k) @ ?read rows))"
    by (rule events_read_strict[OF j(2) r(2)])
  with r show ?thesis by (auto simp: sorted_wrt_append)
qed

definition sample_filter :: event_filter where
  "sample_filter = \<lparr>fi_stream = job_stream sample 0, fi_after = 0, fi_type = None\<rparr>"

definition everything :: scope_set where
  "everything = ScopeSet [Scope ''workspace/default'']"

lemma readers_lose_nothing_witness:
  "\<exists>before since. events_read sample everything sample_filter sample_submitted = Inr before
     \<and> events_read sample everything sample_filter sample_taken = Inr (before @ since)
     \<and> length before = 1 \<and> length since = 1"
proof -
  have sizes: "map_sum (\<lambda>e. e) length (events_read sample everything sample_filter sample_submitted) = Inr 1"
      "map_sum (\<lambda>e. e) length (events_read sample everything sample_filter sample_taken) = Inr 2"
    unfolding sample_taken_tables by code_simp+
  obtain before since where "events_read sample everything sample_filter sample_submitted = Inr before"
      "events_read sample everything sample_filter sample_taken = Inr (before @ since)"
    using readers_lose_nothing[OF lawful_sample sample_run_ok(1),
        OF r_into_rtranclp[of "kernel_step sample {}", OF sample_steps(2)]] by blast
  with sizes show ?thesis by (intro exI[of _ before] exI[of _ since]) simp
qed

text \<open>
  C3: the fence around a job: once another process took over a lease, then whatever calls of
  whatever parts followed, the holder of the old lease writes nothing more: its heartbeats, its
  steps and its outcome are refused as lost, at any time, and change neither the database nor its
  lease.
\<close>

theorem taken_over_lease_is_dead:
  assumes law: "lawful x" and ok: "kernel_ok x U k"
    and first: "take_job x d jid holder now term k = (Inr lease, k1)" and "(kernel_step x U)\<^sup>*\<^sup>* k1 k2"
    and second: "take_job x d' jid other now' term' k2 = (Inr lease', k3)" and "(kernel_step x U)\<^sup>*\<^sup>* k3 k4"
  shows "le_number lease < le_number lease'
    \<and> heartbeat x lease at lapse k4 = (Inl (Lost jid holder (le_number lease)), lease, k4)
    \<and> progress x d'' lease at lapse data k4 = (Inl (Lost jid holder (le_number lease)), lease, k4)
    \<and> complete_job x d'' lease to outcome k4 = (Inl (Lost jid holder (le_number lease)), k4)"
proof -
  have "jobs_ok x k" using ok by (simp add: kernel_ok_def)
  note t1 = take_job_Inr[OF this law first]
  have k1: "kernel_ok x U k1" "kernel_step x U k k1"
    using kernel_run[OF law ok r_into_rtranclp] kernel_step.takes[OF first] by auto
  then have k2: "kernel_ok x U k2" "jobs_evolve k1 k2"
    using kernel_run[OF law k1(1) assms(4)] by (simp_all add: kernel_grows_def)
  then have "jobs_ok x k2" by (simp add: kernel_ok_def)
  note t2 = take_job_Inr[OF this law second]
  have k3: "kernel_ok x U k3" using kernel_run[OF law k2(1) r_into_rtranclp] kernel_step.takes[OF second] by auto
  have k4: "kernel_ok x U k4" "jobs_evolve k3 k4"
    using kernel_run[OF law k3 assms(6)] by (simp_all add: kernel_grows_def)
  obtain row1 where row1: "job_at x jid k1 = Some row1" "jr_number row1 = int (le_number lease)"
      and lease: "le_job lease = jid" "le_holder lease = holder"
    using t1 job_at_ok[OF \<open>jobs_ok x k\<close>] by (force simp: job_row_ok_def job_checks_def)
  obtain row2 where row2: "job_at x jid k2 = Some row2" "le_number lease' = nat (jr_number row2) + 1"
      and row3: "job_at x jid k3 = Some (row2\<lparr>jr_state := ''running'', jr_number := jr_number row2 + 1,
             jr_holder := Some other, jr_heartbeat := jr_heartbeat (the (job_at x jid k3)),
             jr_expires := jr_expires (the (job_at x jid k3))\<rparr>)"
    using t2 by force
  obtain new where new: "new \<in> set (k_jobs k2)" "row_evolves row1 new"
    using jobs_evolve_at[OF k2(2)] job_at_mem[OF row1(1)] by blast
  then have "job_at x jid k2 = Some new"
    using job_at_row[OF \<open>jobs_ok x k2\<close>] job_at_mem[OF row1(1)] by (auto simp: row_evolves_def)
  then have later: "int (le_number lease) \<le> jr_number row2" using row1(2) row2(1) new(2) by (auto simp: row_evolves_def)
  then have "lease_lost x lease k3"
    using job_at_mem[OF row3] lease unfolding lease_lost_def
    by (intro bexI[OF _ conjunct1[OF job_at_mem[OF row3]]]) simp
  then have "lease_lost x lease k4" by (rule lease_lost_evolves[OF k4(2)])
  moreover have "jobs_ok x k4" using k4(1) by (simp add: kernel_ok_def)
  ultimately show ?thesis
    using later row2(2) lease lost_lease_writes_nothing by auto
qed

lemma taken_over_lease_is_dead_witness:
  "complete_job sample (sample_draws 3) sample_lease Failed JNull sample_retaken
     = (Inl (Lost 0 ''ann'' 1), sample_retaken)"
  using taken_over_lease_is_dead[OF lawful_sample sample_run_ok(1)[of "{}"] sample_take rtranclp.rtrancl_refl
      sample_retake rtranclp.rtrancl_refl]
  by (simp add: sample_lease_def)

section \<open>Outcomes of jobs\<close>

lemma ended_job_final:
  assumes law: "lawful x" and ok: "kernel_ok x U k" and row: "job_at x jid k = Some row" "job_ended row"
    and run: "(kernel_step x U)\<^sup>*\<^sup>* k k'"
  shows "job_at x jid k' = Some row \<and> jobs_ok x k'"
proof -
  have k': "kernel_ok x U k'" "jobs_evolve k k'" using kernel_run[OF law ok run] by (simp_all add: kernel_grows_def)
  then have jobs: "jobs_ok x k'" by (simp add: kernel_ok_def)
  obtain new where new: "new \<in> set (k_jobs k')" "row_evolves row new"
    using jobs_evolve_at[OF k'(2)] job_at_mem[OF row(1)] by blast
  then have "new = row" using row(2) by (simp add: row_evolves_def)
  then show ?thesis using job_at_row[OF jobs] new(1) job_at_mem[OF row(1)] jobs by blast
qed

text \<open>
  C23: an outcome is final: once a job was completed by the holder of its lease, or cancelled, it is in
  the state and has the outcome it was given, without a lease. Whatever calls of whatever parts ran
  since, it reads back like that, to whoever may see its scope and nobody else, and no call takes it,
  renews a lease of it, records a step of it, completes or cancels it, whatever lease, time and holder
  are given: each is refused and changes nothing.
\<close>

theorem ended_job_stays:
  assumes law: "lawful x" and ok: "kernel_ok x U k" and plain: "plain_json READABLE_DEPTH outcome"
    and ends: "complete_job x d lease to outcome k = (Inr ended, k1) \<and> jid = le_job lease
        \<or> cancel_job x d jid outcome k = (Inr ended, k1) \<and> to = Cancelled"
    and run: "(kernel_step x U)\<^sup>*\<^sup>* k1 k2" and any: "le_job any = jid"
  shows "jo_id ended = jid \<and> jo_state ended = to \<and> to \<in> {Succeeded, Failed, Cancelled} \<and> jo_lease ended = None
      \<and> jo_outcome ended = Some outcome
    \<and> find_job x None jid k2 = Inr (Some ended)
    \<and> job_read x scopes jid k2 = Inr (if set_covers scopes (jo_scope ended) then Some ended else None)
    \<and> take_job x d' jid holder now term k2
        = (Inl (case lease_times x now term of Inl e \<Rightarrow> e | Inr _ \<Rightarrow> IllegalMove jid to Running), k2)
    \<and> heartbeat x any now term k2 = (Inl (Lost jid (le_holder any) (le_number any)), any, k2)
    \<and> progress x d' any now term data k2 = (Inl (Lost jid (le_holder any) (le_number any)), any, k2)
    \<and> complete_job x d' any to' other k2 = (Inl (Lost jid (le_holder any) (le_number any)), k2)
    \<and> cancel_job x d' jid other k2 = (Inl (IllegalMove jid to Cancelled), k2)"
proof -
  have jobs: "jobs_ok x k" using ok by (simp add: kernel_ok_def)
  have "kernel_step x U k k1" using ends kernel_step.ends kernel_step.cancels by metis
  then have ok1: "kernel_ok x U k1" using kernel_run[OF law ok r_into_rtranclp] by simp
  obtain row where row: "job_at x jid k = Some row" and e: "end_job x d (the_job x row) to outcome k = Inr (ended, k1)"
    and to: "to \<in> {Succeeded, Failed, Cancelled}"
    using ends complete_job_Inr[OF jobs] cancel_job_Inr[OF jobs] by blast
  have "ended_state to" using to by (simp add: ended_state_def)
  from ended_row[OF jobs law row e this] obtain new where new: "job_at x jid k1 = Some new" "job_ended new"
    and st: "ended = the_job x new" "jo_state ended = to" "jo_lease ended = None"
      "jo_outcome ended = json_parse x (json_text x outcome)" by blast
  from ended_job_final[OF law ok1 new run] have new2: "job_at x jid k2 = Some new" and ok2: "jobs_ok x k2" by simp_all
  have id: "jo_id ended = jid" and dec: "job_row x new = Inr ended"
    using job_at_decoded[OF ok2 new2 law] st(1) by simp_all
  have "Scope (jr_scope new) = jo_scope ended" using job_row_facts[OF dec] by (metis scope.collapse)
  then have reads: "find_job x None jid k2 = Inr (Some ended)"
      "job_read x scopes jid k2 = Inr (if set_covers scopes (jo_scope ended) then Some ended else None)"
    using find_job_ok[OF ok2] job_read_ok[OF ok2] new2 st(1) by simp_all
  have held: "held_lease x any k2 = Inl (Lost jid (le_holder any) (le_number any))"
    using new2 new(2) any by (auto simp: held_lease_ok[OF ok2] job_ended_def)
  have takes: "take_job x d' jid holder now term k2
      = (Inl (case lease_times x now term of Inl e \<Rightarrow> e | Inr _ \<Rightarrow> IllegalMove jid to Running), k2)"
    using ended_refuses(2)[OF ok2 new2 new(2)] st(1,2) known_job_ok[OF ok2] new2
    by (cases "lease_times x now term") (auto simp: take_job_def db_write_def)
  show ?thesis
    using id st(2-4) to lawful_readable[OF law plain] reads takes held ended_refuses(1,3)[OF ok2 new2 new(2)] st(1) any
    by (simp add: heartbeat_def progress_def db_write_def)
qed

lemma ended_job_stays_witness:
  "complete_job sample (sample_draws 3) sample_lease Failed JNull (snd sample_ended)
     = (Inl (Lost 0 ''ann'' 1), snd sample_ended)
   \<and> find_job sample None 0 (snd sample_ended) = Inr (Some (case fst sample_ended of Inr ended \<Rightarrow> ended))"
proof -
  have "case fst sample_ended of Inr _ \<Rightarrow> True | Inl _ \<Rightarrow> False" by code_simp
  then obtain ended where e: "sample_ended = (Inr ended, snd sample_ended)"
    by (cases "fst sample_ended") (auto simp: prod_eq_iff)
  then have c: "complete_job sample (sample_draws 2) sample_lease Succeeded JNull sample_taken
      = (Inr ended, snd sample_ended)" by (simp add: sample_ended_def)
  have "plain_json READABLE_DEPTH JNull" "le_job sample_lease = 0" "le_holder sample_lease = ''ann''"
      "le_number sample_lease = 1" by (simp_all add: sample_lease_def)
  moreover have "fst sample_ended = Inr ended" using e by (metis fst_conv)
  ultimately show ?thesis
    using ended_job_stays[OF lawful_sample sample_run_ok(2)[of "{}"] _ disjI1[OF conjI[OF c refl]] rtranclp.rtrancl_refl refl]
    by simp
qed

section \<open>Revisions and decisions\<close>

lemma entered_revision:
  assumes ok: "kernel_ok x U k" and r: "record_revision x d new k = (Inr New, k')"
  shows "new_revision_row x d new \<in> set (k_revisions k')"
proof -
  have "record_revision_in x d new k = Inr (New, k')" using r by (simp add: record_revision_def db_write_Inr)
  then have "insert_revision x d new k = Inr (New, k')"
    by (auto simp: record_revision_in_def record_again_def results split: option.splits if_splits)
  moreover have "artifacts_ok k" using ok by (simp add: kernel_ok_def chunk_sets_ok_def)
  ultimately have "k_revisions k' = k_revisions k @ [new_revision_row x d new]"
    using insert_revision_Inr[of k x d new New k'] by force
  then show ?thesis by simp
qed

text \<open>
  C9: a recorded revision is never lost, changed or replaced: whatever calls of whatever parts ran
  since, whoever may read the collection of its document reads it back field by field and nobody
  else does, recording it again with the same content writes nothing, recording other content under
  its identifier is refused as a conflict, and its original and its canonical text are kept by a pin,
  unless some caller of the run gave up a pin of that very text by \<open>Database::unpin\<close> (they are in \<open>U\<close>,
  which is empty for the program itself: only tests call it).
\<close>

theorem recorded_revision_survives:
  assumes law: "lawful x" and ok: "kernel_ok x U k" and plain: "plain_json READABLE_DEPTH (JObj (rv_metadata new))"
    and r: "record_revision x d new k = (Inr New, k1)" and run: "(kernel_step x U)\<^sup>*\<^sup>* k1 k2"
  shows "(\<exists>doc. document_of k1 (rv_id new) = Some doc \<and> do_id doc = rv_document new
        \<and> (\<forall>scopes. revision_read x scopes (rv_id new) k2 = Inr (if sees_document scopes doc then Some new else None)))
    \<and> (\<forall>d' other. rv_id other = rv_id new \<longrightarrow> record_revision x d' other k2 =
          (if new\<lparr>rv_status := rv_status other\<rparr> = other then Inr Unchanged else Inl (RevisionConflict (rv_id new)), k2))
    \<and> (\<forall>content\<in>{rv_original new, rv_canonical new}. digest_str content \<notin> U \<longrightarrow>
          (\<exists>artifact\<in>set (k_artifacts k2). ar_digest artifact = digest_str content \<and> 1 \<le> ar_pins artifact))"
proof -
  let ?row = "new_revision_row x d new"
  note mem1 = entered_revision[OF ok r]
  have k1: "kernel_ok x U k1" using kernel_run[OF law ok r_into_rtranclp] kernel_step.revises[OF r] by auto
  then have k2: "documents_grow k1 k2" "revisions_ok k2" "chunk_sets_ok U k2" and ok1: "revisions_ok k1"
    using kernel_run[OF law k1 run] by (simp_all add: kernel_ok_def kernel_grows_def documents_ok_def)
  have mem2: "?row \<in> set (k_revisions k2)" using mem1 documents_growD(2)[OF k2(1)] set_mono_prefix by blast
  have id: "re_id ?row = rv_id new" "re_document ?row = rv_document new"
    and digests: "re_original ?row = digest_str (rv_original new)" "re_canonical ?row = digest_str (rv_canonical new)"
    by (simp_all add: new_revision_row_def)
  obtain doc where doc: "document_of k1 (rv_id new) = Some doc" "do_id doc = rv_document new"
    using joins_ok[OF ok1 mem1] document_of_joined[OF ok1 mem1] id by auto
  have doc2: "document_of k2 (rv_id new) = Some doc" using document_of_grows[OF k2(1)] doc(1) by simp
  note reads = new_revision_reads[OF law plain k2(2) mem2]
  have "0 < references k2 (digest_str content)" if "content \<in> {rv_original new, rv_canonical new}" for content
    using that mem2 digests by (auto simp: references_def filter_empty_conv)
  then have "\<forall>content\<in>{rv_original new, rv_canonical new}. digest_str content \<notin> U \<longrightarrow>
      (\<exists>artifact\<in>set (k_artifacts k2). ar_digest artifact = digest_str content \<and> 1 \<le> ar_pins artifact)"
    using referenced_pin[OF k2(3)] by blast
  moreover have "\<forall>d' other. rv_id other = rv_id new \<longrightarrow> record_revision x d' other k2 =
      (if new\<lparr>rv_status := rv_status other\<rparr> = other then Inr Unchanged else Inl (RevisionConflict (rv_id new)), k2)"
    using record_revision_again reads(3) by metis
  ultimately show ?thesis using doc doc2 reads(4) by auto
qed

definition sample_revised :: kernel where
  "sample_revised = snd (record_revision sample (sample_draws 0) sample_revision sample_shelf)"

lemma sample_revises: "record_revision sample (sample_draws 0) sample_revision sample_shelf = (Inr New, sample_revised)"
  by code_simp

lemma recorded_revision_survives_witness:
  "\<forall>listed. record_revision sample (sample_draws 1) (sample_revision\<lparr>rv_document := ''doc2''\<rparr>)
       (snd (delete_rows listed sample_revised))
     = (Inl (RevisionConflict ''rev2''), snd (delete_rows listed sample_revised))"
proof
  fix listed
  have "(kernel_step sample {})\<^sup>*\<^sup>* sample_revised (snd (delete_rows listed sample_revised))"
    by (rule r_into_rtranclp) (rule kernel_step.collects[OF prod.collapse[symmetric]])
  moreover have "plain_json READABLE_DEPTH (JObj (rv_metadata sample_revision))" by code_simp
  ultimately show "record_revision sample (sample_draws 1) (sample_revision\<lparr>rv_document := ''doc2''\<rparr>)
       (snd (delete_rows listed sample_revised))
     = (Inl (RevisionConflict ''rev2''), snd (delete_rows listed sample_revised))"
    using recorded_revision_survives[OF lawful_sample kernel_ok_shelf _ sample_revises]
    by (simp add: sample_revision_def)
qed

text \<open>
  C10: what was decided of a revision stays decided: once a decision entered, then whatever calls of
  whatever parts ran since, whoever may read the revision's collection reads that decision and nobody
  else reads one, and recording a decision of the revision again, the same or another, writes nothing
  and says so.
\<close>

theorem decision_survives:
  assumes law: "lawful x" and ok: "kernel_ok x U k"
    and r: "record_disposition x d decided k = (Inr New, k1)" and run: "(kernel_step x U)\<^sup>*\<^sup>* k1 k2"
  shows "(\<exists>doc. document_of k1 (ds_revision decided) = Some doc
        \<and> (\<forall>scopes. disposition_read x scopes (ds_revision decided) k2
              = Inr (if sees_document scopes doc then Some decided else None)))
    \<and> (\<forall>d' other. ds_revision other = ds_revision decided \<longrightarrow> record_disposition x d' other k2 = (Inr Unchanged, k2))"
proof -
  let ?row = "new_disposition_row x d decided"
  have id: "qd_revision ?row = ds_revision decided" by (simp add: new_disposition_row_def)
  have k1: "kernel_ok x U k1" using kernel_run[OF law ok r_into_rtranclp] kernel_step.decides[OF r] by auto
  then have k2: "documents_grow k1 k2" "decisions_ok k2" and ok1: "revisions_ok k1" "decisions_ok k1"
    using kernel_run[OF law k1 run] by (simp_all add: kernel_ok_def kernel_grows_def documents_ok_def)
  have "record_disposition_in x d decided k = Inr (New, k1)" using r by (simp add: record_disposition_def db_write_Inr)
  from record_disposition_in_tables[OF this] have "decision_entered x d decided k k1" by simp
  then have mem1: "?row \<in> set (k_dispositions k1)" by (simp add: decision_entered_def)
  then have mem2: "?row \<in> set (k_dispositions k2)" using documents_growD(3)[OF k2(1)] set_mono_prefix by blast
  have "ds_revision decided \<in> re_id ` set (k_revisions k1)" using ok1(2) mem1 id unfolding decisions_ok_def by force
  then obtain row where "row \<in> set (k_revisions k1)" "re_id row = ds_revision decided" by auto
  then obtain doc where doc: "document_of k1 (ds_revision decided) = Some doc"
    using joins_ok[OF ok1(1)] document_of_joined[OF ok1(1)] by metis
  then have "document_of k2 (ds_revision decided) = Some doc" using document_of_grows[OF k2(1)] by simp
  then show ?thesis
    using doc new_disposition_reads[OF law k2(2) mem2] record_disposition_again[OF mem2 _ law] id by auto
qed

definition sample_held :: kernel where
  "sample_held = snd (record_disposition sample (sample_draws 1) sample_decision sample_revised)"

lemma sample_holds: "record_disposition sample (sample_draws 1) sample_decision sample_revised = (Inr New, sample_held)"
  by code_simp

lemma decision_survives_witness:
  "record_disposition sample (sample_draws 2) (sample_decision\<lparr>ds_outcome := Accepted\<rparr>) sample_held = (Inr Unchanged, sample_held)
     \<and> (\<exists>doc. document_of sample_held ''rev2'' = Some doc
         \<and> disposition_read sample (ScopeSet []) ''rev2'' sample_held = Inr (if sees_document (ScopeSet []) doc then Some sample_decision else None))"
proof -
  have "kernel_ok sample {} sample_revised"
    using kernel_run[OF lawful_sample kernel_ok_shelf r_into_rtranclp] kernel_step.revises[OF sample_revises] by auto
  note d = decision_survives[OF lawful_sample this sample_holds rtranclp.rtrancl_refl]
  have id: "ds_revision sample_decision = ''rev2''" "ds_revision (sample_decision\<lparr>ds_outcome := Accepted\<rparr>) = ''rev2''"
    by (simp_all add: sample_decision_def)
  obtain doc where "document_of sample_held ''rev2'' = Some doc"
      "\<forall>scopes. disposition_read sample scopes ''rev2'' sample_held = Inr (if sees_document scopes doc then Some sample_decision else None)"
    using conjunct1[OF d] unfolding id by blast
  moreover have "record_disposition sample (sample_draws 2) (sample_decision\<lparr>ds_outcome := Accepted\<rparr>) sample_held = (Inr Unchanged, sample_held)"
    using conjunct2[OF d] unfolding id(1) using id(2) by blast
  ultimately show ?thesis by blast
qed

text \<open>
  C8: a chunk set once complete or failed is final: whatever calls of whatever parts ran since, its
  record and its chunks are what they were, no call completes, fails or fills it, and the content of
  its chunks and its manifest are recorded, with a pin that keeps them from being collected, unless
  some caller gave up a pin of that very content by \<open>Database::unpin\<close> (it is in \<open>U\<close>, which is empty for
  the program itself: only tests call it).
\<close>

theorem ended_set_survives:
  assumes law: "lawful x" and ok: "kernel_ok x U k" and run: "(kernel_step x U)\<^sup>*\<^sup>* k k'"
    and row: "row \<in> set (k_chunk_sets k)" "cs_state row \<noteq> ''building''"
  shows "row \<in> set (k_chunk_sets k')
    \<and> filter (\<lambda>chunk. ch_set chunk = cs_id row) (k_chunks k') = filter (\<lambda>chunk. ch_set chunk = cs_id row) (k_chunks k)
    \<and> record_chunks (cs_id row) revision chunks k' = (Inl (NotBuilding (cs_id row) (the_set_state row)), k')
    \<and> complete_chunk_set (cs_id row) manifest k' = (Inl (ChunkSetIllegalMove (cs_id row) (the_set_state row) SetComplete), k')
    \<and> fail_chunk_set (cs_id row) k' = (Inl (ChunkSetIllegalMove (cs_id row) (the_set_state row) SetFailed), k')
    \<and> (\<forall>hex. hex \<notin> U \<longrightarrow> (\<exists>chunk\<in>set (k_chunks k'). ch_set chunk = cs_id row \<and> ch_digest chunk = hex) \<or> cs_manifest row = Some hex
         \<longrightarrow> (\<exists>artifact\<in>set (k_artifacts k'). ar_digest artifact = hex \<and> 1 \<le> ar_pins artifact))"
proof -
  have k': "chunk_sets_ok U k" "chunk_sets_ok U k'" "chunk_sets_evolve k k'"
    using ok kernel_run[OF law ok run] by (simp_all add: kernel_ok_def kernel_grows_def)
  moreover from this have "set_of (cs_id row) k = Some row"
    using find_unique[of cs_id "k_chunk_sets k" row] row(1) by (simp add: chunk_sets_ok_def sets_ok_def set_of_def)
  ultimately show ?thesis
    using ended_set_frozen[of U k k' "cs_id row" row revision chunks manifest] row(2) set_of_mem by blast
qed

lemma sample_complete_ok: "kernel_ok sample U sample_complete"
  using kernel_run[OF lawful_sample kernel_ok_shelf] kernel_step.begins[OF sample_begins]
    kernel_step.fills[OF sample_fills] kernel_step.completes[OF sample_completes]
  by (meson rtranclp.rtrancl_into_rtrancl rtranclp.rtrancl_refl)

lemma ended_set_survives_witness:
  "\<forall>listed. record_chunks ''set'' ''rev'' [sample_chunk] (snd (delete_rows listed sample_complete))
     = (Inl (NotBuilding ''set'' SetComplete), snd (delete_rows listed sample_complete))"
proof
  fix listed
  let ?row = "completed (Digest sample_hex) (begun sample_new_set)"
  have row: "?row \<in> set (k_chunk_sets sample_complete)" "cs_state ?row \<noteq> ''building''" "cs_id ?row = ''set''"
      "the_set_state ?row = SetComplete" by code_simp+
  have "(kernel_step sample {})\<^sup>*\<^sup>* sample_complete (snd (delete_rows listed sample_complete))"
    by (rule r_into_rtranclp) (rule kernel_step.collects[OF prod.collapse[symmetric]])
  from ended_set_survives[OF lawful_sample sample_complete_ok this row(1,2)] row(3,4)
  show "record_chunks ''set'' ''rev'' [sample_chunk] (snd (delete_rows listed sample_complete))
     = (Inl (NotBuilding ''set'' SetComplete), snd (delete_rows listed sample_complete))" by simp
qed

end
